(* ===== verification/Era_Prelude.thy ===== *)
theory Era_Prelude
  imports Complex_Main "HOL-Library.Char_ord" "HOL-Library.List_Lexorder"
begin

text \<open>
  Prelude of the ERA AI development: the result type that stands for a raised exception, the
  string operations of Python that the sources use, the JSON values that action parameters
  and results are made of, and the lemmas on lists, maps and strings that the components share.

  A Python \<open>str\<close> is the list of its code points; the type \<open>char\<close> holds the code points
  0 to 255, so strings are restricted to that range (Latin-1).  A Python \<open>float\<close> is a rational
  or one of the three non-finite values; rounding is not modelled.
\<close>

section \<open>Results\<close>

type_synonym ('e, 'a) result = "'e + 'a"

named_theorems era_split \<open>case splits on errors, options and conditionals\<close>
lemmas [era_split] = sum.splits option.splits if_splits list.splits prod.splits

named_theorems era_defs \<open>definitions of the small predicates that proofs unfold\<close>

definition is_ok :: "('e, 'a) result \<Rightarrow> bool" where
  "is_ok r = (case r of Inl _ \<Rightarrow> False | Inr _ \<Rightarrow> True)"

lemma is_ok_simps [simp]:
  "is_ok (Inr x) = True" "is_ok (Inl e) = False"
  by (simp_all add: is_ok_def)

lemma is_okE:
  assumes "is_ok r"
  obtains x where "r = Inr x"
  using assms by (cases r) auto

text \<open>Run a check on every element, in order, and stop at the first error, as a \<open>for\<close>
  loop whose body may raise does.\<close>

fun check_all :: "('a \<Rightarrow> ('e, unit) result) \<Rightarrow> 'a list \<Rightarrow> ('e, unit) result" where
  "check_all f [] = Inr ()"
| "check_all f (x # xs) = (case f x of Inl e \<Rightarrow> Inl e | Inr _ \<Rightarrow> check_all f xs)"

lemma check_all_ok_iff: "check_all f xs = Inr u \<longleftrightarrow> (\<forall>x \<in> set xs. f x = Inr ())"
  by (induction xs) (auto split: sum.splits)

lemma check_all_err: "check_all f xs = Inl e \<Longrightarrow> \<exists>x \<in> set xs. f x = Inl e"
  by (induction xs) (auto split: sum.splits)

lemma check_all_cong [fundef_cong]:
  assumes "xs = ys" and "\<And>x. x \<in> set ys \<Longrightarrow> f x = g x"
  shows "check_all f xs = check_all g ys"
  using assms(2) unfolding assms(1) by (induction ys) (auto split: sum.splits)

text \<open>A list comprehension whose element expression may raise.\<close>

fun try_map :: "('a \<Rightarrow> ('e, 'b) result) \<Rightarrow> 'a list \<Rightarrow> ('e, 'b list) result" where
  "try_map f [] = Inr []"
| "try_map f (x # xs) = (case f x of Inl e \<Rightarrow> Inl e | Inr y \<Rightarrow> map_sum id (Cons y) (try_map f xs))"

lemma try_map_Inr_iff: "try_map f xs = Inr ys \<longleftrightarrow> list_all2 (\<lambda>x y. f x = Inr y) xs ys"
proof (induction xs arbitrary: ys)
  case (Cons x xs)
  show ?case
    using Cons by (cases ys; cases "f x"; cases "try_map f xs") auto
qed (auto simp: eq_commute)

lemma try_map_length: "try_map f xs = Inr ys \<Longrightarrow> length ys = length xs"
  by (simp add: try_map_Inr_iff list_all2_lengthD)

lemma try_map_cong [fundef_cong]:
  assumes "xs = ys" and "\<And>x. x \<in> set ys \<Longrightarrow> f x = g x"
  shows "try_map f xs = try_map g ys"
  using assms(2) unfolding assms(1) by (induction ys) (auto split: sum.splits)

section \<open>Python strings\<close>

definition code :: "char \<Rightarrow> nat" where
  "code c = of_char c"

definition is_space :: "char \<Rightarrow> bool" where
  "is_space c = (code c \<in> {9, 10, 11, 12, 13, 28, 29, 30, 31, 32, 133, 160})"

definition is_digit :: "char \<Rightarrow> bool" where
  "is_digit c = (48 \<le> code c \<and> code c \<le> 57)"

definition is_alpha :: "char \<Rightarrow> bool" where
  "is_alpha c = ((65 \<le> code c \<and> code c \<le> 90) \<or> (97 \<le> code c \<and> code c \<le> 122))"

text \<open>The class \<open>\w\<close> of Python's regular expressions, on Latin-1.\<close>

definition is_word :: "char \<Rightarrow> bool" where
  "is_word c = (is_alpha c \<or> is_digit c \<or> code c = 95
     \<or> code c \<in> {170, 178, 179, 181, 185, 186, 188, 189, 190}
     \<or> (192 \<le> code c \<and> code c \<noteq> 215 \<and> code c \<noteq> 247))"

definition lower_char :: "char \<Rightarrow> char" where
  "lower_char c = (if (65 \<le> code c \<and> code c \<le> 90)
        \<or> (192 \<le> code c \<and> code c \<le> 222 \<and> code c \<noteq> 215)
      then char_of (code c + 32) else c)"

definition upper_char :: "char \<Rightarrow> char" where
  "upper_char c = (if (97 \<le> code c \<and> code c \<le> 122)
        \<or> (224 \<le> code c \<and> code c \<le> 254 \<and> code c \<noteq> 247)
      then char_of (code c - 32) else c)"

abbreviation lower :: "string \<Rightarrow> string" where
  "lower s \<equiv> map lower_char s"

abbreviation upper :: "string \<Rightarrow> string" where
  "upper s \<equiv> map upper_char s"

definition lstrip :: "string \<Rightarrow> string" where
  "lstrip s = dropWhile is_space s"

definition rstrip :: "string \<Rightarrow> string" where
  "rstrip s = rev (dropWhile is_space (rev s))"

definition strip :: "string \<Rightarrow> string" where
  "strip s = rstrip (lstrip s)"

text \<open>\<open>needle in hay\<close>, \<open>s.startswith(p)\<close>.\<close>

definition starts_with :: "string \<Rightarrow> string \<Rightarrow> bool" where
  "starts_with p s = (take (length p) s = p)"

fun contains :: "string \<Rightarrow> string \<Rightarrow> bool" where
  "contains n [] = (n = [])"
| "contains n (c # cs) = (starts_with n (c # cs) \<or> contains n cs)"

lemma starts_with_iff: "starts_with p s \<longleftrightarrow> (\<exists>t. s = p @ t)"
  by (auto simp: starts_with_def) (metis append_take_drop_id)

lemma contains_iff: "contains n h \<longleftrightarrow> (\<exists>a b. h = a @ n @ b)"
proof (induction h)
  case Nil
  then show ?case by simp
next
  case (Cons c cs)
  show ?case
  proof
    assume "contains n (c # cs)"
    then consider t where "c # cs = n @ t" | a b where "cs = a @ n @ b"
      using Cons.IH by (auto simp: starts_with_iff)
    then show "\<exists>a b. c # cs = a @ n @ b"
    proof cases
      case (1 t)
      then have "c # cs = [] @ n @ t" by simp
      then show ?thesis by blast
    next
      case (2 a b)
      then have "c # cs = (c # a) @ n @ b" by simp
      then show ?thesis by blast
    qed
  next
    assume "\<exists>a b. c # cs = a @ n @ b"
    then obtain a b where ab: "c # cs = a @ n @ b" by blast
    show "contains n (c # cs)"
    proof (cases a)
      case Nil
      with ab have "starts_with n (c # cs)" by (auto simp: starts_with_iff)
      then show ?thesis by simp
    next
      case (Cons d ds)
      with ab have "cs = ds @ n @ b" by simp
      then show ?thesis using Cons.IH by auto
    qed
  qed
qed

text \<open>\<open>s.split(sep)\<close> for a one-character separator, and \<open>s.partition(sep)\<close>.\<close>

fun split_on :: "char \<Rightarrow> string \<Rightarrow> string list" where
  "split_on d [] = [[]]"
| "split_on d (c # cs) =
     (if c = d then [] # split_on d cs
      else (case split_on d cs of [] \<Rightarrow> [[c]] | w # ws \<Rightarrow> (c # w) # ws))"

definition partition_on :: "char \<Rightarrow> string \<Rightarrow> string \<times> bool \<times> string" where
  "partition_on d s =
     (let pre = takeWhile (\<lambda>c. c \<noteq> d) s; rest = dropWhile (\<lambda>c. c \<noteq> d) s
      in (case rest of [] \<Rightarrow> (pre, False, []) | _ # post \<Rightarrow> (pre, True, post)))"

text \<open>\<open>s.split()\<close> without an argument: maximal runs of non-blank characters.\<close>

fun split_ws_aux :: "string \<Rightarrow> string \<Rightarrow> string list" where
  "split_ws_aux acc [] = (if acc = [] then [] else [rev acc])"
| "split_ws_aux acc (c # cs) =
     (if is_space c then (if acc = [] then split_ws_aux [] cs else rev acc # split_ws_aux [] cs)
      else split_ws_aux (c # acc) cs)"

definition split_ws :: "string \<Rightarrow> string list" where
  "split_ws s = split_ws_aux [] s"

text \<open>\<open>int(s)\<close>: surrounding blanks, an optional sign, decimal digits with single
  underscores between them; \<open>None\<close> is \<open>ValueError\<close>.\<close>

fun digits_val :: "int \<Rightarrow> bool \<Rightarrow> string \<Rightarrow> int option" where
  "digits_val acc prev_digit [] = (if prev_digit then Some acc else None)"
| "digits_val acc prev_digit (c # cs) =
     (if is_digit c then digits_val (10 * acc + int (code c - 48)) True cs
      else if code c = 95 \<and> prev_digit then digits_val acc False cs
      else None)"

definition py_int :: "string \<Rightarrow> int option" where
  "py_int s = (case strip s of
       [] \<Rightarrow> None
     | c # cs \<Rightarrow> if code c = 45 then map_option uminus (digits_val 0 False cs)
               else if code c = 43 then digits_val 0 False cs
               else digits_val 0 False (c # cs))"

lemma py_int_examples:
  "py_int ''15'' = Some 15" "py_int '' 7 '' = Some 7" "py_int ''-3'' = Some (-3)"
  "py_int ''1_0'' = Some 10" "py_int '''' = None" "py_int ''1__0'' = None" "py_int ''x'' = None"
  by code_simp+

text \<open>Decimal rendering of an integer, \<open>str(n)\<close>.\<close>

fun show_nat :: "nat \<Rightarrow> string" where
  "show_nat n = (if n < 10 then [char_of (48 + n)] else show_nat (n div 10) @ [char_of (48 + n mod 10)])"

declare show_nat.simps [simp del]

definition show_int :: "int \<Rightarrow> string" where
  "show_int i = (if i < 0 then CHR ''-'' # show_nat (nat (- i)) else show_nat (nat i))"

lemma show_nat_nonempty [simp]: "show_nat n \<noteq> []"
  by (subst show_nat.simps) simp

section \<open>JSON values\<close>

datatype pyfloat = Fin rat | PosInf | NegInf | NaN

datatype json =
    JNull
  | JBool bool
  | JInt int
  | JFloat pyfloat
  | JStr string
  | JList "json list"
  | JObj "(string \<times> json) list"

type_synonym params = "(string \<times> json) list"

text \<open>\<open>params.get(k)\<close> gives \<open>None\<close> both for a missing key and for a key bound to
  \<open>None\<close>.\<close>

definition get_param :: "params \<Rightarrow> string \<Rightarrow> json" where
  "get_param ps k = (case map_of ps k of None \<Rightarrow> JNull | Some v \<Rightarrow> v)"

definition has_key :: "params \<Rightarrow> string \<Rightarrow> bool" where
  "has_key ps k = (map_of ps k \<noteq> None)"

lemma has_key_iff [simp]: "has_key ps k \<longleftrightarrow> k \<in> fst ` set ps"
  by (simp add: has_key_def map_of_eq_None_iff)

text \<open>A Python \<open>dict\<close> has each key once, at every level.\<close>

fun wf_json :: "json \<Rightarrow> bool" where
  "wf_json (JList xs) = list_all wf_json xs"
| "wf_json (JObj kvs) = (distinct (map fst kvs) \<and> list_all wf_json (map snd kvs))"
| "wf_json _ = True"

text \<open>Python's \<open>==\<close>: numbers compare by value across \<open>bool\<close>, \<open>int\<close> and \<open>float\<close>,
  \<open>nan\<close> differs from itself, dictionaries ignore the order of their keys.\<close>

fun num_val :: "json \<Rightarrow> pyfloat option" where
  "num_val (JBool b) = Some (Fin (if b then 1 else 0))"
| "num_val (JInt i) = Some (Fin (of_int i))"
| "num_val (JFloat f) = Some f"
| "num_val _ = None"

fun py_eq :: "json \<Rightarrow> json \<Rightarrow> bool"
  and py_eq_list :: "json list \<Rightarrow> json list \<Rightarrow> bool"
  and py_eq_obj :: "(string \<times> json) list \<Rightarrow> (string \<times> json) list \<Rightarrow> bool" where
  "py_eq (JStr s) w = (case w of JStr t \<Rightarrow> s = t | _ \<Rightarrow> False)"
| "py_eq JNull w = (w = JNull)"
| "py_eq (JList xs) w = (case w of JList ys \<Rightarrow> py_eq_list xs ys | _ \<Rightarrow> False)"
| "py_eq (JObj kvs) w = (case w of JObj kws \<Rightarrow> length kvs = length kws \<and> py_eq_obj kvs kws
                                 | _ \<Rightarrow> False)"
| "py_eq v w = (case (num_val v, num_val w) of
                  (Some a, Some b) \<Rightarrow> a \<noteq> NaN \<and> a = b | _ \<Rightarrow> False)"
| "py_eq_list [] ys = (ys = [])"
| "py_eq_list (x # xs) ys = (case ys of [] \<Rightarrow> False | y # ys' \<Rightarrow> py_eq x y \<and> py_eq_list xs ys')"
| "py_eq_obj [] kws = True"
| "py_eq_obj ((k, v) # kvs) kws =
     (case map_of kws k of None \<Rightarrow> False | Some w \<Rightarrow> py_eq v w \<and> py_eq_obj kvs kws)"

lemma py_eq_examples:
  "py_eq (JBool True) (JInt 1)" "\<not> py_eq (JFloat NaN) (JFloat NaN)"
  "py_eq (JObj [(''a'', JInt 1), (''b'', JNull)]) (JObj [(''b'', JNull), (''a'', JBool True)])"
  "\<not> py_eq (JStr ''1'') (JInt 1)"
  by simp_all

section \<open>Lemmas on lists and maps\<close>

lemma last_append_single: "last (xs @ [x]) = x"
  by simp

lemma distinct_map_of_SomeI:
  "distinct (map fst kvs) \<Longrightarrow> (k, v) \<in> set kvs \<Longrightarrow> map_of kvs k = Some v"
  by simp

lemma map_of_map_snd:
  "map_of (map (\<lambda>(k, v). (k, f k v)) kvs) k = map_option (f k) (map_of kvs k)"
  by (induction kvs) auto

lemma distinct_card_le:
  assumes "distinct xs" and "set xs \<subseteq> S" and "finite S"
  shows "length xs \<le> card S"
  using assms by (metis card_mono distinct_card)

end
