(* ===== verification/Core_Types.thy ===== *)
theory Core_Types
  imports Era_Prelude
begin

text \<open>
  The shared vocabulary of \<^verbatim>\<open>era/core\<close>: risk tiers, decisions and audit outcomes
  (\<^verbatim>\<open>enums.py\<close>), provider error codes, tool errors and action results (\<^verbatim>\<open>result.py\<close>),
  actions (\<^verbatim>\<open>action.py\<close>) and execution contexts (\<^verbatim>\<open>context.py\<close>).  Every \<open>StrEnum\<close> is a
  datatype with its string values; the lookup by value (\<open>Enum(value)\<close>) is the partial inverse.
\<close>

section \<open>Enumerations\<close>

datatype risk_level =
  SAFE | SENSITIVE | COMMUNICATION | MUTATING | FINANCIAL | BOOKING | DESTRUCTIVE | FORBIDDEN

datatype decision = ALLOW | CONFIRM | CONFIRM_STRONG | DENY

datatype outcome =
  O_AUTHORIZED | O_PENDING | O_EXECUTED | O_FAILED | O_REJECTED
  | O_DENIED_BY_POLICY | O_DENIED_BY_USER | O_EXPIRED

datatype error_code =
  E_VALIDATION | E_AUTH | E_FORBIDDEN | E_NOT_FOUND | E_CONFLICT | E_TIMEOUT
  | E_SIDE_EFFECT_UNKNOWN | E_UNAVAILABLE | E_NOT_IMPLEMENTED | E_PROVIDER_ERROR
  | E_INTERNAL | E_UNKNOWN

definition all_risk_levels :: "risk_level list" where
  "all_risk_levels =
     [SAFE, SENSITIVE, COMMUNICATION, MUTATING, FINANCIAL, BOOKING, DESTRUCTIVE, FORBIDDEN]"

definition all_error_codes :: "error_code list" where
  "all_error_codes =
     [E_VALIDATION, E_AUTH, E_FORBIDDEN, E_NOT_FOUND, E_CONFLICT, E_TIMEOUT,
      E_SIDE_EFFECT_UNKNOWN, E_UNAVAILABLE, E_NOT_IMPLEMENTED, E_PROVIDER_ERROR,
      E_INTERNAL, E_UNKNOWN]"

fun risk_value :: "risk_level \<Rightarrow> string" where
  "risk_value SAFE = ''SAFE''"
| "risk_value SENSITIVE = ''SENSITIVE''"
| "risk_value COMMUNICATION = ''COMMUNICATION''"
| "risk_value MUTATING = ''MUTATING''"
| "risk_value FINANCIAL = ''FINANCIAL''"
| "risk_value BOOKING = ''BOOKING''"
| "risk_value DESTRUCTIVE = ''DESTRUCTIVE''"
| "risk_value FORBIDDEN = ''FORBIDDEN''"

fun decision_value :: "decision \<Rightarrow> string" where
  "decision_value ALLOW = ''ALLOW''"
| "decision_value CONFIRM = ''CONFIRM''"
| "decision_value CONFIRM_STRONG = ''CONFIRM_STRONG''"
| "decision_value DENY = ''DENY''"

fun outcome_value :: "outcome \<Rightarrow> string" where
  "outcome_value O_AUTHORIZED = ''AUTHORIZED''"
| "outcome_value O_PENDING = ''PENDING''"
| "outcome_value O_EXECUTED = ''EXECUTED''"
| "outcome_value O_FAILED = ''FAILED''"
| "outcome_value O_REJECTED = ''REJECTED''"
| "outcome_value O_DENIED_BY_POLICY = ''DENIED_BY_POLICY''"
| "outcome_value O_DENIED_BY_USER = ''DENIED_BY_USER''"
| "outcome_value O_EXPIRED = ''EXPIRED''"

fun error_value :: "error_code \<Rightarrow> string" where
  "error_value E_VALIDATION = ''VALIDATION''"
| "error_value E_AUTH = ''AUTH''"
| "error_value E_FORBIDDEN = ''FORBIDDEN''"
| "error_value E_NOT_FOUND = ''NOT_FOUND''"
| "error_value E_CONFLICT = ''CONFLICT''"
| "error_value E_TIMEOUT = ''TIMEOUT''"
| "error_value E_SIDE_EFFECT_UNKNOWN = ''SIDE_EFFECT_UNKNOWN''"
| "error_value E_UNAVAILABLE = ''UNAVAILABLE''"
| "error_value E_NOT_IMPLEMENTED = ''NOT_IMPLEMENTED''"
| "error_value E_PROVIDER_ERROR = ''PROVIDER_ERROR''"
| "error_value E_INTERNAL = ''INTERNAL''"
| "error_value E_UNKNOWN = ''UNKNOWN''"

text \<open>\<open>ProviderErrorCode(s)\<close>: \<open>None\<close> stands for \<open>ValueError\<close>.\<close>

definition error_code_of :: "string \<Rightarrow> error_code option" where
  "error_code_of s = find (\<lambda>c. error_value c = s) all_error_codes"

lemma in_all_error_codes [simp]: "c \<in> set all_error_codes"
  by (cases c) (simp_all add: all_error_codes_def)

lemma in_all_risk_levels [simp]: "r \<in> set all_risk_levels"
  by (cases r) (simp_all add: all_risk_levels_def)

lemma error_value_inject [simp]: "error_value a = error_value b \<longleftrightarrow> a = b"
  by (cases a; cases b) simp_all

lemma risk_value_inject [simp]: "risk_value a = risk_value b \<longleftrightarrow> a = b"
  by (cases a; cases b) simp_all

lemma decision_value_inject [simp]: "decision_value a = decision_value b \<longleftrightarrow> a = b"
  by (cases a; cases b) simp_all

lemma error_code_of_value [simp]: "error_code_of (error_value c) = Some c"
  by (cases c) (simp_all add: error_code_of_def all_error_codes_def)

lemma error_code_of_Some: "error_code_of s = Some c \<Longrightarrow> s = error_value c"
  by (auto simp: error_code_of_def find_Some_iff)

section \<open>Tool errors\<close>

text \<open>\<open>ToolError(message, provider_id=..., code=...)\<close> accepts an error code or a string.\<close>

datatype code_arg = Code error_code | CodeStr string

record tool_error =
  te_message :: string
  te_provider :: "string option"
  te_code :: error_code

fun coerce_code :: "code_arg \<Rightarrow> error_code" where
  "coerce_code (Code c) = c"
| "coerce_code (CodeStr s) = (case error_code_of s of Some c \<Rightarrow> c | None \<Rightarrow> E_UNKNOWN)"

definition mk_tool_error :: "string \<Rightarrow> string option \<Rightarrow> code_arg \<Rightarrow> tool_error" where
  "mk_tool_error msg pid c = \<lparr>te_message = msg, te_provider = pid, te_code = coerce_code c\<rparr>"

lemma te_code_mk [simp]: "te_code (mk_tool_error m p c) = coerce_code c"
  by (simp add: mk_tool_error_def)

text \<open>What a call may raise: a \<open>ToolError\<close>, or any other exception, of which the code only
  reads the class name.\<close>

datatype py_exc = ToolErr tool_error | OtherExc string

section \<open>Actions, results, contexts\<close>

record action =
  action_type :: string
  a_params :: params

record action_result =
  ar_success :: bool
  ar_summary :: string
  ar_data :: params

record exec_ctx =
  actor_id :: string
  session_id :: "string option"
  execution_scope :: "string option"
  cred_refs :: "(string \<times> string) list"
  deadline :: "rat option"

end
