(* ===== verification/Retry.thy ===== *)
theory Retry
  imports Core_Types
begin

text \<open>
  The retry policy and loop of \<^verbatim>\<open>era/core/retry.py\<close>.  The callable, the clock and the sleep
  function are arguments, as in the source, over an arbitrary state \<open>'s\<close> that they thread.
  The numbers that the source formats into the text of its timeout messages are left out.
\<close>

definition DEFAULT_RETRYABLE_CODES :: "error_code set" where
  "DEFAULT_RETRYABLE_CODES = {E_UNAVAILABLE, E_PROVIDER_ERROR}"

definition MAX_ATTEMPTS_BOUND :: int where
  "MAX_ATTEMPTS_BOUND = 10"

definition NEVER_RETRY_CODES :: "error_code set" where
  "NEVER_RETRY_CODES = {E_VALIDATION, E_AUTH, E_FORBIDDEN, E_NOT_FOUND, E_CONFLICT, E_TIMEOUT,
     E_SIDE_EFFECT_UNKNOWN, E_NOT_IMPLEMENTED, E_INTERNAL, E_UNKNOWN}"

record retry_policy =
  max_attempts :: int
  base_backoff_seconds :: rat
  max_backoff_seconds :: rat
  backoff_factor :: rat
  retryable_codes :: "error_code set"

definition default_retry_policy :: retry_policy where
  "default_retry_policy = \<lparr>max_attempts = 3, base_backoff_seconds = 1 / 10,
     max_backoff_seconds = 2, backoff_factor = 2, retryable_codes = DEFAULT_RETRYABLE_CODES\<rparr>"

text \<open>\<open>__post_init__\<close>: the checks, in order; the error is the message of the \<open>ValueError\<close>.\<close>

definition retry_policy_check :: "retry_policy \<Rightarrow> (string, retry_policy) result" where
  "retry_policy_check p =
     (if max_attempts p < 1 then Inl ''max_attempts must be >= 1''
      else if max_attempts p > MAX_ATTEMPTS_BOUND then Inl ''max_attempts must be <= 10''
      else if base_backoff_seconds p < 0 then Inl ''base_backoff_seconds must be >= 0''
      else if max_backoff_seconds p < 0 then Inl ''max_backoff_seconds must be >= 0''
      else if backoff_factor p < 1 then Inl ''backoff_factor must be >= 1.0''
      else Inr p)"

definition policy_ok :: "retry_policy \<Rightarrow> bool" where
  "policy_ok p = (retry_policy_check p = Inr p)"

definition is_retryable :: "retry_policy \<Rightarrow> code_arg \<Rightarrow> bool" where
  "is_retryable p c =
     (case (case c of Code e \<Rightarrow> Some e | CodeStr s \<Rightarrow> error_code_of s) of
        None \<Rightarrow> False
      | Some e \<Rightarrow> if e \<in> NEVER_RETRY_CODES then False else e \<in> retryable_codes p)"

definition backoff_for :: "retry_policy \<Rightarrow> int \<Rightarrow> rat" where
  "backoff_for p attempt =
     (let attempt = max attempt 1;
          delay = base_backoff_seconds p * backoff_factor p ^ nat (attempt - 1)
      in min delay (max_backoff_seconds p))"

text \<open>The two errors that the loop itself raises.\<close>

definition retry_timeout :: "string option \<Rightarrow> py_exc" where
  "retry_timeout pid = ToolErr (mk_tool_error ''retry budget exhausted'' pid (Code E_TIMEOUT))"

definition retry_no_result :: "string option \<Rightarrow> py_exc" where
  "retry_no_result pid =
     ToolErr (mk_tool_error ''retry loop terminated without result'' pid (Code E_INTERNAL))"

text \<open>\<open>for attempt in range(attempt, max_attempts + 1)\<close>, with the exit after the loop.\<close>

function retry_loop ::
  "retry_policy \<Rightarrow> rat option \<Rightarrow> string option \<Rightarrow> ('s \<Rightarrow> rat \<times> 's) \<Rightarrow> (rat \<Rightarrow> 's \<Rightarrow> 's)
   \<Rightarrow> ('s \<Rightarrow> (py_exc, 'a) result \<times> 's) \<Rightarrow> py_exc option \<Rightarrow> int \<Rightarrow> 's
   \<Rightarrow> (py_exc, 'a) result \<times> 's" where
  "retry_loop pol dl pid now sleep call last_error attempt s =
     (if max_attempts pol < attempt then
        (case last_error of Some e \<Rightarrow> (Inl e, s) | None \<Rightarrow> (Inl (retry_no_result pid), s))
      else
        let (expired, s1) =
              (case dl of None \<Rightarrow> (False, s)
               | Some d \<Rightarrow> let (t, s') = now s in (d - t \<le> 0, s'))
        in if expired then (Inl (retry_timeout pid), s1)
        else case call s1 of
          (Inr v, s2) \<Rightarrow> (Inr v, s2)
        | (Inl (OtherExc x), s2) \<Rightarrow> (Inl (OtherExc x), s2)
        | (Inl (ToolErr e), s2) \<Rightarrow>
            if \<not> is_retryable pol (Code (te_code e)) then (Inl (ToolErr e), s2)
            else if max_attempts pol \<le> attempt then (Inl (ToolErr e), s2)
            else
              let delay = backoff_for pol attempt;
                  (stop, s3) =
                    (case dl of None \<Rightarrow> (False, s2)
                     | Some d \<Rightarrow> let (t, s') = now s2 in (d - t \<le> 0 \<or> d - t < delay, s'))
              in if stop then (Inl (retry_timeout pid), s3)
                 else retry_loop pol dl pid now sleep call (Some (ToolErr e)) (attempt + 1)
                        (sleep delay s3))"
  by pat_completeness auto
termination
  by (relation "measure (\<lambda>(pol, dl, pid, now, sleep, call, last_error, attempt, s).
        nat (max_attempts pol + 1 - attempt))") auto

declare retry_loop.simps [simp del]

definition with_retry ::
  "retry_policy \<Rightarrow> rat option \<Rightarrow> string option \<Rightarrow> ('s \<Rightarrow> rat \<times> 's) \<Rightarrow> (rat \<Rightarrow> 's \<Rightarrow> 's)
   \<Rightarrow> ('s \<Rightarrow> (py_exc, 'a) result \<times> 's) \<Rightarrow> 's \<Rightarrow> (py_exc, 'a) result \<times> 's" where
  "with_retry pol dl pid now sleep call s = retry_loop pol dl pid now sleep call None 1 s"

section \<open>Policies\<close>

lemma policy_ok_iff [era_defs]:
  "policy_ok p \<longleftrightarrow> 1 \<le> max_attempts p \<and> max_attempts p \<le> 10 \<and> 0 \<le> base_backoff_seconds p
     \<and> 0 \<le> max_backoff_seconds p \<and> 1 \<le> backoff_factor p"
  by (auto simp: policy_ok_def retry_policy_check_def MAX_ATTEMPTS_BOUND_def not_less)

lemma default_policy_ok: "policy_ok default_retry_policy"
  by (simp add: policy_ok_iff default_retry_policy_def)

lemma never_retry_not_retryable: "e \<in> NEVER_RETRY_CODES \<Longrightarrow> \<not> is_retryable p (Code e)"
  by (simp add: is_retryable_def)

lemma retryable_codes_only:
  "is_retryable p (Code e) \<Longrightarrow> e = E_UNAVAILABLE \<or> e = E_PROVIDER_ERROR"
  by (cases e) (auto simp: is_retryable_def NEVER_RETRY_CODES_def)

lemma backoff_bounds:
  assumes "policy_ok p"
  shows "0 \<le> backoff_for p n \<and> backoff_for p n \<le> max_backoff_seconds p"
  using assms by (auto simp: policy_ok_iff backoff_for_def Let_def)

lemma backoff_mono:
  assumes "policy_ok p" and "m \<le> n"
  shows "backoff_for p m \<le> backoff_for p n"
proof -
  have "backoff_factor p ^ nat (max m 1 - 1) \<le> backoff_factor p ^ nat (max n 1 - 1)"
    using assms by (intro power_increasing) (auto simp: policy_ok_iff)
  then have "base_backoff_seconds p * backoff_factor p ^ nat (max m 1 - 1)
      \<le> base_backoff_seconds p * backoff_factor p ^ nat (max n 1 - 1)"
    using assms(1) by (intro mult_left_mono) (auto simp: policy_ok_iff)
  then show ?thesis by (auto simp: backoff_for_def Let_def min_le_iff_disj)
qed

section \<open>The abstract protocol of a retried call\<close>

text \<open>
  To state what the loop does to the outside world, the three effects are wrapped so that
  they also write a log.  \<open>retry_run\<close> is the specification: the logs and results that a bounded,
  deadline-aware retry may produce, without reference to how they are computed.
\<close>

datatype retry_event = RNow rat | RCall "py_exc option" | RSleep rat

definition t_now :: "('s \<Rightarrow> rat \<times> 's) \<Rightarrow> 's \<times> retry_event list \<Rightarrow> rat \<times> ('s \<times> retry_event list)" where
  "t_now now st = (case st of (s, tr) \<Rightarrow> case now s of (t, s') \<Rightarrow> (t, (s', tr @ [RNow t])))"

definition t_sleep :: "(rat \<Rightarrow> 's \<Rightarrow> 's) \<Rightarrow> rat \<Rightarrow> 's \<times> retry_event list \<Rightarrow> 's \<times> retry_event list" where
  "t_sleep sleep d st = (case st of (s, tr) \<Rightarrow> (sleep d s, tr @ [RSleep d]))"

definition t_call ::
  "('s \<Rightarrow> (py_exc, 'a) result \<times> 's) \<Rightarrow> 's \<times> retry_event list
   \<Rightarrow> (py_exc, 'a) result \<times> ('s \<times> retry_event list)" where
  "t_call call st = (case st of (s, tr) \<Rightarrow> case call s of (r, s') \<Rightarrow>
     (r, (s', tr @ [RCall (case r of Inl e \<Rightarrow> Some e | Inr _ \<Rightarrow> None)])))"

fun start_gate :: "rat option \<Rightarrow> retry_event list \<Rightarrow> bool" where
  "start_gate None [] = True"
| "start_gate (Some d) [RNow t] = (t < d)"
| "start_gate _ _ = False"

fun sleep_gate :: "rat option \<Rightarrow> rat \<Rightarrow> retry_event list \<Rightarrow> bool" where
  "sleep_gate None delay [] = True"
| "sleep_gate (Some d) delay [RNow t] = (t < d \<and> t + delay \<le> d)"
| "sleep_gate _ _ _ = False"

inductive retry_run ::
  "retry_policy \<Rightarrow> rat option \<Rightarrow> string option \<Rightarrow> int \<Rightarrow> (py_exc, 'a) result
   \<Rightarrow> retry_event list \<Rightarrow> bool"
  for pol dl pid where
  expired: "dl = Some d \<Longrightarrow> d \<le> t \<Longrightarrow> retry_run pol dl pid a (Inl (retry_timeout pid)) [RNow t]"
| success: "start_gate dl g \<Longrightarrow> retry_run pol dl pid a (Inr v) (g @ [RCall None])"
| raised: "start_gate dl g \<Longrightarrow> retry_run pol dl pid a (Inl (OtherExc x)) (g @ [RCall (Some (OtherExc x))])"
| fatal: "start_gate dl g \<Longrightarrow> \<not> is_retryable pol (Code (te_code e)) \<or> max_attempts pol \<le> a \<Longrightarrow>
     retry_run pol dl pid a (Inl (ToolErr e)) (g @ [RCall (Some (ToolErr e))])"
| no_budget: "start_gate dl g \<Longrightarrow> is_retryable pol (Code (te_code e)) \<Longrightarrow> a < max_attempts pol \<Longrightarrow>
     dl = Some d \<Longrightarrow> d \<le> t \<or> d < t + backoff_for pol a \<Longrightarrow>
     retry_run pol dl pid a (Inl (retry_timeout pid)) (g @ [RCall (Some (ToolErr e)), RNow t])"
| again: "start_gate dl g \<Longrightarrow> is_retryable pol (Code (te_code e)) \<Longrightarrow> a < max_attempts pol \<Longrightarrow>
     sleep_gate dl (backoff_for pol a) g' \<Longrightarrow> retry_run pol dl pid (a + 1) r evs \<Longrightarrow>
     retry_run pol dl pid a r
       (g @ [RCall (Some (ToolErr e))] @ g' @ [RSleep (backoff_for pol a)] @ evs)"

lemma start_gate_None: "start_gate None g \<longleftrightarrow> g = []"
  by (cases g) auto


text \<open>One iteration: the log grows by a start gate, a call, and possibly a clock reading and
  a sleep, after which the loop continues with the next attempt.\<close>

lemma retry_loop_step:
  assumes "a \<le> max_attempts pol"
    and "retry_loop pol dl pid (t_now now) (t_sleep sleep) (t_call call) le a (s, tr) = (r, (s', tr'))"
  shows "(\<exists>evs. tr' = tr @ evs \<and> retry_run pol dl pid a r evs)
    \<or> (\<exists>g e g' s2. start_gate dl g \<and> is_retryable pol (Code (te_code e)) \<and> a < max_attempts pol
         \<and> sleep_gate dl (backoff_for pol a) g'
         \<and> retry_loop pol dl pid (t_now now) (t_sleep sleep) (t_call call) (Some (ToolErr e)) (a + 1)
             (s2, tr @ g @ [RCall (Some (ToolErr e))] @ g' @ [RSleep (backoff_for pol a)]) = (r, (s', tr')))"
proof (cases dl)
  case None
  have gate: "start_gate dl []" "\<And>x. sleep_gate dl x []" by (simp_all add: None)
  obtain rc s1 where c: "call s = (rc, s1)" by (cases "call s")
  show ?thesis
  proof (cases rc)
    case (Inr v)
    then show ?thesis using assms gate c None success [OF gate(1), of pol pid a v]
      by (auto simp: retry_loop.simps [of pol None] t_call_def)
  next
    case (Inl x)
    show ?thesis
    proof (cases x)
      case (OtherExc y)
      then show ?thesis using assms gate c None Inl raised [OF gate(1), of pol pid a y]
        by (auto simp: retry_loop.simps [of pol None] t_call_def)
    next
      case (ToolErr e)
      show ?thesis
      proof (cases "is_retryable pol (Code (te_code e)) \<and> a < max_attempts pol")
        case True
        then show ?thesis using assms gate c None Inl ToolErr
          by (intro disjI2 exI [of _ "[]"] exI [of _ e] exI [of _ "sleep (backoff_for pol a) s1"])
            (auto simp: retry_loop.simps [of pol None _ _ _ _ le] t_call_def t_sleep_def Let_def)
      next
        case False
        then show ?thesis using assms gate c None Inl ToolErr fatal [OF gate(1), of pol e a pid]
          by (auto simp: retry_loop.simps [of pol None] t_call_def split: if_splits)
      qed
    qed
  qed
next
  case (Some d)
  obtain t s0 where n: "now s = (t, s0)" by (cases "now s")
  show ?thesis
  proof (cases "d - t \<le> 0")
    case True
    then show ?thesis using assms Some n expired [OF Some, of t pol pid a]
      by (auto simp: retry_loop.simps [of pol "Some d"] t_now_def)
  next
    case False
    then have gate: "start_gate dl [RNow t]" by (simp add: Some)
    obtain rc s1 where c: "call s0 = (rc, s1)" by (cases "call s0")
    obtain t2 s2 where n2: "now s1 = (t2, s2)" by (cases "now s1")
    show ?thesis
    proof (cases rc)
      case (Inr v)
      then show ?thesis using assms gate c n False Some success [OF gate, of pol pid a v]
        by (auto simp: retry_loop.simps [of pol "Some d"] t_call_def t_now_def)
    next
      case (Inl x)
      show ?thesis
      proof (cases x)
        case (OtherExc y)
        then show ?thesis using assms gate c n False Some Inl raised [OF gate, of pol pid a y]
          by (auto simp: retry_loop.simps [of pol "Some d"] t_call_def t_now_def)
      next
        case (ToolErr e)
        show ?thesis
        proof (cases "is_retryable pol (Code (te_code e)) \<and> a < max_attempts pol")
          case retry: True
          show ?thesis
          proof (cases "d - t2 \<le> 0 \<or> d - t2 < backoff_for pol a")
            case True
            then show ?thesis using assms gate c n n2 False Some Inl ToolErr retry
              no_budget [OF gate, of pol e a d t2 pid]
              by (auto simp: retry_loop.simps [of pol "Some d"] t_call_def t_now_def)
          next
            case go: False
            then have "sleep_gate dl (backoff_for pol a) [RNow t2]" by (auto simp: Some)
            then show ?thesis using assms gate c n n2 False Some Inl ToolErr retry go
              by (intro disjI2 exI [of _ "[RNow t]"] exI [of _ e] exI [of _ "[RNow t2]"]
                    exI [of _ "sleep (backoff_for pol a) s2"])
                (auto simp: retry_loop.simps [of pol "Some d" _ _ _ _ le] t_call_def t_now_def t_sleep_def Let_def)
          qed
        next
          case stop: False
          then show ?thesis using assms gate c n False Some Inl ToolErr fatal [OF gate, of pol e a pid]
            by (auto simp: retry_loop.simps [of pol "Some d"] t_call_def t_now_def split: if_splits)
        qed
      qed
    qed
  qed
qed

lemma retry_loop_implements_run:
  assumes "a \<le> max_attempts pol"
    and "retry_loop pol dl pid (t_now now) (t_sleep sleep) (t_call call) le a (s, tr) = (r, (s', tr'))"
  shows "\<exists>evs. tr' = tr @ evs \<and> retry_run pol dl pid a r evs"
  using assms
proof (induction "nat (max_attempts pol - a)" arbitrary: a le s tr)
  case (0 a le s tr)
  then show ?case using retry_loop_step [OF 0(2,3)] by auto
next
  case (Suc n a le s tr)
  from retry_loop_step [OF Suc.prems] show ?case
  proof
    assume "\<exists>g e g' s2. start_gate dl g \<and> is_retryable pol (Code (te_code e)) \<and> a < max_attempts pol
         \<and> sleep_gate dl (backoff_for pol a) g'
         \<and> retry_loop pol dl pid (t_now now) (t_sleep sleep) (t_call call) (Some (ToolErr e)) (a + 1)
             (s2, tr @ g @ [RCall (Some (ToolErr e))] @ g' @ [RSleep (backoff_for pol a)]) = (r, (s', tr'))"
    then obtain g e g' s2 where g: "start_gate dl g" "is_retryable pol (Code (te_code e))"
        "a < max_attempts pol" "sleep_gate dl (backoff_for pol a) g'"
      and rec: "retry_loop pol dl pid (t_now now) (t_sleep sleep) (t_call call) (Some (ToolErr e)) (a + 1)
             (s2, tr @ g @ [RCall (Some (ToolErr e))] @ g' @ [RSleep (backoff_for pol a)]) = (r, (s', tr'))"
      by blast
    have "n = nat (max_attempts pol - (a + 1))" "a + 1 \<le> max_attempts pol"
      using Suc.hyps(2) g(3) by linarith+
    from Suc.hyps(1) [OF this rec] obtain evs where "retry_run pol dl pid (a + 1) r evs"
      "tr' = tr @ g @ [RCall (Some (ToolErr e))] @ g' @ [RSleep (backoff_for pol a)] @ evs"
      by auto
    then show ?thesis using again [OF g] by blast
  qed
qed

section \<open>Properties of every run\<close>

definition calls :: "retry_event list \<Rightarrow> py_exc option list" where
  "calls evs = List.map_filter (\<lambda>ev. case ev of RCall x \<Rightarrow> Some x | _ \<Rightarrow> None) evs"

lemma calls_append [simp]: "calls (xs @ ys) = calls xs @ calls ys"
  by (simp add: calls_def List.map_filter_def)

lemma calls_simps [simp]:
  "calls [] = []" "calls (RCall x # evs) = x # calls evs"
  "calls (RNow t # evs) = calls evs" "calls (RSleep t # evs) = calls evs"
  by (simp_all add: calls_def List.map_filter_def)

lemma calls_start_gate [simp]: "start_gate dl g \<Longrightarrow> calls g = []"
  by (induction dl g rule: start_gate.induct) auto

lemma calls_sleep_gate [simp]: "sleep_gate dl d g \<Longrightarrow> calls g = []"
  by (induction dl d g rule: sleep_gate.induct) auto

lemma retry_run_call_bound:
  "retry_run pol dl pid a r evs \<Longrightarrow> a \<le> max_attempts pol \<Longrightarrow> 
   int (length (calls evs)) \<le> max_attempts pol + 1 - a"
  by (induction rule: retry_run.induct) auto

text \<open>Every call but the last failed with a retryable code.\<close>

lemma retry_run_butlast:
  "retry_run pol dl pid a r evs \<Longrightarrow> x \<in> set (butlast (calls evs)) \<Longrightarrow>
   \<exists>e. x = Some (ToolErr e) \<and> is_retryable pol (Code (te_code e))"
  by (induction rule: retry_run.induct) (auto split: if_splits)

text \<open>The result is that of the last call, unless the budget ran out.\<close>

lemma retry_run_result:
  "retry_run pol dl pid a r evs \<Longrightarrow>
   (dl \<noteq> None \<and> r = Inl (retry_timeout pid))
   \<or> (calls evs \<noteq> [] \<and> last (calls evs) = (case r of Inl e \<Rightarrow> Some e | Inr _ \<Rightarrow> None))"
  by (induction rule: retry_run.induct) auto

text \<open>With a deadline, each call follows a clock reading before it, and each sleep follows a
  reading from which the whole delay still fits.\<close>

fun deadline_respected :: "rat \<Rightarrow> retry_event list \<Rightarrow> bool" where
  "deadline_respected d (RNow t # RCall x # evs) = (t < d \<and> deadline_respected d evs)"
| "deadline_respected d (RNow t # RSleep delay # evs) = (t + delay \<le> d \<and> deadline_respected d evs)"
| "deadline_respected d [RNow t] = True"
| "deadline_respected d [] = True"
| "deadline_respected d _ = False"

lemma start_gate_Some: "start_gate (Some d) g \<longleftrightarrow> (\<exists>t. g = [RNow t] \<and> t < d)"
  by (cases "(Some d, g)" rule: start_gate.cases) auto

lemma sleep_gate_Some: "sleep_gate (Some d) x g \<longleftrightarrow> (\<exists>t. g = [RNow t] \<and> t < d \<and> t + x \<le> d)"
  by (cases "(Some d, x, g)" rule: sleep_gate.cases) auto

lemma retry_run_deadline:
  "retry_run pol dl pid a r evs \<Longrightarrow> dl = Some d \<Longrightarrow> deadline_respected d evs"
  by (induction rule: retry_run.induct) (auto simp: start_gate_Some sleep_gate_Some)

lemma retry_run_sleeps:
  "retry_run pol dl pid a r evs \<Longrightarrow> policy_ok pol \<Longrightarrow> RSleep x \<in> set evs \<Longrightarrow>
   0 \<le> x \<and> x \<le> max_backoff_seconds pol"
proof (induction rule: retry_run.induct)
  case (again g e a g' r evs)
  have "RSleep x \<notin> set g" "RSleep x \<notin> set g'"
    using again.hyps(1,4) start_gate_Some sleep_gate_Some
    by (cases dl; auto simp: start_gate_None elim: sleep_gate.elims)+
  with again backoff_bounds [OF again.prems(1)] show ?case by auto
qed (auto elim!: start_gate.elims)

text \<open>The log is a pure observation: forgetting it gives back the original loop.\<close>

lemma traced_forget:
  "retry_loop pol dl pid (t_now now) (t_sleep sleep) (t_call call) le a st = (r, st') \<Longrightarrow>
   retry_loop pol dl pid now sleep call le a (fst st) = (r, fst st')"
proof (induction "nat (max_attempts pol + 1 - a)" arbitrary: a le st rule: less_induct)
  case less
  obtain s tr where st: "st = (s, tr)" by (cases st)
  show ?case
  proof (cases "max_attempts pol < a")
    case True
    with less.prems show ?thesis
      by (auto simp: retry_loop.simps [of pol _ _ _ _ _ le] split: option.splits)
  next
    case False
    note IH = less.hyps [of "a + 1"]
    from False have dec: "nat (max_attempts pol + 1 - (a + 1)) < nat (max_attempts pol + 1 - a)" by simp
    show ?thesis using less.prems False IH [OF dec]
      by (auto simp: retry_loop.simps [of pol _ _ _ _ _ le] st t_now_def t_call_def t_sleep_def Let_def
          split: option.splits prod.splits sum.splits py_exc.splits if_splits) 
  qed
qed

section \<open>Claims\<close>


text \<open>A callable that fails twice with \<open>UNAVAILABLE\<close> and then succeeds, over a clock that
  counts the calls.\<close>

definition flaky_call :: "nat \<Rightarrow> (py_exc, nat) result \<times> nat" where
  "flaky_call n = (if n < 2 then Inl (ToolErr (mk_tool_error ''busy'' None (Code E_UNAVAILABLE)))
                   else Inr n, n + 1)"


text \<open>With a deadline, the loop starts an attempt only after reading a time before the
  deadline, and sleeps only when the whole delay fits into what was left at its last reading;
  the delay is never longer than \<open>max_backoff_seconds\<close>.\<close>

theorem with_retry_respects_deadline:
  assumes "policy_ok pol"
    and "with_retry pol (Some d) pid (t_now now) (t_sleep sleep) (t_call call) (s, []) = (r, (s', evs))"
  shows "deadline_respected d evs
    \<and> (\<forall>x. RSleep x \<in> set evs \<longrightarrow> 0 \<le> x \<and> x \<le> max_backoff_seconds pol)"
proof -
  have "1 \<le> max_attempts pol" using assms(1) by (auto simp: policy_ok_iff)
  then obtain run: "retry_run pol (Some d) pid 1 r evs"
    using retry_loop_implements_run [OF _ assms(2) [unfolded with_retry_def]] by auto
  show ?thesis
    using retry_run_deadline [OF run refl] retry_run_sleeps [OF run assms(1)] by blast
qed

lemma with_retry_respects_deadline_witness:
  "\<exists>r s' evs. with_retry default_retry_policy (Some 1) None (t_now (\<lambda>n. (of_nat n, n)))
       (t_sleep (\<lambda>_ n. n)) (t_call flaky_call) (0, []) = (r, (s', evs))
     \<and> r = Inl (retry_timeout None) \<and> deadline_respected 1 evs"
proof -
  let ?run = "with_retry default_retry_policy (Some 1) None (t_now (\<lambda>n. (of_nat n, n)))
       (t_sleep (\<lambda>_ n. n)) (t_call flaky_call) (0, [])"
  have "fst ?run = Inl (retry_timeout None)"
    by code_simp
  moreover obtain r s' evs where run: "?run = (r, (s', evs))" by (rule prod_cases3)
  ultimately show ?thesis
    using with_retry_respects_deadline [OF default_policy_ok run] by auto
qed

end
