(* ===== verification/Circuit_Breaker.thy ===== *)
theory Circuit_Breaker
  imports Retry
begin

text \<open>
  The circuit breaker of \<^verbatim>\<open>era/core/circuit_breaker.py\<close> and its durable store
  (\<^verbatim>\<open>era/repositories/circuit_breaker.py\<close>, the \<open>upsert\<close> of
  \<^verbatim>\<open>SQLiteCircuitBreakerStateRepo\<close>).  The store is an interface: the breaker's operations take
  \<open>load\<close> and \<open>save\<close> as arguments, the locale \<open>circuit_store\<close> states what they promise, and
  the table of the SQL repository is shown to keep that promise.  A store of \<open>None\<close> is a
  breaker without durable state.
\<close>

datatype circuit_state = CLOSED | OPEN | HALF_OPEN

record breaker_config =
  failure_threshold :: int
  cooldown_seconds :: rat
  trip_codes :: "error_code set"

definition default_breaker_config :: breaker_config where
  "default_breaker_config = \<lparr>failure_threshold = 5, cooldown_seconds = 30,
     trip_codes = DEFAULT_RETRYABLE_CODES\<rparr>"

definition breaker_config_check :: "breaker_config \<Rightarrow> (string, breaker_config) result" where
  "breaker_config_check c =
     (if failure_threshold c < 1 then Inl ''failure_threshold must be an int >= 1''
      else if cooldown_seconds c < 0 then Inl ''cooldown_seconds must be >= 0''
      else Inr c)"

definition config_ok :: "breaker_config \<Rightarrow> bool" where
  "config_ok c = (breaker_config_check c = Inr c)"

definition is_eligible :: "breaker_config \<Rightarrow> code_arg \<Rightarrow> bool" where
  "is_eligible cfg c =
     (case (case c of Code e \<Rightarrow> Some e | CodeStr s \<Rightarrow> error_code_of s) of
        None \<Rightarrow> False | Some e \<Rightarrow> e \<in> trip_codes cfg)"

record snapshot =
  sn_state :: circuit_state
  sn_failures :: int
  sn_opened_at :: "rat option"

record breaker =
  cb_config :: breaker_config
  cb_provider :: "string option"
  cb_state :: circuit_state
  cb_failures :: int
  cb_opened_at :: "rat option"

section \<open>Operations\<close>

definition refresh :: "('st \<Rightarrow> string \<Rightarrow> snapshot option) \<Rightarrow> 'st option \<Rightarrow> breaker \<Rightarrow> breaker" where
  "refresh load st b =
     (case (st, cb_provider b) of
        (Some s, Some pid) \<Rightarrow>
          (case load s pid of
             None \<Rightarrow> b
           | Some sn \<Rightarrow> b\<lparr>cb_state := sn_state sn, cb_failures := max 0 (sn_failures sn),
                          cb_opened_at := sn_opened_at sn\<rparr>)
      | _ \<Rightarrow> b)"

definition persist :: "('st \<Rightarrow> string \<Rightarrow> snapshot \<Rightarrow> 'st) \<Rightarrow> 'st option \<Rightarrow> breaker \<Rightarrow> 'st option" where
  "persist save st b =
     (case (st, cb_provider b) of
        (Some s, Some pid) \<Rightarrow>
          Some (save s pid \<lparr>sn_state = cb_state b, sn_failures = cb_failures b,
                            sn_opened_at = cb_opened_at b\<rparr>)
      | _ \<Rightarrow> st)"

text \<open>\<open>CircuitBreaker(config, provider_id=..., store=...)\<close>.\<close>

definition new_breaker ::
  "('st \<Rightarrow> string \<Rightarrow> snapshot option) \<Rightarrow> breaker_config \<Rightarrow> string option \<Rightarrow> 'st option
   \<Rightarrow> (string, breaker) result" where
  "new_breaker load cfg pid st =
     (if st \<noteq> None \<and> (pid = None \<or> pid = Some [])
      then Inl ''provider_id is required with a circuit state store''
      else Inr (refresh load st \<lparr>cb_config = cfg, cb_provider = pid, cb_state = CLOSED,
                                 cb_failures = 0, cb_opened_at = None\<rparr>))"

text \<open>\<open>allow_request\<close> reads the clock only when the circuit is open; \<open>t\<close> is that reading.
  The assertion on \<open>opened_at\<close> may fail.\<close>

definition allow_request ::
  "('st \<Rightarrow> string \<Rightarrow> snapshot option) \<Rightarrow> ('st \<Rightarrow> string \<Rightarrow> snapshot \<Rightarrow> 'st) \<Rightarrow> rat
   \<Rightarrow> breaker \<times> 'st option \<Rightarrow> (string, bool) result \<times> (breaker \<times> 'st option)" where
  "allow_request load save t bs = (case bs of (b0, st) \<Rightarrow>
     let b = refresh load st b0 in
     (case cb_state b of
        CLOSED \<Rightarrow> (Inr True, (b, st))
      | HALF_OPEN \<Rightarrow> (Inr True, (b, st))
      | OPEN \<Rightarrow>
          (case cb_opened_at b of
             None \<Rightarrow> (Inl ''AssertionError'', (b, st))
           | Some o_at \<Rightarrow>
               if cooldown_seconds (cb_config b) \<le> t - o_at then
                 let b' = b\<lparr>cb_state := HALF_OPEN\<rparr> in (Inr True, (b', persist save st b'))
               else (Inr False, (b, st)))))"

definition record_success ::
  "('st \<Rightarrow> string \<Rightarrow> snapshot option) \<Rightarrow> ('st \<Rightarrow> string \<Rightarrow> snapshot \<Rightarrow> 'st)
   \<Rightarrow> breaker \<times> 'st option \<Rightarrow> breaker \<times> 'st option" where
  "record_success load save bs = (case bs of (b0, st) \<Rightarrow>
     let b = refresh load st b0 in
     if cb_state b = OPEN then (b, st)
     else
       let b1 = b\<lparr>cb_failures := 0, cb_opened_at := None\<rparr>;
           b2 = (if cb_state b1 = HALF_OPEN then b1\<lparr>cb_state := CLOSED\<rparr> else b1)
       in (b2, persist save st b2))"

definition record_failure ::
  "('st \<Rightarrow> string \<Rightarrow> snapshot option) \<Rightarrow> ('st \<Rightarrow> string \<Rightarrow> snapshot \<Rightarrow> 'st) \<Rightarrow> rat
   \<Rightarrow> code_arg \<Rightarrow> breaker \<times> 'st option \<Rightarrow> breaker \<times> 'st option" where
  "record_failure load save t c bs = (case bs of (b0, st) \<Rightarrow>
     if \<not> is_eligible (cb_config b0) c then (b0, st)
     else
       let b = refresh load st b0 in
       if cb_state b = OPEN then (b, st)
       else if cb_state b = HALF_OPEN then
         let b1 = b\<lparr>cb_state := OPEN, cb_failures := 1, cb_opened_at := Some t\<rparr>
         in (b1, persist save st b1)
       else
         let b1 = b\<lparr>cb_failures := cb_failures b + 1\<rparr>;
             b2 = (if failure_threshold (cb_config b1) \<le> cb_failures b1
                   then b1\<lparr>cb_state := OPEN, cb_opened_at := Some t\<rparr> else b1)
         in (b2, persist save st b2))"

text \<open>The three operations as events of one machine.\<close>

datatype breaker_event = EvAllow rat | EvSuccess | EvFailure rat code_arg

definition breaker_step ::
  "('st \<Rightarrow> string \<Rightarrow> snapshot option) \<Rightarrow> ('st \<Rightarrow> string \<Rightarrow> snapshot \<Rightarrow> 'st) \<Rightarrow> breaker_event
   \<Rightarrow> breaker \<times> 'st option \<Rightarrow> (string, bool) result \<times> (breaker \<times> 'st option)" where
  "breaker_step load save ev bs =
     (case ev of
        EvAllow t \<Rightarrow> allow_request load save t bs
      | EvSuccess \<Rightarrow> (Inr True, record_success load save bs)
      | EvFailure t c \<Rightarrow> (Inr True, record_failure load save t c bs))"

section \<open>The registry: one breaker per provider\<close>

record 'st breaker_registry =
  reg_config :: breaker_config
  reg_store :: "'st option"
  reg_breakers :: "string \<rightharpoonup> breaker"

definition registry_get ::
  "('st \<Rightarrow> string \<Rightarrow> snapshot option) \<Rightarrow> 'st breaker_registry \<Rightarrow> string
   \<Rightarrow> (string, breaker \<times> 'st breaker_registry) result" where
  "registry_get load reg pid =
     (case reg_breakers reg pid of
        Some b \<Rightarrow> Inr (b, reg)
      | None \<Rightarrow>
          (case new_breaker load (reg_config reg) (Some pid) (reg_store reg) of
             Inl e \<Rightarrow> Inl e
           | Inr b \<Rightarrow> Inr (b, reg\<lparr>reg_breakers := (reg_breakers reg)(pid \<mapsto> b)\<rparr>)))"

definition registry_put :: "'st breaker_registry \<Rightarrow> string \<Rightarrow> breaker \<times> 'st option \<Rightarrow> 'st breaker_registry" where
  "registry_put reg pid bs = reg\<lparr>reg_breakers := (reg_breakers reg)(pid \<mapsto> fst bs), reg_store := snd bs\<rparr>"

definition registry_reset_all :: "'st breaker_registry \<Rightarrow> 'st breaker_registry" where
  "registry_reset_all reg = reg\<lparr>reg_breakers := Map.empty\<rparr>"

section \<open>The durable store\<close>

text \<open>The table \<^verbatim>\<open>circuit_breaker_state\<close>: one row per provider id; the \<open>state\<close> column holds the
  value of the enumeration.\<close>

record breaker_row =
  row_state :: circuit_state
  row_failures :: int
  row_opened_at :: "rat option"

type_synonym breaker_table = "string \<rightharpoonup> breaker_row"

definition sql_load :: "breaker_table \<Rightarrow> string \<Rightarrow> snapshot option" where
  "sql_load tbl pid =
     (case tbl pid of
        None \<Rightarrow> None
      | Some row \<Rightarrow> Some \<lparr>sn_state = row_state row, sn_failures = row_failures row,
                          sn_opened_at = row_opened_at row\<rparr>)"

definition upsert ::
  "breaker_table \<Rightarrow> string \<Rightarrow> circuit_state \<Rightarrow> int \<Rightarrow> rat option \<Rightarrow> breaker_table" where
  "upsert tbl pid s n o_at =
     (let row = (case tbl pid of
                   None \<Rightarrow> \<lparr>row_state = CLOSED, row_failures = 0, row_opened_at = None\<rparr>
                 | Some row \<Rightarrow> row)
      in tbl(pid \<mapsto> row\<lparr>row_state := s, row_failures := n, row_opened_at := o_at\<rparr>))"

definition sql_save :: "breaker_table \<Rightarrow> string \<Rightarrow> snapshot \<Rightarrow> breaker_table" where
  "sql_save tbl pid sn = upsert tbl pid (sn_state sn) (sn_failures sn) (sn_opened_at sn)"

section \<open>The abstract machine\<close>

text \<open>What the breaker promises, without objects, caches or storage: closed with a streak of
  failures, open since a time, or half open.\<close>

datatype abs_breaker = AClosed nat | AOpen rat | AHalf

fun spec_step :: "breaker_config \<Rightarrow> breaker_event \<Rightarrow> abs_breaker \<Rightarrow> bool \<times> abs_breaker" where
  "spec_step cfg (EvAllow t) (AClosed k) = (True, AClosed k)"
| "spec_step cfg (EvAllow t) (AOpen o_at) =
     (if cooldown_seconds cfg \<le> t - o_at then (True, AHalf) else (False, AOpen o_at))"
| "spec_step cfg (EvAllow t) AHalf = (True, AHalf)"
| "spec_step cfg EvSuccess (AClosed k) = (True, AClosed 0)"
| "spec_step cfg EvSuccess (AOpen o_at) = (True, AOpen o_at)"
| "spec_step cfg EvSuccess AHalf = (True, AClosed 0)"
| "spec_step cfg (EvFailure t c) (AClosed k) =
     (if \<not> is_eligible cfg c then (True, AClosed k)
      else if failure_threshold cfg \<le> int k + 1 then (True, AOpen t) else (True, AClosed (k + 1)))"
| "spec_step cfg (EvFailure t c) (AOpen o_at) = (True, AOpen o_at)"
| "spec_step cfg (EvFailure t c) AHalf = (True, if is_eligible cfg c then AOpen t else AHalf)"

definition abs_of :: "breaker \<Rightarrow> abs_breaker" where
  "abs_of b = (case cb_state b of
      CLOSED \<Rightarrow> AClosed (nat (cb_failures b))
    | OPEN \<Rightarrow> AOpen (case cb_opened_at b of Some t \<Rightarrow> t | None \<Rightarrow> 0)
    | HALF_OPEN \<Rightarrow> AHalf)"

text \<open>The consistency between the fields that every operation keeps.\<close>

definition breaker_inv :: "breaker \<Rightarrow> bool" where
  "breaker_inv b \<longleftrightarrow> config_ok (cb_config b) \<and> 0 \<le> cb_failures b
     \<and> (cb_state b = CLOSED \<longrightarrow> cb_failures b < failure_threshold (cb_config b))
     \<and> (cb_state b = OPEN \<longrightarrow> cb_opened_at b \<noteq> None)"

lemma config_ok_iff [era_defs]:
  "config_ok c \<longleftrightarrow> 1 \<le> failure_threshold c \<and> 0 \<le> cooldown_seconds c"
  by (auto simp: config_ok_def breaker_config_check_def)

lemma refresh_config [simp]:
  "cb_config (refresh load st b) = cb_config b" "cb_provider (refresh load st b) = cb_provider b"
  by (auto simp: refresh_def split: option.splits)

lemma refresh_no_store [simp]: "refresh load None b = b"
  by (simp add: refresh_def)

text \<open>One operation on the refreshed breaker: a pure function of the breaker, and whether
  it writes to the store.\<close>

definition pure_step :: "breaker_event \<Rightarrow> breaker \<Rightarrow> breaker option" where
  "pure_step ev b =
     (case ev of
        EvAllow t \<Rightarrow> (case (cb_state b, cb_opened_at b) of
            (OPEN, Some o_at) \<Rightarrow> if cooldown_seconds (cb_config b) \<le> t - o_at
                                then Some (b\<lparr>cb_state := HALF_OPEN\<rparr>) else None
          | _ \<Rightarrow> None)
      | EvSuccess \<Rightarrow> if cb_state b = OPEN then None
          else Some (b\<lparr>cb_state := CLOSED, cb_failures := 0, cb_opened_at := None\<rparr>)
      | EvFailure t c \<Rightarrow> if \<not> is_eligible (cb_config b) c \<or> cb_state b = OPEN then None
          else if cb_state b = HALF_OPEN
          then Some (b\<lparr>cb_state := OPEN, cb_failures := 1, cb_opened_at := Some t\<rparr>)
          else if failure_threshold (cb_config b) \<le> cb_failures b + 1
          then Some (b\<lparr>cb_failures := cb_failures b + 1, cb_state := OPEN, cb_opened_at := Some t\<rparr>)
          else Some (b\<lparr>cb_failures := cb_failures b + 1\<rparr>))"

lemma pure_step_inv:
  "breaker_inv b \<Longrightarrow> pure_step ev b = Some b' \<Longrightarrow>
   breaker_inv b' \<and> cb_provider b' = cb_provider b \<and> cb_config b' = cb_config b"
  by (auto simp: pure_step_def breaker_inv_def config_ok_iff split: breaker_event.splits circuit_state.splits
      option.splits if_splits)

lemma pure_step_spec:
  "breaker_inv b \<Longrightarrow> snd (spec_step (cb_config b) ev (abs_of b))
     = abs_of (case pure_step ev b of None \<Rightarrow> b | Some b' \<Rightarrow> b')"
  by (cases "cb_state b")
    (auto simp: pure_step_def breaker_inv_def abs_of_def split: breaker_event.splits option.splits)

text \<open>Every operation refreshes (unless it ignores the event) and then writes back exactly when
  \<open>pure_step\<close> changes the breaker.\<close>

lemma breaker_step_cases:
  assumes "breaker_inv (refresh load st b)" and "breaker_step load save ev (b, st) = (r, (b', st'))"
  shows "r = Inr (fst (spec_step (cb_config b) ev (abs_of (refresh load st b))))
    \<and> (case pure_step ev (refresh load st b) of
         None \<Rightarrow> (b' = b \<or> b' = refresh load st b) \<and> st' = st
       | Some b'' \<Rightarrow> b' = b'' \<and> st' = persist save st b'')"
proof (cases ev)
  case (EvAllow t)
  then show ?thesis using assms
    by (auto simp: breaker_step_def allow_request_def pure_step_def abs_of_def breaker_inv_def Let_def
        split: circuit_state.splits option.splits if_splits)
next
  case EvSuccess
  have same: "cb_state w = CLOSED \<Longrightarrow> w\<lparr>cb_state := CLOSED, cb_failures := 0, cb_opened_at := None\<rparr>
        = w\<lparr>cb_failures := 0, cb_opened_at := None\<rparr>"
    "w\<lparr>cb_failures := 0, cb_opened_at := None, cb_state := CLOSED\<rparr>
        = w\<lparr>cb_state := CLOSED, cb_failures := 0, cb_opened_at := None\<rparr>" for w :: breaker
    by (cases w; simp)+
  show ?thesis using assms EvSuccess
    by (cases "cb_state (refresh load st b)")
      (auto simp: breaker_step_def record_success_def pure_step_def abs_of_def Let_def same split: if_splits)
next
  case (EvFailure t c)
  then show ?thesis using assms
    by (cases "cb_state (refresh load st b)")
      (auto simp: breaker_step_def record_failure_def pure_step_def abs_of_def Let_def split: if_splits)
qed

text \<open>Runs: processes, each with its own breaker object, that share one store; and the abstract
  machine on the same events.\<close>

fun shared_run ::
  "('st \<Rightarrow> string \<Rightarrow> snapshot option) \<Rightarrow> ('st \<Rightarrow> string \<Rightarrow> snapshot \<Rightarrow> 'st) \<Rightarrow> (nat \<times> breaker_event) list
   \<Rightarrow> (nat \<Rightarrow> breaker) \<times> 'st option
   \<Rightarrow> (string, bool) result list \<times> ((nat \<Rightarrow> breaker) \<times> 'st option)" where
  "shared_run load save [] ps = ([], ps)"
| "shared_run load save ((i, ev) # es) (procs, st) =
     (case breaker_step load save ev (procs i, st) of
        (r, (b', st')) \<Rightarrow>
          (case shared_run load save es (procs(i := b'), st') of (rs, ps) \<Rightarrow> (r # rs, ps)))"

fun spec_run :: "breaker_config \<Rightarrow> breaker_event list \<Rightarrow> abs_breaker \<Rightarrow> bool list \<times> abs_breaker" where
  "spec_run cfg [] a = ([], a)"
| "spec_run cfg (ev # es) a =
     (case spec_step cfg ev a of (r, a') \<Rightarrow> (case spec_run cfg es a' of (rs, a'') \<Rightarrow> (r # rs, a'')))"

lemma spec_run_Cons:
  "fst (spec_run cfg (ev # es) a) = fst (spec_step cfg ev a) # fst (spec_run cfg es (snd (spec_step cfg ev a)))"
  "snd (spec_run cfg (ev # es) a) = snd (spec_run cfg es (snd (spec_step cfg ev a)))"
  by (simp_all split: prod.splits)

lemma shared_run_Cons:
  "breaker_step load save ev (procs i, st) = (r, (b', st')) \<Longrightarrow>
   fst (shared_run load save ((i, ev) # es) (procs, st)) = r # fst (shared_run load save es (procs(i := b'), st'))"
  "breaker_step load save ev (procs i, st) = (r, (b', st')) \<Longrightarrow>
   snd (shared_run load save ((i, ev) # es) (procs, st)) = snd (shared_run load save es (procs(i := b'), st'))"
  by (simp_all split: prod.splits)

declare spec_run.simps(2) [simp del] shared_run.simps(2) [simp del] spec_run_Cons [simp]

section \<open>The store as an interface\<close>

locale circuit_store =
  fixes load :: "'st \<Rightarrow> string \<Rightarrow> snapshot option"
    and save :: "'st \<Rightarrow> string \<Rightarrow> snapshot \<Rightarrow> 'st"
  assumes load_save: "load (save s p sn) p = Some sn"
    and load_save_other: "p \<noteq> q \<Longrightarrow> load (save s p sn) q = load s q"
begin

text \<open>What any breaker object of provider \<open>p\<close> sees after a write by another one.\<close>

lemma refresh_persist:
  assumes "cb_provider b = Some p" and "cb_provider b' = Some p"
    and "cb_config b' = cb_config b" and "0 \<le> cb_failures b"
  shows "refresh load (persist save (Some s) b) b' = b"
  using assms by (simp add: refresh_def persist_def load_save)

lemma refresh_persist_other:
  assumes "cb_provider b = Some p" and "cb_provider b' = Some q" and "p \<noteq> q"
  shows "refresh load (persist save (Some s) b) b' = refresh load (Some s) b'"
  using assms by (simp add: refresh_def persist_def load_save_other)

lemma refresh_idem: "refresh load st (refresh load st b) = refresh load st b"
  by (auto simp: refresh_def split: option.splits)

text \<open>One step of one process, seen through the breaker of any process.\<close>

lemma shared_step:
  assumes "breaker_inv (refresh load (Some s) b)" and "cb_provider b = Some p"
    and step: "breaker_step load save ev (b, Some s) = (r, (b', st'))"
    and c: "cb_provider c = Some p" "cb_config c = cb_config b"
    and agree: "refresh load (Some s) c = refresh load (Some s) b"
  shows "\<exists>s'. st' = Some s'
    \<and> r = Inr (fst (spec_step (cb_config b) ev (abs_of (refresh load (Some s) b))))
    \<and> abs_of (refresh load (Some s') c) = snd (spec_step (cb_config b) ev (abs_of (refresh load (Some s) b)))
    \<and> refresh load (Some s') b' = refresh load (Some s') c
    \<and> breaker_inv (refresh load (Some s') c)
    \<and> cb_provider b' = Some p \<and> cb_config b' = cb_config b
    \<and> (\<forall>q d. q \<noteq> p \<longrightarrow> cb_provider d = Some q \<longrightarrow> refresh load (Some s') d = refresh load (Some s) d)"
proof -
  let ?v = "refresh load (Some s) b"
  have r: "r = Inr (fst (spec_step (cb_config b) ev (abs_of ?v)))"
    and upd: "case pure_step ev ?v of None \<Rightarrow> (b' = b \<or> b' = ?v) \<and> st' = Some s
                | Some b'' \<Rightarrow> b' = b'' \<and> st' = persist save (Some s) b''"
    using breaker_step_cases [OF assms(1) step] by auto
  show ?thesis
  proof (cases "pure_step ev ?v")
    case None
    with upd r agree assms(1,2) pure_step_spec [OF assms(1), of ev] show ?thesis
      by (auto simp: refresh_idem)
  next
    case (Some b'')
    from pure_step_inv [OF assms(1) Some] assms(2)
    have b'': "breaker_inv b''" "cb_provider b'' = Some p" "cb_config b'' = cb_config b" by auto
    then have pos: "0 \<le> cb_failures b''" by (simp add: breaker_inv_def)
    obtain s' where s': "st' = Some s'" "persist save (Some s) b'' = Some s'" 
      using upd Some b''(2) by (auto simp: persist_def)
    have "refresh load (Some s') c = b''" "refresh load (Some s') b'' = b''"
      using refresh_persist [OF b''(2) c(1) _ pos, of s] refresh_persist [OF b''(2) b''(2) _ pos, of s]
        c(2) b''(3) s'(2) by auto
    moreover have "refresh load (Some s') d = refresh load (Some s) d"
      if "q \<noteq> p" "cb_provider d = Some q" for q d
      using refresh_persist_other [OF b''(2) that(2)] that(1) s'(2) by metis
    ultimately show ?thesis
      using upd Some r b'' s' pure_step_spec [OF assms(1), of ev] by auto
  qed
qed

text \<open>Any interleaving of operations by any number of processes.\<close>

lemma shared_run_spec:
  assumes "\<And>i. cb_provider (procs i) = Some p \<and> cb_config (procs i) = cfg
             \<and> refresh load (Some s) (procs i) = v"
    and "breaker_inv v"
  shows "fst (shared_run load save es (procs, Some s)) = map Inr (fst (spec_run cfg (map snd es) (abs_of v)))
    \<and> (\<exists>procs' s' v'. snd (shared_run load save es (procs, Some s)) = (procs', Some s')
        \<and> (\<forall>i. cb_provider (procs' i) = Some p \<and> refresh load (Some s') (procs' i) = v')
        \<and> abs_of v' = snd (spec_run cfg (map snd es) (abs_of v)) \<and> breaker_inv v')"
  using assms
proof (induction es arbitrary: procs s v)
  case Nil
  then show ?case by auto
next
  case (Cons e es)
  obtain i ev where e: "e = (i, ev)" by (cases e)
  note pr = Cons.prems(1)
  have v: "refresh load (Some s) (procs i) = v" and inv: "breaker_inv (refresh load (Some s) (procs i))"
    using pr Cons.prems(2) by auto
  obtain r b' st' where step: "breaker_step load save ev (procs i, Some s) = (r, (b', st'))"
    by (rule prod_cases3)
  have sh: "\<exists>s'. st' = Some s' \<and> r = Inr (fst (spec_step cfg ev (abs_of v)))
      \<and> abs_of (refresh load (Some s') (procs j)) = snd (spec_step cfg ev (abs_of v))
      \<and> refresh load (Some s') b' = refresh load (Some s') (procs j)
      \<and> breaker_inv (refresh load (Some s') (procs j)) \<and> cb_provider b' = Some p \<and> cb_config b' = cfg" for j
    using shared_step [OF inv _ step, of p "procs j"] pr v by auto
  then obtain s' where s': "st' = Some s'" by blast
  let ?v' = "refresh load (Some s') b'"
  have procs': "cb_provider ((procs(i := b')) j) = Some p \<and> cb_config ((procs(i := b')) j) = cfg
      \<and> refresh load (Some s') ((procs(i := b')) j) = ?v'" for j
    using sh [of j] pr s' by auto
  have v': "breaker_inv ?v'" "abs_of ?v' = snd (spec_step cfg ev (abs_of v))"
    "r = Inr (fst (spec_step cfg ev (abs_of v)))"
    using sh [of i] s' by auto
  have "fst (shared_run load save es (procs(i := b'), Some s'))
        = map Inr (fst (spec_run cfg (map snd es) (abs_of ?v')))
      \<and> (\<exists>procs'' s'' v''. snd (shared_run load save es (procs(i := b'), Some s')) = (procs'', Some s'')
          \<and> (\<forall>i. cb_provider (procs'' i) = Some p \<and> refresh load (Some s'') (procs'' i) = v'')
          \<and> abs_of v'' = snd (spec_run cfg (map snd es) (abs_of ?v')) \<and> breaker_inv v'')"
    by (rule Cons.IH) (use procs' v'(1) in auto)
  then show ?case
    using v' by (simp add: e shared_run_Cons [where procs = procs and i = i, OF step] s')
qed

end

text \<open>The SQL repository keeps the promise.\<close>

interpretation sql: circuit_store sql_load sql_save
  by unfold_locales (auto simp: sql_load_def sql_save_def upsert_def Let_def split: option.splits)

section \<open>Facts about the abstract machine\<close>

lemma spec_run_length [simp]: "length (fst (spec_run cfg es a)) = length es"
  by (induction es arbitrary: a) auto

text \<open>The decisions on requests in a run: the outputs that belong to \<open>EvAllow\<close>.\<close>

definition is_allow :: "breaker_event \<Rightarrow> bool" where
  "is_allow ev = (case ev of EvAllow _ \<Rightarrow> True | _ \<Rightarrow> False)"

definition counts :: "breaker_config \<Rightarrow> breaker_event \<Rightarrow> bool" where
  "counts cfg ev = (case ev of EvFailure _ c \<Rightarrow> is_eligible cfg c | _ \<Rightarrow> True)"

definition admissions :: "breaker_event list \<Rightarrow> bool list \<Rightarrow> bool list" where
  "admissions es outs = map snd (filter (is_allow \<circ> fst) (zip es outs))"

lemma admissions_simps [simp]:
  "admissions [] outs = []"
  "admissions (e # es) (r # outs) = (if is_allow e then r # admissions es outs else admissions es outs)"
  by (simp_all add: admissions_def)

lemma spec_ineligible: "\<not> counts cfg ev \<Longrightarrow> spec_step cfg ev a = (True, a)"
  by (cases a) (auto simp: counts_def split: breaker_event.splits)

lemma spec_run_ignores:
  "admissions es (fst (spec_run cfg es a))
     = admissions (filter (counts cfg) es) (fst (spec_run cfg (filter (counts cfg) es) a))
   \<and> snd (spec_run cfg es a) = snd (spec_run cfg (filter (counts cfg) es) a)"
proof (induction es arbitrary: a)
  case Nil
  then show ?case by simp
next
  case (Cons ev es)
  show ?case
  proof (cases "counts cfg ev")
    case True
    then show ?thesis using Cons.IH [of "snd (spec_step cfg ev a)"] by auto
  next
    case False
    then have "\<not> is_allow ev" by (auto simp: counts_def is_allow_def split: breaker_event.splits)
    then show ?thesis using Cons.IH [of a] False spec_ineligible [OF False, of a] by auto
  qed
qed

text \<open>While it is open and cooling down, nothing closes the circuit.\<close>

lemma spec_run_cooldown:
  assumes "\<forall>t. EvAllow t \<in> set es \<longrightarrow> t - o_at < cooldown_seconds cfg"
  shows "snd (spec_run cfg es (AOpen o_at)) = AOpen o_at
    \<and> (\<forall>j < length es. is_allow (es ! j) \<longrightarrow> \<not> fst (spec_run cfg es (AOpen o_at)) ! j)"
  using assms
proof (induction es)
  case (Cons ev es)
  then have "snd (spec_step cfg ev (AOpen o_at)) = AOpen o_at"
      "is_allow ev \<Longrightarrow> \<not> fst (spec_step cfg ev (AOpen o_at))"
    by (cases ev; force simp: is_allow_def)+
  with Cons show ?case by (auto simp: less_Suc_eq_0_disj)
qed simp

definition failures_in :: "breaker_config \<Rightarrow> breaker_event list \<Rightarrow> nat" where
  "failures_in cfg es = length (filter (\<lambda>ev. case ev of EvFailure _ c \<Rightarrow> is_eligible cfg c | _ \<Rightarrow> False) es)"

lemma spec_run_below_threshold:
  assumes "int (k + failures_in cfg es) < failure_threshold cfg"
  shows "\<exists>k'. snd (spec_run cfg es (AClosed k)) = AClosed k' \<and> set (fst (spec_run cfg es (AClosed k))) \<subseteq> {True}"
  using assms
proof (induction es arbitrary: k)
  case (Cons ev es)
  show ?case
  proof (cases ev)
    case (EvFailure t c)
    show ?thesis
    proof (cases "is_eligible cfg c")
      case True
      then have "int (k + 1 + failures_in cfg es) < failure_threshold cfg"
        using Cons.prems EvFailure by (simp add: failures_in_def)
      from Cons.IH [OF this] Cons.prems True EvFailure show ?thesis
        by (auto simp: failures_in_def)
    next
      case False
      then show ?thesis using Cons.IH [of k] Cons.prems EvFailure
        by (auto simp: failures_in_def)
    qed
  next
    case (EvAllow t)
    then show ?thesis using Cons.IH [of k] Cons.prems
      by (auto simp: failures_in_def)
  next
    case EvSuccess
    then show ?thesis using Cons.IH [of 0] Cons.prems
      by (auto simp: failures_in_def)
  qed
qed simp


lemma shared_run_untouched:
  "i \<notin> fst ` set es \<Longrightarrow> fst (snd (shared_run load save es (procs, st))) i = procs i"
proof (induction es arbitrary: procs st)
  case (Cons e es)
  obtain j ev where e: "e = (j, ev)" by (cases e)
  obtain r b' st' where step: "breaker_step load save ev (procs j, st) = (r, (b', st'))"
    by (rule prod_cases3)
  show ?case using Cons by (simp add: e shared_run_Cons [where procs = procs and i = j, OF step])
qed simp

text \<open>The object that \<open>CircuitBreaker(cfg, provider_id=p, store=...)\<close> sets up before it reads the
  store.\<close>

definition blank_breaker :: "breaker_config \<Rightarrow> string \<Rightarrow> breaker" where
  "blank_breaker cfg p = \<lparr>cb_config = cfg, cb_provider = Some p, cb_state = CLOSED,
     cb_failures = 0, cb_opened_at = None\<rparr>"

lemma new_breaker_blank:
  "p \<noteq> [] \<Longrightarrow> new_breaker load cfg (Some p) st = Inr (refresh load st (blank_breaker cfg p))"
  by (simp add: new_breaker_def blank_breaker_def)

text \<open>The rows that breakers write: a closed circuit is below its threshold, an open one knows
  since when.\<close>

definition row_ok :: "breaker_config \<Rightarrow> breaker_row \<Rightarrow> bool" where
  "row_ok cfg row \<longleftrightarrow> (row_state row = CLOSED \<longrightarrow> row_failures row < failure_threshold cfg)
     \<and> (row_state row = OPEN \<longrightarrow> row_opened_at row \<noteq> None)"

lemma blank_refresh_inv:
  assumes "config_ok cfg" and "\<And>row. tbl p = Some row \<Longrightarrow> row_ok cfg row"
  shows "breaker_inv (refresh sql_load (Some tbl) (blank_breaker cfg p))"
  using assms
  by (cases "tbl p")
    (auto simp: breaker_inv_def refresh_def blank_breaker_def sql_load_def row_ok_def config_ok_iff)

lemma shared_breakers_spec:
  assumes "config_ok cfg" and "p \<noteq> []" and "\<And>row. tbl p = Some row \<Longrightarrow> row_ok cfg row"
    and "new_breaker sql_load cfg (Some p) (Some tbl) = Inr b"
  shows "\<exists>procs' tbl' b'.
      shared_run sql_load sql_save es (\<lambda>_. blank_breaker cfg p, Some tbl)
        = (map Inr (fst (spec_run cfg (map snd es) (abs_of b))), (procs', Some tbl'))
    \<and> new_breaker sql_load cfg (Some p) (Some tbl') = Inr b'
    \<and> abs_of b' = snd (spec_run cfg (map snd es) (abs_of b))"
proof -
  let ?c = "blank_breaker cfg p"
  have b: "b = refresh sql_load (Some tbl) ?c"
    using assms(4) by (simp add: new_breaker_blank assms(2))
  have c: "cb_provider ?c = Some p" "cb_config ?c = cfg" by (simp_all add: blank_breaker_def)
  obtain i where i: "i \<notin> fst ` set es"
    using ex_new_if_finite [OF infinite_UNIV_nat, of "fst ` set es"] by auto
  have inv: "breaker_inv b" unfolding b by (rule blank_refresh_inv) (use assms in auto)
  have run: "fst (shared_run sql_load sql_save es (\<lambda>_. ?c, Some tbl))
        = map Inr (fst (spec_run cfg (map snd es) (abs_of b)))
      \<and> (\<exists>procs' s' v'. snd (shared_run sql_load sql_save es (\<lambda>_. ?c, Some tbl)) = (procs', Some s')
          \<and> (\<forall>i. cb_provider (procs' i) = Some p \<and> refresh sql_load (Some s') (procs' i) = v')
          \<and> abs_of v' = snd (spec_run cfg (map snd es) (abs_of b)) \<and> breaker_inv v')"
    by (rule sql.shared_run_spec) (use c b inv in auto)
  then obtain procs' tbl' v' where out: "snd (shared_run sql_load sql_save es (\<lambda>_. ?c, Some tbl)) = (procs', Some tbl')"
    and v': "refresh sql_load (Some tbl') (procs' i) = v'"
      "abs_of v' = snd (spec_run cfg (map snd es) (abs_of b))" by blast
  have "procs' i = ?c" using shared_run_untouched [OF i, of sql_load sql_save "\<lambda>_. ?c" "Some tbl"] out by simp
  then have "new_breaker sql_load cfg (Some p) (Some tbl') = Inr v'"
    using v'(1) by (simp add: new_breaker_blank assms(2))
  then show ?thesis using run out v'(2) by (metis prod.collapse)
qed

section \<open>Claims\<close>


definition outage_code :: code_arg where
  "outage_code = Code E_UNAVAILABLE"

definition two_strikes :: breaker_config where
  "two_strikes = \<lparr>failure_threshold = 2, cooldown_seconds = 30, trip_codes = DEFAULT_RETRYABLE_CODES\<rparr>"

lemma two_strikes_ok: "config_ok two_strikes"
  by (simp add: config_ok_iff two_strikes_def)




text \<open> Failures whose code is outside \<open>trip_codes\<close> never matter: dropping them from a run of
  the shared breakers changes no decision on any request, and leaves the same circuit state.\<close>

theorem ineligible_failures_never_matter:
  assumes "config_ok cfg" and "p \<noteq> []" and "\<And>row. tbl p = Some row \<Longrightarrow> row_ok cfg row"
    and "new_breaker sql_load cfg (Some p) (Some tbl) = Inr b"
  shows "\<exists>outs procs' tbl' outs' procs'' tbl'' b' b''.
      shared_run sql_load sql_save es (\<lambda>_. blank_breaker cfg p, Some tbl) = (map Inr outs, (procs', Some tbl'))
    \<and> shared_run sql_load sql_save (filter (counts cfg \<circ> snd) es) (\<lambda>_. blank_breaker cfg p, Some tbl)
        = (map Inr outs', (procs'', Some tbl''))
    \<and> admissions (map snd es) outs = admissions (map snd (filter (counts cfg \<circ> snd) es)) outs'
    \<and> new_breaker sql_load cfg (Some p) (Some tbl') = Inr b'
    \<and> new_breaker sql_load cfg (Some p) (Some tbl'') = Inr b'' \<and> abs_of b' = abs_of b''"
proof -
  have "map snd (filter (counts cfg \<circ> snd) es) = filter (counts cfg) (map snd es)"
    by (simp add: filter_map)
  then show ?thesis
    using shared_breakers_spec [OF assms, of es]
      shared_breakers_spec [OF assms, of "filter (counts cfg \<circ> snd) es"]
      spec_run_ignores [of "map snd es" cfg "abs_of b"] by metis
qed

lemma ineligible_failures_never_matter_witness:
  "\<exists>outs procs' tbl' outs' procs'' tbl'' b' b''.
      shared_run sql_load sql_save [(0, EvFailure 1 (Code E_AUTH)), (1, EvAllow 2)]
        (\<lambda>_. blank_breaker two_strikes ''web'', Some Map.empty) = (map Inr outs, (procs', Some tbl'))
    \<and> shared_run sql_load sql_save (filter (counts two_strikes \<circ> snd) [(0, EvFailure 1 (Code E_AUTH)), (1, EvAllow 2)])
        (\<lambda>_. blank_breaker two_strikes ''web'', Some Map.empty) = (map Inr outs', (procs'', Some tbl''))
    \<and> admissions [EvFailure 1 (Code E_AUTH), EvAllow 2] outs
        = admissions (map snd (filter (counts two_strikes \<circ> snd)
            [(0 :: nat, EvFailure 1 (Code E_AUTH)), (1, EvAllow 2)])) outs'
    \<and> new_breaker sql_load two_strikes (Some ''web'') (Some tbl') = Inr b'
    \<and> new_breaker sql_load two_strikes (Some ''web'') (Some tbl'') = Inr b'' \<and> abs_of b' = abs_of b''"
  using ineligible_failures_never_matter [OF two_strikes_ok, of "''web''" Map.empty
      "blank_breaker two_strikes ''web''" "[(0, EvFailure 1 (Code E_AUTH)), (1, EvAllow 2)]"]
  by (simp add: new_breaker_def blank_breaker_def refresh_def sql_load_def)

text \<open>A half-open circuit admits every request, not one probe: any number of requests is
  let through before the first outcome is reported.\<close>

theorem half_open_admits_every_request:
  assumes "config_ok cfg" and "p \<noteq> []"
    and "tbl p = Some \<lparr>row_state = HALF_OPEN, row_failures = k, row_opened_at = since\<rparr>"
  shows "fst (shared_run sql_load sql_save (map (\<lambda>i. (i, EvAllow (of_nat i))) [0 ..< n])
      (\<lambda>_. blank_breaker cfg p, Some tbl)) = replicate n (Inr True)"
proof -
  have ok: "\<And>row. tbl p = Some row \<Longrightarrow> row_ok cfg row" using assms(3) by (simp add: row_ok_def)
  obtain b where nb: "new_breaker sql_load cfg (Some p) (Some tbl) = Inr b"
    by (simp add: new_breaker_blank assms(2))
  then have b: "abs_of b = AHalf"
    by (auto simp: new_breaker_blank assms(2,3) refresh_def sql_load_def blank_breaker_def abs_of_def)
  have "fst (spec_run cfg (map EvAllow ts) AHalf) = replicate (length ts) True" for ts
    by (induction ts) auto
  from this [of "map of_nat [0 ..< n]"]
    shared_breakers_spec [OF assms(1,2) ok nb, of "map (\<lambda>i. (i, EvAllow (of_nat i))) [0 ..< n]"]
  show ?thesis by (auto simp: b comp_def)
qed

lemma half_open_admits_every_request_witness:
  "fst (shared_run sql_load sql_save (map (\<lambda>i. (i, EvAllow (of_nat i))) [0 ..< 3])
      (\<lambda>_. blank_breaker two_strikes ''web'',
       Some [''web'' \<mapsto> \<lparr>row_state = HALF_OPEN, row_failures = 2, row_opened_at = Some 1\<rparr>])) = replicate 3 (Inr True)"
  by (rule half_open_admits_every_request [OF two_strikes_ok, where k = 2 and since = "Some 1"]) auto

end
