(* ===== verification/Cron.thy ===== *)
theory Cron
  imports Core_Types
begin

text \<open>
  The cron parser and evaluator of \<^verbatim>\<open>era/core/cron.py\<close>: field parsing, the five-field
  schedule, and the search for the next run.  Dates are UTC in Python's proleptic Gregorian
  calendar, years 1 to 9999; leaving that range raises, as it does in \<open>datetime\<close>.
\<close>

datatype cron_exc =
    CronError string
  | ValueErr string
  | OverflowErr

section \<open>Field parsing\<close>

text \<open>\<open>re.sub(rf"\b{name}\b", rep, s)\<close>: a word boundary on both sides; \<open>prev\<close> says whether the
  character before the current position is a word character.\<close>

function (sequential) sub_word :: "string \<Rightarrow> string \<Rightarrow> bool \<Rightarrow> string \<Rightarrow> string" where
  "sub_word name rep prev [] = []"
| "sub_word name rep prev (c # cs) =
     (let rest = drop (length name) (c # cs);
          after = (case rest of [] \<Rightarrow> False | d # _ \<Rightarrow> is_word d)
      in if name \<noteq> [] \<and> \<not> prev \<and> starts_with name (c # cs) \<and> \<not> after
         then rep @ sub_word name rep True rest
         else c # sub_word name rep (is_word c) cs)"
  by pat_completeness auto
termination
  by (relation "measure (\<lambda>(name, rep, prev, s). length s)") auto

fun sub_names :: "(string \<times> int) list \<Rightarrow> string \<Rightarrow> string" where
  "sub_names [] s = s"
| "sub_names ((name, val) # rest) s = sub_names rest (sub_word name (show_int val) False s)"

definition MONTH_NAMES :: "(string \<times> int) list" where
  "MONTH_NAMES =
     [(''JAN'', 1), (''FEB'', 2), (''MAR'', 3), (''APR'', 4), (''MAY'', 5), (''JUN'', 6),
      (''JUL'', 7), (''AUG'', 8), (''SEP'', 9), (''OCT'', 10), (''NOV'', 11), (''DEC'', 12)]"

definition DOW_NAMES :: "(string \<times> int) list" where
  "DOW_NAMES =
     [(''SUN'', 0), (''MON'', 1), (''TUE'', 2), (''WED'', 3), (''THU'', 4), (''FRI'', 5), (''SAT'', 6)]"

definition ALIASES :: "(string \<times> string) list" where
  "ALIASES =
     [(''@hourly'', ''0 * * * *''), (''@daily'', ''0 0 * * *''), (''@midnight'', ''0 0 * * *''),
      (''@weekly'', ''0 0 * * 0''), (''@monthly'', ''0 0 1 * *''), (''@yearly'', ''0 0 1 1 *''),
      (''@annually'', ''0 0 1 1 *'')]"

text \<open>\<open>range(start, end + 1, step)\<close> for a positive step.\<close>

definition py_range :: "int \<Rightarrow> int \<Rightarrow> int \<Rightarrow> int list" where
  "py_range start stop step = filter (\<lambda>v. (v - start) mod step = 0) [start .. stop]"

text \<open>One comma-separated part of a field.\<close>

definition parse_part :: "int \<Rightarrow> int \<Rightarrow> string \<Rightarrow> (cron_exc, int set) result" where
  "parse_part min_val max_val part0 =
     (let part = strip part0 in
      if part = [] then Inl (CronError ''invalid empty element in cron field'')
      else
        let (before, slash, after) = partition_on CHR ''/'' part;
            step_res =
              (if slash then
                 (case py_int after of
                    None \<Rightarrow> Inl (CronError ''invalid step in cron field'')
                  | Some n \<Rightarrow> if n \<le> 0 then Inl (CronError ''invalid step in cron field'') else Inr n)
               else Inr 1)
        in (case step_res of
              Inl e \<Rightarrow> Inl e
            | Inr step \<Rightarrow>
                let bounds =
                  (if before = ''*'' then Inr (min_val, max_val)
                   else
                     let (lo, dash, hi) = partition_on CHR ''-'' before in
                     if dash then
                       (case (py_int lo, py_int hi) of
                          (Some a, Some b) \<Rightarrow> Inr (a, b)
                        | _ \<Rightarrow> Inl (CronError ''invalid range in cron field''))
                     else
                       (case py_int before of
                          Some a \<Rightarrow> Inr (a, a)
                        | None \<Rightarrow> Inl (CronError ''invalid number in cron field'')))
                in (case bounds of
                      Inl e \<Rightarrow> Inl e
                    | Inr (a, b) \<Rightarrow>
                        if a < min_val \<or> max_val < b \<or> b < a
                        then Inl (CronError ''value out of bounds'')
                        else Inr (set (py_range a b step)))))"

fun parse_parts :: "int \<Rightarrow> int \<Rightarrow> string list \<Rightarrow> int set \<Rightarrow> (cron_exc, int set) result" where
  "parse_parts lo hi [] allowed = Inr allowed"
| "parse_parts lo hi (p # ps) allowed =
     (case parse_part lo hi p of
        Inl e \<Rightarrow> Inl e
      | Inr vs \<Rightarrow> parse_parts lo hi ps (allowed \<union> vs))"

definition parse_field :: "string \<Rightarrow> int \<Rightarrow> int \<Rightarrow> (string \<times> int) list \<Rightarrow> (cron_exc, int set) result" where
  "parse_field field_str min_val max_val name_map =
     (let s = upper (strip field_str) in
      if s = [] then Inl (CronError ''empty cron field'')
      else parse_parts min_val max_val (split_on CHR '','' (sub_names name_map s)) {})"

record cron_schedule =
  cr_minutes :: "int set"
  cr_hours :: "int set"
  cr_days_of_month :: "int set"
  cr_months :: "int set"
  cr_days_of_week :: "int set"

text \<open>\<open>CronSchedule(expr)\<close>.\<close>

definition parse_cron :: "string \<Rightarrow> (cron_exc, cron_schedule) result" where
  "parse_cron expr =
     (let raw = strip expr;
          norm = (case map_of ALIASES (lower raw) of Some a \<Rightarrow> a | None \<Rightarrow> raw);
          fields = split_ws norm
      in if length fields \<noteq> 5 then Inl (CronError ''cron expression must have 5 fields (or alias)'')
      else (case parse_field (fields ! 0) 0 59 [] of Inl e \<Rightarrow> Inl e | Inr mins \<Rightarrow>
           (case parse_field (fields ! 1) 0 23 [] of Inl e \<Rightarrow> Inl e | Inr hrs \<Rightarrow>
           (case parse_field (fields ! 2) 1 31 [] of Inl e \<Rightarrow> Inl e | Inr doms \<Rightarrow>
           (case parse_field (fields ! 3) 1 12 MONTH_NAMES of Inl e \<Rightarrow> Inl e | Inr mons \<Rightarrow>
           (case parse_field (fields ! 4) 0 7 DOW_NAMES of Inl e \<Rightarrow> Inl e | Inr dow_raw \<Rightarrow>
              Inr \<lparr>cr_minutes = mins, cr_hours = hrs, cr_days_of_month = doms, cr_months = mons,
                   cr_days_of_week = (\<lambda>d. if d = 7 then 0 else d) ` dow_raw\<rparr>))))))"

section \<open>Dates\<close>

record datetime =
  dt_year :: int
  dt_month :: int
  dt_day :: int
  dt_hour :: int
  dt_minute :: int
  dt_second :: int
  dt_micro :: int

definition is_leap :: "int \<Rightarrow> bool" where
  "is_leap y = (y mod 4 = 0 \<and> (y mod 100 \<noteq> 0 \<or> y mod 400 = 0))"

definition days_in_month :: "int \<Rightarrow> int \<Rightarrow> int" where
  "days_in_month y m =
     (if m = 2 then (if is_leap y then 29 else 28)
      else if m \<in> {4, 6, 9, 11} then 30 else 31)"

definition days_before_year :: "int \<Rightarrow> int" where
  "days_before_year y = (y - 1) * 365 + (y - 1) div 4 - (y - 1) div 100 + (y - 1) div 400"

definition days_before_month :: "int \<Rightarrow> int \<Rightarrow> int" where
  "days_before_month y m = sum_list (map (days_in_month y) [1 .. m - 1])"

definition ordinal :: "int \<Rightarrow> int \<Rightarrow> int \<Rightarrow> int" where
  "ordinal y m d = days_before_year y + days_before_month y m + d"

definition weekday :: "datetime \<Rightarrow> int" where
  "weekday dt = (ordinal (dt_year dt) (dt_month dt) (dt_day dt) + 6) mod 7"

definition valid_dt :: "datetime \<Rightarrow> bool" where
  "valid_dt dt \<longleftrightarrow> 1 \<le> dt_year dt \<and> dt_year dt \<le> 9999 \<and> 1 \<le> dt_month dt \<and> dt_month dt \<le> 12
     \<and> 1 \<le> dt_day dt \<and> dt_day dt \<le> days_in_month (dt_year dt) (dt_month dt)
     \<and> 0 \<le> dt_hour dt \<and> dt_hour dt < 24 \<and> 0 \<le> dt_minute dt \<and> dt_minute dt < 60
     \<and> 0 \<le> dt_second dt \<and> dt_second dt < 60 \<and> 0 \<le> dt_micro dt \<and> dt_micro dt < 1000000"

text \<open>\<open>dt + timedelta(days=1)\<close>, \<open>hours=1\<close> and \<open>minutes=1\<close>: addition with carry.\<close>

definition add_day :: "datetime \<Rightarrow> (cron_exc, datetime) result" where
  "add_day dt =
     (if dt_day dt < days_in_month (dt_year dt) (dt_month dt) then Inr (dt\<lparr>dt_day := dt_day dt + 1\<rparr>)
      else if dt_month dt < 12 then Inr (dt\<lparr>dt_day := 1, dt_month := dt_month dt + 1\<rparr>)
      else if dt_year dt < 9999
      then Inr (dt\<lparr>dt_day := 1, dt_month := 1, dt_year := dt_year dt + 1\<rparr>)
      else Inl OverflowErr)"

definition add_hour :: "datetime \<Rightarrow> (cron_exc, datetime) result" where
  "add_hour dt =
     (if dt_hour dt < 23 then Inr (dt\<lparr>dt_hour := dt_hour dt + 1\<rparr>)
      else add_day (dt\<lparr>dt_hour := 0\<rparr>))"

definition add_minute :: "datetime \<Rightarrow> (cron_exc, datetime) result" where
  "add_minute dt =
     (if dt_minute dt < 59 then Inr (dt\<lparr>dt_minute := dt_minute dt + 1\<rparr>)
      else add_hour (dt\<lparr>dt_minute := 0\<rparr>))"

text \<open>The jump to the first day of the next month; \<open>replace(year=10000)\<close> raises.\<close>

definition next_month :: "datetime \<Rightarrow> (cron_exc, datetime) result" where
  "next_month dt =
     (if dt_month dt = 12 then
        (if 9999 < dt_year dt + 1 then Inl (ValueErr ''year is out of range'')
         else Inr (dt\<lparr>dt_year := dt_year dt + 1, dt_month := 1, dt_day := 1, dt_hour := 0, dt_minute := 0\<rparr>))
      else Inr (dt\<lparr>dt_month := dt_month dt + 1, dt_day := 1, dt_hour := 0, dt_minute := 0\<rparr>))"

definition cron_dow :: "datetime \<Rightarrow> int" where
  "cron_dow dt = (weekday dt + 1) mod 7"

definition MAX_ITERATIONS :: int where
  "MAX_ITERATIONS = 5 * 366 * 24 * 60"

text \<open>One pass through the loop body: \<open>Inr (Inl dt)\<close> continues with \<open>dt\<close>, \<open>Inr (Inr dt)\<close>
  returns it.\<close>

definition search_body :: "cron_schedule \<Rightarrow> datetime \<Rightarrow> (cron_exc, datetime + datetime) result" where
  "search_body sch dt =
     (if dt_month dt \<notin> cr_months sch then map_sum id Inl (next_month dt)
      else if \<not> (dt_day dt \<in> cr_days_of_month sch \<and> cron_dow dt \<in> cr_days_of_week sch)
      then map_sum id (\<lambda>d. Inl (d\<lparr>dt_hour := 0, dt_minute := 0\<rparr>)) (add_day dt)
      else if dt_hour dt \<notin> cr_hours sch
      then map_sum id (\<lambda>d. Inl (d\<lparr>dt_minute := 0\<rparr>)) (add_hour dt)
      else if dt_minute dt \<notin> cr_minutes sch then map_sum id Inl (add_minute dt)
      else Inr (Inr dt))"

function search :: "cron_schedule \<Rightarrow> int \<Rightarrow> datetime \<Rightarrow> (cron_exc, datetime) result" where
  "search sch iterations dt =
     (if iterations < MAX_ITERATIONS then
        (case search_body sch dt of
           Inl e \<Rightarrow> Inl e
         | Inr (Inl dt') \<Rightarrow> search sch (iterations + 1) dt'
         | Inr (Inr dt') \<Rightarrow> Inr dt')
      else Inl (CronError ''could not find next cron schedule run within 5 years''))"
  by pat_completeness auto
termination
  by (relation "measure (\<lambda>(sch, iterations, dt). nat (MAX_ITERATIONS - iterations))") auto

declare search.simps [simp del]

definition next_after :: "cron_schedule \<Rightarrow> datetime \<Rightarrow> (cron_exc, datetime) result" where
  "next_after sch from_dt =
     (case add_minute (from_dt\<lparr>dt_second := 0, dt_micro := 0\<rparr>) of
        Inl e \<Rightarrow> Inl e
      | Inr dt \<Rightarrow> search sch 0 dt)"

lemma cron_examples:
  "map_sum id (\<lambda>s. (cr_minutes s, cr_days_of_week s)) (parse_cron ''*/20 9-17 * JAN-MAR MON,7'')
     = Inr ({0, 20, 40}, {0, 1})"
  "map_sum id (\<lambda>_. ()) (parse_cron ''61 * * * *'') = Inl (CronError ''value out of bounds'')"
  "map_sum id (\<lambda>s. cr_hours s) (parse_cron '' @Daily '') = Inr {0}"
  by code_simp+

section \<open>The calendar\<close>

lemma dim_bounds: "28 \<le> days_in_month y m \<and> days_in_month y m \<le> 31"
  by (simp add: days_in_month_def)

lemma div_pred:
  assumes "(0 :: int) < k"
  shows "y div k = (y - 1) div k + (if y mod k = 0 then 1 else 0)"
proof (cases "y mod k = 0")
  case True
  have "(y - 1) div k = y div k - 1"
    by (rule int_div_pos_eq [where r = "k - 1"]) (use assms True in \<open>auto simp: algebra_simps\<close>)
  then show ?thesis using True by simp
next
  case False
  have "0 \<le> y mod k" "y mod k < k" "y = k * (y div k) + y mod k" using assms by auto
  then have "(y - 1) div k = y div k"
    using False by (intro int_div_pos_eq [where r = "y mod k - 1"]) linarith+
  then show ?thesis using False by simp
qed

lemma days_before_year_step:
  "days_before_year (y + 1) = days_before_year y + (if is_leap y then 366 else 365)"
proof -
  have "(100 :: int) dvd 400" by (rule dvdI [of _ _ 4]) simp
  then have c: "y mod 400 = 0 \<Longrightarrow> y mod 100 = 0"
    unfolding mod_eq_0_iff_dvd by (rule dvd_trans)
  have "(4 :: int) dvd 100" by (rule dvdI [of _ _ 25]) simp
  then have d: "y mod 100 = 0 \<Longrightarrow> y mod 4 = 0"
    unfolding mod_eq_0_iff_dvd by (rule dvd_trans)
  have count: "y * 365 + A - B + C
      = (y - 1) * 365 + a - b + k + (if P \<and> (\<not> Q \<or> R) then 366 else 365)"
    if "A = a + (if P then 1 else 0)" "B = b + (if Q then 1 else 0)" "C = k + (if R then 1 else 0)"
      "R \<Longrightarrow> Q" "Q \<Longrightarrow> P" for A B C a b k :: int and P Q R
    using that by (cases P; cases Q; cases R) simp_all
  have "days_before_year (y + 1) = y * 365 + y div 4 - y div 100 + y div 400"
    by (simp add: days_before_year_def)
  also have "\<dots> = (y - 1) * 365 + (y - 1) div 4 - (y - 1) div 100 + (y - 1) div 400
      + (if y mod 4 = 0 \<and> (y mod 100 \<noteq> 0 \<or> y mod 400 = 0) then 366 else 365)"
    by (rule count) (rule div_pred, simp, rule div_pred, simp, rule div_pred, simp, fact c, fact d)
  finally show ?thesis unfolding days_before_year_def is_leap_def .
qed

lemma days_before_month_step:
  "1 \<le> m \<Longrightarrow> days_before_month y (m + 1) = days_before_month y m + days_in_month y m"
  by (simp add: days_before_month_def upto_rec2)

lemma days_before_month_1 [simp]: "days_before_month y 1 = 0"
  by (simp add: days_before_month_def)

lemma days_before_month_13: "days_before_month y 13 = (if is_leap y then 366 else 365)"
proof -
  have "[1 .. (12 :: int)] = [1, 2, 3, 4, 5, 6, 7, 8, 9, 10, 11, 12]" by code_simp
  then show ?thesis by (simp add: days_before_month_def days_in_month_def)
qed

lemma days_before_month_mono:
  assumes "1 \<le> m" and "m < m'"
  shows "days_before_month y m + days_in_month y m \<le> days_before_month y m'"
proof -
  from assms(2) have "m + 1 \<le> m'" by simp
  then show ?thesis
  proof (induction m' rule: int_ge_induct)
    case base
    then show ?case using days_before_month_step [OF assms(1)] by simp
  next
    case (step i)
    then show ?case using days_before_month_step [of i y] dim_bounds [of y i] assms(1) by simp
  qed
qed

lemma days_before_year_mono:
  assumes "y < y'"
  shows "days_before_year y + (if is_leap y then 366 else 365) \<le> days_before_year y'"
proof -
  from assms have "y + 1 \<le> y'" by simp
  then show ?thesis
  proof (induction y' rule: int_ge_induct)
    case base
    then show ?case using days_before_year_step [of y] by simp
  next
    case (step i)
    then show ?case using days_before_year_step [of i] by (simp split: if_splits)
  qed
qed

text \<open>Dates in different months are ordered by their day numbers.\<close>

definition valid_date :: "int \<Rightarrow> int \<Rightarrow> int \<Rightarrow> bool" where
  "valid_date y m d \<longleftrightarrow> 1 \<le> m \<and> m \<le> 12 \<and> 1 \<le> d \<and> d \<le> days_in_month y m"

lemma ordinal_less_month:
  assumes "valid_date y m d" and "valid_date y' m' d'" and "y < y' \<or> (y = y' \<and> m < m')"
  shows "ordinal y m d < ordinal y' m' d' \<and> ordinal y m 1 + days_in_month y m \<le> ordinal y' m' d'"
proof -
  have d: "d \<le> days_in_month y m" "1 \<le> m" "1 \<le> d'" using assms(1,2) by (auto simp: valid_date_def)
  have "days_before_year y + days_before_month y m + days_in_month y m
      \<le> days_before_year y' + days_before_month y' m'"
  proof (cases "y < y'")
    case True
    have "days_before_month y m + days_in_month y m \<le> days_before_month y 13"
      using assms(1) by (intro days_before_month_mono) (auto simp: valid_date_def)
    moreover have "0 \<le> days_before_month y' m'"
      using days_before_month_mono [of 1 m' y'] dim_bounds [of y' 1] assms(2)
      by (cases "m' = 1") (auto simp: valid_date_def)
    ultimately show ?thesis using days_before_year_mono [OF True] by (simp add: days_before_month_13)
  next
    case False
    then show ?thesis using assms(3) days_before_month_mono [OF d(2)] by simp
  qed
  then show ?thesis using d unfolding ordinal_def by linarith
qed

lemma ordinal_inject:
  assumes "valid_date y m d" and "valid_date y' m' d'" and "ordinal y m d = ordinal y' m' d'"
  shows "y = y' \<and> m = m' \<and> d = d'"
proof -
  have "\<not> (y < y' \<or> (y = y' \<and> m < m'))" "\<not> (y' < y \<or> (y' = y \<and> m' < m))"
    using ordinal_less_month [OF assms(1,2)] ordinal_less_month [OF assms(2,1)] assms(3) by auto
  then have "y = y' \<and> m = m'" by auto
  with assms(3) show ?thesis by (simp add: ordinal_def)
qed

section \<open>Minutes as a linear order\<close>

definition minutes :: "datetime \<Rightarrow> int" where
  "minutes dt = ordinal (dt_year dt) (dt_month dt) (dt_day dt) * 1440 + dt_hour dt * 60 + dt_minute dt"

definition on_minute :: "datetime \<Rightarrow> bool" where
  "on_minute dt \<longleftrightarrow> valid_dt dt \<and> dt_second dt = 0 \<and> dt_micro dt = 0"

lemma valid_dt_date: "valid_dt dt \<Longrightarrow> valid_date (dt_year dt) (dt_month dt) (dt_day dt)"
  by (simp add: valid_dt_def valid_date_def)

lemma minutes_parts:
  assumes "valid_dt dt"
  shows "minutes dt div 1440 = ordinal (dt_year dt) (dt_month dt) (dt_day dt)"
    and "minutes dt div 60 = ordinal (dt_year dt) (dt_month dt) (dt_day dt) * 24 + dt_hour dt"
  using assms unfolding minutes_def valid_dt_def by linarith+

lemma minutes_inject:
  assumes "on_minute a" and "on_minute b" and "minutes a = minutes b"
  shows "a = b"
proof -
  have v: "valid_dt a" "valid_dt b" using assms(1,2) by (auto simp: on_minute_def)
  have o: "ordinal (dt_year a) (dt_month a) (dt_day a) = ordinal (dt_year b) (dt_month b) (dt_day b)"
    using minutes_parts(1) v assms(3) by metis
  have d: "dt_year a = dt_year b \<and> dt_month a = dt_month b \<and> dt_day a = dt_day b"
    by (rule ordinal_inject [OF _ _ o]) (use v valid_dt_date in auto)
  have "dt_hour a = dt_hour b" using minutes_parts(2) v assms(3) o by (metis add_left_cancel)
  moreover from this have "dt_minute a = dt_minute b" using assms(3) o by (simp add: minutes_def)
  ultimately show ?thesis using d assms(1,2) by (cases a; cases b) (auto simp: on_minute_def)
qed

lemma add_day_Inr:
  assumes "on_minute dt" and "add_day dt = Inr dt'"
  shows "on_minute dt' \<and> dt_hour dt' = dt_hour dt \<and> dt_minute dt' = dt_minute dt
    \<and> ordinal (dt_year dt') (dt_month dt') (dt_day dt') = ordinal (dt_year dt) (dt_month dt) (dt_day dt) + 1"
proof -
  have dim: "1 \<le> days_in_month y m" for y m using dim_bounds [of y m] by simp
  have v: "valid_dt dt" using assms(1) by (simp add: on_minute_def)
  then have day: "dt_day dt \<le> days_in_month (dt_year dt) (dt_month dt)" "1 \<le> dt_month dt" "dt_month dt \<le> 12"
    by (auto simp: valid_dt_def)
  consider "dt_day dt < days_in_month (dt_year dt) (dt_month dt)" "dt' = dt\<lparr>dt_day := dt_day dt + 1\<rparr>"
    | "dt_day dt = days_in_month (dt_year dt) (dt_month dt)" "dt_month dt < 12"
      "dt' = dt\<lparr>dt_day := 1, dt_month := dt_month dt + 1\<rparr>"
    | "dt_day dt = days_in_month (dt_year dt) (dt_month dt)" "dt_month dt = 12" "dt_year dt < 9999"
      "dt' = dt\<lparr>dt_day := 1, dt_month := 1, dt_year := dt_year dt + 1\<rparr>"
    using assms(2) day by (auto simp: add_day_def split: if_splits)
  then show ?thesis
  proof cases
    case 1
    then show ?thesis using assms(1) by (simp add: on_minute_def valid_dt_def ordinal_def)
  next
    case 2
    then show ?thesis using assms(1) dim days_before_month_step [OF day(2), of "dt_year dt"]
      by (simp add: on_minute_def valid_dt_def ordinal_def)
  next
    case 3
    have "days_before_month (dt_year dt) 13 = days_before_month (dt_year dt) 12 + days_in_month (dt_year dt) 12"
      using days_before_month_step [of 12 "dt_year dt"] by simp
    with 3 show ?thesis using assms(1) dim days_before_year_step [of "dt_year dt"]
      by (simp add: on_minute_def valid_dt_def ordinal_def days_before_month_13)
  qed
qed

lemma add_hour_Inr:
  assumes "on_minute dt" and "add_hour dt = Inr dt'"
  shows "on_minute dt' \<and> dt_minute dt' = dt_minute dt \<and> minutes dt' = minutes dt + 60"
proof (cases "dt_hour dt < 23")
  case True
  then show ?thesis using assms by (auto simp: add_hour_def minutes_def on_minute_def valid_dt_def)
next
  case False
  then have h: "dt_hour dt = 23" "add_day (dt\<lparr>dt_hour := 0\<rparr>) = Inr dt'"
    using assms by (auto simp: add_hour_def on_minute_def valid_dt_def)
  have "on_minute (dt\<lparr>dt_hour := 0\<rparr>)" using assms(1) by (simp add: on_minute_def valid_dt_def)
  from add_day_Inr [OF this h(2)] h(1) show ?thesis by (simp add: minutes_def)
qed

lemma add_minute_Inr:
  assumes "on_minute dt" and "add_minute dt = Inr dt'"
  shows "on_minute dt' \<and> minutes dt' = minutes dt + 1"
proof (cases "dt_minute dt < 59")
  case True
  then show ?thesis using assms by (auto simp: add_minute_def minutes_def on_minute_def valid_dt_def)
next
  case False
  then have h: "dt_minute dt = 59" "add_hour (dt\<lparr>dt_minute := 0\<rparr>) = Inr dt'"
    using assms by (auto simp: add_minute_def on_minute_def valid_dt_def)
  have "on_minute (dt\<lparr>dt_minute := 0\<rparr>)" using assms(1) by (simp add: on_minute_def valid_dt_def)
  from add_hour_Inr [OF this h(2)] h(1) show ?thesis by (simp add: minutes_def)
qed

lemma next_month_Inr:
  assumes "on_minute dt" and "next_month dt = Inr dt'"
  shows "on_minute dt' \<and> minutes dt' = (ordinal (dt_year dt) (dt_month dt) 1 + days_in_month (dt_year dt) (dt_month dt)) * 1440"
proof -
  have dim: "1 \<le> days_in_month y m" for y m using dim_bounds [of y m] by simp
  show ?thesis
  proof (cases "dt_month dt = 12")
    case True
    have "days_before_month (dt_year dt) 13 = days_before_month (dt_year dt) 12 + days_in_month (dt_year dt) 12"
      using days_before_month_step [of 12 "dt_year dt"] by simp
    then show ?thesis using assms True dim days_before_year_step [of "dt_year dt"]
      by (auto simp: next_month_def on_minute_def valid_dt_def ordinal_def minutes_def days_before_month_13 split: if_splits)
  next
    case False
    then show ?thesis using assms dim days_before_month_step [of "dt_month dt" "dt_year dt"]
      by (auto simp: next_month_def on_minute_def valid_dt_def ordinal_def minutes_def)
  qed
qed

section \<open>The search\<close>

definition cron_matches :: "cron_schedule \<Rightarrow> datetime \<Rightarrow> bool" where
  "cron_matches sch dt \<longleftrightarrow> dt_month dt \<in> cr_months sch \<and> dt_day dt \<in> cr_days_of_month sch
     \<and> cron_dow dt \<in> cr_days_of_week sch \<and> dt_hour dt \<in> cr_hours sch \<and> dt_minute dt \<in> cr_minutes sch"

lemma div_less_mult:
  assumes "(0 :: int) < k" and "b < c * k"
  shows "b div k < c"
proof (rule ccontr)
  assume "\<not> b div k < c"
  then have "c * k \<le> b div k * k" using assms(1) by (simp add: mult_right_mono)
  also have "\<dots> \<le> b" using assms(1) pos_mod_sign [of k b] div_mult_mod_eq [of b k] by linarith
  finally show False using assms(2) by simp
qed

lemma same_month:
  assumes "on_minute dt" and "on_minute e" and "minutes dt \<le> minutes e"
    and "minutes e < (ordinal (dt_year dt) (dt_month dt) 1 + days_in_month (dt_year dt) (dt_month dt)) * 1440"
  shows "dt_year e = dt_year dt \<and> dt_month e = dt_month dt"
proof -
  have v: "valid_dt dt" "valid_dt e" using assms(1,2) by (auto simp: on_minute_def)
  have "minutes dt div 1440 \<le> minutes e div 1440" using assms(3) by (rule zdiv_mono1) simp
  moreover have "minutes e div 1440 < ordinal (dt_year dt) (dt_month dt) 1 + days_in_month (dt_year dt) (dt_month dt)"
    using assms(4) by (intro div_less_mult) simp_all
  ultimately show ?thesis
    using ordinal_less_month [OF valid_dt_date [OF v(1)] valid_dt_date [OF v(2)]]
      ordinal_less_month [OF valid_dt_date [OF v(2)] valid_dt_date [OF v(1)]]
    unfolding minutes_parts(1) [OF v(1)] minutes_parts(1) [OF v(2)]
    by (cases "dt_year e" "dt_year dt" rule: linorder_cases; cases "dt_month e" "dt_month dt" rule: linorder_cases) auto
qed

lemma same_day:
  assumes "on_minute dt" and "on_minute e" and "minutes e div 1440 = minutes dt div 1440"
  shows "dt_year e = dt_year dt \<and> dt_month e = dt_month dt \<and> dt_day e = dt_day dt"
proof -
  have v: "valid_dt dt" "valid_dt e" using assms(1,2) by (auto simp: on_minute_def)
  show ?thesis
    by (rule ordinal_inject [OF valid_dt_date [OF v(2)] valid_dt_date [OF v(1)]])
      (use assms(3) in \<open>simp add: minutes_parts(1) v\<close>)
qed

lemma same_hour:
  assumes "on_minute dt" and "on_minute e" and "minutes e div 60 = minutes dt div 60"
  shows "dt_year e = dt_year dt \<and> dt_month e = dt_month dt \<and> dt_day e = dt_day dt \<and> dt_hour e = dt_hour dt"
proof -
  have v: "valid_dt dt" "valid_dt e" using assms(1,2) by (auto simp: on_minute_def)
  have "minutes x div 1440 = minutes x div 60 div 24" for x by (simp add: zdiv_zmult2_eq [symmetric])
  then have "minutes e div 1440 = minutes dt div 1440" using assms(3) by simp
  from same_day [OF assms(1,2) this] show ?thesis
    using assms(3) minutes_parts(2) [OF v(1)] minutes_parts(2) [OF v(2)] by simp
qed

lemma less_next_mult:
  assumes "(0 :: int) < k"
  shows "b < (b div k + 1) * k"
proof -
  have "b = b div k * k + b mod k" "b mod k < k" using assms by simp_all
  then show ?thesis unfolding distrib_right by linarith
qed

lemma div_between:
  assumes "(0 :: int) < k" and "a \<le> b" and "b < (a div k + 1) * k"
  shows "b div k = a div k"
proof -
  have "a div k \<le> b div k" using assms(1,2) by (simp add: zdiv_mono1)
  moreover have "b div k < a div k + 1"
    using assms(1,3) by (rule div_less_mult)
  ultimately show ?thesis by simp
qed

lemma map_sum_eq_Inr: "map_sum f g x = Inr y \<longleftrightarrow> (\<exists>z. x = Inr z \<and> g z = y)"
  by (cases x) auto

lemma search_body_skip:
  assumes dt: "on_minute dt" and body: "search_body sch dt = Inr (Inl dt')"
  shows "on_minute dt' \<and> minutes dt < minutes dt'
    \<and> (\<forall>e. on_minute e \<and> minutes dt \<le> minutes e \<and> minutes e < minutes dt' \<longrightarrow> \<not> cron_matches sch e)"
proof -
  have v: "valid_dt dt" using dt by (simp add: on_minute_def)
  let ?o = "ordinal (dt_year dt) (dt_month dt) (dt_day dt)"
  consider (month) "dt_month dt \<notin> cr_months sch" "next_month dt = Inr dt'"
    | (day) d where "\<not> (dt_day dt \<in> cr_days_of_month sch \<and> cron_dow dt \<in> cr_days_of_week sch)"
        "add_day dt = Inr d" "dt' = d\<lparr>dt_hour := 0, dt_minute := 0\<rparr>"
    | (hour) d where "dt_hour dt \<notin> cr_hours sch" "add_hour dt = Inr d" "dt' = d\<lparr>dt_minute := 0\<rparr>"
    | (minute) "dt_minute dt \<notin> cr_minutes sch" "add_minute dt = Inr dt'"
    using body by (auto simp: search_body_def map_sum_eq_Inr split: if_splits)
  then show ?thesis
  proof cases
    case month
    from next_month_Inr [OF dt month(2)] have m: "on_minute dt'"
      "minutes dt' = (ordinal (dt_year dt) (dt_month dt) 1 + days_in_month (dt_year dt) (dt_month dt)) * 1440" by auto
    have "minutes dt < minutes dt'"
      unfolding m(2) using v by (simp add: minutes_def valid_dt_def ordinal_def)
    then show ?thesis using m same_month [OF dt] month(1) by (auto simp: cron_matches_def)
  next
    case day
    from add_day_Inr [OF dt day(2)] have d: "on_minute dt'" "minutes dt' = (minutes dt div 1440 + 1) * 1440"
      using day(3) minutes_parts(1) [OF v] by (auto simp: minutes_def on_minute_def valid_dt_def)
    have lt: "minutes dt < minutes dt'" unfolding d(2) by (rule less_next_mult) simp
    have "\<not> cron_matches sch e" if "on_minute e" "minutes dt \<le> minutes e" "minutes e < minutes dt'" for e
    proof -
      from same_day [OF dt that(1) div_between [of 1440, OF _ that(2) that(3) [unfolded d(2)]]]
      have "dt_year e = dt_year dt \<and> dt_month e = dt_month dt \<and> dt_day e = dt_day dt" by simp
      then have "dt_day e = dt_day dt" "cron_dow e = cron_dow dt" by (auto simp: cron_dow_def weekday_def)
      then show ?thesis using day(1) by (auto simp: cron_matches_def)
    qed
    then show ?thesis using d lt by blast
  next
    case hour
    from add_hour_Inr [OF dt hour(2)] have h: "on_minute d" "dt_minute d = dt_minute dt" "minutes d = minutes dt + 60" by auto
    then have d: "on_minute dt'" "minutes dt' = (minutes dt div 60 + 1) * 60"
      using hour(3) minutes_parts(2) [OF v] v by (auto simp: minutes_def on_minute_def valid_dt_def)
    have lt: "minutes dt < minutes dt'" unfolding d(2) by (rule less_next_mult) simp
    have "\<not> cron_matches sch e" if "on_minute e" "minutes dt \<le> minutes e" "minutes e < minutes dt'" for e
      using same_hour [OF dt that(1) div_between [of 60, OF _ that(2) that(3) [unfolded d(2)]]] hour(1)
      by (simp add: cron_matches_def)
    then show ?thesis using d lt by blast
  next
    case minute
    from add_minute_Inr [OF dt minute(2)] have m: "on_minute dt'" "minutes dt' = minutes dt + 1" by auto
    then have "e = dt" if "on_minute e" "minutes dt \<le> minutes e" "minutes e < minutes dt'" for e
      using minutes_inject [OF that(1) dt] that by simp
    then show ?thesis using m minute(1) by (auto simp: cron_matches_def)
  qed
qed

lemma search_body_found:
  "search_body sch dt = Inr (Inr r) \<Longrightarrow> r = dt \<and> cron_matches sch dt"
  by (auto simp: search_body_def cron_matches_def map_sum_def split: if_splits sum.splits)

lemma search_correct:
  assumes "search sch n dt = Inr r" and "on_minute dt"
  shows "on_minute r \<and> cron_matches sch r \<and> minutes dt \<le> minutes r
    \<and> (\<forall>e. on_minute e \<and> minutes dt \<le> minutes e \<and> minutes e < minutes r \<longrightarrow> \<not> cron_matches sch e)"
  using assms
proof (induction sch n dt rule: search.induct)
  case (1 sch n dt)
  from "1.prems"(1) consider (found) "search_body sch dt = Inr (Inr r)"
    | (go) dt' where "n < MAX_ITERATIONS" "search_body sch dt = Inr (Inl dt')" "search sch (n + 1) dt' = Inr r"
    by (auto simp: search.simps [of sch n dt] split: if_splits sum.splits)
  then show ?case
  proof cases
    case found
    from search_body_found [OF this] show ?thesis using "1.prems"(2) by auto
  next
    case go
    from search_body_skip [OF "1.prems"(2) go(2)] have s: "on_minute dt'" "minutes dt < minutes dt'"
      "\<And>e. on_minute e \<Longrightarrow> minutes dt \<le> minutes e \<Longrightarrow> minutes e < minutes dt' \<Longrightarrow> \<not> cron_matches sch e" by auto
    from "1.IH" [OF go(1,2) refl go(3) s(1)]
    have r: "on_minute r \<and> cron_matches sch r \<and> minutes dt' \<le> minutes r"
      "\<And>e. on_minute e \<Longrightarrow> minutes dt' \<le> minutes e \<Longrightarrow> minutes e < minutes r \<Longrightarrow> \<not> cron_matches sch e" by auto
    have "\<not> cron_matches sch e" if "on_minute e" "minutes dt \<le> minutes e" "minutes e < minutes r" for e
      using r(2) s(3) that by (cases "minutes e < minutes dt'") auto
    then show ?thesis using r(1) s(2) by auto
  qed
qed

section \<open>Claims\<close>


definition new_years_eve :: datetime where
  "new_years_eve = \<lparr>dt_year = 2023, dt_month = 12, dt_day = 31, dt_hour = 23, dt_minute = 59,
     dt_second = 30, dt_micro = 5\<rparr>"

definition leap_day_noon :: cron_schedule where
  "leap_day_noon = \<lparr>cr_minutes = {0}, cr_hours = {12}, cr_days_of_month = {29}, cr_months = {2},
     cr_days_of_week = {0, 1, 2, 3, 4, 5, 6}\<rparr>"


lemma py_range_bounds: "v \<in> set (py_range a b s) \<Longrightarrow> a \<le> v \<and> v \<le> b"
  by (simp add: py_range_def)

lemma py_range_start: "a \<le> b \<Longrightarrow> a \<in> set (py_range a b s)"
  by (simp add: py_range_def)

lemma parse_part_bounds:
  assumes "parse_part lo hi p = Inr vs"
  shows "vs \<noteq> {} \<and> vs \<subseteq> {lo .. hi}"
proof -
  obtain a b s where "vs = set (py_range a b s)" "lo \<le> a" "b \<le> hi" "a \<le> b"
    using assms by (auto simp: parse_part_def Let_def not_less split: if_splits prod.splits sum.splits option.splits)
  then show ?thesis using py_range_bounds [of _ a b s] py_range_start [of a b s] by force
qed

lemma parse_parts_bounds:
  assumes "parse_parts lo hi ps acc = Inr vs" and "acc \<subseteq> {lo .. hi}" and "ps \<noteq> [] \<or> acc \<noteq> {}"
  shows "vs \<noteq> {} \<and> vs \<subseteq> {lo .. hi}"
  using assms
proof (induction ps arbitrary: acc)
  case (Cons p ps)
  then obtain us where "parse_part lo hi p = Inr us" "parse_parts lo hi ps (acc \<union> us) = Inr vs"
    by (auto split: sum.splits)
  with Cons.IH [OF this(2)] parse_part_bounds [OF this(1)] Cons.prems(2) show ?case by auto
qed simp

lemma split_on_nonempty: "split_on d s \<noteq> []"
  by (induction s) (auto split: list.splits)

lemma parse_field_bounds:
  "parse_field s lo hi names = Inr vs \<Longrightarrow> vs \<noteq> {} \<and> vs \<subseteq> {lo .. hi}"
  using parse_parts_bounds [of lo hi _ "{}" vs] split_on_nonempty
  by (auto simp: parse_field_def Let_def split: if_splits)

text \<open> Every set of values that a parsed schedule holds lies within the range of its field,
  and none is empty: minutes 0 to 59, hours 0 to 23, days 1 to 31, months 1 to 12, weekdays
  0 to 6 (7 has become 0).\<close>

theorem parse_cron_bounds:
  assumes "parse_cron expr = Inr sch"
  shows "cr_minutes sch \<noteq> {} \<and> cr_minutes sch \<subseteq> {0 .. 59}
    \<and> cr_hours sch \<noteq> {} \<and> cr_hours sch \<subseteq> {0 .. 23}
    \<and> cr_days_of_month sch \<noteq> {} \<and> cr_days_of_month sch \<subseteq> {1 .. 31}
    \<and> cr_months sch \<noteq> {} \<and> cr_months sch \<subseteq> {1 .. 12}
    \<and> cr_days_of_week sch \<noteq> {} \<and> cr_days_of_week sch \<subseteq> {0 .. 6}"
proof -
  obtain f0 f1 f2 f3 f4 dow where
    f: "parse_field f0 0 59 [] = Inr (cr_minutes sch)" "parse_field f1 0 23 [] = Inr (cr_hours sch)"
      "parse_field f2 1 31 [] = Inr (cr_days_of_month sch)" "parse_field f3 1 12 MONTH_NAMES = Inr (cr_months sch)"
      "parse_field f4 0 7 DOW_NAMES = Inr dow"
    and dow: "cr_days_of_week sch = (\<lambda>d. if d = 7 then 0 else d) ` dow"
    using assms by (fastforce simp: parse_cron_def Let_def split: if_splits sum.splits)
  have "cr_days_of_week sch \<noteq> {} \<and> cr_days_of_week sch \<subseteq> {0 .. 6}"
    unfolding dow using parse_field_bounds [OF f(5)] by force
  then show ?thesis using f(1-4) by (auto dest: parse_field_bounds)
qed

lemma parse_cron_bounds_witness:
  "\<exists>sch. parse_cron ''0 0 * * SUN,7'' = Inr sch \<and> cr_days_of_week sch \<subseteq> {0 .. 6}"
proof -
  have "is_ok (parse_cron ''0 0 * * SUN,7'')" by code_simp
  then obtain sch where "parse_cron ''0 0 * * SUN,7'' = Inr sch" by (rule is_okE)
  with parse_cron_bounds [OF this] show ?thesis by blast
qed

end
