(* ===== verification/Rate_Limit.thy ===== *)
theory Rate_Limit
  imports Core_Types "HOL-Library.AList"
begin

text \<open>
  Model of \<^verbatim>\<open>era/api/rate_limit.py\<close>: the fixed-window limiter by source address and API key, and the
  decision of the middleware in front of the versioned API.

  The limiter's lock makes each check atomic; its clock is monotonic and is passed in.  Times are exact
  rationals, and the SHA-256 of a token's UTF-8 text is the parameter \<open>sha\<close>.
\<close>

section \<open>The limiter\<close>

record window =
  rw_started :: rat
  rw_count :: int

record rate_decision =
  rd_allowed :: bool
  rd_limit :: int
  rd_remaining :: int
  rd_retry_after :: int

record limiter =
  li_key_limit :: int
  li_ip_limit :: int
  li_window :: rat
  li_windows :: "(string \<times> window) list"
  li_checks :: nat

definition new_limiter :: "int \<Rightarrow> int \<Rightarrow> rat \<Rightarrow> (py_exc, limiter) result" where
  "new_limiter key_limit ip_limit seconds =
     (if key_limit < 1 \<or> ip_limit < 1 then Inl (OtherExc ''ValueError'')
      else if seconds \<le> 0 then Inl (OtherExc ''ValueError'')
      else Inr \<lparr>li_key_limit = key_limit, li_ip_limit = ip_limit, li_window = seconds, li_windows = [], li_checks = 0\<rparr>)"

definition buckets :: "limiter \<Rightarrow> string option \<Rightarrow> string \<Rightarrow> (string \<times> int) list" where
  "buckets l key ip = (''ip:'' @ ip, li_ip_limit l) #
     (case key of None \<Rightarrow> [] | Some h \<Rightarrow> if h = [] then [] else [(''key:'' @ h, li_key_limit l)])"

text \<open>The window of an identity at \<open>now\<close>: a new one when there is none or it is over.\<close>

definition current_window :: "limiter \<Rightarrow> rat \<Rightarrow> string \<Rightarrow> window" where
  "current_window l now i = (case map_of (li_windows l) i of
       None \<Rightarrow> \<lparr>rw_started = now, rw_count = 0\<rparr>
     | Some w \<Rightarrow> if li_window l \<le> now - rw_started w then \<lparr>rw_started = now, rw_count = 0\<rparr> else w)"

definition put_window :: "string \<Rightarrow> window \<Rightarrow> limiter \<Rightarrow> limiter" where
  "put_window i w l = l\<lparr>li_windows := AList.update i w (li_windows l)\<rparr>"

definition time_left :: "limiter \<Rightarrow> rat \<Rightarrow> window \<Rightarrow> rat" where
  "time_left l now w = li_window l - (now - rw_started w)"

definition retry_seconds :: "rat \<Rightarrow> int" where
  "retry_seconds x = max 1 \<lceil>x\<rceil>"

text \<open>The loop over the buckets: the refusal, or the windows in use.\<close>

fun open_windows ::
  "rat \<Rightarrow> (string \<times> int) list \<Rightarrow> (window \<times> int) list \<Rightarrow> limiter \<Rightarrow> (rate_decision + (window \<times> int) list) \<times> limiter" where
  "open_windows now [] active l = (Inr active, l)"
| "open_windows now ((i, limit) # bs) active l =
     (let w = current_window l now i; l' = put_window i w l
      in if limit \<le> rw_count w
         then (Inl \<lparr>rd_allowed = False, rd_limit = limit, rd_remaining = 0, rd_retry_after = retry_seconds (time_left l' now w)\<rparr>, l')
         else open_windows now bs (active @ [(w, limit)]) l')"

definition count_up :: "string list \<Rightarrow> limiter \<Rightarrow> limiter" where
  "count_up ids l = l\<lparr>li_windows := map (\<lambda>(i, w). (i, if i \<in> set ids then w\<lparr>rw_count := rw_count w + 1\<rparr> else w)) (li_windows l)\<rparr>"

definition remove_stale :: "rat \<Rightarrow> limiter \<Rightarrow> limiter" where
  "remove_stale now l = l\<lparr>li_windows := filter (\<lambda>(i, w). now - li_window l < rw_started w) (li_windows l)\<rparr>"

definition check_rate :: "rat \<Rightarrow> string option \<Rightarrow> string \<Rightarrow> limiter \<Rightarrow> rate_decision \<times> limiter" where
  "check_rate now key ip l =
     (let bs = buckets l key ip; l1 = l\<lparr>li_checks := li_checks l + 1\<rparr>
      in case open_windows now bs [] l1 of
           (Inl d, l2) \<Rightarrow> (d, l2)
         | (Inr active, l2) \<Rightarrow>
             (\<lparr>rd_allowed = True, rd_limit = Min (snd ` set active),
                rd_remaining = max 0 (Min ((\<lambda>(w, limit). limit - (rw_count w + 1)) ` set active)),
                rd_retry_after = retry_seconds (Min ((\<lambda>(w, limit). time_left l2 now w) ` set active))\<rparr>,
              let l3 = count_up (map fst bs) l2 in if li_checks l3 mod 256 = 0 then remove_stale now l3 else l3))"

section \<open>The middleware\<close>

record http_scope =
  sc_type :: string
  sc_path :: string
  sc_headers :: "(string \<times> string) list"
  sc_client :: "string option"

fun api_key_fingerprint :: "(string \<Rightarrow> string) \<Rightarrow> (string \<times> string) list \<Rightarrow> string option" where
  "api_key_fingerprint sha [] = None"
| "api_key_fingerprint sha ((name, v) # hs) =
     (if lower name \<noteq> ''authorization'' then api_key_fingerprint sha hs
      else case partition_on (CHR '' '') v of
        (scheme, found, rest) \<Rightarrow>
          if \<not> found then None
          else let token = strip rest in if lower scheme \<noteq> ''bearer'' \<or> token = [] then None else Some (sha token))"

definition source_ip :: "http_scope \<Rightarrow> string" where
  "source_ip sc = (case sc_client sc of None \<Rightarrow> ''unknown'' | Some h \<Rightarrow> if h = [] then ''unknown'' else h)"

text \<open>\<open>None\<close>: the request goes on without being counted.\<close>

definition rate_limit ::
  "(string \<Rightarrow> string) \<Rightarrow> bool \<Rightarrow> rat \<Rightarrow> http_scope \<Rightarrow> limiter \<Rightarrow> rate_decision option \<times> limiter" where
  "rate_limit sha enabled now sc l =
     (if \<not> enabled \<or> sc_type sc \<noteq> ''http'' \<or> \<not> starts_with ''/v1/'' (sc_path sc) then (None, l)
      else case check_rate now (api_key_fingerprint sha (sc_headers sc)) (source_ip sc) l of (d, l') \<Rightarrow> (Some d, l'))"

section \<open>The window of one identity\<close>

text \<open>
  The admitted times \<open>A\<close> of an identity and its window at time \<open>n\<close>: the \<open>recent\<close> ones belong to the window that began
  at \<open>s\<close>, and of the older ones no more than the limit lie within one window's length before it.
\<close>

definition in_span :: "rat \<Rightarrow> rat \<Rightarrow> rat list \<Rightarrow> int" where
  "in_span W x ts = int (length (filter (\<lambda>t. x \<le> t \<and> t < x + W) ts))"

definition window_inv :: "rat \<Rightarrow> int \<Rightarrow> rat list \<Rightarrow> rat \<Rightarrow> window option \<Rightarrow> bool" where
  "window_inv W L A n ow = (\<exists>s older recent. A = older @ recent \<and> int (length recent) \<le> L
     \<and> (\<forall>t \<in> set recent. s \<le> t \<and> t < s + W) \<and> (\<forall>t \<in> set older. t < s)
     \<and> int (length (filter (\<lambda>t. s - W \<le> t) older)) \<le> L \<and> (\<forall>x. in_span W x older \<le> 2 * L) \<and> s \<le> n
     \<and> (case ow of None \<Rightarrow> A = [] \<or> s + W \<le> n | Some w \<Rightarrow> rw_started w = s \<and> rw_count w = int (length recent)))"

lemma length_filter_mono: "(\<And>x. x \<in> set xs \<Longrightarrow> P x \<Longrightarrow> Q x) \<Longrightarrow> length (filter P xs) \<le> length (filter Q xs)"
  by (induction xs) (auto intro: le_SucI)

text \<open>Within a window's length there are at most twice as many as the limit.\<close>

lemma parts_within:
  assumes "int (length recent) \<le> L" and "\<forall>t \<in> set recent. s \<le> t" and "\<forall>t \<in> set older. t < s"
    and "int (length (filter (\<lambda>t. s - W \<le> t) older)) \<le> L" and "\<forall>x. in_span W x older \<le> 2 * L"
  shows "in_span W x (older @ recent) \<le> 2 * L"
proof (cases "x + W \<le> s")
  case True
  then have "filter (\<lambda>t. x \<le> t \<and> t < x + W) recent = []" using assms(2) by (force simp: filter_empty_conv)
  then show ?thesis using assms(5) by (simp add: in_span_def)
next
  case False
  then have "length (filter (\<lambda>t. x \<le> t \<and> t < x + W) older) \<le> length (filter (\<lambda>t. s - W \<le> t) older)"
    by (intro length_filter_mono) simp
  moreover have "length (filter (\<lambda>t. x \<le> t \<and> t < x + W) recent) \<le> length recent" by simp
  ultimately show ?thesis using assms(1,4) unfolding in_span_def filter_append length_append by linarith
qed

lemma inv_within: "window_inv W L A n ow \<Longrightarrow> in_span W x A \<le> 2 * L"
  unfolding window_inv_def by (elim exE conjE, hypsubst, rule parts_within) auto

lemma inv_empty: "0 \<le> L \<Longrightarrow> window_inv W L [] n None"
  unfolding window_inv_def by (intro exI [of _ n] exI [of _ "[]"]) (simp add: in_span_def)

lemma inv_later: "window_inv W L A n ow \<Longrightarrow> n \<le> n' \<Longrightarrow> window_inv W L A n' ow"
  unfolding window_inv_def by (elim exE conjE, intro exI conjI, assumption+) (auto split: option.splits)

lemma inv_new_window:
  assumes "window_inv W L A n ow" and "0 \<le> L" and "0 < W" and "n \<le> now"
    and "case ow of None \<Rightarrow> True | Some w \<Rightarrow> W \<le> now - rw_started w"
  shows "window_inv W L A now (Some \<lparr>rw_started = now, rw_count = 0\<rparr>)"
proof -
  obtain s older recent where A: "A = older @ recent" "int (length recent) \<le> L"
    "\<forall>t \<in> set recent. s \<le> t \<and> t < s + W" "\<forall>t \<in> set older. t < s" "s \<le> n"
    and w: "case ow of None \<Rightarrow> A = [] \<or> s + W \<le> n | Some w \<Rightarrow> rw_started w = s \<and> rw_count w = int (length recent)"
    using assms(1) unfolding window_inv_def by blast
  have s: "A = [] \<or> s + W \<le> now" using w assms(4,5) by (auto split: option.splits)
  have old: "\<forall>t \<in> set A. t < now"
  proof
    fix t assume "t \<in> set A"
    then show "t < now" using A s assms(3) by (fastforce split: if_splits)
  qed
  have "length (filter (\<lambda>t. now - W \<le> t) A) \<le> length recent"
  proof (cases "A = []")
    case False
    then have "filter (\<lambda>t. now - W \<le> t) older = []" using A(4) s by (force simp: filter_empty_conv)
    then show ?thesis using A(1) by simp
  qed simp
  then have "int (length (filter (\<lambda>t. now - W \<le> t) A)) \<le> L" using A(2) by simp
  then show ?thesis unfolding window_inv_def
    using old inv_within [OF assms(1)] assms(2) by (intro exI [of _ now] exI [of _ A] exI [of _ "[]"]) simp
qed

lemma inv_admit:
  assumes "window_inv W L A now (Some w)" and "rw_count w < L" and "now < rw_started w + W"
  shows "window_inv W L (A @ [now]) now (Some (w\<lparr>rw_count := rw_count w + 1\<rparr>))"
proof -
  obtain older recent where A: "A = older @ recent" "int (length recent) \<le> L"
    "\<forall>t \<in> set recent. rw_started w \<le> t \<and> t < rw_started w + W" "\<forall>t \<in> set older. t < rw_started w"
    "int (length (filter (\<lambda>t. rw_started w - W \<le> t) older)) \<le> L" "\<forall>x. in_span W x older \<le> 2 * L" "rw_started w \<le> now"
    "rw_count w = int (length recent)"
    using assms(1) unfolding window_inv_def by auto
  then show ?thesis unfolding window_inv_def
    using assms(2,3) by (intro exI [of _ "rw_started w"] exI [of _ older] exI [of _ "recent @ [now]"]) auto
qed

lemma inv_removed: "window_inv W L A now (Some w) \<Longrightarrow> rw_started w \<le> now - W \<Longrightarrow> window_inv W L A now None"
  unfolding window_inv_def by (elim exE conjE, intro exI conjI, assumption+) auto

section \<open>A check\<close>

definition same_limits :: "limiter \<Rightarrow> limiter \<Rightarrow> bool" where
  "same_limits l l' = (li_key_limit l' = li_key_limit l \<and> li_ip_limit l' = li_ip_limit l \<and> li_window l' = li_window l)"

lemma put_window_sel [simp]:
  "map_of (li_windows (put_window i w l)) j = (if j = i then Some w else map_of (li_windows l) j)" "same_limits l (put_window i w l)" "li_window (put_window i w l) = li_window l"
  by (simp_all add: put_window_def update_conv same_limits_def)

lemma current_put [simp]: "i \<noteq> j \<Longrightarrow> current_window (put_window i w l) now j = current_window l now j"
  by (auto simp: current_window_def split: option.split)

text \<open>The loop leaves an identity alone or puts its present window; without a refusal it has put all of them.\<close>

lemma open_windows_state:
  assumes "open_windows now bs active l = (r, l')" and "distinct (map fst bs)"
  shows "same_limits l l'
    \<and> (\<forall>i. map_of (li_windows l') i = map_of (li_windows l) i
         \<or> i \<in> set (map fst bs) \<and> map_of (li_windows l') i = Some (current_window l now i))
    \<and> (case r of Inl d \<Rightarrow> \<not> rd_allowed d \<and> (\<exists>(i, limit) \<in> set bs. limit \<le> rw_count (current_window l now i)
           \<and> map_of (li_windows l') i = Some (current_window l now i))
       | Inr _ \<Rightarrow> \<forall>(i, limit) \<in> set bs. map_of (li_windows l') i = Some (current_window l now i) \<and> rw_count (current_window l now i) < limit)
    \<and> li_checks l' = li_checks l"
  using assms
proof (induction bs arbitrary: active l)
  case Nil
  then show ?case by (auto simp: same_limits_def)
next
  case (Cons b bs)
  obtain i limit where b: "b = (i, limit)" by (cases b)
  let ?w = "current_window l now i"
  let ?l = "put_window i ?w l"
  have limits: "same_limits l ?l" "li_checks ?l = li_checks l" by (simp, simp add: put_window_def)
  show ?case
  proof (cases "limit \<le> rw_count ?w")
    case True
    then show ?thesis using Cons.prems(1) limits by (auto simp: b Let_def)
  next
    case False
    then have "open_windows now bs (active @ [(?w, limit)]) ?l = (r, l')" using Cons.prems(1) by (simp add: b Let_def)
    then have ih: "same_limits ?l l' \<and> (\<forall>j. map_of (li_windows l') j = map_of (li_windows ?l) j
         \<or> j \<in> set (map fst bs) \<and> map_of (li_windows l') j = Some (current_window ?l now j))
      \<and> (case r of Inl d \<Rightarrow> \<not> rd_allowed d \<and> (\<exists>(i, limit) \<in> set bs. limit \<le> rw_count (current_window ?l now i)
           \<and> map_of (li_windows l') i = Some (current_window ?l now i))
       | Inr _ \<Rightarrow> \<forall>(i, limit) \<in> set bs. map_of (li_windows l') i = Some (current_window ?l now i) \<and> rw_count (current_window ?l now i) < limit)
      \<and> li_checks l' = li_checks ?l"
      by (rule Cons.IH) (use Cons.prems(2) in simp)
    have kept: "map_of (li_windows l') j = map_of (li_windows ?l) j
         \<or> j \<in> set (map fst bs) \<and> map_of (li_windows l') j = Some (current_window ?l now j)" for j using ih by blast
    have i: "i \<notin> set (map fst bs)" using Cons.prems(2) by (simp add: b)
    then have same: "current_window ?l now j = current_window l now j" if "j \<in> set (map fst bs)" for j using that by (metis current_put)
    have last: "map_of (li_windows l') i = Some ?w" using kept [of i] i by simp
    show ?thesis
    proof (intro conjI allI)
      show "same_limits l l'" using ih limits Cons.prems(2) by (simp add: b same_limits_def)
      show "li_checks l' = li_checks l" using ih limits Cons.prems(2) by (simp add: b)
      show "map_of (li_windows l') j = map_of (li_windows l) j
         \<or> j \<in> set (map fst (b # bs)) \<and> map_of (li_windows l') j = Some (current_window l now j)" for j
        using kept [of j] same [of j] last by (cases "j = i") (auto simp: b)
      have in_bs: "j \<in> set (map fst bs)" if "(j, lim) \<in> set bs" for j lim using that by (force simp: image_iff)
      show "case r of Inl d \<Rightarrow> \<not> rd_allowed d \<and> (\<exists>(i, limit) \<in> set (b # bs). limit \<le> rw_count (current_window l now i)
           \<and> map_of (li_windows l') i = Some (current_window l now i))
       | Inr _ \<Rightarrow> \<forall>(i, limit) \<in> set (b # bs). map_of (li_windows l') i = Some (current_window l now i)
           \<and> rw_count (current_window l now i) < limit"
      proof (cases r)
        case (Inl d)
        then obtain j lim where "\<not> rd_allowed d" "(j, lim) \<in> set bs" "lim \<le> rw_count (current_window ?l now j)"
          "map_of (li_windows l') j = Some (current_window ?l now j)"
          using ih Cons.prems(2) by (auto simp: b)
        then show ?thesis using Inl same [OF in_bs] by (auto intro!: bexI [of _ "(j, lim)"])
      next
        case (Inr x)
        then show ?thesis using ih Cons.prems(2) same [OF in_bs] last False by (fastforce simp: b)
      qed
    qed
  qed
qed

lemma map_of_count_up:
  "map_of (li_windows (count_up ids l)) i
     = map_option (\<lambda>w. if i \<in> set ids then w\<lparr>rw_count := rw_count w + 1\<rparr> else w) (map_of (li_windows l) i)"
proof -
  have "map_of (map (\<lambda>(i, w). (i, if i \<in> set ids then w\<lparr>rw_count := rw_count w + 1\<rparr> else w)) ws) i
     = map_option (\<lambda>w. if i \<in> set ids then w\<lparr>rw_count := rw_count w + 1\<rparr> else w) (map_of ws i)" for ws :: "(string \<times> window) list"
    by (induction ws) auto
  then show ?thesis by (simp add: count_up_def)
qed

definition one_each :: "limiter \<Rightarrow> bool" where
  "one_each l = distinct (map fst (li_windows l))"

lemma one_each_put [simp]: "one_each l \<Longrightarrow> one_each (put_window i w l)"
  by (simp add: one_each_def put_window_def distinct_update)

lemma one_each_open: "one_each l \<Longrightarrow> open_windows now bs active l = (r, l') \<Longrightarrow> one_each l'"
proof (induction bs arbitrary: active l)
  case (Cons b bs)
  obtain i limit where b: "b = (i, limit)" by (cases b)
  let ?l = "put_window i (current_window l now i) l"
  have one: "one_each ?l" using Cons.prems(1) by simp
  show ?case
  proof (cases "limit \<le> rw_count (current_window l now i)")
    case True
    then show ?thesis using Cons.prems(2) one by (auto simp: b Let_def)
  next
    case False
    then have "open_windows now bs (active @ [(current_window l now i, limit)]) ?l = (r, l')" using Cons.prems(2) by (simp add: b Let_def)
    then show ?thesis by (rule Cons.IH [OF one])
  qed
qed simp

lemma map_of_stale:
  assumes "one_each l"
  shows "map_of (li_windows (remove_stale now l)) i = (case map_of (li_windows l) i of None \<Rightarrow> None
     | Some w \<Rightarrow> if now - li_window l < rw_started w then Some w else None)"
proof -
  have "distinct (map fst ws) \<Longrightarrow> map_of (filter (\<lambda>(i, w). now - li_window l < rw_started w) ws) i = (case map_of ws i of None \<Rightarrow> None
     | Some w \<Rightarrow> if now - li_window l < rw_started w then Some w else None)" for ws
    by (induction ws) (auto simp: map_of_eq_None_iff dest: map_of_SomeD split: option.splits)
  then show ?thesis using assms by (simp add: remove_stale_def one_each_def)
qed

section \<open>Histories of checks\<close>

text \<open>The times of the admitted checks, with the identities they were counted for.\<close>

fun rate_history :: "limiter \<Rightarrow> (rat \<times> string option \<times> string) list \<Rightarrow> (rat \<times> string list) list \<times> limiter" where
  "rate_history l [] = ([], l)"
| "rate_history l ((now, key, ip) # cs) = (case check_rate now key ip l of (d, l') \<Rightarrow>
     (case rate_history l' cs of (h, l'') \<Rightarrow> ((if rd_allowed d then [(now, map fst (buckets l key ip))] else []) @ h, l'')))"

definition admitted :: "string \<Rightarrow> (rat \<times> string list) list \<Rightarrow> rat list" where
  "admitted i h = map fst (filter (\<lambda>(t, ids). i \<in> set ids) h)"

definition limit_of :: "limiter \<Rightarrow> string \<Rightarrow> int" where
  "limit_of l i = (if starts_with ''ip:'' i then li_ip_limit l else li_key_limit l)"

lemma admitted_append [simp]: "admitted i (g @ h) = admitted i g @ admitted i h"
  by (simp add: admitted_def)

lemma buckets_limits: "(i, limit) \<in> set (buckets l key ip) \<Longrightarrow> limit = limit_of l i"
  by (auto simp: buckets_def limit_of_def starts_with_iff split: option.splits if_splits)

lemma buckets_distinct: "distinct (map fst (buckets l key ip))"
  by (auto simp: buckets_def split: option.split)

definition sane :: "limiter \<Rightarrow> bool" where
  "sane l = (1 \<le> li_key_limit l \<and> 1 \<le> li_ip_limit l \<and> 0 < li_window l)"

definition rate_inv :: "limiter \<Rightarrow> (rat \<times> string list) list \<Rightarrow> rat \<Rightarrow> bool" where
  "rate_inv l h n = (one_each l \<and> sane l \<and> (\<forall>i. window_inv (li_window l) (limit_of l i) (admitted i h) n (map_of (li_windows l) i)))"

lemma sane_limit: "sane l \<Longrightarrow> 0 \<le> limit_of l i"
  by (simp add: sane_def limit_of_def)

lemma inv_current:
  assumes "rate_inv l h n" and "n \<le> now"
  shows "window_inv (li_window l) (limit_of l i) (admitted i h) now (Some (current_window l now i))"
    and "now < rw_started (current_window l now i) + li_window l"
proof -
  have inv: "window_inv (li_window l) (limit_of l i) (admitted i h) n (map_of (li_windows l) i)" and W: "0 < li_window l"
    and L: "0 \<le> limit_of l i" using assms(1) sane_limit by (auto simp: rate_inv_def sane_def)
  show "window_inv (li_window l) (limit_of l i) (admitted i h) now (Some (current_window l now i))"
  proof (cases "case map_of (li_windows l) i of None \<Rightarrow> True | Some w \<Rightarrow> li_window l \<le> now - rw_started w")
    case True
    then have "current_window l now i = \<lparr>rw_started = now, rw_count = 0\<rparr>" by (auto simp: current_window_def split: option.splits)
    then show ?thesis using inv_new_window [OF inv L W assms(2) True] by simp
  next
    case False
    then show ?thesis using inv_later [OF inv assms(2)] by (auto simp: current_window_def split: option.splits)
  qed
  show "now < rw_started (current_window l now i) + li_window l"
    using W by (auto simp: current_window_def split: option.split)
qed

lemma inv_stale:
  assumes "window_inv W L A now ow" and "case ow of None \<Rightarrow> ow' = None | Some w \<Rightarrow> ow' = (if now - W < rw_started w then Some w else None)"
  shows "window_inv W L A now ow'"
  using assms inv_removed by (auto split: option.splits if_splits)

lemma check_step:
  assumes "check_rate now key ip l = (d, l')" and "rate_inv l h n" and "n \<le> now"
  shows "same_limits l l'"
    and "rate_inv l' (h @ (if rd_allowed d then [(now, map fst (buckets l key ip))] else [])) now"
    and "\<not> rd_allowed d \<Longrightarrow> \<exists>(i, limit) \<in> set (buckets l key ip).
           limit \<le> int (length (filter (\<lambda>t. now - li_window l < t) (admitted i h)))"
proof -
  let ?l1 = "l\<lparr>li_checks := li_checks l + 1\<rparr>"
  let ?ids = "map fst (buckets l key ip)"
  obtain r l2 where run: "open_windows now (buckets l key ip) [] ?l1 = (r, l2)" by (metis surj_pair)
  have cur: "current_window ?l1 now i = current_window l now i" for i by (auto simp: current_window_def split: option.split)
  note state = open_windows_state [OF run buckets_distinct, unfolded cur]
  have l2: "same_limits l l2" using state by (auto simp: same_limits_def)
  have put: "map_of (li_windows l2) i = map_of (li_windows l) i
      \<or> i \<in> set ?ids \<and> map_of (li_windows l2) i = Some (current_window l now i)" for i using state by auto
  have one: "one_each l2" by (rule one_each_open [OF _ run]) (use assms(2) in \<open>simp add: rate_inv_def one_each_def\<close>)
  have lim: "limit_of l2 i = limit_of l i" "li_window l2 = li_window l" "sane l2" for i
    using l2 assms(2) by (auto simp: limit_of_def same_limits_def sane_def rate_inv_def)
  have later: "window_inv (li_window l) (limit_of l i) (admitted i h) now (map_of (li_windows l) i)" for i
    using assms(2) inv_later [OF _ assms(3)] by (simp add: rate_inv_def)
  have inv2: "window_inv (li_window l) (limit_of l i) (admitted i h) now (map_of (li_windows l2) i)" for i
    using put [of i] later [of i] inv_current(1) [OF assms(2,3), of i] by auto
  have "same_limits l l' \<and> rate_inv l' (h @ (if rd_allowed d then [(now, ?ids)] else [])) now
    \<and> (\<not> rd_allowed d \<longrightarrow> (\<exists>(i, limit) \<in> set (buckets l key ip). limit \<le> int (length (filter (\<lambda>t. now - li_window l < t) (admitted i h)))))"
  proof (cases r)
    case (Inl e)
    then have d: "d = e" "l' = l2" using assms(1) run by (auto simp: check_rate_def Let_def)
    obtain i limit where i: "(i, limit) \<in> set (buckets l key ip)" "limit \<le> rw_count (current_window l now i)" "\<not> rd_allowed e"
      using state Inl by auto
    have inv: "window_inv (li_window l) (limit_of l i) (admitted i h) now (Some (current_window l now i))"
      by (rule inv_current(1) [OF assms(2,3)])
    have "rw_count (current_window l now i) \<le> int (length (filter (\<lambda>t. now - li_window l < t) (admitted i h)))"
    proof -
      obtain older recent where a: "admitted i h = older @ recent" "\<forall>t \<in> set recent. rw_started (current_window l now i) \<le> t"
        "rw_count (current_window l now i) = int (length recent)" using inv unfolding window_inv_def by auto
      have "filter (\<lambda>t. now - li_window l < t) recent = recent"
        using a(2) inv_current(2) [OF assms(2,3), of i] by (auto simp: filter_id_conv)
      then show ?thesis using a(1,3) by simp
    qed
    then have "\<exists>(i, limit) \<in> set (buckets l key ip). limit \<le> int (length (filter (\<lambda>t. now - li_window l < t) (admitted i h)))"
      using i(1,2) by (intro bexI [of _ "(i, limit)"]) auto
    then show ?thesis using d l2 i(3) one lim inv2 by (simp add: rate_inv_def)
  next
    case (Inr active)
    let ?l3 = "count_up ?ids l2"
    have d: "rd_allowed d" and l': "l' = ?l3 \<or> l' = remove_stale now ?l3"
      using assms(1) run Inr by (auto simp: check_rate_def Let_def split: if_splits)
    have fresh: "map_of (li_windows l2) i = Some (current_window l now i) \<and> rw_count (current_window l now i) < limit_of l i"
      if known: "i \<in> set ?ids" for i
    proof -
      obtain b where "b \<in> set (buckets l key ip)" "i = fst b" using known unfolding set_map by blast
      then have i: "(i, snd b) \<in> set (buckets l key ip)" by simp
      then show ?thesis using state Inr buckets_limits [OF i] by auto
    qed
    have inv3: "window_inv (li_window l) (limit_of l i) (admitted i (h @ [(now, ?ids)])) now (map_of (li_windows ?l3) i)" for i
    proof (cases "i \<in> set ?ids")
      case True
      then have "map_of (li_windows ?l3) i = Some ((current_window l now i)\<lparr>rw_count := rw_count (current_window l now i) + 1\<rparr>)"
        "admitted i (h @ [(now, ?ids)]) = admitted i h @ [now]"
        using fresh by (simp_all add: map_of_count_up admitted_def)
      then show ?thesis
        using inv_admit [OF inv_current(1) [OF assms(2,3)] _ inv_current(2) [OF assms(2,3)]] fresh True by simp
    next
      case False
      then have "map_of (li_windows ?l3) i = map_of (li_windows l2) i" "admitted i (h @ [(now, ?ids)]) = admitted i h"
        by (simp_all add: map_of_count_up admitted_def option.map_ident_strong)
      then show ?thesis using inv2 by simp
    qed
    have one3: "one_each ?l3" using one by (simp add: one_each_def count_up_def comp_def case_prod_unfold)
    have l3: "same_limits l ?l3" "sane ?l3" "limit_of ?l3 i = limit_of l i" "li_window ?l3 = li_window l" for i
      using l2 lim by (simp_all add: same_limits_def count_up_def sane_def limit_of_def)
    show ?thesis
      using l'
    proof
      assume "l' = ?l3"
      then show ?thesis using d l3 one3 inv3 by (simp add: rate_inv_def)
    next
      assume r: "l' = remove_stale now ?l3"
      have inv4: "window_inv (li_window l) (limit_of l i) (admitted i (h @ [(now, ?ids)])) now (map_of (li_windows (remove_stale now ?l3)) i)" for i
        using l3(4) by (intro inv_stale [OF inv3]) (auto simp: map_of_stale [OF one3] split: option.split)
      have "one_each l'" using one3 unfolding r by (simp add: one_each_def remove_stale_def distinct_map_filter)
      moreover have "same_limits l l'" "sane l'" "limit_of l' i = limit_of l i" "li_window l' = li_window l" for i
        using l3 unfolding r by (simp_all add: same_limits_def remove_stale_def sane_def limit_of_def)
      ultimately show ?thesis using d inv4 r by (simp add: rate_inv_def)
    qed
  qed
  then show "same_limits l l'"
    and "rate_inv l' (h @ (if rd_allowed d then [(now, map fst (buckets l key ip))] else [])) now"
    and "\<not> rd_allowed d \<Longrightarrow> \<exists>(i, limit) \<in> set (buckets l key ip).
           limit \<le> int (length (filter (\<lambda>t. now - li_window l < t) (admitted i h)))"
    by blast+
qed

lemma history_inv:
  "rate_inv l h n \<Longrightarrow> sorted (map fst cs) \<Longrightarrow> \<forall>c \<in> set cs. n \<le> fst c \<Longrightarrow> rate_history l cs = (g, l') \<Longrightarrow> m = last (n # map fst cs) \<Longrightarrow>
    same_limits l l' \<and> rate_inv l' (h @ g) m"
proof (induction cs arbitrary: l h n g)
  case Nil
  then show ?case by (simp add: same_limits_def)
next
  case (Cons c cs)
  obtain now key ip where c: "c = (now, key, ip)" by (metis surj_pair)
  obtain d l1 where d: "check_rate now key ip l = (d, l1)" by (metis surj_pair)
  obtain g1 where g1: "rate_history l1 cs = (g1, l')" "g = (if rd_allowed d then [(now, map fst (buckets l key ip))] else []) @ g1"
    using Cons.prems(4) d by (auto simp: c split: prod.splits)
  have n: "n \<le> now" using Cons.prems(3) by (simp add: c)
  note step = check_step [OF d Cons.prems(1) n]
  have "same_limits l1 l' \<and> rate_inv l' ((h @ (if rd_allowed d then [(now, map fst (buckets l key ip))] else [])) @ g1) m"
    by (rule Cons.IH [OF step(2) _ _ g1(1)]) (use Cons.prems(2,5) in \<open>auto simp: c\<close>)
  then show ?case using step(1) g1(2) by (simp add: same_limits_def)
qed

lemma new_limiter_inv:
  assumes "new_limiter key_limit ip_limit seconds = Inr l"
  shows "rate_inv l [] n" and "li_key_limit l = key_limit" and "li_ip_limit l = ip_limit" and "li_window l = seconds"
  using assms by (auto simp: new_limiter_def rate_inv_def one_each_def sane_def limit_of_def admitted_def intro!: inv_empty split: if_splits)

section \<open>Properties\<close>

text \<open>C32. The limiter bounds every caller and refuses nobody without cause.  Over any history of checks the requests
  admitted from one address, or with one key, within any window's length are at most twice its limit; and a check
  is refused only when an address or key of it has had its whole limit admitted within the last window's length.\<close>

theorem limiter_bounds_bursts:
  assumes "new_limiter key_limit ip_limit seconds = Inr l" and "sorted (map fst (cs @ [(now, key, ip)]))"
    and "rate_history l cs = (h, l')" and "check_rate now key ip l' = (d, l'')"
  shows "in_span seconds x (admitted (''ip:'' @ a) h) \<le> 2 * ip_limit
    \<and> in_span seconds x (admitted (''key:'' @ k) h) \<le> 2 * key_limit
    \<and> (rd_allowed d \<or> (\<exists>(i, limit) \<in> set (buckets l key ip).
         limit \<le> int (length (filter (\<lambda>t. now - seconds < t) (admitted i h)))))"
proof -
  define n where "n = (case cs of [] \<Rightarrow> now | c # _ \<Rightarrow> fst c)"
  note new = new_limiter_inv [OF assms(1)]
  have sorted: "sorted (map fst cs)" and before: "\<forall>c \<in> set cs. fst c \<le> now" using assms(2) by (auto simp: sorted_append)
  have first: "\<forall>c \<in> set cs. n \<le> fst c" using sorted by (cases cs) (auto simp: n_def)
  have last: "last (n # map fst cs) \<le> now" using before by (cases cs rule: rev_cases) (auto simp: n_def)
  have inv: "same_limits l l'" "rate_inv l' h (last (n # map fst cs))"
    using history_inv [OF new(1) sorted first assms(3) HOL.refl] by simp_all
  have w: "li_window l' = seconds" "limit_of l' (''ip:'' @ a) = ip_limit" "limit_of l' (''key:'' @ k) = key_limit"
    using inv(1) new by (auto simp: same_limits_def limit_of_def starts_with_iff)
  have "in_span seconds x (admitted i h) \<le> 2 * limit_of l' i" for i
    using inv(2) w(1) inv_within by (fastforce simp: rate_inv_def)
  from this [of "''ip:'' @ a"] this [of "''key:'' @ k"]
  have "in_span seconds x (admitted (''ip:'' @ a) h) \<le> 2 * ip_limit" "in_span seconds x (admitted (''key:'' @ k) h) \<le> 2 * key_limit"
    using w by simp_all
  moreover have "buckets l' key ip = buckets l key ip" using inv(1) by (auto simp: buckets_def same_limits_def split: option.split)
  then have "rd_allowed d \<or> (\<exists>(i, limit) \<in> set (buckets l key ip).
         limit \<le> int (length (filter (\<lambda>t. now - seconds < t) (admitted i h))))"
    using check_step(3) [OF assms(4) inv(2) last] w(1) by auto
  ultimately show ?thesis by blast
qed

text \<open>One address with a limit of two in ten seconds: of three checks the third is refused, and after the window the
  next one is admitted.\<close>

definition two_per_ten :: limiter where
  "two_per_ten = \<lparr>li_key_limit = 5, li_ip_limit = 2, li_window = 10, li_windows = [], li_checks = 0\<rparr>"

lemma limiter_bounds_bursts_witness:
  "\<exists>h l' d l''. rate_history two_per_ten [(0, None, ''a''), (1, None, ''a''), (2, None, ''a'')] = (h, l')
     \<and> check_rate 3 None ''a'' l' = (d, l'') \<and> \<not> rd_allowed d
     \<and> in_span 10 0 (admitted (''ip:'' @ ''a'') h) \<le> 4
     \<and> 2 \<le> length (filter (\<lambda>t. 3 - 10 < t) (admitted (''ip:'' @ ''a'') h))"
proof -
  have new: "new_limiter 5 2 10 = Inr two_per_ten" by (simp add: new_limiter_def two_per_ten_def)
  obtain h l' where h: "rate_history two_per_ten [(0, None, ''a''), (1, None, ''a''), (2, None, ''a'')] = (h, l')" by (metis surj_pair)
  obtain d l'' where d: "check_rate 3 None ''a'' l' = (d, l'')" by (metis surj_pair)
  have "\<not> rd_allowed (fst (check_rate 3 None ''a'' (snd (rate_history two_per_ten [(0, None, ''a''), (1, None, ''a''), (2, None, ''a'')]))))"
    by code_simp
  then have "\<not> rd_allowed d" using h d by simp
  then show ?thesis using limiter_bounds_bursts [OF new _ h d, of 0 "''a''" "''x''"] h d by (auto simp: buckets_def two_per_ten_def)
qed

end
