(* ===== verification/Action_Schemas.thy ===== *)
theory Action_Schemas
  imports Core_Types
begin

text \<open>
  The tables of \<^verbatim>\<open>era/registry/actions.py\<close>: the members of \<open>ActionType\<close> and the parameter
  schema of every action (\<open>ACTION_PARAM_SCHEMAS\<close>), as the JSON objects the source writes, in
  its order, one list per group of the source.
\<close>

section \<open>Action types\<close>

definition ACTION_TYPES :: "(string \<times> string) list" where
  "ACTION_TYPES =
     [(''STUB_NOOP'', ''stub.noop''),
      (''WEB_SEARCH'', ''web.search''),
      (''WEB_FETCH'', ''web.fetch''),
      (''WEB_DOWNLOAD'', ''web.download''),
      (''BROWSER_NAVIGATE'', ''browser.navigate''),
      (''BROWSER_SCREENSHOT'', ''browser.screenshot''),
      (''BROWSER_EXTRACT_DOM'', ''browser.extract_dom''),
      (''BROWSER_CLICK'', ''browser.click''),
      (''BROWSER_FILL'', ''browser.fill''),
      (''BROWSER_SUBMIT'', ''browser.submit''),
      (''BROWSER_INSPECT'', ''browser.inspect''),
      (''BROWSER_TABS'', ''browser.tabs''),
      (''BROWSER_ACTIVATE_TAB'', ''browser.activate_tab''),
      (''BROWSER_DOWNLOAD'', ''browser.download''),
      (''BROWSER_UPLOAD'', ''browser.upload''),
      (''BROWSER_WORKFLOW_RUN'', ''browser.workflow_run''),
      (''EMAIL_READ'', ''email.read''),
      (''EMAIL_SEARCH'', ''email.search''),
      (''EMAIL_DRAFT'', ''email.draft''),
      (''EMAIL_SEND'', ''email.send''),
      (''WHATSAPP_READ'', ''whatsapp.read''),
      (''WHATSAPP_SEND'', ''whatsapp.send''),
      (''WHATSAPP_REACT'', ''whatsapp.react''),
      (''BOOKING_SEARCH'', ''booking.search''),
      (''BOOKING_HOLD'', ''booking.hold''),
      (''BOOKING_CONFIRM'', ''booking.confirm''),
      (''BOOKING_CANCEL'', ''booking.cancel''),
      (''FS_LIST'', ''fs.list''),
      (''FS_READ'', ''fs.read''),
      (''FS_WRITE'', ''fs.write''),
      (''FS_MOVE'', ''fs.move''),
      (''FS_DELETE'', ''fs.delete''),
      (''PHOTO_VIEW'', ''photo.view''),
      (''PHOTO_EDIT'', ''photo.edit''),
      (''PHOTO_UPLOAD'', ''photo.upload''),
      (''PHOTO_DELETE'', ''photo.delete''),
      (''DEVICE_SHELL'', ''device.shell''),
      (''DEVICE_APP_LAUNCH'', ''device.app_launch''),
      (''DEVICE_UI_CLICK'', ''device.ui_click''),
      (''DEVICE_SCREENSHOT'', ''device.screenshot''),
      (''DEVICE_PHOTO_CAPTURE'', ''device.photo_capture''),
      (''DEVICE_LOCATION'', ''device.location''),
      (''DEVICE_NOTIFICATION'', ''device.notification''),
      (''DEVICE_CONTACTS'', ''device.contacts''),
      (''DEVICE_SMS_READ'', ''device.sms_read''),
      (''DEVICE_SMS_SEND'', ''device.sms_send''),
      (''DEVICE_INSTALL_APP'', ''device.install_app''),
      (''DEVICE_UNINSTALL_APP'', ''device.uninstall_app''),
      (''DEVICE_SETTINGS_CHANGE'', ''device.settings_change''),
      (''DEVICE_PAYMENT'', ''device.payment''),
      (''GITHUB_REPO_GET'', ''github.repo_get''),
      (''GITHUB_ISSUE_LIST'', ''github.issue_list''),
      (''GITHUB_ISSUE_GET'', ''github.issue_get''),
      (''GITHUB_ISSUE_CREATE'', ''github.issue_create''),
      (''GITHUB_ISSUE_COMMENT'', ''github.issue_comment''),
      (''GITHUB_PR_LIST'', ''github.pr_list''),
      (''GITHUB_PR_GET'', ''github.pr_get''),
      (''GITHUB_PR_CREATE'', ''github.pr_create''),
      (''GITHUB_FILE_GET'', ''github.file_get''),
      (''GITHUB_FILE_COMMIT'', ''github.file_commit''),
      (''CODE_RUN'', ''code.run''),
      (''CODE_EXEC'', ''code.exec''),
      (''IMAGE_GENERATE'', ''image.generate''),
      (''SECRET_EXPORT'', ''secret.export''),
      (''ACCOUNT_DELETE'', ''account.delete'')]"

section \<open>Parameter schemas\<close>

definition web_schemas :: "(string \<times> params) list" where
  "web_schemas =
   [(''stub.noop'',
     [(''type'', JStr ''object''),
      (''properties'', JObj []),
      (''additionalProperties'', JBool True)]),
    (''web.search'',
     [(''type'', JStr ''object''),
      (''properties'', JObj
         [(''q'', JObj [(''type'', JStr ''string''), (''description'', JStr ''search query'')]),
          (''query'', JObj [(''type'', JStr ''string'')]),
          (''filters'', JObj [(''type'', JStr ''object'')]),
          (''api_key'', JObj [(''type'', JStr ''string'')]),
          (''limit'', JObj [(''type'', JStr ''integer'')])]),
      (''required'', JList [JStr ''q''])]),
    (''web.fetch'',
     [(''type'', JStr ''object''),
      (''properties'', JObj
         [(''url'', JObj [(''type'', JStr ''string''), (''description'', JStr ''public http(s) URL'')]),
          (''api_key'', JObj [(''type'', JStr ''string'')])]),
      (''required'', JList [JStr ''url''])]),
    (''web.download'',
     [(''type'', JStr ''object''),
      (''properties'', JObj
         [(''url'', JObj [(''type'', JStr ''string'')]),
          (''path'', JObj
           [(''type'', JStr ''string''),
            (''description'', JStr ''workspace-relative file path'')]),
          (''api_key'', JObj [(''type'', JStr ''string'')])]),
      (''required'', JList [JStr ''url'', JStr ''path''])])]"

definition browser_schemas :: "(string \<times> params) list" where
  "browser_schemas =
   [(''browser.navigate'',
     [(''type'', JStr ''object''),
      (''properties'', JObj
         [(''url'', JObj
           [(''type'', JStr ''string''),
            (''minLength'', JInt 1),
            (''maxLength'', JInt 2048),
            (''description'', JStr ''public HTTP(S) URL'')]),
          (''wait_until'', JObj
           [(''type'', JStr ''string''),
            (''enum'', JList
             [JStr ''commit'',
              JStr ''domcontentloaded'',
              JStr ''load'',
              JStr ''networkidle''])])]),
      (''required'', JList [JStr ''url'']),
      (''additionalProperties'', JBool False)]),
    (''browser.screenshot'',
     [(''type'', JStr ''object''),
      (''properties'', JObj
         [(''path'', JObj
           [(''type'', JStr ''string''),
            (''minLength'', JInt 1),
            (''maxLength'', JInt 2048),
            (''description'', JStr ''workspace-relative .png/.jpg output path'')]),
          (''selector'', JObj
           [(''type'', JStr ''string''),
            (''minLength'', JInt 1),
            (''maxLength'', JInt 1000)]),
          (''full_page'', JObj [(''type'', JStr ''boolean'')])]),
      (''required'', JList [JStr ''path'']),
      (''additionalProperties'', JBool False)]),
    (''browser.extract_dom'',
     [(''type'', JStr ''object''),
      (''properties'', JObj
         [(''selector'', JObj
           [(''type'', JStr ''string''),
            (''minLength'', JInt 1),
            (''maxLength'', JInt 1000)]),
          (''max_chars'', JObj
           [(''type'', JStr ''integer''),
            (''minimum'', JInt 1),
            (''maximum'', JInt 100000)]),
          (''save_html_path'', JObj
           [(''type'', JStr ''string''),
            (''minLength'', JInt 1),
            (''maxLength'', JInt 2048),
            (''description'', JStr ''optional workspace-relative HTML dump path'')])]),
      (''required'', JList []),
      (''additionalProperties'', JBool False)]),
    (''browser.click'',
     [(''type'', JStr ''object''),
      (''properties'', JObj
         [(''selector'', JObj
           [(''type'', JStr ''string''),
            (''minLength'', JInt 1),
            (''maxLength'', JInt 1000)]),
          (''text'', JObj
           [(''type'', JStr ''string''),
            (''minLength'', JInt 1),
            (''maxLength'', JInt 1000)]),
          (''exact'', JObj [(''type'', JStr ''boolean'')]),
          (''element_ref'', JObj
           [(''type'', JStr ''string''),
            (''minLength'', JInt 24),
            (''maxLength'', JInt 128)]),
          (''expect'', JObj
           [(''type'', JStr ''object''),
            (''properties'', JObj
             [(''kind'', JObj
               [(''type'', JStr ''string''),
                (''enum'', JList [JStr ''navigation'', JStr ''tab_opened'', JStr ''element_detached''])]),
              (''url_contains'', JObj
               [(''type'', JStr ''string''),
                (''minLength'', JInt 1),
                (''maxLength'', JInt 500)])]),
            (''required'', JList [JStr ''kind'']),
            (''additionalProperties'', JBool False)])]),
      (''required'', JList []),
      (''oneOf'', JList
         [JObj
           [(''required'', JList [JStr ''selector'']),
            (''not'', JObj [(''required'', JList [JStr ''text'', JStr ''element_ref''])])],
          JObj
           [(''required'', JList [JStr ''text'']),
            (''not'', JObj [(''required'', JList [JStr ''selector'', JStr ''element_ref''])])],
          JObj
           [(''required'', JList [JStr ''element_ref'']),
            (''not'', JObj [(''required'', JList [JStr ''selector'', JStr ''text''])])]]),
      (''additionalProperties'', JBool False)])]"

definition browser_form_schemas :: "(string \<times> params) list" where
  "browser_form_schemas =
   [(''browser.fill'',
     [(''type'', JStr ''object''),
      (''properties'', JObj
         [(''selector'', JObj
           [(''type'', JStr ''string''),
            (''minLength'', JInt 1),
            (''maxLength'', JInt 1000)]),
          (''element_ref'', JObj
           [(''type'', JStr ''string''),
            (''minLength'', JInt 24),
            (''maxLength'', JInt 128)]),
          (''text'', JObj [(''type'', JStr ''string''), (''maxLength'', JInt 2000)]),
          (''value_ref'', JObj
           [(''type'', JStr ''string''),
            (''minLength'', JInt 1),
            (''maxLength'', JInt 256),
            (''description'', JStr ''vault:browser/<name> reference for secret input'')])]),
      (''required'', JList []),
      (''allOf'', JList
         [JObj
           [(''oneOf'', JList
             [JObj
               [(''required'', JList [JStr ''selector'']),
                (''not'', JObj [(''required'', JList [JStr ''element_ref''])])],
              JObj
               [(''required'', JList [JStr ''element_ref'']),
                (''not'', JObj [(''required'', JList [JStr ''selector''])])]])],
          JObj
           [(''oneOf'', JList
             [JObj
               [(''required'', JList [JStr ''text'']),
                (''not'', JObj [(''required'', JList [JStr ''value_ref''])])],
              JObj
               [(''required'', JList [JStr ''value_ref'']),
                (''not'', JObj [(''required'', JList [JStr ''text''])])]])]]),
      (''additionalProperties'', JBool False)]),
    (''browser.submit'',
     [(''type'', JStr ''object''),
      (''properties'', JObj
         [(''selector'', JObj
           [(''type'', JStr ''string''),
            (''minLength'', JInt 1),
            (''maxLength'', JInt 1000)]),
          (''element_ref'', JObj
           [(''type'', JStr ''string''),
            (''minLength'', JInt 24),
            (''maxLength'', JInt 128)]),
          (''expect'', JObj
           [(''type'', JStr ''object''),
            (''properties'', JObj
             [(''kind'', JObj
               [(''type'', JStr ''string''),
                (''enum'', JList [JStr ''navigation'', JStr ''tab_opened'', JStr ''element_detached''])]),
              (''url_contains'', JObj
               [(''type'', JStr ''string''),
                (''minLength'', JInt 1),
                (''maxLength'', JInt 500)])]),
            (''required'', JList [JStr ''kind'']),
            (''additionalProperties'', JBool False)])]),
      (''required'', JList []),
      (''oneOf'', JList
         [JObj
           [(''required'', JList [JStr ''selector'']),
            (''not'', JObj [(''required'', JList [JStr ''element_ref''])])],
          JObj
           [(''required'', JList [JStr ''element_ref'']),
            (''not'', JObj [(''required'', JList [JStr ''selector''])])],
          JObj
           [(''required'', JList []),
            (''not'', JObj
             [(''anyOf'', JList
               [JObj [(''required'', JList [JStr ''selector''])],
                JObj [(''required'', JList [JStr ''element_ref''])]])])]]),
      (''additionalProperties'', JBool False)]),
    (''browser.inspect'',
     [(''type'', JStr ''object''),
      (''properties'', JObj
         [(''max_elements'', JObj [(''type'', JStr ''integer''), (''minimum'', JInt 1), (''maximum'', JInt 500)])]),
      (''required'', JList []),
      (''additionalProperties'', JBool False)]),
    (''browser.tabs'',
     [(''type'', JStr ''object''),
      (''properties'', JObj []),
      (''required'', JList []),
      (''additionalProperties'', JBool False)]),
    (''browser.activate_tab'',
     [(''type'', JStr ''object''),
      (''properties'', JObj
         [(''tab_id'', JObj
           [(''type'', JStr ''string''),
            (''minLength'', JInt 1),
            (''maxLength'', JInt 128)])]),
      (''required'', JList [JStr ''tab_id'']),
      (''additionalProperties'', JBool False)]),
    (''browser.download'',
     [(''type'', JStr ''object''),
      (''properties'', JObj
         [(''path'', JObj
           [(''type'', JStr ''string''),
            (''minLength'', JInt 1),
            (''maxLength'', JInt 2048),
            (''description'', JStr ''workspace-relative destination file path'')]),
          (''element_ref'', JObj
           [(''type'', JStr ''string''),
            (''minLength'', JInt 24),
            (''maxLength'', JInt 128)]),
          (''selector'', JObj
           [(''type'', JStr ''string''),
            (''minLength'', JInt 1),
            (''maxLength'', JInt 1000)]),
          (''text'', JObj
           [(''type'', JStr ''string''),
            (''minLength'', JInt 1),
            (''maxLength'', JInt 1000)]),
          (''exact'', JObj [(''type'', JStr ''boolean'')]),
          (''max_bytes'', JObj
           [(''type'', JStr ''integer''),
            (''minimum'', JInt 1),
            (''maximum'', JInt 1073741824)])]),
      (''required'', JList [JStr ''path'']),
      (''oneOf'', JList
         [JObj
           [(''required'', JList [JStr ''element_ref'']),
            (''not'', JObj [(''required'', JList [JStr ''selector'', JStr ''text''])])],
          JObj
           [(''required'', JList [JStr ''selector'']),
            (''not'', JObj [(''required'', JList [JStr ''element_ref'', JStr ''text''])])],
          JObj
           [(''required'', JList [JStr ''text'']),
            (''not'', JObj [(''required'', JList [JStr ''element_ref'', JStr ''selector''])])]]),
      (''additionalProperties'', JBool False)]),
    (''browser.upload'',
     [(''type'', JStr ''object''),
      (''properties'', JObj
         [(''path'', JObj
           [(''type'', JStr ''string''),
            (''minLength'', JInt 1),
            (''maxLength'', JInt 2048),
            (''description'', JStr ''workspace-relative source file path (must exist)'')]),
          (''element_ref'', JObj
           [(''type'', JStr ''string''),
            (''minLength'', JInt 24),
            (''maxLength'', JInt 128)]),
          (''selector'', JObj
           [(''type'', JStr ''string''),
            (''minLength'', JInt 1),
            (''maxLength'', JInt 1000)])]),
      (''required'', JList [JStr ''path'']),
      (''oneOf'', JList
         [JObj
           [(''required'', JList [JStr ''element_ref'']),
            (''not'', JObj [(''required'', JList [JStr ''selector''])])],
          JObj
           [(''required'', JList [JStr ''selector'']),
            (''not'', JObj [(''required'', JList [JStr ''element_ref''])])]]),
      (''additionalProperties'', JBool False)]),
    (''browser.workflow_run'',
     [(''type'', JStr ''object''),
      (''properties'', JObj
         [(''workflow'', JObj [(''type'', JStr ''string''), (''minLength'', JInt 1), (''maxLength'', JInt 64)]),
          (''params'', JObj [(''type'', JStr ''object'')]),
          (''run_token'', JObj
           [(''type'', JStr ''string''),
            (''minLength'', JInt 1),
            (''maxLength'', JInt 128)])]),
      (''required'', JList [JStr ''workflow'']),
      (''additionalProperties'', JBool False)])]"

definition email_schemas :: "(string \<times> params) list" where
  "email_schemas =
   [(''email.read'',
     [(''type'', JStr ''object''),
      (''properties'', JObj
         [(''message_id'', JObj [(''type'', JStr ''string''), (''maxLength'', JInt 20)]),
          (''limit'', JObj [(''type'', JStr ''integer''), (''minimum'', JInt 1), (''maximum'', JInt 50)]),
          (''mailbox'', JObj [(''type'', JStr ''string''), (''maxLength'', JInt 128)]),
          (''token'', JObj [(''type'', JStr ''string'')]),
          (''refresh_token'', JObj [(''type'', JStr ''string'')])]),
      (''required'', JList []),
      (''additionalProperties'', JBool False)]),
    (''email.search'',
     [(''type'', JStr ''object''),
      (''properties'', JObj
         [(''query'', JObj
           [(''type'', JStr ''string''),
            (''minLength'', JInt 1),
            (''maxLength'', JInt 500)]),
          (''q'', JObj
           [(''type'', JStr ''string''),
            (''minLength'', JInt 1),
            (''maxLength'', JInt 500)]),
          (''limit'', JObj [(''type'', JStr ''integer''), (''minimum'', JInt 1), (''maximum'', JInt 50)]),
          (''mailbox'', JObj [(''type'', JStr ''string''), (''maxLength'', JInt 128)]),
          (''token'', JObj [(''type'', JStr ''string'')]),
          (''refresh_token'', JObj [(''type'', JStr ''string'')])]),
      (''required'', JList [JStr ''query'']),
      (''additionalProperties'', JBool False)]),
    (''email.draft'',
     [(''type'', JStr ''object''),
      (''properties'', JObj
         [(''to'', JObj [(''type'', JList [JStr ''string'', JStr ''array'']), (''maxItems'', JInt 10)]),
          (''subject'', JObj [(''type'', JStr ''string'')]),
          (''body'', JObj [(''type'', JStr ''string'')]),
          (''token'', JObj [(''type'', JStr ''string'')]),
          (''refresh_token'', JObj [(''type'', JStr ''string'')])]),
      (''required'', JList [JStr ''to'', JStr ''body''])]),
    (''email.send'',
     [(''type'', JStr ''object''),
      (''properties'', JObj
         [(''to'', JObj [(''type'', JList [JStr ''string'', JStr ''array'']), (''maxItems'', JInt 10)]),
          (''subject'', JObj [(''type'', JStr ''string''), (''maxLength'', JInt 998)]),
          (''body'', JObj [(''type'', JStr ''string''), (''maxLength'', JInt 102400)]),
          (''cc'', JObj [(''type'', JList [JStr ''string'', JStr ''array'']), (''maxItems'', JInt 10)]),
          (''bcc'', JObj [(''type'', JList [JStr ''string'', JStr ''array'']), (''maxItems'', JInt 10)]),
          (''attachments'', JObj [(''type'', JStr ''array''), (''maxItems'', JInt 5)]),
          (''token'', JObj [(''type'', JStr ''string'')]),
          (''refresh_token'', JObj [(''type'', JStr ''string'')])]),
      (''required'', JList [JStr ''to'']),
      (''additionalProperties'', JBool False)])]"

definition whatsapp_schemas :: "(string \<times> params) list" where
  "whatsapp_schemas =
   [(''whatsapp.read'',
     [(''type'', JStr ''object''),
      (''properties'', JObj
         [(''limit'', JObj [(''type'', JStr ''integer''), (''minimum'', JInt 1), (''maximum'', JInt 50)]),
          (''lookback_hours'', JObj [(''type'', JStr ''integer''), (''minimum'', JInt 1), (''maximum'', JInt 24)]),
          (''sender'', JObj [(''type'', JStr ''string'')]),
          (''token'', JObj [(''type'', JStr ''string'')])]),
      (''required'', JList []),
      (''additionalProperties'', JBool False)]),
    (''whatsapp.send'',
     [(''type'', JStr ''object''),
      (''properties'', JObj
         [(''to'', JObj
           [(''type'', JList [JStr ''string'', JStr ''array'']),
            (''maxItems'', JInt 10),
            (''description'', JStr ''recipient phone number(s), E.164'')]),
          (''message'', JObj
           [(''type'', JStr ''string''),
            (''maxLength'', JInt 1000),
            (''description'', JStr ''text body'')]),
          (''text'', JObj [(''type'', JStr ''string''), (''maxLength'', JInt 1000)]),
          (''template'', JObj
           [(''type'', JStr ''string''),
            (''maxLength'', JInt 512),
            (''description'', JStr ''approved template name'')]),
          (''template_params'', JObj [(''type'', JList [JStr ''object'', JStr ''array''])]),
          (''language_code'', JObj [(''type'', JStr ''string''), (''maxLength'', JInt 32)]),
          (''media'', JObj [(''type'', JStr ''array''), (''maxItems'', JInt 5)]),
          (''token'', JObj [(''type'', JStr ''string'')])]),
      (''required'', JList [JStr ''to'']),
      (''additionalProperties'', JBool False)]),
    (''whatsapp.react'',
     [(''type'', JStr ''object''),
      (''properties'', JObj
         [(''message_id'', JObj [(''type'', JStr ''string''), (''maxLength'', JInt 512)]),
          (''emoji'', JObj [(''type'', JStr ''string''), (''maxLength'', JInt 32)]),
          (''to'', JObj [(''type'', JStr ''string'')]),
          (''token'', JObj [(''type'', JStr ''string'')])]),
      (''required'', JList [JStr ''message_id'', JStr ''emoji'', JStr ''to'']),
      (''additionalProperties'', JBool False)])]"

definition booking_schemas :: "(string \<times> params) list" where
  "booking_schemas =
   [(''booking.search'',
     [(''type'', JStr ''object''),
      (''properties'', JObj
         [(''origin'', JObj [(''type'', JStr ''string'')]),
          (''destination'', JObj [(''type'', JStr ''string'')]),
          (''date'', JObj [(''type'', JStr ''string'')]),
          (''departure_date'', JObj [(''type'', JStr ''string'')]),
          (''mode'', JObj [(''type'', JStr ''string'')]),
          (''token'', JObj [(''type'', JStr ''string'')]),
          (''payment_token'', JObj [(''type'', JStr ''string'')])]),
      (''required'', JList [JStr ''origin'', JStr ''destination'']),
      (''additionalProperties'', JBool False)]),
    (''booking.hold'',
     [(''type'', JStr ''object''),
      (''properties'', JObj
         [(''booking_id'', JObj [(''type'', JStr ''string'')]),
          (''offer_ref'', JObj [(''type'', JStr ''string'')]),
          (''trip_id'', JObj [(''type'', JStr ''string'')]),
          (''passenger_name'', JObj [(''type'', JStr ''string'')]),
          (''passengers'', JObj [(''type'', JStr ''array''), (''maxItems'', JInt 10)]),
          (''guests'', JObj [(''type'', JStr ''array''), (''maxItems'', JInt 10)]),
          (''amount_minor'', JObj [(''type'', JStr ''integer''), (''minimum'', JInt 1)]),
          (''currency'', JObj [(''type'', JStr ''string''), (''maxLength'', JInt 3)]),
          (''fare'', JObj [(''type'', JStr ''number'')]),
          (''service_number'', JObj [(''type'', JStr ''string'')]),
          (''idempotency_key'', JObj [(''type'', JStr ''string''), (''maxLength'', JInt 128)]),
          (''token'', JObj [(''type'', JStr ''string'')]),
          (''payment_token'', JObj [(''type'', JStr ''string'')])]),
      (''required'', JList []),
      (''additionalProperties'', JBool False)]),
    (''booking.confirm'',
     [(''type'', JStr ''object''),
      (''properties'', JObj
         [(''booking_id'', JObj [(''type'', JStr ''string'')]),
          (''booking_ref'', JObj [(''type'', JStr ''string'')]),
          (''draft_id'', JObj [(''type'', JStr ''string'')]),
          (''hold_ref'', JObj [(''type'', JStr ''string'')]),
          (''payment_ref'', JObj [(''type'', JStr ''string'')]),
          (''idempotency_key'', JObj [(''type'', JStr ''string''), (''maxLength'', JInt 128)]),
          (''token'', JObj [(''type'', JStr ''string'')]),
          (''payment_token'', JObj [(''type'', JStr ''string'')])]),
      (''required'', JList []),
      (''additionalProperties'', JBool False)]),
    (''booking.cancel'',
     [(''type'', JStr ''object''),
      (''properties'', JObj
         [(''booking_id'', JObj [(''type'', JStr ''string'')]),
          (''booking_ref'', JObj [(''type'', JStr ''string'')]),
          (''reason'', JObj [(''type'', JStr ''string''), (''maxLength'', JInt 1000)]),
          (''idempotency_key'', JObj [(''type'', JStr ''string''), (''maxLength'', JInt 128)]),
          (''token'', JObj [(''type'', JStr ''string'')]),
          (''payment_token'', JObj [(''type'', JStr ''string'')])]),
      (''required'', JList []),
      (''additionalProperties'', JBool False)])]"

definition file_schemas :: "(string \<times> params) list" where
  "file_schemas =
   [(''fs.list'',
     [(''type'', JStr ''object''),
      (''properties'', JObj
         [(''path'', JObj [(''type'', JStr ''string''), (''description'', JStr ''workspace directory'')])]),
      (''required'', JList [JStr ''path''])]),
    (''fs.read'',
     [(''type'', JStr ''object''),
      (''properties'', JObj
         [(''path'', JObj [(''type'', JStr ''string''), (''description'', JStr ''workspace file'')]),
          (''token'', JObj [(''type'', JStr ''string'')])]),
      (''required'', JList [JStr ''path''])]),
    (''fs.write'',
     [(''type'', JStr ''object''),
      (''properties'', JObj
         [(''path'', JObj [(''type'', JStr ''string'')]),
          (''content'', JObj [(''type'', JStr ''string''), (''description'', JStr ''full file content'')]),
          (''content_from'', JObj [(''type'', JStr ''string'')]),
          (''repair'', JObj [(''type'', JStr ''boolean'')]),
          (''token'', JObj [(''type'', JStr ''string'')])]),
      (''required'', JList [JStr ''path'', JStr ''content''])]),
    (''fs.move'',
     [(''type'', JStr ''object''),
      (''properties'', JObj
         [(''path'', JObj [(''type'', JStr ''string'')]),
          (''dst'', JObj [(''type'', JStr ''string'')]),
          (''token'', JObj [(''type'', JStr ''string'')])]),
      (''required'', JList [JStr ''path'', JStr ''dst''])]),
    (''fs.delete'',
     [(''type'', JStr ''object''),
      (''properties'', JObj
         [(''path'', JObj [(''type'', JStr ''string''), (''description'', JStr ''file/empty dir'')]),
          (''token'', JObj [(''type'', JStr ''string'')])]),
      (''required'', JList [JStr ''path''])]),
    (''photo.view'',
     [(''type'', JStr ''object''),
      (''properties'', JObj
         [(''path'', JObj [(''type'', JStr ''string'')]),
          (''token'', JObj [(''type'', JStr ''string'')])]),
      (''required'', JList [JStr ''path''])]),
    (''photo.edit'',
     [(''type'', JStr ''object''),
      (''properties'', JObj
         [(''path'', JObj [(''type'', JStr ''string'')]),
          (''content'', JObj [(''type'', JStr ''string'')]),
          (''token'', JObj [(''type'', JStr ''string'')])]),
      (''required'', JList [JStr ''path'', JStr ''content''])]),
    (''photo.upload'',
     [(''type'', JStr ''object''),
      (''properties'', JObj
         [(''path'', JObj [(''type'', JStr ''string'')]),
          (''content'', JObj [(''type'', JStr ''string'')]),
          (''token'', JObj [(''type'', JStr ''string'')])]),
      (''required'', JList [JStr ''path'', JStr ''content''])]),
    (''photo.delete'',
     [(''type'', JStr ''object''),
      (''properties'', JObj
         [(''path'', JObj [(''type'', JStr ''string'')]),
          (''token'', JObj [(''type'', JStr ''string'')])]),
      (''required'', JList [JStr ''path''])])]"

definition device_schemas :: "(string \<times> params) list" where
  "device_schemas =
   [(''device.shell'',
     [(''type'', JStr ''object''),
      (''properties'', JObj
         [(''command'', JObj [(''type'', JStr ''string''), (''maxLength'', JInt 512)]),
          (''pairing_token'', JObj [(''type'', JStr ''string'')])]),
      (''required'', JList [JStr ''command'']),
      (''additionalProperties'', JBool False)]),
    (''device.app_launch'',
     [(''type'', JStr ''object''),
      (''properties'', JObj
         [(''package'', JObj [(''type'', JStr ''string''), (''maxLength'', JInt 256)]),
          (''pairing_token'', JObj [(''type'', JStr ''string'')])]),
      (''required'', JList [JStr ''package'']),
      (''additionalProperties'', JBool False)]),
    (''device.ui_click'',
     [(''type'', JStr ''object''),
      (''properties'', JObj
         [(''x'', JObj [(''type'', JStr ''integer''), (''minimum'', JInt 0), (''maximum'', JInt 4096)]),
          (''y'', JObj [(''type'', JStr ''integer''), (''minimum'', JInt 0), (''maximum'', JInt 4096)]),
          (''pairing_token'', JObj [(''type'', JStr ''string'')])]),
      (''required'', JList [JStr ''x'', JStr ''y'']),
      (''additionalProperties'', JBool False)]),
    (''device.screenshot'',
     [(''type'', JStr ''object''),
      (''properties'', JObj
         [(''path'', JObj [(''type'', JStr ''string'')]),
          (''pairing_token'', JObj [(''type'', JStr ''string'')])]),
      (''required'', JList []),
      (''additionalProperties'', JBool False)]),
    (''device.photo_capture'',
     [(''type'', JStr ''object''),
      (''properties'', JObj
         [(''path'', JObj [(''type'', JStr ''string'')]),
          (''pairing_token'', JObj [(''type'', JStr ''string'')])]),
      (''required'', JList []),
      (''additionalProperties'', JBool False)]),
    (''device.location'',
     [(''type'', JStr ''object''),
      (''properties'', JObj [(''pairing_token'', JObj [(''type'', JStr ''string'')])]),
      (''required'', JList []),
      (''additionalProperties'', JBool False)]),
    (''device.notification'',
     [(''type'', JStr ''object''),
      (''properties'', JObj
         [(''limit'', JObj [(''type'', JStr ''integer''), (''minimum'', JInt 1), (''maximum'', JInt 50)]),
          (''pairing_token'', JObj [(''type'', JStr ''string'')])]),
      (''required'', JList []),
      (''additionalProperties'', JBool False)]),
    (''device.contacts'',
     [(''type'', JStr ''object''),
      (''properties'', JObj
         [(''query'', JObj [(''type'', JStr ''string''), (''maxLength'', JInt 256)]),
          (''limit'', JObj [(''type'', JStr ''integer''), (''minimum'', JInt 1), (''maximum'', JInt 100)]),
          (''pairing_token'', JObj [(''type'', JStr ''string'')])]),
      (''required'', JList []),
      (''additionalProperties'', JBool False)]),
    (''device.sms_read'',
     [(''type'', JStr ''object''),
      (''properties'', JObj
         [(''sender'', JObj [(''type'', JStr ''string'')]),
          (''limit'', JObj [(''type'', JStr ''integer''), (''minimum'', JInt 1), (''maximum'', JInt 50)]),
          (''pairing_token'', JObj [(''type'', JStr ''string'')])]),
      (''required'', JList []),
      (''additionalProperties'', JBool False)]),
    (''device.sms_send'',
     [(''type'', JStr ''object''),
      (''properties'', JObj
         [(''to'', JObj [(''type'', JStr ''string'')]),
          (''message'', JObj [(''type'', JStr ''string''), (''maxLength'', JInt 1000)]),
          (''pairing_token'', JObj [(''type'', JStr ''string'')])]),
      (''required'', JList [JStr ''to'', JStr ''message'']),
      (''additionalProperties'', JBool False)]),
    (''device.install_app'',
     [(''type'', JStr ''object''),
      (''properties'', JObj
         [(''path'', JObj [(''type'', JStr ''string'')]),
          (''pairing_token'', JObj [(''type'', JStr ''string'')])]),
      (''required'', JList [JStr ''path'']),
      (''additionalProperties'', JBool False)]),
    (''device.uninstall_app'',
     [(''type'', JStr ''object''),
      (''properties'', JObj
         [(''package'', JObj [(''type'', JStr ''string'')]),
          (''pairing_token'', JObj [(''type'', JStr ''string'')])]),
      (''required'', JList [JStr ''package'']),
      (''additionalProperties'', JBool False)]),
    (''device.settings_change'',
     [(''type'', JStr ''object''),
      (''properties'', JObj
         [(''setting'', JObj
           [(''type'', JStr ''string''),
            (''enum'', JList [JStr ''wifi'', JStr ''brightness''])]),
          (''value'', JObj [(''type'', JList [JStr ''string'', JStr ''integer'', JStr ''boolean''])]),
          (''pairing_token'', JObj [(''type'', JStr ''string'')])]),
      (''required'', JList [JStr ''setting'', JStr ''value'']),
      (''additionalProperties'', JBool False)]),
    (''device.payment'',
     [(''type'', JStr ''object''),
      (''properties'', JObj
         [(''amount_minor'', JObj [(''type'', JStr ''integer''), (''minimum'', JInt 1)]),
          (''amount'', JObj [(''type'', JStr ''integer''), (''minimum'', JInt 1)]),
          (''recipient'', JObj [(''type'', JStr ''string''), (''maxLength'', JInt 256)]),
          (''currency'', JObj [(''type'', JStr ''string''), (''maxLength'', JInt 3)]),
          (''pairing_token'', JObj [(''type'', JStr ''string'')])]),
      (''required'', JList [JStr ''recipient'']),
      (''additionalProperties'', JBool False)])]"

definition github_schemas :: "(string \<times> params) list" where
  "github_schemas =
   [(''github.repo_get'',
     [(''type'', JStr ''object''),
      (''properties'', JObj
         [(''repo'', JObj [(''type'', JStr ''string''), (''description'', JStr ''owner/repo'')]),
          (''token'', JObj [(''type'', JStr ''string'')])]),
      (''required'', JList [JStr ''repo''])]),
    (''github.issue_list'',
     [(''type'', JStr ''object''),
      (''properties'', JObj
         [(''repo'', JObj [(''type'', JStr ''string''), (''description'', JStr ''owner/repo'')]),
          (''state'', JObj [(''type'', JStr ''string''), (''description'', JStr ''open|closed|all'')]),
          (''token'', JObj [(''type'', JStr ''string'')])]),
      (''required'', JList [JStr ''repo''])]),
    (''github.issue_get'',
     [(''type'', JStr ''object''),
      (''properties'', JObj
         [(''repo'', JObj [(''type'', JStr ''string''), (''description'', JStr ''owner/repo'')]),
          (''issue_number'', JObj [(''type'', JStr ''integer''), (''description'', JStr ''issue number'')]),
          (''token'', JObj [(''type'', JStr ''string'')])]),
      (''required'', JList [JStr ''repo'', JStr ''issue_number''])]),
    (''github.issue_create'',
     [(''type'', JStr ''object''),
      (''properties'', JObj
         [(''repo'', JObj [(''type'', JStr ''string''), (''description'', JStr ''owner/repo'')]),
          (''title'', JObj [(''type'', JStr ''string''), (''description'', JStr ''issue title'')]),
          (''body'', JObj [(''type'', JStr ''string''), (''description'', JStr ''issue body'')]),
          (''token'', JObj [(''type'', JStr ''string'')])]),
      (''required'', JList [JStr ''repo'', JStr ''title''])]),
    (''github.issue_comment'',
     [(''type'', JStr ''object''),
      (''properties'', JObj
         [(''repo'', JObj [(''type'', JStr ''string''), (''description'', JStr ''owner/repo'')]),
          (''issue_number'', JObj [(''type'', JStr ''integer''), (''description'', JStr ''issue number'')]),
          (''body'', JObj [(''type'', JStr ''string''), (''description'', JStr ''comment body'')]),
          (''token'', JObj [(''type'', JStr ''string'')])]),
      (''required'', JList [JStr ''repo'', JStr ''issue_number'', JStr ''body''])]),
    (''github.pr_list'',
     [(''type'', JStr ''object''),
      (''properties'', JObj
         [(''repo'', JObj [(''type'', JStr ''string''), (''description'', JStr ''owner/repo'')]),
          (''state'', JObj [(''type'', JStr ''string''), (''description'', JStr ''open|closed|all'')]),
          (''token'', JObj [(''type'', JStr ''string'')])]),
      (''required'', JList [JStr ''repo''])]),
    (''github.pr_get'',
     [(''type'', JStr ''object''),
      (''properties'', JObj
         [(''repo'', JObj [(''type'', JStr ''string''), (''description'', JStr ''owner/repo'')]),
          (''pull_number'', JObj [(''type'', JStr ''integer''), (''description'', JStr ''PR number'')]),
          (''token'', JObj [(''type'', JStr ''string'')])]),
      (''required'', JList [JStr ''repo'', JStr ''pull_number''])]),
    (''github.pr_create'',
     [(''type'', JStr ''object''),
      (''properties'', JObj
         [(''repo'', JObj [(''type'', JStr ''string''), (''description'', JStr ''owner/repo'')]),
          (''title'', JObj [(''type'', JStr ''string''), (''description'', JStr ''PR title'')]),
          (''head'', JObj [(''type'', JStr ''string''), (''description'', JStr ''head branch'')]),
          (''base'', JObj [(''type'', JStr ''string''), (''description'', JStr ''base branch'')]),
          (''body'', JObj [(''type'', JStr ''string''), (''description'', JStr ''PR description'')]),
          (''token'', JObj [(''type'', JStr ''string'')])]),
      (''required'', JList [JStr ''repo'', JStr ''title'', JStr ''head'', JStr ''base''])]),
    (''github.file_get'',
     [(''type'', JStr ''object''),
      (''properties'', JObj
         [(''repo'', JObj [(''type'', JStr ''string''), (''description'', JStr ''owner/repo'')]),
          (''path'', JObj [(''type'', JStr ''string''), (''description'', JStr ''file path in repo'')]),
          (''ref'', JObj
           [(''type'', JStr ''string''),
            (''description'', JStr ''branch, tag or commit SHA'')]),
          (''token'', JObj [(''type'', JStr ''string'')])]),
      (''required'', JList [JStr ''repo'', JStr ''path''])]),
    (''github.file_commit'',
     [(''type'', JStr ''object''),
      (''properties'', JObj
         [(''repo'', JObj [(''type'', JStr ''string''), (''description'', JStr ''owner/repo'')]),
          (''path'', JObj [(''type'', JStr ''string''), (''description'', JStr ''file path in repo'')]),
          (''message'', JObj [(''type'', JStr ''string''), (''description'', JStr ''commit message'')]),
          (''content'', JObj
           [(''type'', JStr ''string''),
            (''description'', JStr ''file content to commit'')]),
          (''branch'', JObj [(''type'', JStr ''string''), (''description'', JStr ''target branch'')]),
          (''token'', JObj [(''type'', JStr ''string'')])]),
      (''required'', JList [JStr ''repo'', JStr ''path'', JStr ''message'', JStr ''content''])])]"

definition other_schemas :: "(string \<times> params) list" where
  "other_schemas =
   [(''code.run'',
     [(''type'', JStr ''object''),
      (''properties'', JObj
         [(''code'', JObj
           [(''type'', JStr ''string''),
            (''description'', JStr ''Python code snippet to execute'')]),
          (''language'', JObj [(''type'', JStr ''string''), (''description'', JStr ''python'')])]),
      (''required'', JList [JStr ''code''])]),
    (''code.exec'',
     [(''type'', JStr ''object''),
      (''properties'', JObj
         [(''code'', JObj
           [(''type'', JStr ''string''),
            (''description'', JStr ''Python code snippet to execute'')]),
          (''language'', JObj [(''type'', JStr ''string''), (''description'', JStr ''python'')])]),
      (''required'', JList [JStr ''code''])]),
    (''image.generate'',
     [(''type'', JStr ''object''),
      (''properties'', JObj
         [(''prompt'', JObj
           [(''type'', JStr ''string''),
            (''description'', JStr ''image description prompt'')]),
          (''size'', JObj [(''type'', JStr ''string''), (''description'', JStr ''e.g. 1024x1024'')]),
          (''output_path'', JObj
           [(''type'', JStr ''string''),
            (''description'', JStr ''workspace output file path'')]),
          (''model'', JObj [(''type'', JStr ''string''), (''description'', JStr ''model identifier'')]),
          (''api_key'', JObj [(''type'', JStr ''string'')])]),
      (''required'', JList [JStr ''prompt''])]),
    (''secret.export'',
     [(''type'', JStr ''object''),
      (''properties'', JObj []),
      (''required'', JList [])]),
    (''account.delete'',
     [(''type'', JStr ''object''),
      (''properties'', JObj []),
      (''required'', JList [])])]"

definition ACTION_PARAM_SCHEMAS :: "(string \<times> params) list" where
  "ACTION_PARAM_SCHEMAS =
     web_schemas @ browser_schemas @ browser_form_schemas @ email_schemas @ whatsapp_schemas
     @ booking_schemas @ file_schemas @ device_schemas @ github_schemas @ other_schemas"

lemmas schema_table_defs =
  web_schemas_def browser_schemas_def browser_form_schemas_def email_schemas_def
  whatsapp_schemas_def booking_schemas_def file_schemas_def device_schemas_def
  github_schemas_def other_schemas_def

end
