(* ===== verification/Validation.thy ===== *)
theory Validation
  imports Core_Types
begin

text \<open>
  Model of \<^verbatim>\<open>era/security/validation.py\<close>: the bounds on externally supplied action types, names,
  challenges and parameter trees, and the check of parameters against the JSON schema of an
  action.  A schema is the JSON object the catalog holds, read with the dictionary operations
  the code uses on it, so an ill-shaped schema gives the \<open>TypeError\<close> that Python raises.

  Every \<open>raise\<close> of the module is a constructor of \<open>validation_error\<close>.
\<close>

section \<open>Errors and limits\<close>

datatype validation_error =
    ActionTypeEmpty | ActionTypeTooLong | ActionTypeBadChars
  | NestingTooDeep | StringTooLong | TooManyParams | BadParamName | TooManyElements
  | NameEmpty | NameTooLong | ChallengeEmpty | ChallengeTooLong
  | MissingRequired json | UnknownParam string | WrongType string
  | TooFewItems string | TooManyItems string | NotInEnum string
  | TooShort string | TooLong string | BelowMinimum string | AboveMaximum string
  | NotExactlyOneShape | BadAllOf | ShapeNotSatisfied
  | PyTypeError | PyIntTooLong

definition MAX_PARAMS :: nat where "MAX_PARAMS = 32"
definition MAX_PARAM_KEY_LEN :: nat where "MAX_PARAM_KEY_LEN = 64"
definition MAX_STR_LEN :: nat where "MAX_STR_LEN = 2000"
definition MAX_CONTENT_LEN :: nat where "MAX_CONTENT_LEN = 1048576"
definition MAX_PARAM_TOTAL :: nat where "MAX_PARAM_TOTAL = 16384"
definition MAX_ACTION_TYPE_LEN :: nat where "MAX_ACTION_TYPE_LEN = 128"
definition MAX_NAME_LEN :: nat where "MAX_NAME_LEN = 128"
definition MAX_CHALLENGE_LEN :: nat where "MAX_CHALLENGE_LEN = 256"

definition CONTENT_ACTIONS :: "string set" where
  "CONTENT_ACTIONS =
     {''fs.write'', ''photo.edit'', ''photo.upload'', ''github.file_commit'',
      ''code.run'', ''code.exec'', ''email.send''}"

section \<open>Names\<close>

text \<open>The pattern \<open>^[A-Za-z0-9][A-Za-z0-9_.\-]{0,127}$\<close>; \<open>$\<close> also matches before a final
  newline.\<close>

definition action_type_body :: "string \<Rightarrow> bool" where
  "action_type_body s = (case s of [] \<Rightarrow> False
     | c # cs \<Rightarrow> (is_alpha c \<or> is_digit c) \<and> length cs \<le> 127
         \<and> list_all (\<lambda>d. is_alpha d \<or> is_digit d \<or> d = CHR ''_'' \<or> d = CHR ''.'' \<or> d = CHR ''-'') cs)"

definition action_type_re :: "string \<Rightarrow> bool" where
  "action_type_re s =
     (action_type_body s \<or> (s \<noteq> [] \<and> code (last s) = 10 \<and> action_type_body (butlast s)))"

definition validate_action_type :: "string \<Rightarrow> (validation_error, string) result" where
  "validate_action_type s =
     (if s = [] then Inl ActionTypeEmpty
      else if length s > MAX_ACTION_TYPE_LEN then Inl ActionTypeTooLong
      else if \<not> action_type_re s then Inl ActionTypeBadChars
      else Inr s)"

definition validate_name :: "string \<Rightarrow> (validation_error, string) result" where
  "validate_name s =
     (if s = [] then Inl NameEmpty
      else if length s > MAX_NAME_LEN then Inl NameTooLong
      else Inr s)"

definition validate_challenge :: "string option \<Rightarrow> (validation_error, string option) result" where
  "validate_challenge v = (case v of
       None \<Rightarrow> Inr None
     | Some s \<Rightarrow> if s = [] then Inl ChallengeEmpty
               else if length s > MAX_CHALLENGE_LEN then Inl ChallengeTooLong
               else Inr (Some s))"

section \<open>The parameter tree\<close>

text \<open>\<open>len(str(value))\<close> of an integer, which Python refuses beyond 4300 digits; the text of a
  float is the parameter \<open>fstr\<close>, of which only the length is used.\<close>

definition int_len :: "int \<Rightarrow> (validation_error, nat) result" where
  "int_len i = (if length (show_nat (nat \<bar>i\<bar>)) > 4300 then Inl PyIntTooLong
                else Inr (length (show_int i)))"

fun walk :: "(pyfloat \<Rightarrow> string) \<Rightarrow> nat \<Rightarrow> nat \<Rightarrow> nat \<Rightarrow> json \<Rightarrow> (validation_error, nat) result"
  and walk_items :: "(pyfloat \<Rightarrow> string) \<Rightarrow> nat \<Rightarrow> nat \<Rightarrow> nat \<Rightarrow> json list
        \<Rightarrow> (validation_error, nat) result"
  and walk_fields :: "(pyfloat \<Rightarrow> string) \<Rightarrow> nat \<Rightarrow> nat \<Rightarrow> nat \<Rightarrow> (string \<times> json) list
        \<Rightarrow> (validation_error, nat) result" where
  "walk fstr d budget limit v =
     (if d > 4 then Inl NestingTooDeep
      else case v of
        JStr s \<Rightarrow> if length s > limit then Inl StringTooLong else Inr (length s)
      | JBool b \<Rightarrow> Inr 1
      | JInt i \<Rightarrow> int_len i
      | JFloat f \<Rightarrow> Inr (length (fstr f))
      | JNull \<Rightarrow> Inr 0
      | JObj kvs \<Rightarrow> if length kvs > MAX_PARAMS then Inl TooManyParams
                    else walk_fields fstr (d + 1) budget limit kvs
      | JList xs \<Rightarrow> if length xs > MAX_PARAMS then Inl TooManyElements
                    else walk_items fstr (d + 1) budget limit xs)"
| "walk_items fstr d budget limit [] = Inr 0"
| "walk_items fstr d budget limit (x # xs) =
     (case walk fstr d budget limit x of Inl e \<Rightarrow> Inl e
      | Inr n \<Rightarrow> (case walk_items fstr d budget limit xs of Inl e \<Rightarrow> Inl e | Inr m \<Rightarrow> Inr (n + m)))"
| "walk_fields fstr d budget limit [] = Inr 0"
| "walk_fields fstr d budget limit ((k, v) # kvs) =
     (if k = [] \<or> length k > MAX_PARAM_KEY_LEN then Inl BadParamName
      else case walk fstr d budget limit v of Inl e \<Rightarrow> Inl e
      | Inr n \<Rightarrow> (case walk_fields fstr d budget limit kvs of Inl e \<Rightarrow> Inl e | Inr m \<Rightarrow> Inr (n + m)))"

definition string_limit_for :: "string option \<Rightarrow> nat" where
  "string_limit_for aty =
     (case aty of Some a \<Rightarrow> if a \<in> CONTENT_ACTIONS then MAX_CONTENT_LEN else MAX_STR_LEN
      | None \<Rightarrow> MAX_STR_LEN)"

definition validate_params ::
  "(pyfloat \<Rightarrow> string) \<Rightarrow> params \<Rightarrow> string option \<Rightarrow> nat option \<Rightarrow> (validation_error, params) result" where
  "validate_params fstr ps aty str_limit =
     (let budget = MAX_PARAM_TOTAL;
          limit = (case str_limit of Some l \<Rightarrow> l | None \<Rightarrow> string_limit_for aty)
      in case walk fstr 0 budget limit (JObj ps) of Inl e \<Rightarrow> Inl e | Inr _ \<Rightarrow> Inr ps)"

section \<open>Schemas: dictionary operations\<close>

fun truthy :: "json \<Rightarrow> bool" where
  "truthy JNull = False"
| "truthy (JBool b) = b"
| "truthy (JInt i) = (i \<noteq> 0)"
| "truthy (JFloat f) = (f \<noteq> Fin 0)"
| "truthy (JStr s) = (s \<noteq> [])"
| "truthy (JList xs) = (xs \<noteq> [])"
| "truthy (JObj kvs) = (kvs \<noteq> [])"

text \<open>\<open>for x in value\<close> and \<open>v in container\<close>.\<close>

fun py_iter :: "json \<Rightarrow> json list option" where
  "py_iter (JList xs) = Some xs"
| "py_iter (JStr s) = Some (map (\<lambda>c. JStr [c]) s)"
| "py_iter (JObj kvs) = Some (map (\<lambda>kv. JStr (fst kv)) kvs)"
| "py_iter _ = None"

fun py_in :: "json \<Rightarrow> json \<Rightarrow> (validation_error, bool) result" where
  "py_in v (JList xs) = Inr (\<exists>x \<in> set xs. py_eq v x)"
| "py_in v (JObj kvs) = (case v of JStr s \<Rightarrow> Inr (has_key kvs s)
     | JList _ \<Rightarrow> Inl PyTypeError | JObj _ \<Rightarrow> Inl PyTypeError | _ \<Rightarrow> Inr False)"
| "py_in v (JStr s) = (case v of JStr t \<Rightarrow> Inr (contains t s) | _ \<Rightarrow> Inl PyTypeError)"
| "py_in v _ = Inl PyTypeError"

text \<open>\<open>a < b\<close> on numbers: every comparison with \<open>nan\<close> is false.\<close>

fun float_less :: "pyfloat \<Rightarrow> pyfloat \<Rightarrow> bool" where
  "float_less (Fin a) (Fin b) = (a < b)"
| "float_less NegInf b = (b \<noteq> NegInf \<and> b \<noteq> NaN)"
| "float_less (Fin a) b = (b = PosInf)"
| "float_less _ _ = False"

definition py_less :: "json \<Rightarrow> json \<Rightarrow> (validation_error, bool) result" where
  "py_less v w = (case (num_val v, num_val w) of (Some a, Some b) \<Rightarrow> Inr (float_less a b)
     | _ \<Rightarrow> Inl PyTypeError)"

text \<open>\<open>if cond: raise err\<close> where evaluating the condition may itself raise.\<close>

definition raise_if :: "(validation_error, bool) result \<Rightarrow> validation_error \<Rightarrow> (validation_error, unit) result" where
  "raise_if c err = (case c of Inl e \<Rightarrow> Inl e | Inr b \<Rightarrow> if b then Inl err else Inr ())"

section \<open>Property types\<close>

fun check_prop_type :: "string \<Rightarrow> json \<Rightarrow> json \<Rightarrow> (validation_error, unit) result"
  and check_prop_types :: "string \<Rightarrow> json \<Rightarrow> json list \<Rightarrow> (validation_error, unit) result" where
  "check_prop_type name v (JList ts) = (if v = JNull then Inr () else check_prop_types name v ts)"
| "check_prop_type name v (JStr t) =
     (if v = JNull then Inr ()
      else if t = ''string'' then (case v of JStr _ \<Rightarrow> Inr () | _ \<Rightarrow> Inl (WrongType name))
      else if t = ''integer'' then (case v of JInt _ \<Rightarrow> Inr () | _ \<Rightarrow> Inl (WrongType name))
      else if t = ''number'' then
        (case v of JInt _ \<Rightarrow> Inr () | JFloat _ \<Rightarrow> Inr () | _ \<Rightarrow> Inl (WrongType name))
      else if t = ''boolean'' then (case v of JBool _ \<Rightarrow> Inr () | _ \<Rightarrow> Inl (WrongType name))
      else if t = ''array'' then (case v of JList _ \<Rightarrow> Inr () | _ \<Rightarrow> Inl (WrongType name))
      else if t = ''object'' then (case v of JObj _ \<Rightarrow> Inr () | _ \<Rightarrow> Inl (WrongType name))
      else Inr ())"
| "check_prop_type name v _ = Inr ()"
| "check_prop_types name v [] = Inl (WrongType name)"
| "check_prop_types name v (t # ts) =
     (case check_prop_type name v t of Inr u \<Rightarrow> Inr u | Inl e \<Rightarrow> check_prop_types name v ts)"

section \<open>Shape conditions\<close>

lemma size_map_of: "map_of kvs k = Some v \<Longrightarrow> size v < Suc (size_list (size_prod (\<lambda>_. 0) size) kvs)"
  by (induction kvs) (auto split: if_splits)

lemma size_map_of_list:
  "map_of kvs k = Some (JList xs) \<Longrightarrow> x \<in> set xs
    \<Longrightarrow> size x < Suc (size_list (size_prod (\<lambda>_. 0) size) kvs)"
  using size_map_of [of kvs k "JList xs"] size_list_estimation' [of x xs "size x" size]
  by fastforce

definition present :: "params \<Rightarrow> string \<Rightarrow> bool" where
  "present ps k = (get_param ps k \<noteq> JNull)"

definition required_present :: "params \<Rightarrow> json option \<Rightarrow> bool" where
  "required_present ps r = (case r of None \<Rightarrow> True
     | Some (JList rs) \<Rightarrow> (\<forall>x \<in> set rs. case x of JStr k \<Rightarrow> present ps k | _ \<Rightarrow> False)
     | Some _ \<Rightarrow> False)"

function (sequential) matches_schema_condition :: "params \<Rightarrow> json \<Rightarrow> bool" where
  "matches_schema_condition ps (JObj c) =
     (required_present ps (map_of c ''required'')
      \<and> (case map_of c ''anyOf'' of
           Some (JList subs) \<Rightarrow> (\<exists>sub \<in> set subs. matches_schema_condition ps sub)
         | _ \<Rightarrow> True)
      \<and> (case map_of c ''not'' of
           Some (JObj n) \<Rightarrow> \<not> matches_schema_condition ps (JObj n)
         | _ \<Rightarrow> True))"
| "matches_schema_condition ps _ = False"
  by pat_completeness auto
termination
  by (relation "measure (size \<circ> snd)")
    (auto dest: size_map_of_list size_map_of)

declare matches_schema_condition.simps [simp del]

text \<open>The number of branches of a \<open>oneOf\<close> that match; a branch that is no object never does.\<close>

definition count_matches :: "params \<Rightarrow> json list \<Rightarrow> nat" where
  "count_matches ps cs = length (filter (matches_schema_condition ps) cs)"

section \<open>Checking parameters against a schema\<close>

definition PARAM_ALIASES :: "(string \<times> string list) list" where
  "PARAM_ALIASES = [(''q'', [''query'']), (''content'', [''content_from''])]"

definition check_required :: "params \<Rightarrow> json \<Rightarrow> (validation_error, unit) result" where
  "check_required ps req = (case req of
       JStr r \<Rightarrow>
         if present ps r then Inr ()
         else if (\<exists>a \<in> set (case map_of PARAM_ALIASES r of None \<Rightarrow> [] | Some as \<Rightarrow> as). present ps a)
         then Inr () else Inl (MissingRequired req)
     | JList _ \<Rightarrow> Inl PyTypeError
     | JObj _ \<Rightarrow> Inl PyTypeError
     | _ \<Rightarrow> Inl (MissingRequired req))"

definition field_check ::
  "(string \<times> json) list \<Rightarrow> string \<Rightarrow> (json \<Rightarrow> (validation_error, unit) result) \<Rightarrow> (validation_error, unit) result" where
  "field_check sp f chk = (case map_of sp f of None \<Rightarrow> Inr () | Some w \<Rightarrow> chk w)"

definition check_prop :: "string \<Rightarrow> json \<Rightarrow> (string \<times> json) list \<Rightarrow> (validation_error, unit) result" where
  "check_prop k v sp =
     (let len = (case v of JList xs \<Rightarrow> Some (JInt (int (length xs))) | _ \<Rightarrow> None);
          slen = (case v of JStr s \<Rightarrow> Some (JInt (int (length s))) | _ \<Rightarrow> None);
          num = (if num_val v = None then None else Some v);
          below = (\<lambda>x w. case x of None \<Rightarrow> Inr False | Some n \<Rightarrow> py_less n w);
          above = (\<lambda>x w. case x of None \<Rightarrow> Inr False | Some n \<Rightarrow> py_less w n)
      in check_all (\<lambda>c. c)
        [field_check sp ''type'' (\<lambda>t. if truthy t then check_prop_type k v t else Inr ()),
         field_check sp ''minItems'' (\<lambda>w. raise_if (below len w) (TooFewItems k)),
         field_check sp ''maxItems'' (\<lambda>w. raise_if (above len w) (TooManyItems k)),
         field_check sp ''enum'' (\<lambda>w. raise_if (map_sum id Not (py_in v w)) (NotInEnum k)),
         field_check sp ''minLength'' (\<lambda>w. raise_if (below slen w) (TooShort k)),
         field_check sp ''maxLength'' (\<lambda>w. raise_if (above slen w) (TooLong k)),
         field_check sp ''minimum'' (\<lambda>w. raise_if (below num w) (BelowMinimum k)),
         field_check sp ''maximum'' (\<lambda>w. raise_if (above num w) (AboveMaximum k))])"

definition check_param :: "json \<Rightarrow> bool \<Rightarrow> string \<times> json \<Rightarrow> (validation_error, unit) result" where
  "check_param props additional kv = (case kv of (k, v) \<Rightarrow>
     (case py_in (JStr k) props of
        Inl e \<Rightarrow> Inl e
      | Inr False \<Rightarrow> if additional then Inr () else Inl (UnknownParam k)
      | Inr True \<Rightarrow> (case props of
            JObj ps \<Rightarrow> (case map_of ps k of Some (JObj sp) \<Rightarrow> check_prop k v sp | _ \<Rightarrow> Inl PyTypeError)
          | _ \<Rightarrow> Inl PyTypeError)))"

definition check_all_of :: "params \<Rightarrow> json \<Rightarrow> (validation_error, unit) result" where
  "check_all_of ps cond = (case cond of
       JObj c \<Rightarrow> (case map_of c ''oneOf'' of
           Some (JList bs) \<Rightarrow> if count_matches ps bs \<noteq> 1 then Inl NotExactlyOneShape else Inr ()
         | _ \<Rightarrow> if matches_schema_condition ps cond then Inr () else Inl ShapeNotSatisfied)
     | _ \<Rightarrow> Inl BadAllOf)"

definition validate_param_schema ::
  "params \<Rightarrow> params option \<Rightarrow> (validation_error, params) result" where
  "validate_param_schema ps schema = (case schema of
       None \<Rightarrow> Inr ps
     | Some sc \<Rightarrow>
        (let required = get_param sc ''required'';
             props = get_param sc ''properties'';
             additional = (case map_of sc ''additionalProperties'' of
                             None \<Rightarrow> props = JNull | Some w \<Rightarrow> truthy w);
             steps =
               [if truthy required
                then (case py_iter required of None \<Rightarrow> Inl PyTypeError
                      | Some rs \<Rightarrow> check_all (check_required ps) rs)
                else Inr (),
                if props = JNull then Inr () else check_all (check_param props additional) ps,
                case get_param sc ''oneOf'' of
                  JList cs \<Rightarrow> if count_matches ps cs \<noteq> 1 then Inl NotExactlyOneShape else Inr ()
                | _ \<Rightarrow> Inr (),
                case get_param sc ''allOf'' of
                  JList cs \<Rightarrow> check_all (check_all_of ps) cs
                | _ \<Rightarrow> Inr ()]
         in case check_all (\<lambda>c. c) steps of Inl e \<Rightarrow> Inl e | Inr _ \<Rightarrow> Inr ps))"

section \<open>What the walk accepts\<close>

text \<open>The reference: every sub-value obeys the bound of its own kind, and containers nest at
  most four levels deep below the top.\<close>

fun subvalues :: "json \<Rightarrow> json list" where
  "subvalues (JList xs) = JList xs # concat (map subvalues xs)"
| "subvalues (JObj kvs) = JObj kvs # concat (map (\<lambda>(k, v). subvalues v) kvs)"
| "subvalues v = [v]"

fun height :: "json \<Rightarrow> nat" where
  "height (JList xs) = fold max (map (\<lambda>x. Suc (height x)) xs) 0"
| "height (JObj kvs) = fold max (map (\<lambda>(k, v). Suc (height v)) kvs) 0"
| "height v = 0"

fun node_ok :: "nat \<Rightarrow> json \<Rightarrow> bool" where
  "node_ok limit (JStr s) = (length s \<le> limit)"
| "node_ok limit (JInt i) = (length (show_nat (nat \<bar>i\<bar>)) \<le> 4300)"
| "node_ok limit (JList xs) = (length xs \<le> MAX_PARAMS)"
| "node_ok limit (JObj kvs) =
     (length kvs \<le> MAX_PARAMS \<and> (\<forall>(k, v) \<in> set kvs. k \<noteq> [] \<and> length k \<le> MAX_PARAM_KEY_LEN))"
| "node_ok limit _ = True"

definition tree_ok :: "nat \<Rightarrow> nat \<Rightarrow> json \<Rightarrow> bool" where
  "tree_ok d limit v = (d + height v \<le> 4 \<and> (\<forall>x \<in> set (subvalues v). node_ok limit x))"

lemma fold_max_le_iff: "fold max xs (a::nat) \<le> b \<longleftrightarrow> a \<le> b \<and> (\<forall>x \<in> set xs. x \<le> b)"
  by (induction xs arbitrary: a) auto

lemma add_fold_max_le: "d + fold max xs 0 \<le> b \<longleftrightarrow> d \<le> b \<and> (\<forall>x \<in> set xs. d + x \<le> (b::nat))"
proof (cases "d \<le> b")
  case True
  then have "d + fold max xs 0 \<le> b \<longleftrightarrow> fold max xs 0 \<le> b - d" by auto
  also have "\<dots> \<longleftrightarrow> (\<forall>x \<in> set xs. x \<le> b - d)" by (simp add: fold_max_le_iff)
  also have "\<dots> \<longleftrightarrow> (\<forall>x \<in> set xs. d + x \<le> b)" using True by auto
  finally show ?thesis using True by simp
qed auto

lemma tree_ok_JList:
  "tree_ok d limit (JList xs) \<longleftrightarrow> d \<le> 4 \<and> length xs \<le> MAX_PARAMS \<and> (\<forall>x \<in> set xs. tree_ok (Suc d) limit x)"
  by (auto simp: tree_ok_def add_fold_max_le)

lemma tree_ok_JObj:
  "tree_ok d limit (JObj kvs) \<longleftrightarrow> d \<le> 4 \<and> length kvs \<le> MAX_PARAMS
     \<and> (\<forall>(k, v) \<in> set kvs. k \<noteq> [] \<and> length k \<le> MAX_PARAM_KEY_LEN \<and> tree_ok (Suc d) limit v)"
  by (auto simp: tree_ok_def add_fold_max_le split: prod.splits)

lemma tree_ok_leaf:
  "tree_ok d limit (JStr s) \<longleftrightarrow> d \<le> 4 \<and> length s \<le> limit"
  "tree_ok d limit (JInt i) \<longleftrightarrow> d \<le> 4 \<and> length (show_nat (nat \<bar>i\<bar>)) \<le> 4300"
  "tree_ok d limit JNull \<longleftrightarrow> d \<le> 4" "tree_ok d limit (JBool b) \<longleftrightarrow> d \<le> 4"
  "tree_ok d limit (JFloat f) \<longleftrightarrow> d \<le> 4"
  by (simp_all add: tree_ok_def)

lemmas tree_ok_simps = tree_ok_JList tree_ok_JObj tree_ok_leaf

lemma walk_ok_iff:
  "is_ok (walk fstr d b limit v) \<longleftrightarrow> tree_ok d limit v"
  "is_ok (walk_items fstr d b limit xs) \<longleftrightarrow> (\<forall>x \<in> set xs. tree_ok d limit x)"
  "is_ok (walk_fields fstr d b limit kvs) \<longleftrightarrow>
     (\<forall>(k, x) \<in> set kvs. k \<noteq> [] \<and> length k \<le> MAX_PARAM_KEY_LEN \<and> tree_ok d limit x)"
proof (induction fstr d b limit v and fstr d b limit xs and fstr d b limit kvs
    rule: walk_walk_items_walk_fields.induct)
  case (1 fstr d budget limit v)
  then show ?case
    by (cases v) (auto simp: tree_ok_simps int_len_def)
next
  case (3 fstr d budget limit x xs)
  then show ?case
    by (cases "walk fstr d budget limit x") (auto simp: is_ok_def simp del: walk.simps split: sum.splits)
next
  case (5 fstr d budget limit k v kvs)
  then show ?case
    by (cases "walk fstr d budget limit v") (auto simp: is_ok_def simp del: walk.simps split: sum.splits)
qed simp_all

lemma walk_budget:
  "walk fstr d b limit v = walk fstr d b' limit v"
  "walk_items fstr d b limit xs = walk_items fstr d b' limit xs"
  "walk_fields fstr d b limit kvs = walk_fields fstr d b' limit kvs"
  by (induction fstr d b limit v and fstr d b limit xs and fstr d b limit kvs
      rule: walk_walk_items_walk_fields.induct) (simp_all split: json.splits sum.splits)

lemma validate_params_iff:
  "validate_params fstr ps aty str_limit = Inr qs \<longleftrightarrow>
     qs = ps \<and> tree_ok 0 (case str_limit of Some l \<Rightarrow> l | None \<Rightarrow> string_limit_for aty) (JObj ps)"
  unfolding validate_params_def Let_def walk_ok_iff(1) [symmetric, of _ _ _ fstr MAX_PARAM_TOTAL]
  by (auto simp: is_ok_def split: sum.splits)

section \<open>Properties of the bounds\<close>



text \<open>The total budget \<open>MAX_PARAM_TOTAL\<close> that \<open>validate_params\<close> passes down is not
  enforced: parameters whose computed size exceeds it are accepted.\<close>

theorem param_total_not_enforced:
  "\<exists>ps n. validate_params fstr ps aty None = Inr ps
     \<and> walk fstr 0 MAX_PARAM_TOTAL (string_limit_for aty) (JObj ps) = Inr n \<and> n > MAX_PARAM_TOTAL"
proof -
  let ?v = "JStr (replicate 2000 (CHR ''x''))"
  let ?ps = "map (\<lambda>c. ([c], ?v)) ''abcdefghi''"
  have limit: "2000 \<le> string_limit_for aty"
    by (simp add: string_limit_for_def MAX_CONTENT_LEN_def MAX_STR_LEN_def split: option.split)
  then have "walk fstr 0 MAX_PARAM_TOTAL (string_limit_for aty) (JObj ?ps) = Inr 18000"
    by (simp add: MAX_PARAMS_def MAX_PARAM_KEY_LEN_def)
  moreover from limit have "validate_params fstr ?ps aty None = Inr ?ps"
    unfolding validate_params_iff
    by (simp add: tree_ok_simps MAX_PARAMS_def MAX_PARAM_KEY_LEN_def)
  ultimately show ?thesis
    by (intro exI [of _ ?ps] exI [of _ 18000]) (simp add: MAX_PARAM_TOTAL_def)
qed

lemma action_type_bodyD:
  "action_type_body s \<Longrightarrow> s \<noteq> [] \<and> (is_alpha (hd s) \<or> is_digit (hd s))
     \<and> (\<forall>c \<in> set s. is_alpha c \<or> is_digit c \<or> c \<in> {CHR ''_'', CHR ''.'', CHR ''-''})"
  by (cases s) (auto simp: action_type_body_def list_all_iff)

lemma code_newline: "code c = 10 \<longleftrightarrow> c = CHR 0x0A"
proof
  assume "code c = 10"
  then have "char_of (code c) = char_of (10 :: nat)" by simp
  moreover have "char_of (10 :: nat) = CHR 0x0A" by code_simp
  ultimately show "c = CHR 0x0A" by (simp add: code_def)
next
  assume "c = CHR 0x0A"
  then show "code c = 10" by (simp add: code_def)
qed

lemma newline_char: "\<not> is_alpha (CHR 0x0A)" "\<not> is_digit (CHR 0x0A)"
  by code_simp+

lemma validate_action_type_body:
  "(validate_action_type s = Inr s \<and> CHR 0x0A \<notin> set s) \<longleftrightarrow> action_type_body s"
proof -
  have "CHR 0x0A \<notin> set s" if "action_type_body s"
    using action_type_bodyD [OF that] newline_char by auto
  moreover have "length s \<le> MAX_ACTION_TYPE_LEN" if "action_type_body s"
    using that by (cases s) (auto simp: action_type_body_def MAX_ACTION_TYPE_LEN_def)
  moreover have "CHR 0x0A \<in> set s" if "s \<noteq> []" "code (last s) = 10"
    using that code_newline [of "last s"] last_in_set [of s] by metis
  moreover have "s \<noteq> []" if "action_type_body s" using action_type_bodyD [OF that] by simp
  ultimately show ?thesis by (auto simp: validate_action_type_def action_type_re_def)
qed

text \<open>The pattern of action types ends in \<open>$\<close>, which also matches before a final newline:
  every action type of less than 128 characters that \<open>validate_action_type\<close> accepts and that
  contains no newline is accepted, with the newline, when one is appended to it.\<close>

theorem action_type_trailing_newline:
  assumes "validate_action_type s = Inr s" and "length s < 128" and "CHR 0x0A \<notin> set s"
  shows "validate_action_type (s @ [CHR 0x0A]) = Inr (s @ [CHR 0x0A])"
  using validate_action_type_body [of s] assms
  by (simp add: validate_action_type_def action_type_re_def MAX_ACTION_TYPE_LEN_def code_def)

lemma action_type_trailing_newline_witness:
  "validate_action_type (''web.search'' @ [CHR 0x0A]) = Inr (''web.search'' @ [CHR 0x0A])"
  by (rule action_type_trailing_newline) (code_simp, simp, simp)

section \<open>What the schema check accepts\<close>

fun type_ok :: "json \<Rightarrow> json \<Rightarrow> bool" where
  "type_ok v (JList ts) = (\<exists>t \<in> set ts. type_ok v t)"
| "type_ok v (JStr t) =
     (if t = ''string'' then (\<exists>s. v = JStr s)
      else if t = ''integer'' then (\<exists>i. v = JInt i)
      else if t = ''number'' then (\<exists>i. v = JInt i) \<or> (\<exists>f. v = JFloat f)
      else if t = ''boolean'' then (\<exists>b. v = JBool b)
      else if t = ''array'' then (\<exists>xs. v = JList xs)
      else if t = ''object'' then (\<exists>kvs. v = JObj kvs)
      else True)"
| "type_ok v _ = True"

lemma check_prop_type_iff:
  "check_prop_type name v t = Inr () \<longleftrightarrow> v = JNull \<or> type_ok v t"
  "v \<noteq> JNull \<Longrightarrow> check_prop_types name v ts = Inr () \<longleftrightarrow> (\<exists>t \<in> set ts. type_ok v t)"
proof (induction name v t and name v ts rule: check_prop_type_check_prop_types.induct)
  case (2 name v t)
  then show ?case by (cases v) auto
next
  case (5 name v t ts)
  then show ?case by (auto split: sum.splits)
qed auto

lemma check_prop_type_err:
  "check_prop_type name v t = Inl e \<Longrightarrow> e = WrongType name"
  "check_prop_types name v ts = Inl e \<Longrightarrow> e = WrongType name"
proof (induction name v t and name v ts rule: check_prop_type_check_prop_types.induct)
  case (2 name v t)
  then show ?case by (cases v) (auto split: if_splits)
next
  case (5 name v t ts)
  then show ?case by (auto split: sum.splits)
qed (auto split: if_splits)

text \<open>A schema has the shape the check relies on when its limits are numbers, its
  enumerations lists, its properties objects and its required names strings.\<close>

definition LIMITS :: "string list" where
  "LIMITS = [''minItems'', ''maxItems'', ''minLength'', ''maxLength'', ''minimum'', ''maximum'']"

definition prop_shape :: "json \<Rightarrow> bool" where
  "prop_shape w = (case w of
       JObj sp \<Rightarrow> list_all (\<lambda>f. case map_of sp f of None \<Rightarrow> True | Some n \<Rightarrow> num_val n \<noteq> None) LIMITS
         \<and> (case map_of sp ''enum'' of None \<Rightarrow> True | Some (JList _) \<Rightarrow> True | Some _ \<Rightarrow> False)
     | _ \<Rightarrow> False)"

definition schema_shape :: "params \<Rightarrow> bool" where
  "schema_shape sc =
     ((case get_param sc ''required'' of
         JNull \<Rightarrow> True
       | JList rs \<Rightarrow> list_all (\<lambda>r. case r of JStr _ \<Rightarrow> True | _ \<Rightarrow> False) rs
       | _ \<Rightarrow> False)
      \<and> (case get_param sc ''properties'' of
         JNull \<Rightarrow> True | JObj ps \<Rightarrow> list_all prop_shape (map snd ps) | _ \<Rightarrow> False))"

text \<open>No step of the check of one property can raise \<open>TypeError\<close> on a schema of that shape.\<close>

lemma below_no_type_error:
  assumes "\<And>w. map_of sp f = Some w \<Longrightarrow> num_val w \<noteq> None" and "\<And>n. x = Some n \<Longrightarrow> num_val n \<noteq> None"
    and "err \<noteq> PyTypeError"
  shows "field_check sp f (\<lambda>w. raise_if (case x of None \<Rightarrow> Inr False | Some n \<Rightarrow> py_less n w) err)
      \<noteq> Inl PyTypeError"
    and "field_check sp f (\<lambda>w. raise_if (case x of None \<Rightarrow> Inr False | Some n \<Rightarrow> py_less w n) err)
      \<noteq> Inl PyTypeError"
  using assms by (auto simp: field_check_def raise_if_def py_less_def split: option.splits if_splits)

lemma enum_no_type_error:
  assumes "\<And>w. map_of sp ''enum'' = Some w \<Longrightarrow> \<exists>xs. w = JList xs"
  shows "field_check sp ''enum'' (\<lambda>w. raise_if (map_sum id Not (py_in v w)) (NotInEnum k))
      \<noteq> Inl PyTypeError"
  using assms by (fastforce simp: field_check_def raise_if_def split: option.splits if_splits)

lemma type_no_type_error:
  "field_check sp f (\<lambda>t. if truthy t then check_prop_type k v t else Inr ()) \<noteq> Inl PyTypeError"
  by (auto simp: field_check_def split: option.splits if_splits dest: check_prop_type_err(1))

lemma check_all_no_err: "list_all (\<lambda>c. c \<noteq> Inl e) cs \<Longrightarrow> check_all (\<lambda>c. c) cs \<noteq> Inl e"
  by (auto simp: list_all_iff dest: check_all_err)

lemma check_prop_no_type_error:
  assumes "prop_shape (JObj sp)"
  shows "check_prop k v sp \<noteq> Inl PyTypeError"
proof -
  let ?len = "case v of JList xs \<Rightarrow> Some (JInt (int (length xs))) | _ \<Rightarrow> None"
  let ?slen = "case v of JStr s \<Rightarrow> Some (JInt (int (length s))) | _ \<Rightarrow> None"
  let ?num = "if num_val v = None then None else Some v"
  have numeric: "num_val w \<noteq> None" if "f \<in> set LIMITS" "map_of sp f = Some w" for f w
    using assms that by (fastforce simp: prop_shape_def list_all_iff split: option.splits)
  have enum: "\<exists>xs. w = JList xs" if "map_of sp ''enum'' = Some w" for w
    using assms that by (cases w) (auto simp: prop_shape_def)
  have lens: "num_val n \<noteq> None" if "x \<in> {?len, ?slen, ?num}" "x = Some n" for x n
    using that by (cases v) auto
  have below: "field_check sp f (\<lambda>w. raise_if (case x of None \<Rightarrow> Inr False | Some n \<Rightarrow> py_less n w) err)
      \<noteq> Inl PyTypeError"
    and above: "field_check sp f (\<lambda>w. raise_if (case x of None \<Rightarrow> Inr False | Some n \<Rightarrow> py_less w n) err)
      \<noteq> Inl PyTypeError"
    if "f \<in> set LIMITS" "x \<in> {?len, ?slen, ?num}" "err \<noteq> PyTypeError" for f x err
    by (rule below_no_type_error; use that numeric lens in blast)+
  have limits: "''minItems'' \<in> set LIMITS" "''maxItems'' \<in> set LIMITS" "''minLength'' \<in> set LIMITS"
    "''maxLength'' \<in> set LIMITS" "''minimum'' \<in> set LIMITS" "''maximum'' \<in> set LIMITS"
    by (simp_all add: LIMITS_def)
  show ?thesis
    unfolding check_prop_def Let_def
    by (rule check_all_no_err, unfold list.pred_inject,
        intro conjI TrueI list.pred_inject(1) type_no_type_error enum_no_type_error below above limits)
      (use enum in \<open>simp_all only: insert_iff simp_thms validation_error.distinct not_False_eq_True\<close>)
qed

lemma check_param_no_type_error:
  assumes "list_all prop_shape (map snd props)"
  shows "check_param (JObj props) additional kv \<noteq> Inl PyTypeError"
proof -
  obtain k v where kv: "kv = (k, v)" by (cases kv)
  show ?thesis
  proof (cases "map_of props k")
    case None
    then show ?thesis by (simp add: kv check_param_def has_key_def del: has_key_iff)
  next
    case (Some w)
    then have "prop_shape w" using assms map_of_SomeD [OF Some] by (force simp: list_all_iff)
    moreover from this obtain sp where "w = JObj sp" by (cases w) (auto simp: prop_shape_def)
    ultimately show ?thesis
      using Some check_prop_no_type_error by (simp add: kv check_param_def has_key_def del: has_key_iff)
  qed
qed

lemma check_required_no_type_error: "check_required ps (JStr r) \<noteq> Inl PyTypeError"
  by (simp add: check_required_def)

lemma validate_param_schema_no_type_error:
  assumes "schema_shape sc"
  shows "validate_param_schema ps (Some sc) \<noteq> Inl PyTypeError"
proof -
  let ?req = "get_param sc ''required''" and ?props = "get_param sc ''properties''"
  have req: "(if truthy ?req
        then (case py_iter ?req of None \<Rightarrow> Inl PyTypeError | Some rs \<Rightarrow> check_all (check_required ps) rs)
        else Inr ()) \<noteq> Inl PyTypeError"
  proof (cases ?req)
    case (JList rs)
    have "check_all (check_required ps) rs \<noteq> Inl PyTypeError"
    proof
      assume "check_all (check_required ps) rs = Inl PyTypeError"
      from check_all_err [OF this] obtain r where "r \<in> set rs" "check_required ps r = Inl PyTypeError"
        by blast
      moreover have "\<exists>s. r = JStr s"
        using assms JList \<open>r \<in> set rs\<close>
        by (cases r) (fastforce simp: schema_shape_def list_all_iff)+
      ultimately show False using check_required_no_type_error by auto
    qed
    with JList show ?thesis by simp
  qed (use assms in \<open>auto simp: schema_shape_def\<close>)
  have props: "(if ?props = JNull then Inr () else check_all (check_param ?props b) ps) \<noteq> Inl PyTypeError" for b
  proof (cases ?props)
    case (JObj kvs)
    then have "list_all prop_shape (map snd kvs)" using assms by (simp add: schema_shape_def)
    then have "\<forall>kv. check_param ?props b kv \<noteq> Inl PyTypeError"
      using JObj check_param_no_type_error by simp
    then show ?thesis by (auto dest: check_all_err)
  qed (use assms in \<open>auto simp: schema_shape_def\<close>)
  have one: "(case j of JList cs \<Rightarrow> if count_matches ps cs \<noteq> 1 then Inl NotExactlyOneShape else Inr ()
        | _ \<Rightarrow> Inr ()) \<noteq> Inl PyTypeError" for j
    by (cases j) auto
  have all_of: "check_all_of ps c \<noteq> Inl PyTypeError" for c
    by (auto simp: check_all_of_def split: json.splits option.splits)
  then have all: "(case j of JList cs \<Rightarrow> check_all (check_all_of ps) cs | _ \<Rightarrow> Inr ()) \<noteq> Inl PyTypeError" for j
    by (cases j) (auto dest: check_all_err)
  have "check_all (\<lambda>c. c) cs \<noteq> Inl PyTypeError
      \<Longrightarrow> (case check_all (\<lambda>c. c) cs of Inl e \<Rightarrow> Inl e | Inr _ \<Rightarrow> Inr ps) \<noteq> Inl PyTypeError" for cs
    by (auto split: sum.splits)
  then show ?thesis
    unfolding validate_param_schema_def option.case Let_def
    by this (rule check_all_no_err, unfold list.pred_inject,
        intro conjI TrueI list.pred_inject(1) req props one all)
qed

text \<open>What follows from acceptance.\<close>

lemma validate_param_schema_accepts:
  assumes "validate_param_schema ps (Some sc) = Inr qs"
  shows "qs = ps"
    and "truthy (get_param sc ''required'') \<Longrightarrow>
      (case py_iter (get_param sc ''required'') of None \<Rightarrow> False
       | Some rs \<Rightarrow> \<forall>r \<in> set rs. check_required ps r = Inr ())"
    and "get_param sc ''properties'' \<noteq> JNull \<Longrightarrow> kv \<in> set ps \<Longrightarrow>
      check_param (get_param sc ''properties'')
        (case map_of sc ''additionalProperties'' of
           None \<Rightarrow> get_param sc ''properties'' = JNull | Some w \<Rightarrow> truthy w) kv = Inr ()"
    and "get_param sc ''oneOf'' = JList cs \<Longrightarrow> count_matches ps cs = 1"
    and "get_param sc ''allOf'' = JList ds \<Longrightarrow> \<forall>d \<in> set ds. check_all_of ps d = Inr ()"
  using assms unfolding validate_param_schema_def option.case Let_def
  by (auto simp: check_all_ok_iff split: sum.splits if_splits option.splits)

lemma check_param_accepts:
  assumes "check_param (JObj props) additional (k, v) = Inr ()" and "\<not> additional"
  shows "\<exists>sp. map_of props k = Some (JObj sp) \<and> check_prop k v sp = Inr ()"
  using assms
  by (auto simp: check_param_def has_key_def split: option.splits json.splits bool.splits if_splits)

lemma check_prop_type_ok:
  assumes "check_prop k v sp = Inr ()" and "map_of sp ''type'' = Some t" and "truthy t"
  shows "v = JNull \<or> type_ok v t"
proof -
  have "check_prop_type k v t = Inr ()"
    using assms by (simp add: check_prop_def Let_def field_check_def split: sum.splits)
  then show ?thesis using check_prop_type_iff(1) by simp
qed

lemma check_required_accepts:
  "check_required ps (JStr r) = Inr () \<Longrightarrow>
     present ps r \<or> (\<exists>aliases. map_of PARAM_ALIASES r = Some aliases \<and> (\<exists>a \<in> set aliases. present ps a))"
  by (cases "map_of PARAM_ALIASES r") (auto simp: check_required_def split: if_splits)

end
