(* ===== verification/Redaction.thy ===== *)
theory Redaction
  imports Core_Types
begin

text \<open>
  Model of \<^verbatim>\<open>era/security/redaction.py\<close>: which keys count as secret, the fields that are
  private for one action type only, and the deep copy with secret values replaced.

  The contract is noninterference: two values have the same redacted copy exactly when they
  agree everywhere outside the values of secret keys (\<open>same_public\<close>).
\<close>

section \<open>Secret keys\<close>

definition REDACTED :: string where
  "REDACTED = ''[REDACTED]''"

definition SECRET_HINTS :: "string list" where
  "SECRET_HINTS =
     [''key'', ''token'', ''secret'', ''password'', ''passwd'', ''pin'',
      ''credential'', ''authorization'', ''cookie'', ''auth'']"

definition ACTION_PRIVATE_FIELDS :: "(string \<times> string set) list" where
  "ACTION_PRIVATE_FIELDS =
     [(''email.draft'', {''body''}),
      (''email.send'', {''body'', ''attachments'', ''bcc''}),
      (''whatsapp.send'', {''message'', ''text'', ''media''}),
      (''booking.hold'', {''passenger_name'', ''passengers'', ''guests''}),
      (''booking.confirm'', {''payment_ref''}),
      (''device.sms_send'', {''message''})]"

definition sensitive_fields_for_action :: "string \<Rightarrow> string set \<Rightarrow> string set" where
  "sensitive_fields_for_action a declared =
     declared \<union> (case map_of ACTION_PRIVATE_FIELDS a of None \<Rightarrow> {} | Some fs \<Rightarrow> fs)"

definition is_secret_key :: "string \<Rightarrow> string set \<Rightarrow> bool" where
  "is_secret_key k sf =
     (k \<in> sf \<or> (let kl = lower k in \<exists>hint \<in> set SECRET_HINTS. contains hint kl))"

section \<open>The redacted copy\<close>

fun redact :: "string set \<Rightarrow> json \<Rightarrow> json" where
  "redact sf (JObj kvs) =
     JObj (map (\<lambda>(k, v). (k, if is_secret_key k sf then JStr REDACTED else redact sf v)) kvs)"
| "redact sf (JList xs) = JList (map (redact sf) xs)"
| "redact sf v = v"

definition redact_params :: "string set \<Rightarrow> params \<Rightarrow> params" where
  "redact_params sf ps =
     map (\<lambda>(k, v). (k, if is_secret_key k sf then JStr REDACTED else redact sf v)) ps"

lemma redact_JObj: "redact sf (JObj ps) = JObj (redact_params sf ps)"
  by (simp add: redact_params_def)

lemma redact_examples:
  "redact {} (JObj [(''Api_Key'', JInt 5), (''q'', JStr ''x'')]) =
     JObj [(''Api_Key'', JStr ''[REDACTED]''), (''q'', JStr ''x'')]"
  "redact {''q''} (JList [JObj [(''q'', JList []), (''shipping'', JNull)]]) =
     JList [JObj [(''q'', JStr ''[REDACTED]''), (''shipping'', JStr ''[REDACTED]'')]]"
  by code_simp+

section \<open>What the redacted copy reveals\<close>

text \<open>Two values agree in public when they differ only in what secret keys are bound to.\<close>

inductive same_public :: "string set \<Rightarrow> json \<Rightarrow> json \<Rightarrow> bool"
  for sf :: "string set" where
  leaf: "(\<forall>kvs. v \<noteq> JObj kvs) \<Longrightarrow> (\<forall>xs. v \<noteq> JList xs) \<Longrightarrow> same_public sf v v"
| lists: "list_all2 (same_public sf) xs ys \<Longrightarrow> same_public sf (JList xs) (JList ys)"
| objs: "list_all2 (\<lambda>p q. fst p = fst q \<and> (is_secret_key (fst p) sf \<or> same_public sf (snd p) (snd q)))
           kvs kws \<Longrightarrow> same_public sf (JObj kvs) (JObj kws)"

inductive_simps same_public_simps [simp]:
  "same_public sf (JList xs) w" "same_public sf (JObj kvs) w"
  "same_public sf JNull w" "same_public sf (JBool b) w" "same_public sf (JInt i) w"
  "same_public sf (JFloat f) w" "same_public sf (JStr s) w"

lemma map_eq_list_all2: "map f xs = map g ys \<longleftrightarrow> list_all2 (\<lambda>x y. f x = g y) xs ys"
  by (auto simp: list_all2_conv_all_nth list_eq_iff_nth_eq)

lemma list_all2_cong_set:
  "(\<And>x y. x \<in> set xs \<Longrightarrow> P x y = Q x y) \<Longrightarrow> list_all2 P xs ys = list_all2 Q xs ys"
  by (auto simp: list_all2_conv_all_nth)

lemma redact_eq_iff: "redact sf v = redact sf w \<longleftrightarrow> same_public sf v w"
proof (induction sf v arbitrary: w rule: redact.induct)
  case (1 sf kvs)
  have step: "(case p of (k, v) \<Rightarrow> (k, if is_secret_key k sf then JStr REDACTED else redact sf v))
      = (case q of (k, v) \<Rightarrow> (k, if is_secret_key k sf then JStr REDACTED else redact sf v))
    \<longleftrightarrow> fst p = fst q \<and> (is_secret_key (fst p) sf \<or> same_public sf (snd p) (snd q))"
    if p: "p \<in> set kvs" for p q
  proof -
    obtain k v where kv: "p = (k, v)" by (cases p)
    have "redact sf v = redact sf (snd q) \<longleftrightarrow> same_public sf v (snd q)" if "\<not> is_secret_key k sf"
      by (rule 1(1)[OF p kv [symmetric] that])
    then show ?thesis by (auto simp: kv split: prod.splits)
  qed
  show ?case
    by (cases w) (auto simp: map_eq_list_all2 cong: list_all2_cong_set simp del: case_prod_conv
        simp: list_all2_cong_set [OF step])
next
  case (2 sf xs)
  then show ?case
    by (cases w) (auto simp: map_eq_list_all2 list_all2_cong_set [OF 2])
qed (case_tac w; auto)+

text \<open>Every binding of a value, at every depth.\<close>

fun bindings :: "json \<Rightarrow> (string \<times> json) list" where
  "bindings (JObj kvs) = concat (map (\<lambda>(k, v). (k, v) # bindings v) kvs)"
| "bindings (JList xs) = concat (map bindings xs)"
| "bindings v = []"

lemma redact_bindings:
  "(k, v) \<in> set (bindings (redact sf w)) \<Longrightarrow> is_secret_key k sf \<Longrightarrow> v = JStr REDACTED"
proof (induction sf w rule: redact.induct)
  case (1 sf kvs)
  then show ?case by (fastforce split: if_splits)
next
  case (2 sf xs)
  then show ?case by auto
qed simp_all

lemma redact_idem: "redact sf (redact sf v) = redact sf v"
  by (induction sf v rule: redact.induct) auto

lemma redact_params_keys [simp]: "map fst (redact_params sf ps) = map fst ps"
  by (induction ps) (auto simp: redact_params_def)

lemma redact_wf: "wf_json v \<Longrightarrow> wf_json (redact sf v)"
proof (induction sf v rule: redact.induct)
  case (1 sf kvs)
  then have "\<forall>(k, x) \<in> set (redact_params sf kvs). wf_json x"
    by (auto simp: redact_params_def list_all_iff)
  moreover have "distinct (map fst (redact_params sf kvs))"
    using 1 by simp
  ultimately show ?case
    unfolding redact_JObj by (auto simp: list_all_iff simp del: redact_params_keys)
next
  case (2 sf xs)
  then show ?case by (simp add: list_all_iff)
qed simp_all

lemma map_of_redact_params:
  "map_of (redact_params sf ps) k =
     map_option (\<lambda>v. if is_secret_key k sf then JStr REDACTED else redact sf v) (map_of ps k)"
  by (simp add: redact_params_def map_of_map_snd)

section \<open>Properties\<close>

text \<open>C25. The redacted copy of a value reveals its public part and nothing else: two values
  have the same redacted copy exactly when they differ only in what secret keys are bound to,
  at any depth; in the copy every secret key is bound to the mask; and redacting a redacted
  value changes nothing.\<close>

theorem redact_noninterference:
  "(redact sf v = redact sf w \<longleftrightarrow> same_public sf v w)
   \<and> (\<forall>(k, x) \<in> set (bindings (redact sf v)). is_secret_key k sf \<longrightarrow> x = JStr REDACTED)
   \<and> redact sf (redact sf v) = redact sf v"
  using redact_bindings by (fastforce simp: redact_eq_iff redact_idem)

lemma redact_noninterference_witness:
  "redact {''text''} (JObj [(''text'', JStr ''hunter2''), (''n'', JInt 1)])
     = redact {''text''} (JObj [(''text'', JNull), (''n'', JInt 1)])
   \<and> redact {''text''} (JObj [(''n'', JInt 1)]) \<noteq> redact {''text''} (JObj [(''n'', JInt 2)])"
proof -
  have "same_public {''text''} (JObj [(''text'', JStr ''hunter2''), (''n'', JInt 1)])
      (JObj [(''text'', JNull), (''n'', JInt 1)])"
    by (simp add: is_secret_key_def)
  then show ?thesis
    using redact_noninterference [of "{''text''}" "JObj [(''text'', JStr ''hunter2''), (''n'', JInt 1)]"
        "JObj [(''text'', JNull), (''n'', JInt 1)]"]
    by (simp add: is_secret_key_def SECRET_HINTS_def) code_simp
qed

end
