(* ===== verification/Catalog.thy ===== *)
theory Catalog
  imports Action_Schemas Validation Redaction "HOL-Library.AList"
begin

text \<open>
  Model of \<^verbatim>\<open>era/core/tool_registry.py\<close> (action specifications, the catalog, the registry of
  providers) and of the catalog \<^verbatim>\<open>era/registry/actions.py\<close> builds.  A Python dictionary that
  is iterated over is an association list with the update of \<open>HOL-Library.AList\<close>, which
  replaces in place or appends, as \<open>d[k] = v\<close> does.
\<close>

section \<open>Specifications and the catalog\<close>

record action_spec =
  as_action_type :: string
  as_risk :: risk_level
  as_domain :: string
  as_secret_fields :: "string set"
  as_param_schema :: "params option"

type_synonym catalog = "(string \<times> action_spec) list"

definition catalog_of :: "action_spec list \<Rightarrow> catalog" where
  "catalog_of specs = fold (\<lambda>s. AList.update (as_action_type s) s) specs []"

definition catalog_get :: "catalog \<Rightarrow> string \<Rightarrow> action_spec option" where
  "catalog_get cat a = map_of cat a"

definition catalog_contains :: "catalog \<Rightarrow> string \<Rightarrow> bool" where
  "catalog_contains cat a = (map_of cat a \<noteq> None)"

definition catalog_iter :: "catalog \<Rightarrow> action_spec list" where
  "catalog_iter cat = map snd cat"

definition mk_spec :: "string \<Rightarrow> risk_level \<Rightarrow> string \<Rightarrow> string list \<Rightarrow> action_spec" where
  "mk_spec a risk domain secrets =
     \<lparr>as_action_type = a, as_risk = risk, as_domain = domain, as_secret_fields = set secrets,
      as_param_schema = map_of ACTION_PARAM_SCHEMAS a\<rparr>"

definition SPECS :: "action_spec list" where
  "SPECS =
   [mk_spec ''stub.noop'' SAFE ''core'' [],
    mk_spec ''web.search'' SAFE ''web'' [''api_key''],
    mk_spec ''web.fetch'' SENSITIVE ''web'' [''api_key''],
    mk_spec ''web.download'' MUTATING ''web'' [''api_key''],
    mk_spec ''browser.navigate'' SENSITIVE ''browser'' [],
    mk_spec ''browser.screenshot'' SENSITIVE ''browser'' [],
    mk_spec ''browser.extract_dom'' SAFE ''browser'' [],
    mk_spec ''browser.click'' MUTATING ''browser'' [],
    mk_spec ''browser.fill'' MUTATING ''browser'' [''text''],
    mk_spec ''browser.submit'' MUTATING ''browser'' [],
    mk_spec ''browser.inspect'' SAFE ''browser'' [],
    mk_spec ''browser.tabs'' SAFE ''browser'' [],
    mk_spec ''browser.activate_tab'' SENSITIVE ''browser'' [],
    mk_spec ''browser.download'' MUTATING ''browser'' [],
    mk_spec ''browser.upload'' MUTATING ''browser'' [],
    mk_spec ''browser.workflow_run'' MUTATING ''browser'' [],
    mk_spec ''email.read'' SENSITIVE ''email'' [''token'', ''refresh_token''],
    mk_spec ''email.search'' SENSITIVE ''email'' [''token'', ''refresh_token''],
    mk_spec ''email.draft'' MUTATING ''email'' [''token'', ''refresh_token''],
    mk_spec ''email.send'' COMMUNICATION ''email'' [''token'', ''refresh_token''],
    mk_spec ''whatsapp.read'' SENSITIVE ''whatsapp'' [''token''],
    mk_spec ''whatsapp.send'' COMMUNICATION ''whatsapp'' [''token''],
    mk_spec ''whatsapp.react'' COMMUNICATION ''whatsapp'' [''token''],
    mk_spec ''booking.search'' SENSITIVE ''booking'' [''token'', ''payment_token''],
    mk_spec ''booking.hold'' MUTATING ''booking'' [''token'', ''payment_token''],
    mk_spec ''booking.confirm'' BOOKING ''booking'' [''token'', ''payment_token''],
    mk_spec ''booking.cancel'' BOOKING ''booking'' [''token'', ''payment_token''],
    mk_spec ''fs.list'' SAFE ''file'' [],
    mk_spec ''fs.read'' SENSITIVE ''file'' [''token''],
    mk_spec ''fs.write'' MUTATING ''file'' [''token''],
    mk_spec ''fs.move'' MUTATING ''file'' [''token''],
    mk_spec ''fs.delete'' DESTRUCTIVE ''file'' [''token''],
    mk_spec ''photo.view'' SENSITIVE ''file'' [''token''],
    mk_spec ''photo.edit'' MUTATING ''file'' [''token''],
    mk_spec ''photo.upload'' MUTATING ''file'' [''token''],
    mk_spec ''photo.delete'' DESTRUCTIVE ''file'' [''token''],
    mk_spec ''device.shell'' MUTATING ''device'' [''pairing_token''],
    mk_spec ''device.app_launch'' MUTATING ''device'' [''pairing_token''],
    mk_spec ''device.ui_click'' MUTATING ''device'' [''pairing_token''],
    mk_spec ''device.screenshot'' SENSITIVE ''device'' [''pairing_token''],
    mk_spec ''device.photo_capture'' MUTATING ''device'' [''pairing_token''],
    mk_spec ''device.location'' SENSITIVE ''device'' [''pairing_token''],
    mk_spec ''device.notification'' SENSITIVE ''device'' [''pairing_token''],
    mk_spec ''device.contacts'' SENSITIVE ''device'' [''pairing_token''],
    mk_spec ''device.sms_read'' SENSITIVE ''device'' [''pairing_token''],
    mk_spec ''device.sms_send'' COMMUNICATION ''device'' [''pairing_token''],
    mk_spec ''device.install_app'' MUTATING ''device'' [''pairing_token''],
    mk_spec ''device.uninstall_app'' DESTRUCTIVE ''device'' [''pairing_token''],
    mk_spec ''device.settings_change'' DESTRUCTIVE ''device'' [''pairing_token''],
    mk_spec ''device.payment'' FINANCIAL ''device'' [''pairing_token''],
    mk_spec ''github.repo_get'' SAFE ''github'' [''token''],
    mk_spec ''github.issue_list'' SAFE ''github'' [''token''],
    mk_spec ''github.issue_get'' SAFE ''github'' [''token''],
    mk_spec ''github.issue_create'' MUTATING ''github'' [''token''],
    mk_spec ''github.issue_comment'' MUTATING ''github'' [''token''],
    mk_spec ''github.pr_list'' SAFE ''github'' [''token''],
    mk_spec ''github.pr_get'' SAFE ''github'' [''token''],
    mk_spec ''github.pr_create'' MUTATING ''github'' [''token''],
    mk_spec ''github.file_get'' SENSITIVE ''github'' [''token''],
    mk_spec ''github.file_commit'' MUTATING ''github'' [''token''],
    mk_spec ''code.run'' MUTATING ''code'' [],
    mk_spec ''code.exec'' MUTATING ''code'' [],
    mk_spec ''image.generate'' MUTATING ''image'' [''api_key''],
    mk_spec ''secret.export'' FORBIDDEN ''core'' [],
    mk_spec ''account.delete'' FORBIDDEN ''core'' []]"

definition ACTION_CATALOG :: catalog where
  "ACTION_CATALOG = catalog_of SPECS"

section \<open>The registry of providers\<close>

text \<open>A provider after \<open>to_sync\<close>: its id, the action types it declares, and the value \<open>'p\<close>
  that stands for its behaviour.\<close>

record 'p provider =
  p_id :: string
  p_action_types :: "string list"
  p_impl :: 'p

record 'p tool_registry =
  tr_providers :: "(string \<times> 'p provider) list"
  tr_by_id :: "(string \<times> 'p provider) list"

definition empty_registry :: "'p tool_registry" where
  "empty_registry = \<lparr>tr_providers = [], tr_by_id = []\<rparr>"

datatype registry_error = ProviderRegistered string | ActionTypeRegistered string

fun register_types ::
  "'p provider \<Rightarrow> string list \<Rightarrow> (string \<times> 'p provider) list
     \<Rightarrow> (registry_error, unit) result \<times> (string \<times> 'p provider) list" where
  "register_types p [] m = (Inr (), m)"
| "register_types p (a # as) m =
     (if map_of m a \<noteq> None then (Inl (ActionTypeRegistered a), m)
      else register_types p as (AList.update a p m))"

text \<open>The loop writes into the dictionary before a later action type may raise, so the
  registry is part of the result in every case.\<close>

definition register ::
  "'p provider \<Rightarrow> 'p tool_registry \<Rightarrow> (registry_error, unit) result \<times> 'p tool_registry" where
  "register p reg =
     (if map_of (tr_by_id reg) (p_id p) \<noteq> None then (Inl (ProviderRegistered (p_id p)), reg)
      else case register_types p (p_action_types p) (tr_providers reg) of
        (Inl e, m) \<Rightarrow> (Inl e, reg\<lparr>tr_providers := m\<rparr>)
      | (Inr u, m) \<Rightarrow>
          (Inr (), reg\<lparr>tr_providers := m, tr_by_id := AList.update (p_id p) p (tr_by_id reg)\<rparr>))"

definition registry_lookup :: "'p tool_registry \<Rightarrow> string \<Rightarrow> 'p provider option" where
  "registry_lookup reg a = map_of (tr_providers reg) a"

definition get_provider :: "'p tool_registry \<Rightarrow> string \<Rightarrow> 'p provider option" where
  "get_provider reg i = map_of (tr_by_id reg) i"

definition list_providers :: "'p tool_registry \<Rightarrow> 'p provider list" where
  "list_providers reg = map snd (tr_by_id reg)"

definition provider_ids :: "'p tool_registry \<Rightarrow> string set" where
  "provider_ids reg = set (map fst (tr_by_id reg))"

section \<open>The catalog table\<close>

lemma spec_types: "map as_action_type SPECS = map snd ACTION_TYPES"
  by (simp only: SPECS_def ACTION_TYPES_def mk_spec_def list.map snd_conv action_spec.simps)

lemma schema_keys: "map fst ACTION_PARAM_SCHEMAS = map snd ACTION_TYPES"
  by (simp only: ACTION_PARAM_SCHEMAS_def schema_table_defs ACTION_TYPES_def list.map fst_conv
      snd_conv append.simps map_append)

lemma action_types_distinct: "distinct (map snd ACTION_TYPES)"
  by (simp add: ACTION_TYPES_def)

lemma update_append_fresh:
  "k \<notin> fst ` set m \<Longrightarrow> AList.update k v m = m @ [(k, v)]"
  by (induction m) auto

lemma catalog_fold:
  assumes "distinct (map fst cat @ map as_action_type specs)"
  shows "fold (\<lambda>s. AList.update (as_action_type s) s) specs cat
    = cat @ map (\<lambda>s. (as_action_type s, s)) specs"
  using assms
proof (induction specs arbitrary: cat)
  case (Cons s specs)
  then have "AList.update (as_action_type s) s cat = cat @ [(as_action_type s, s)]"
    by (auto simp: update_append_fresh)
  with Cons show ?case by auto
qed simp

lemma ACTION_CATALOG_eq: "ACTION_CATALOG = map (\<lambda>s. (as_action_type s, s)) SPECS"
  using catalog_fold [of "[]" SPECS] action_types_distinct
  by (simp add: ACTION_CATALOG_def catalog_of_def spec_types [symmetric])

lemma catalog_get_iff:
  "catalog_get ACTION_CATALOG a = Some spec \<longleftrightarrow> spec \<in> set SPECS \<and> as_action_type spec = a"
proof -
  have "distinct (map fst ACTION_CATALOG)"
    using action_types_distinct by (simp add: ACTION_CATALOG_eq spec_types [symmetric] o_def)
  then show ?thesis
    by (auto simp: catalog_get_def ACTION_CATALOG_eq map_of_eq_Some_iff image_iff)
qed

lemma schema_of_iff:
  "map_of ACTION_PARAM_SCHEMAS a = Some sc \<longleftrightarrow> (a, sc) \<in> set ACTION_PARAM_SCHEMAS"
  using action_types_distinct by (simp add: schema_keys)

text \<open>Every specification has the schema the table gives its action type.\<close>

lemma spec_schema:
  "list_all (\<lambda>s. as_param_schema s = map_of ACTION_PARAM_SCHEMAS (as_action_type s)) SPECS"
  by (simp only: SPECS_def mk_spec_def list.pred_inject action_spec.simps simp_thms)

lemma catalog_schema:
  assumes "catalog_get ACTION_CATALOG a = Some spec"
  obtains sc where "as_param_schema spec = Some sc" and "(a, sc) \<in> set ACTION_PARAM_SCHEMAS"
proof -
  from assms have spec: "spec \<in> set SPECS" "as_action_type spec = a"
    by (simp_all add: catalog_get_iff)
  then have "a \<in> set (map fst ACTION_PARAM_SCHEMAS)"
    unfolding schema_keys spec_types [symmetric] by auto
  then obtain sc where sc: "(a, sc) \<in> set ACTION_PARAM_SCHEMAS" by auto
  moreover have "as_param_schema spec = Some sc"
    using spec spec_schema sc by (simp add: list_all_iff schema_of_iff)
  ultimately show ?thesis by (rule that [rotated])
qed

section \<open>What the catalog's schemas enforce\<close>

lemma schemas_shape: "list_all schema_shape (map snd ACTION_PARAM_SCHEMAS)"
  by (simp add: ACTION_PARAM_SCHEMAS_def schema_table_defs schema_shape_def prop_shape_def
      get_param_def LIMITS_def)

text \<open>A strict schema declares its properties, each with a type, and admits no others.\<close>

definition strict_schema :: "params \<Rightarrow> bool" where
  "strict_schema sc =
     (\<not> truthy (get_param sc ''additionalProperties'')
      \<and> (case map_of sc ''properties'' of
           Some (JObj ps) \<Rightarrow> list_all (\<lambda>w. case w of JObj sp \<Rightarrow> truthy (get_param sp ''type'') | _ \<Rightarrow> False)
                               (map snd ps)
         | _ \<Rightarrow> False)
      \<and> (case get_param sc ''required'' of
           JList rs \<Rightarrow> list_all (\<lambda>r. case r of JStr _ \<Rightarrow> True | _ \<Rightarrow> False) rs
         | _ \<Rightarrow> False))"

lemma schemas_strict:
  "list_all (\<lambda>(a, sc). a = ''stub.noop'' \<or> strict_schema sc) ACTION_PARAM_SCHEMAS"
  by (simp add: ACTION_PARAM_SCHEMAS_def schema_table_defs strict_schema_def get_param_def)

lemma strict_schema_accepts:
  assumes strict: "strict_schema sc" and ok: "validate_param_schema ps (Some sc) = Inr qs"
  shows "\<exists>props rs. get_param sc ''properties'' = JObj props \<and> get_param sc ''required'' = JList rs
     \<and> (\<forall>(k, v) \<in> set ps. \<exists>sp. map_of props k = Some (JObj sp)
          \<and> (v = JNull \<or> type_ok v (get_param sp ''type'')))
     \<and> (\<forall>r \<in> set rs. \<exists>name. r = JStr name \<and> (present ps name
          \<or> (\<exists>aliases. map_of PARAM_ALIASES name = Some aliases \<and> (\<exists>a \<in> set aliases. present ps a))))"
proof -
  from strict obtain props where props: "map_of sc ''properties'' = Some (JObj props)"
    and typed: "list_all (\<lambda>w. case w of JObj sp \<Rightarrow> truthy (get_param sp ''type'') | _ \<Rightarrow> False)
      (map snd props)"
    by (auto simp: strict_schema_def split: option.splits json.splits)
  then have props': "get_param sc ''properties'' = JObj props" by (simp add: get_param_def)
  from strict obtain rs where rs: "get_param sc ''required'' = JList rs"
    and strs: "list_all (\<lambda>r. case r of JStr _ \<Rightarrow> True | _ \<Rightarrow> False) rs"
    by (cases "get_param sc ''required''") (auto simp: strict_schema_def)
  from strs have names: "\<forall>r \<in> set rs. \<exists>name. r = JStr name"
    unfolding list_all_iff by (metis (no_types, lifting) json.case json.exhaust)
  have closed: "(case map_of sc ''additionalProperties'' of
      None \<Rightarrow> get_param sc ''properties'' = JNull | Some w \<Rightarrow> truthy w) = False"
    using strict props' by (auto simp: strict_schema_def get_param_def split: option.splits)
  have "\<exists>sp. map_of props k = Some (JObj sp) \<and> (v = JNull \<or> type_ok v (get_param sp ''type''))"
    if kv: "(k, v) \<in> set ps" for k v
  proof -
    have "check_param (JObj props) False (k, v) = Inr ()"
      using validate_param_schema_accepts(3) [OF ok _ kv] closed props' by simp
    then obtain sp where sp: "map_of props k = Some (JObj sp)" "check_prop k v sp = Inr ()"
      using check_param_accepts by blast
    then have "truthy (get_param sp ''type'')"
      using typed map_of_SomeD [OF sp(1)] by (force simp: list_all_iff)
    then have "map_of sp ''type'' = Some (get_param sp ''type'')"
      by (auto simp: get_param_def split: option.splits)
    then show ?thesis
      using sp check_prop_type_ok [OF sp(2)] \<open>truthy (get_param sp ''type'')\<close> by blast
  qed
  moreover have "\<exists>name. r = JStr name \<and> (present ps name
      \<or> (\<exists>aliases. map_of PARAM_ALIASES name = Some aliases \<and> (\<exists>a \<in> set aliases. present ps a)))"
    if r: "r \<in> set rs" for r
  proof -
    from names r obtain name where name: "r = JStr name" by blast
    have "truthy (JList rs)" using r by (cases rs) auto
    then have "check_required ps r = Inr ()"
      using validate_param_schema_accepts(2) [OF ok] rs r by simp
    then show ?thesis using name check_required_accepts by blast
  qed
  ultimately show ?thesis using props' rs by blast
qed

section \<open>Properties\<close>

text \<open>No schema of the catalog is ill-shaped: whatever the parameters, checking them
  against the schema of a catalogued action accepts them or raises a validation error, never
  an unexpected \<open>TypeError\<close>.\<close>

theorem catalog_schemas_total:
  assumes "catalog_get ACTION_CATALOG a = Some spec"
  shows "validate_param_schema ps (as_param_schema spec) \<noteq> Inl PyTypeError"
proof -
  from assms obtain sc where "as_param_schema spec = Some sc" and "(a, sc) \<in> set ACTION_PARAM_SCHEMAS"
    by (rule catalog_schema)
  moreover from this have "schema_shape sc" using schemas_shape by (force simp: list_all_iff)
  ultimately show ?thesis using validate_param_schema_no_type_error by simp
qed

lemma fill_in_catalog:
  "catalog_get ACTION_CATALOG ''browser.fill'' = Some (mk_spec ''browser.fill'' MUTATING ''browser'' [''text''])"
  unfolding catalog_get_iff by (simp add: SPECS_def, simp add: mk_spec_def)

lemma catalog_schemas_total_witness:
  "validate_param_schema [(''text'', JList [JNull])]
     (as_param_schema (mk_spec ''browser.fill'' MUTATING ''browser'' [''text''])) \<noteq> Inl PyTypeError"
  by (rule catalog_schemas_total [OF fill_in_catalog])



section \<open>Exclusive targets\<close>

definition number_present :: "params \<Rightarrow> string list \<Rightarrow> nat" where
  "number_present ps ks = length (filter (present ps) ks)"

lemma table_schema:
  assumes "catalog_get ACTION_CATALOG a = Some spec"
  shows "as_param_schema spec = map_of ACTION_PARAM_SCHEMAS a"
  using assms by (rule catalog_schema) (simp add: schema_of_iff [symmetric])

abbreviation only :: "string \<Rightarrow> string list \<Rightarrow> json" where
  "only k ks \<equiv> JObj [(''required'', JList [JStr k]), (''not'', JObj [(''required'', JList (map JStr ks))])]"

abbreviation neither :: "string \<Rightarrow> string \<Rightarrow> json" where
  "neither a b \<equiv> JObj [(''required'', JList []),
     (''not'', JObj [(''anyOf'', JList [JObj [(''required'', JList [JStr a])], JObj [(''required'', JList [JStr b])]])])]"

lemma shape_tables:
  "\<exists>sc. map_of ACTION_PARAM_SCHEMAS ''browser.click'' = Some sc
     \<and> get_param sc ''oneOf'' = JList [only ''selector'' [''text'', ''element_ref''],
         only ''text'' [''selector'', ''element_ref''], only ''element_ref'' [''selector'', ''text'']]"
  "\<exists>sc. map_of ACTION_PARAM_SCHEMAS ''browser.download'' = Some sc
     \<and> get_param sc ''oneOf'' = JList [only ''element_ref'' [''selector'', ''text''],
         only ''selector'' [''element_ref'', ''text''], only ''text'' [''element_ref'', ''selector'']]"
  "\<exists>sc. map_of ACTION_PARAM_SCHEMAS ''browser.upload'' = Some sc
     \<and> get_param sc ''oneOf'' = JList [only ''element_ref'' [''selector''], only ''selector'' [''element_ref'']]"
  "\<exists>sc. map_of ACTION_PARAM_SCHEMAS ''browser.submit'' = Some sc
     \<and> get_param sc ''oneOf'' = JList [only ''selector'' [''element_ref''],
         only ''element_ref'' [''selector''], neither ''selector'' ''element_ref'']"
  "\<exists>sc. map_of ACTION_PARAM_SCHEMAS ''browser.fill'' = Some sc
     \<and> get_param sc ''allOf'' = JList
        [JObj [(''oneOf'', JList [only ''selector'' [''element_ref''], only ''element_ref'' [''selector'']])],
         JObj [(''oneOf'', JList [only ''text'' [''value_ref''], only ''value_ref'' [''text'']])]]"
  by (simp_all add: ACTION_PARAM_SCHEMAS_def schema_table_defs get_param_def)

lemma count_three:
  "count_matches ps [only a [b, c], only b [a, c], only c [a, b]] = 1 \<longleftrightarrow> number_present ps [a, b, c] = 1"
  "count_matches ps [only c [a, b], only a [c, b], only b [c, a]] = 1 \<longleftrightarrow> number_present ps [a, b, c] = 1"
  by (simp_all add: count_matches_def number_present_def matches_schema_condition.simps required_present_def)

lemma count_two:
  "count_matches ps [only a [b], only b [a]] = 1 \<longleftrightarrow> number_present ps [a, b] = 1"
  "count_matches ps [only b [a], only a [b]] = 1 \<longleftrightarrow> number_present ps [a, b] = 1"
  "count_matches ps [only a [b], only b [a], neither a b] = 1 \<longleftrightarrow> number_present ps [a, b] \<le> 1"
  by (simp_all add: count_matches_def number_present_def matches_schema_condition.simps required_present_def)

lemma browser_shapes:
  "validate_param_schema ps (map_of ACTION_PARAM_SCHEMAS ''browser.click'') = Inr qs \<Longrightarrow>
     number_present ps [''selector'', ''text'', ''element_ref''] = 1"
  "validate_param_schema ps (map_of ACTION_PARAM_SCHEMAS ''browser.download'') = Inr qs \<Longrightarrow>
     number_present ps [''selector'', ''text'', ''element_ref''] = 1"
  "validate_param_schema ps (map_of ACTION_PARAM_SCHEMAS ''browser.upload'') = Inr qs \<Longrightarrow>
     number_present ps [''selector'', ''element_ref''] = 1"
  "validate_param_schema ps (map_of ACTION_PARAM_SCHEMAS ''browser.submit'') = Inr qs \<Longrightarrow>
     number_present ps [''selector'', ''element_ref''] \<le> 1"
  "validate_param_schema ps (map_of ACTION_PARAM_SCHEMAS ''browser.fill'') = Inr qs \<Longrightarrow>
     number_present ps [''selector'', ''element_ref''] = 1 \<and> number_present ps [''text'', ''value_ref''] = 1"
proof -
  show "number_present ps [''selector'', ''text'', ''element_ref''] = 1"
    if ok: "validate_param_schema ps (map_of ACTION_PARAM_SCHEMAS ''browser.click'') = Inr qs"
    using shape_tables(1) validate_param_schema_accepts(4) ok count_three(1) by (fastforce simp del: One_nat_def)
  show "number_present ps [''selector'', ''text'', ''element_ref''] = 1"
    if ok: "validate_param_schema ps (map_of ACTION_PARAM_SCHEMAS ''browser.download'') = Inr qs"
    using shape_tables(2) validate_param_schema_accepts(4) ok count_three(2) by (fastforce simp del: One_nat_def)
  show "number_present ps [''selector'', ''element_ref''] = 1"
    if ok: "validate_param_schema ps (map_of ACTION_PARAM_SCHEMAS ''browser.upload'') = Inr qs"
    using shape_tables(3) validate_param_schema_accepts(4) ok count_two(2) by (fastforce simp del: One_nat_def)
  show "number_present ps [''selector'', ''element_ref''] \<le> 1"
    if ok: "validate_param_schema ps (map_of ACTION_PARAM_SCHEMAS ''browser.submit'') = Inr qs"
    using shape_tables(4) validate_param_schema_accepts(4) ok count_two(3) by (fastforce simp del: One_nat_def)
  show "number_present ps [''selector'', ''element_ref''] = 1 \<and> number_present ps [''text'', ''value_ref''] = 1"
    if ok: "validate_param_schema ps (map_of ACTION_PARAM_SCHEMAS ''browser.fill'') = Inr qs"
  proof -
    from shape_tables(5) obtain sc where sc: "map_of ACTION_PARAM_SCHEMAS ''browser.fill'' = Some sc"
      and all_of: "get_param sc ''allOf'' = JList
        [JObj [(''oneOf'', JList [only ''selector'' [''element_ref''], only ''element_ref'' [''selector'']])],
         JObj [(''oneOf'', JList [only ''text'' [''value_ref''], only ''value_ref'' [''text'']])]]"
      by blast
    from validate_param_schema_accepts(5) [OF ok [unfolded sc] all_of]
    have "count_matches ps [only ''selector'' [''element_ref''], only ''element_ref'' [''selector'']] = 1"
      "count_matches ps [only ''text'' [''value_ref''], only ''value_ref'' [''text'']] = 1"
      by (simp_all add: check_all_of_def split: if_splits del: One_nat_def)
    then show ?thesis by (simp only: count_two)
  qed
qed

text \<open>The browser actions address one element: accepted parameters of \<open>browser.click\<close> and
  \<open>browser.download\<close> give exactly one of selector, text and element reference; those of
  \<open>browser.fill\<close> exactly one target and exactly one of text and vault reference; those of
  \<open>browser.upload\<close> exactly one target and those of \<open>browser.submit\<close> at most one.\<close>

theorem browser_targets_exclusive:
  assumes "catalog_get ACTION_CATALOG a = Some spec"
    and "validate_param_schema ps (as_param_schema spec) = Inr qs"
  shows "(a \<in> {''browser.click'', ''browser.download''} \<longrightarrow>
            number_present ps [''selector'', ''text'', ''element_ref''] = 1)
    \<and> (a = ''browser.fill'' \<longrightarrow> number_present ps [''selector'', ''element_ref''] = 1
            \<and> number_present ps [''text'', ''value_ref''] = 1)
    \<and> (a = ''browser.upload'' \<longrightarrow> number_present ps [''selector'', ''element_ref''] = 1)
    \<and> (a = ''browser.submit'' \<longrightarrow> number_present ps [''selector'', ''element_ref''] \<le> 1)"
  using browser_shapes [of ps qs] assms(2) unfolding table_schema [OF assms(1)] by auto

lemma browser_targets_exclusive_witness:
  "number_present [(''selector'', JStr ''#q''), (''text'', JStr ''hi'')] [''text'', ''value_ref''] = 1"
proof -
  have "validate_param_schema [(''selector'', JStr ''#q''), (''text'', JStr ''hi'')]
     (as_param_schema (mk_spec ''browser.fill'' MUTATING ''browser'' [''text'']))
     = Inr [(''selector'', JStr ''#q''), (''text'', JStr ''hi'')]"
    by code_simp
  from browser_targets_exclusive [OF fill_in_catalog this] show ?thesis by simp
qed

section \<open>The registry\<close>

text \<open>The invariant of the registry: the two dictionaries describe the same providers.\<close>

definition registry_ok :: "'p tool_registry \<Rightarrow> bool" where
  "registry_ok reg =
     ((\<forall>a p. map_of (tr_providers reg) a = Some p \<longrightarrow>
         a \<in> set (p_action_types p) \<and> map_of (tr_by_id reg) (p_id p) = Some p)
      \<and> (\<forall>i p. map_of (tr_by_id reg) i = Some p \<longrightarrow>
         p_id p = i \<and> (\<forall>a \<in> set (p_action_types p). map_of (tr_providers reg) a = Some p)))"

lemma register_types_keeps:
  assumes "register_types p as m = (r, m')" and "map_of m a = Some q"
  shows "map_of m' a = Some q"
  using assms
proof (induction as arbitrary: m)
  case (Cons b as)
  then have "map_of m b = None \<Longrightarrow> map_of (AList.update b p m) a = Some q"
    by (auto simp: update_conv')
  with Cons show ?case by (auto split: if_splits)
qed simp

lemma register_types_ok:
  assumes "register_types p as m = (Inr u, m')" and "distinct as"
  shows "map_of m' = (\<lambda>a. if a \<in> set as then Some p else map_of m a) \<and> (\<forall>a \<in> set as. map_of m a = None)"
  using assms
proof (induction as arbitrary: m)
  case (Cons b as)
  then have b: "map_of m b = None" "register_types p as (AList.update b p m) = (Inr u, m')"
    by (auto split: if_splits)
  from Cons.IH [OF b(2)] Cons.prems(2)
  have "map_of m' = (\<lambda>a. if a \<in> set as then Some p else ((map_of m)(b \<mapsto> p)) a)"
    and "\<forall>a \<in> set as. ((map_of m)(b \<mapsto> p)) a = None" by (auto simp: update_conv')
  then show ?case using b Cons.prems(2) by (auto simp: fun_eq_iff split: if_splits)
qed simp

text \<open>Registering a provider succeeds only if its id and all its action types are free; it
  then owns exactly its action types, every other binding is unchanged and the two
  dictionaries of the registry still describe the same providers.  Whether it succeeds or
  not, no action type and no id that was bound is rebound.\<close>

theorem register_exclusive:
  assumes inv: "registry_ok reg" and types: "distinct (p_action_types p)"
    and run: "register p reg = (r, reg')"
  shows "(r = Inr () \<longrightarrow> registry_ok reg' \<and> get_provider reg (p_id p) = None
        \<and> (\<forall>a. registry_lookup reg' a = (if a \<in> set (p_action_types p) then Some p else registry_lookup reg a))
        \<and> (\<forall>a \<in> set (p_action_types p). registry_lookup reg a = None))
    \<and> (\<forall>a q. registry_lookup reg a = Some q \<longrightarrow> registry_lookup reg' a = Some q)
    \<and> (\<forall>i q. get_provider reg i = Some q \<longrightarrow> get_provider reg' i = Some q)"
proof (cases "map_of (tr_by_id reg) (p_id p)")
  case (Some q)
  with run show ?thesis by (auto simp: register_def)
next
  case None
  obtain r' m where m: "register_types p (p_action_types p) (tr_providers reg) = (r', m)"
    by (cases "register_types p (p_action_types p) (tr_providers reg)")
  have keep: "registry_lookup reg' a = Some q" if "registry_lookup reg a = Some q" for a q
    using that register_types_keeps [OF m] None run m
    by (auto simp: register_def registry_lookup_def split: sum.splits)
  have keep_id: "get_provider reg' i = Some q" if "get_provider reg i = Some q" for i q
    using that None run m
    by (auto simp: register_def get_provider_def update_conv' split: sum.splits)
  have "registry_ok reg' \<and> get_provider reg (p_id p) = None
      \<and> (\<forall>a. registry_lookup reg' a = (if a \<in> set (p_action_types p) then Some p else registry_lookup reg a))
      \<and> (\<forall>a \<in> set (p_action_types p). registry_lookup reg a = None)" if "r = Inr ()"
  proof -
    from that run None m have r': "r' = Inr ()"
      and reg': "reg' = reg\<lparr>tr_providers := m, tr_by_id := AList.update (p_id p) p (tr_by_id reg)\<rparr>"
      by (auto simp: register_def split: sum.splits)
    from register_types_ok [OF m [unfolded r'] types]
    have eq: "map_of m = (\<lambda>a. if a \<in> set (p_action_types p) then Some p else map_of (tr_providers reg) a)"
      and free: "\<forall>a \<in> set (p_action_types p). map_of (tr_providers reg) a = None" by auto
    have "registry_ok reg'"
      unfolding registry_ok_def
    proof (intro conjI allI impI)
      fix a q assume "map_of (tr_providers reg') a = Some q"
      then show "a \<in> set (p_action_types q)" and "map_of (tr_by_id reg') (p_id q) = Some q"
        using inv None unfolding reg' registry_ok_def
        by (fastforce simp: eq update_conv' split: if_splits)+
    next
      fix i q assume iq: "map_of (tr_by_id reg') i = Some q"
      have "p_id q = i \<and> (\<forall>a \<in> set (p_action_types q). map_of (tr_providers reg') a = Some q)"
      proof (cases "i = p_id p")
        case True
        with iq show ?thesis by (simp add: reg' update_conv' eq)
      next
        case False
        with iq have "map_of (tr_by_id reg) i = Some q" by (simp add: reg' update_conv')
        with inv have "p_id q = i \<and> (\<forall>a \<in> set (p_action_types q). map_of (tr_providers reg) a = Some q)"
          unfolding registry_ok_def by blast
        with free show ?thesis by (auto simp: reg' eq)
      qed
      then show "p_id q = i" and "\<forall>a \<in> set (p_action_types q). map_of (tr_providers reg') a = Some q"
        by blast+
    qed
    then show ?thesis
      using eq free None by (simp add: reg' registry_lookup_def get_provider_def)
  qed
  then show ?thesis using keep keep_id by blast
qed

lemma register_exclusive_witness:
  "let p = \<lparr>p_id = ''stub'', p_action_types = [''stub.noop'', ''web.search''], p_impl = ()\<rparr>;
       reg = snd (register p empty_registry)
   in registry_ok reg \<and> registry_lookup reg ''web.search'' = Some p"
proof -
  let ?p = "\<lparr>p_id = ''stub'', p_action_types = [''stub.noop'', ''web.search''], p_impl = ()\<rparr>"
  have "registry_ok (empty_registry :: unit tool_registry)"
    by (simp add: registry_ok_def empty_registry_def)
  moreover have "register ?p empty_registry = (Inr (), snd (register ?p empty_registry))"
    by (simp add: register_def empty_registry_def)
  ultimately show ?thesis
    using register_exclusive [of empty_registry ?p "Inr ()" "snd (register ?p empty_registry)"]
    by (simp add: Let_def)
qed

end
