(* ===== verification/Hashing.thy ===== *)
theory Hashing
  imports Core_Types
begin

text \<open>
  Model of \<^verbatim>\<open>era/security/hashing.py\<close>: the canonical JSON text (\<open>json.dumps\<close> with sorted keys,
  compact separators and ASCII escapes) and the fingerprint of an action.  SHA-256 is the
  parameter \<open>sha\<close>; \<open>float.__repr__\<close>, of which only injectivity and its alphabet matter, is the
  parameter \<open>frepr\<close>.

  The canonical text determines the value up to the order of dictionary keys.
\<close>

section \<open>Canonical JSON\<close>

definition hex_digit :: "nat \<Rightarrow> char" where
  "hex_digit n = (if n < 10 then char_of (48 + n) else char_of (87 + n))"

definition escape_char :: "char \<Rightarrow> string" where
  "escape_char c =
     (if c = CHR 0x22 then [CHR 0x5C, CHR 0x22]
      else if c = CHR 0x5C then [CHR 0x5C, CHR 0x5C]
      else if code c = 10 then [CHR 0x5C, CHR ''n'']
      else if code c = 13 then [CHR 0x5C, CHR ''r'']
      else if code c = 9 then [CHR 0x5C, CHR ''t'']
      else if code c = 12 then [CHR 0x5C, CHR ''f'']
      else if code c = 8 then [CHR 0x5C, CHR ''b'']
      else if 32 \<le> code c \<and> code c \<le> 126 then [c]
      else [CHR 0x5C, CHR ''u'', CHR ''0'', CHR ''0'', hex_digit (code c div 16), hex_digit (code c mod 16)])"

definition json_string :: "string \<Rightarrow> string" where
  "json_string s = CHR 0x22 # concat (map escape_char s) @ [CHR 0x22]"

text \<open>\<open>",".join(parts)\<close>.\<close>

fun comma_join :: "string list \<Rightarrow> string" where
  "comma_join [] = []"
| "comma_join [x] = x"
| "comma_join (x # y # ys) = x @ CHR '','' # comma_join (y # ys)"

text \<open>\<open>json.dumps(obj, sort_keys=True, separators=(",", ":"))\<close>.\<close>

fun canonical_json :: "(pyfloat \<Rightarrow> string) \<Rightarrow> json \<Rightarrow> string" where
  "canonical_json frepr JNull = ''null''"
| "canonical_json frepr (JBool b) = (if b then ''true'' else ''false'')"
| "canonical_json frepr (JInt i) = show_int i"
| "canonical_json frepr (JFloat f) = frepr f"
| "canonical_json frepr (JStr s) = json_string s"
| "canonical_json frepr (JList xs) = CHR ''['' # comma_join (map (canonical_json frepr) xs) @ '']''"
| "canonical_json frepr (JObj kvs) =
     CHR ''{'' # comma_join (map (\<lambda>(k, t). json_string k @ CHR '':'' # t)
        (sort_key fst (map (\<lambda>(k, v). (k, canonical_json frepr v)) kvs))) @ ''}''"

definition fingerprint_payload :: "string \<Rightarrow> params \<Rightarrow> string option \<Rightarrow> json" where
  "fingerprint_payload a ps risk =
     JObj [(''action_type'', JStr a), (''params'', JObj ps),
           (''risk_level'', case risk of None \<Rightarrow> JNull | Some r \<Rightarrow> JStr r)]"

definition action_fingerprint ::
  "(string \<Rightarrow> string) \<Rightarrow> (pyfloat \<Rightarrow> string) \<Rightarrow> string \<Rightarrow> params \<Rightarrow> string option \<Rightarrow> string" where
  "action_fingerprint sha frepr a ps risk = sha (canonical_json frepr (fingerprint_payload a ps risk))"

lemma canonical_examples:
  "canonical_json (\<lambda>_. ''1.5'') (JObj [(''b'', JList [JInt (-7), JNull]), (''a'', JBool True)])
     = ''{'' @ [CHR 0x22] @ ''a'' @ [CHR 0x22] @ '':true,'' @ [CHR 0x22] @ ''b'' @ [CHR 0x22] @ '':[-7,null]}''"
  by code_simp

section \<open>The text without sorting, and the sorted value\<close>

fun dump :: "(pyfloat \<Rightarrow> string) \<Rightarrow> json \<Rightarrow> string" where
  "dump frepr JNull = ''null''"
| "dump frepr (JBool b) = (if b then ''true'' else ''false'')"
| "dump frepr (JInt i) = show_int i"
| "dump frepr (JFloat f) = frepr f"
| "dump frepr (JStr s) = json_string s"
| "dump frepr (JList xs) = CHR ''['' # comma_join (map (dump frepr) xs) @ '']''"
| "dump frepr (JObj kvs) =
     CHR ''{'' # comma_join (map (\<lambda>(k, v). json_string k @ CHR '':'' # dump frepr v) kvs) @ ''}''"

text \<open>Sort the keys of every dictionary: two values have the same sorted form when they differ
  only in the order of dictionary keys.\<close>

fun sort_json :: "json \<Rightarrow> json" where
  "sort_json (JList xs) = JList (map sort_json xs)"
| "sort_json (JObj kvs) = JObj (sort_key fst (map (\<lambda>(k, v). (k, sort_json v)) kvs))"
| "sort_json v = v"

lemma insort_key_map: "insort_key f (g x) (map g xs) = map g (insort_key (\<lambda>y. f (g y)) x xs)"
  by (induction xs) auto

lemma sort_key_map: "sort_key f (map g xs) = map g (sort_key (\<lambda>y. f (g y)) xs)"
  by (induction xs) (auto simp: insort_key_map sort_key_def)

lemma canonical_json_dump: "canonical_json frepr v = dump frepr (sort_json v)"
proof (induction frepr v rule: canonical_json.induct)
  case (7 frepr kvs)
  let ?g = "\<lambda>(k, v). (k, dump frepr v)" and ?ys = "map (\<lambda>(k, v). (k, sort_json v)) kvs"
  have "map (\<lambda>(k, v). (k, canonical_json frepr v)) kvs = map ?g ?ys"
    using 7 by auto
  then have "sort_key fst (map (\<lambda>(k, v). (k, canonical_json frepr v)) kvs) = sort_key fst (map ?g ?ys)"
    by (simp only:)
  also have "\<dots> = map ?g (sort_key (\<lambda>y. fst (?g y)) ?ys)"
    by (rule sort_key_map)
  also have "(\<lambda>y. fst (?g y)) = fst" by auto
  finally show ?case by (simp add: case_prod_unfold o_def)
qed (simp_all add: o_def cong: map_cong)

section \<open>Reading the text back: strings\<close>

definition hex_val :: "char \<Rightarrow> nat" where
  "hex_val c = (if code c \<le> 57 then code c - 48 else code c - 87)"

lemma hex_val_digit: "n < 16 \<Longrightarrow> hex_val (hex_digit n) = n"
  by (simp add: hex_val_def hex_digit_def code_def)

definition unescape_one :: "char \<Rightarrow> char" where
  "unescape_one e =
     (if e = CHR ''n'' then char_of (10 :: nat) else if e = CHR ''r'' then char_of (13 :: nat)
      else if e = CHR ''t'' then char_of (9 :: nat) else if e = CHR ''f'' then char_of (12 :: nat)
      else if e = CHR ''b'' then char_of (8 :: nat) else e)"

definition read_char :: "string \<Rightarrow> (char \<times> string) option" where
  "read_char t = (case t of
       [] \<Rightarrow> None
     | c # cs \<Rightarrow>
         if c = CHR 0x22 then None
         else if c = CHR 0x5C then
           (case cs of
              [] \<Rightarrow> None
            | e # r \<Rightarrow>
                if e = CHR ''u'' then
                  Some (char_of (16 * hex_val (r ! 2) + hex_val (r ! 3)), drop 4 r)
                else Some (unescape_one e, r))
         else Some (c, cs))"

lemma char_of_code: "code c = n \<Longrightarrow> c = char_of n"
  by (auto simp: code_def)

lemma code_less: "code c < 256"
  by (simp add: code_def)

lemma read_escape: "read_char (escape_char c @ t) = Some (c, t)"
proof -
  have "16 * (code c div 16) + code c mod 16 = code c" by simp
  moreover have "code c div 16 < 16" using code_less [of c] by simp
  ultimately have "char_of (16 * hex_val (hex_digit (code c div 16)) + hex_val (hex_digit (code c mod 16))) = c"
    by (simp add: hex_val_digit) (simp add: code_def)
  then show ?thesis
    by (auto simp: read_char_def escape_char_def unescape_one_def dest!: char_of_code)
qed

lemma escape_string_inject:
  "concat (map escape_char s) @ CHR 0x22 # r = concat (map escape_char t) @ CHR 0x22 # r'
     \<Longrightarrow> s = t \<and> r = r'"
proof (induction s arbitrary: t)
  case Nil
  then show ?case
    using read_escape by (cases t) (auto simp: read_char_def dest: arg_cong [where f = read_char])
next
  case (Cons c s)
  show ?case
  proof (cases t)
    case Nil
    with Cons.prems have "read_char (escape_char c @ concat (map escape_char s) @ CHR 0x22 # r) = None"
      by (simp add: read_char_def)
    then show ?thesis by (simp add: read_escape)
  next
    case (Cons d t')
    from Cons.prems have "read_char (escape_char c @ concat (map escape_char s) @ CHR 0x22 # r)
        = read_char (escape_char d @ concat (map escape_char t') @ CHR 0x22 # r')"
      by (simp add: Cons)
    then have "c = d" "concat (map escape_char s) @ CHR 0x22 # r = concat (map escape_char t') @ CHR 0x22 # r'"
      by (simp_all add: read_escape)
    with Cons.IH Cons show ?thesis by auto
  qed
qed

lemma json_string_inject: "json_string s @ r = json_string t @ r' \<Longrightarrow> s = t \<and> r = r'"
  by (rule escape_string_inject) (simp add: json_string_def)

section \<open>Reading the text back: values\<close>

definition stops :: "string \<Rightarrow> bool" where
  "stops r = (r = [] \<or> hd r \<in> {CHR '','', CHR '']'', CHR ''}''})"

text \<open>What is assumed of the text of a float: it determines the float, is no integer text and
  is made of characters that occur neither as separators nor at the start of other values.\<close>

definition float_text_ok :: "(pyfloat \<Rightarrow> string) \<Rightarrow> bool" where
  "float_text_ok frepr =
     (inj frepr \<and> (\<forall>f. frepr f \<noteq> []
        \<and> set (frepr f) \<inter> {CHR '','', CHR '']'', CHR ''}''} = {}
        \<and> hd (frepr f) \<notin> {CHR 0x22, CHR ''['', CHR ''{'', CHR ''n'', CHR ''t'', CHR ''f''}
        \<and> (\<forall>i. frepr f \<noteq> show_int i)))"

definition digit_chars :: "char set" where
  "digit_chars = {c. is_digit c}"

lemma digit_chars_iff [simp]: "c \<in> digit_chars \<longleftrightarrow> 48 \<le> code c \<and> code c \<le> 57"
  by (simp add: digit_chars_def is_digit_def)

lemma digit_char: "n < (10 :: nat) \<Longrightarrow> char_of (48 + n) \<in> digit_chars"
  by (simp add: code_def)

lemma show_nat_chars: "set (show_nat n) \<subseteq> digit_chars"
proof (induction n rule: show_nat.induct)
  case (1 n)
  show ?case
    by (subst show_nat.simps) (use 1 in \<open>auto simp: digit_char simp del: digit_chars_iff\<close>)
qed

lemma show_nat_value: "foldl (\<lambda>a c. 10 * a + (code c - 48)) 0 (show_nat n) = n"
proof (induction n rule: show_nat.induct)
  case (1 n)
  have "code (char_of (48 + m)) = 48 + m" if "m < 10" for m :: nat
    using that by (simp add: code_def)
  with 1 show ?case by (subst show_nat.simps) auto
qed

lemma show_nat_inject: "show_nat m = show_nat n \<Longrightarrow> m = n"
  by (metis show_nat_value)

lemma show_int_inject: "show_int i = show_int j \<Longrightarrow> i = j"
proof -
  have neg: "CHR ''-'' # x \<noteq> show_nat n" for x n
  proof
    assume "CHR ''-'' # x = show_nat n"
    then have "CHR ''-'' \<in> set (show_nat n)" by (metis list.set_intros(1))
    with show_nat_chars [of n] show False by (auto simp: digit_chars_def is_digit_def code_def)
  qed
  assume "show_int i = show_int j"
  then show "i = j"
    using neg neg [symmetric] by (auto simp: show_int_def dest!: show_nat_inject split: if_splits)
qed

lemma show_int_chars: "set (show_int i) \<subseteq> insert (CHR ''-'') digit_chars" "show_int i \<noteq> []"
  using show_nat_chars by (auto simp: show_int_def)

text \<open>Atoms are read to the next separator.\<close>

definition atom :: "json \<Rightarrow> bool" where
  "atom v = (case v of JStr _ \<Rightarrow> False | JList _ \<Rightarrow> False | JObj _ \<Rightarrow> False | _ \<Rightarrow> True)"

definition separators :: "char set" where
  "separators = {CHR '','', CHR '']'', CHR ''}''}"

lemma stops_iff: "stops r \<longleftrightarrow> r = [] \<or> hd r \<in> separators"
  by (simp add: stops_def separators_def)

lemma plain_split:
  assumes "set x \<inter> separators = {}" "set y \<inter> separators = {}" "stops r" "stops s" "x @ r = y @ s"
  shows "x = y \<and> r = s"
proof -
  have "takeWhile (\<lambda>c. c \<notin> separators) (z @ t) = z" if "set z \<inter> separators = {}" "stops t" for z t
    using that by (induction z) (cases t; auto simp: stops_iff)+
  with assms have "x = y" by metis
  with assms(5) show ?thesis by simp
qed

lemma int_plain: "set (show_int i) \<inter> separators = {}"
  using show_int_chars(1) [of i] by (auto simp: separators_def digit_chars_def is_digit_def code_def)

lemma atom_plain: "float_text_ok frepr \<Longrightarrow> atom v \<Longrightarrow> set (dump frepr v) \<inter> separators = {}"
  using int_plain by (cases v) (auto simp: atom_def separators_def float_text_ok_def)

lemma int_not_word: "show_int i \<noteq> ''null''" "show_int i \<noteq> ''true''" "show_int i \<noteq> ''false''"
  using show_int_chars(1) [of i] by (auto simp: digit_chars_def is_digit_def code_def)

lemma float_not_word:
  assumes "float_text_ok frepr"
  shows "frepr f \<noteq> ''null''" "frepr f \<noteq> ''true''" "frepr f \<noteq> ''false''"
proof -
  have "hd (frepr f) \<notin> {CHR ''n'', CHR ''t'', CHR ''f''}" using assms by (auto simp: float_text_ok_def)
  then show "frepr f \<noteq> ''null''" "frepr f \<noteq> ''true''" "frepr f \<noteq> ''false''" by auto
qed

lemma atom_inject:
  assumes ok: "float_text_ok frepr" and "atom v" "atom w" "dump frepr v = dump frepr w"
  shows "v = w"
proof -
  have float: "frepr f = frepr g \<Longrightarrow> f = g" "frepr f \<noteq> show_int i" for f g i
    using ok by (auto simp: float_text_ok_def dest: injD)
  note distinct = int_not_word int_not_word [symmetric] float_not_word [OF ok]
    float_not_word [OF ok, symmetric] float(2) float(2) [symmetric]
  show ?thesis
    using assms(2-) by (cases v; cases w)
      (auto simp: atom_def distinct dest: float(1) show_int_inject split: if_splits)
qed

lemma first_char:
  assumes "float_text_ok frepr"
  shows "dump frepr v \<noteq> []" "hd (dump frepr v) \<notin> separators"
    "hd (dump frepr v) = CHR 0x22 \<longleftrightarrow> (\<exists>s. v = JStr s)"
    "hd (dump frepr v) = CHR ''['' \<longleftrightarrow> (\<exists>xs. v = JList xs)"
    "hd (dump frepr v) = CHR ''{'' \<longleftrightarrow> (\<exists>kvs. v = JObj kvs)"
proof -
  have f: "frepr f \<noteq> [] \<and> hd (frepr f) \<notin> separators \<union> {CHR 0x22, CHR ''['', CHR ''{''}" for f
  proof -
    have "frepr f \<noteq> []" "set (frepr f) \<inter> separators = {}"
      and "hd (frepr f) \<notin> {CHR 0x22, CHR ''['', CHR ''{'', CHR ''n'', CHR ''t'', CHR ''f''}"
      using assms unfolding float_text_ok_def separators_def by blast+
    then show ?thesis by (cases "frepr f") auto
  qed
  have i: "show_int i \<noteq> [] \<and> hd (show_int i) \<notin> separators \<union> {CHR 0x22, CHR ''['', CHR ''{''}" for i
    using show_int_chars [of i] by (cases "show_int i") (auto simp: separators_def digit_chars_def is_digit_def code_def)
  show "dump frepr v \<noteq> []" "hd (dump frepr v) \<notin> separators"
    "hd (dump frepr v) = CHR 0x22 \<longleftrightarrow> (\<exists>s. v = JStr s)"
    "hd (dump frepr v) = CHR ''['' \<longleftrightarrow> (\<exists>xs. v = JList xs)"
    "hd (dump frepr v) = CHR ''{'' \<longleftrightarrow> (\<exists>kvs. v = JObj kvs)"
    using f i by (cases v; auto simp: json_string_def separators_def)+
qed

definition tail_of :: "('a \<Rightarrow> string) \<Rightarrow> 'a list \<Rightarrow> string" where
  "tail_of p xs = (if xs = [] then [] else CHR '','' # comma_join (map p xs))"

lemma comma_join_Cons: "comma_join (map p (x # xs)) = p x @ tail_of p xs"
  by (cases xs) (auto simp: tail_of_def)

lemma join_inject:
  assumes item: "\<And>x y r s. x \<in> set xs \<Longrightarrow> stops r \<Longrightarrow> stops s \<Longrightarrow> p x @ r = p y @ s \<Longrightarrow> x = y \<and> r = s"
    and first: "\<And>x. p x \<noteq> [] \<and> hd (p x) \<notin> separators"
    and z: "z \<in> separators" "z \<noteq> CHR '',''"
    and eq: "comma_join (map p xs) @ z # r = comma_join (map p ys) @ z # s"
  shows "xs = ys \<and> r = s"
  using item eq
proof (induction xs arbitrary: ys)
  case Nil
  show ?case
  proof (cases ys)
    case (Cons y ys')
    with Nil have "z # r = p y @ tail_of p ys' @ z # s" by (simp only: comma_join_Cons) simp
    then have "hd (p y) = z" using first [of y] by (metis hd_append list.sel(1))
    with first [of y] z show ?thesis by auto
  qed (use Nil in simp)
next
  case (Cons x xs)
  have stop: "stops (tail_of p us @ z # t)" for us t
    using z by (simp add: stops_iff tail_of_def) (simp add: separators_def)
  show ?case
  proof (cases ys)
    case Nil
    with Cons.prems(2) have "z # s = p x @ tail_of p xs @ z # r" by (simp only: comma_join_Cons) simp
    then have "hd (p x) = z" using first [of x] by (metis hd_append list.sel(1))
    with first [of x] z show ?thesis by auto
  next
    case ys: (Cons y ys')
    with Cons.prems(2) have "p x @ (tail_of p xs @ z # r) = p y @ (tail_of p ys' @ z # s)"
      by (simp only: comma_join_Cons append_assoc)
    then have "x = y \<and> tail_of p xs @ z # r = tail_of p ys' @ z # s"
      by (intro Cons.prems(1) stop) simp
    then have xy: "x = y" and tails: "tail_of p xs @ z # r = tail_of p ys' @ z # s" by simp_all
    then have empty: "xs = [] \<longleftrightarrow> ys' = []"
      using z by (auto simp: tail_of_def split: if_splits)
    have "xs = ys' \<and> r = s"
    proof (cases "xs = []")
      case True
      with empty tails show ?thesis by (simp add: tail_of_def)
    next
      case False
      with empty tails have "comma_join (map p xs) @ z # r = comma_join (map p ys') @ z # s"
        by (simp add: tail_of_def)
      then show ?thesis by (rule Cons.IH [rotated]) (rule Cons.prems(1); simp)
    qed
    with xy ys show ?thesis by simp
  qed
qed

text \<open>Equal texts are of values of the same kind.\<close>

lemma same_kind:
  assumes ok: "float_text_ok frepr" and eq: "dump frepr v @ r = dump frepr w @ s"
  shows "(\<exists>x. v = JStr x) \<longleftrightarrow> (\<exists>x. w = JStr x)" "(\<exists>x. v = JList x) \<longleftrightarrow> (\<exists>x. w = JList x)"
    "(\<exists>x. v = JObj x) \<longleftrightarrow> (\<exists>x. w = JObj x)"
proof -
  have "hd (dump frepr v) = hd (dump frepr w)"
    using first_char(1) [OF ok] eq by (metis hd_append)
  then show "(\<exists>x. v = JStr x) \<longleftrightarrow> (\<exists>x. w = JStr x)" "(\<exists>x. v = JList x) \<longleftrightarrow> (\<exists>x. w = JList x)"
    "(\<exists>x. v = JObj x) \<longleftrightarrow> (\<exists>x. w = JObj x)"
    using first_char(3-) [OF ok, of v] first_char(3-) [OF ok, of w] by metis+
qed

lemma atom_iff: "atom v \<longleftrightarrow> (\<nexists>x. v = JStr x) \<and> (\<nexists>x. v = JList x) \<and> (\<nexists>x. v = JObj x)"
  by (cases v) (auto simp: atom_def)

lemma dump_atom_inject:
  assumes ok: "float_text_ok frepr" and "atom v" "stops r" "stops s"
    and eq: "dump frepr v @ r = dump frepr w @ s"
  shows "v = w \<and> r = s"
proof -
  have "atom w" using same_kind [OF ok eq] assms(2) by (simp add: atom_iff)
  with assms atom_plain [OF ok] have "dump frepr v = dump frepr w \<and> r = s"
    by (intro plain_split) auto
  with atom_inject [OF ok assms(2) \<open>atom w\<close>] show ?thesis by simp
qed

lemma dump_inject_aux:
  assumes ok: "float_text_ok frepr"
  shows "stops r \<Longrightarrow> stops s \<Longrightarrow> dump frepr v @ r = dump frepr w @ s \<Longrightarrow> v = w \<and> r = s"
proof (induction v arbitrary: w r s rule: json.induct)
  case (JStr x)
  then obtain y where w: "w = JStr y"
    using same_kind(1) [OF ok JStr(3)] by auto
  with JStr(3) have "json_string x @ r = json_string y @ s" by simp
  from json_string_inject [OF this] w show ?case by simp
next
  case (JList xs)
  then obtain ys where w: "w = JList ys"
    using same_kind(2) [OF ok JList.prems(3)] by blast
  have "xs = ys \<and> r = s"
  proof (rule join_inject [where p = "dump frepr" and z = "CHR '']''"])
    show "comma_join (map (dump frepr) xs) @ CHR '']'' # r = comma_join (map (dump frepr) ys) @ CHR '']'' # s"
      using JList.prems(3) w by simp
  qed (use JList.IH first_char [OF ok] in \<open>auto simp: separators_def\<close>)
  with w show ?case by simp
next
  case (JObj kvs)
  then obtain kws where w: "w = JObj kws"
    using same_kind(3) [OF ok JObj.prems(3)] by blast
  let ?p = "\<lambda>(k, v). json_string k @ CHR '':'' # dump frepr v"
  have "kvs = kws \<and> r = s"
  proof (rule join_inject [where p = ?p and z = "CHR ''}''"])
    show "comma_join (map ?p kvs) @ CHR ''}'' # r = comma_join (map ?p kws) @ CHR ''}'' # s"
      using JObj.prems(3) w by simp
  next
    fix x y r s
    assume x: "x \<in> set kvs" and stop: "stops r" "stops s" and eq: "?p x @ r = ?p y @ s"
    obtain k v l u where xy: "x = (k, v)" "y = (l, u)" by (cases x, cases y)
    from eq xy have "k = l" "dump frepr v @ r = dump frepr u @ s"
      using json_string_inject [of k "CHR '':'' # dump frepr v @ r" l "CHR '':'' # dump frepr u @ s"] by auto
    with JObj.IH [of x v r s u] x xy stop show "x = y \<and> r = s" by auto
  qed (auto simp: separators_def json_string_def split: prod.splits)
  with w show ?case by simp
qed (rule dump_atom_inject [OF ok]; simp add: atom_def)+

lemma dump_inject: "float_text_ok frepr \<Longrightarrow> dump frepr v = dump frepr w \<Longrightarrow> v = w"
  using dump_inject_aux [of frepr "[]" "[]" v w] by (simp add: stops_def)

lemma canonical_json_inject:
  "float_text_ok frepr \<Longrightarrow> canonical_json frepr v = canonical_json frepr w \<longleftrightarrow> sort_json v = sort_json w"
  using dump_inject by (auto simp: canonical_json_dump)

lemma sort_fingerprint:
  "sort_json (fingerprint_payload a ps risk) =
     JObj [(''action_type'', JStr a), (''params'', sort_json (JObj ps)),
           (''risk_level'', case risk of None \<Rightarrow> JNull | Some r \<Rightarrow> JStr r)]"
  by (auto simp: fingerprint_payload_def sort_key_def split: option.splits)

lemma fingerprint_inject:
  assumes "float_text_ok frepr"
    and "action_fingerprint sha frepr a ps risk = action_fingerprint sha frepr a' ps' risk'"
    and no_collision:
      "let x = canonical_json frepr (fingerprint_payload a ps risk);
           y = canonical_json frepr (fingerprint_payload a' ps' risk')
       in sha x = sha y \<longrightarrow> x = y"
  shows "a = a' \<and> risk = risk' \<and> sort_json (JObj ps) = sort_json (JObj ps')"
proof -
  from assms(2) no_collision
  have "canonical_json frepr (fingerprint_payload a ps risk)
      = canonical_json frepr (fingerprint_payload a' ps' risk')"
    by (simp add: action_fingerprint_def Let_def)
  then show ?thesis
    unfolding canonical_json_inject [OF assms(1)] sort_fingerprint
    by (auto split: option.splits)
qed

section \<open>Properties\<close>

text \<open>C21. A fingerprint binds the action: if two actions have the same fingerprint and SHA-256
  does not collide on their two canonical texts, they have the same action type, the same risk
  level and the same parameters up to the order of dictionary keys.  The text of floats is
  taken to determine them.\<close>

theorem fingerprint_binds_action:
  assumes "float_text_ok frepr"
    and "action_fingerprint sha frepr a ps risk = action_fingerprint sha frepr a' ps' risk'"
    and no_collision:
      "let x = canonical_json frepr (fingerprint_payload a ps risk);
           y = canonical_json frepr (fingerprint_payload a' ps' risk')
       in sha x = sha y \<longrightarrow> x = y"
  shows "a = a' \<and> risk = risk' \<and> sort_json (JObj ps) = sort_json (JObj ps')"
  using assms by (rule fingerprint_inject)

text \<open>A text function for the floats: the fraction, with a letter that no integer has.\<close>

definition fraction_text :: "pyfloat \<Rightarrow> string" where
  "fraction_text f = (case f of
       Fin q \<Rightarrow> (case quotient_of q of (a, b) \<Rightarrow> CHR ''q'' # show_int a @ CHR ''/'' # show_int b)
     | PosInf \<Rightarrow> ''Infinity'' | NegInf \<Rightarrow> ''-Infinity'' | NaN \<Rightarrow> ''NaN'')"

lemma slash_not_int: "CHR ''/'' \<notin> set (show_int i)"
  using show_int_chars(1) [of i] by (auto simp: digit_chars_def is_digit_def code_def)

lemma split_slash:
  assumes "show_int a @ CHR ''/'' # x = show_int b @ CHR ''/'' # y"
  shows "a = b \<and> x = y"
proof -
  have "takeWhile (\<lambda>c. c \<noteq> CHR ''/'') (show_int i @ CHR ''/'' # z) = show_int i" for i z
    using slash_not_int [of i] by (subst takeWhile_append2) auto
  with assms have "show_int a = show_int b" by metis
  with assms show ?thesis using show_int_inject by simp
qed

lemma fraction_text_ok: "float_text_ok fraction_text"
proof -
  have "inj fraction_text"
  proof (rule injI)
    fix f g assume eq: "fraction_text f = fraction_text g"
    show "f = g"
    proof (cases f; cases g)
      fix p q assume fg: "f = Fin p" "g = Fin q"
      obtain a b c d where q: "quotient_of p = (a, b)" "quotient_of q = (c, d)"
        by (cases "quotient_of p", cases "quotient_of q")
      with eq fg have "show_int a @ CHR ''/'' # show_int b = show_int c @ CHR ''/'' # show_int d"
        by (simp add: fraction_text_def)
      from split_slash [OF this] have "quotient_of p = quotient_of q"
        using q show_int_inject by simp
      then show ?thesis using fg by (simp add: quotient_of_inject)
    qed (use eq in \<open>auto simp: fraction_text_def split: prod.splits\<close>)
  qed
  moreover have "fraction_text f \<noteq> [] \<and> set (fraction_text f) \<inter> {CHR '','', CHR '']'', CHR ''}''} = {}
      \<and> hd (fraction_text f) \<notin> {CHR 0x22, CHR ''['', CHR ''{'', CHR ''n'', CHR ''t'', CHR ''f''}
      \<and> (\<forall>i. fraction_text f \<noteq> show_int i)" for f
  proof -
    have "\<not> set (fraction_text f) \<subseteq> insert (CHR ''-'') digit_chars"
    proof (cases f)
      case (Fin q)
      then show ?thesis by (cases "quotient_of q") (simp add: fraction_text_def digit_chars_def is_digit_def code_def)
    qed (simp_all add: fraction_text_def digit_chars_def is_digit_def code_def)
    then have "\<forall>i. fraction_text f \<noteq> show_int i" using show_int_chars(1) by metis
    moreover have "set (show_int i) \<inter> {CHR '','', CHR '']'', CHR ''}''} = {}" for i
      using show_int_chars(1) [of i] by (auto simp: digit_chars_def is_digit_def code_def)
    ultimately show ?thesis
      by (cases f) (auto simp: fraction_text_def split: prod.splits)
  qed
  ultimately show ?thesis unfolding float_text_ok_def by blast
qed

lemma fingerprint_binds_action_witness:
  "action_fingerprint (\<lambda>x. x) fraction_text ''fs.write'' [(''a'', JFloat (Fin 1)), (''b'', JNull)] (Some ''MUTATING'')
     = action_fingerprint (\<lambda>x. x) fraction_text ''fs.write'' [(''b'', JNull), (''a'', JFloat (Fin 1))] (Some ''MUTATING'')
   \<and> sort_json (JObj [(''a'', JFloat (Fin 1)), (''b'', JNull)]) = sort_json (JObj [(''b'', JNull), (''a'', JFloat (Fin 1))])"
proof -
  have "action_fingerprint (\<lambda>x. x) fraction_text ''fs.write'' [(''a'', JFloat (Fin 1)), (''b'', JNull)] (Some ''MUTATING'')
     = action_fingerprint (\<lambda>x. x) fraction_text ''fs.write'' [(''b'', JNull), (''a'', JFloat (Fin 1))] (Some ''MUTATING'')"
    by (simp add: action_fingerprint_def canonical_json_inject [OF fraction_text_ok] sort_fingerprint
        sort_key_def)
  from this fingerprint_binds_action [OF fraction_text_ok this] show ?thesis by simp
qed

end
