(* ===== verification/Signing.thy ===== *)
theory Signing
  imports Hashing
begin

text \<open>
  Model of \<^verbatim>\<open>era/security/signing.py\<close>: the signing payload, the URL-safe base64 text of a
  signature, the HMAC signer and the Ed25519 signer.  A byte string is a \<open>string\<close> whose
  characters are the bytes.  HMAC-SHA-256 is the parameter \<open>hmac\<close> (key, message); the Ed25519
  operations of the \<open>cryptography\<close> package are the parameters \<open>ed_sign\<close> and \<open>ed_verify\<close> of a
  key pair.

  The interface the audit log relies on is the locale \<open>audit_signing\<close>: what \<open>sign\<close> returns,
  \<open>verify\<close> accepts.
\<close>

section \<open>Base64\<close>

text \<open>The URL-safe alphabet: a 6-bit value as a character, and back; the decoder translates
  \<open>-\<close> and \<open>_\<close> to \<open>+\<close> and \<open>/\<close> and so accepts both pairs.\<close>

definition b64_char :: "nat \<Rightarrow> char" where
  "b64_char n =
     (if n < 26 then char_of (65 + n) else if n < 52 then char_of (71 + n)
      else if n < 62 then char_of (n - 4) else if n = 62 then CHR ''-'' else CHR ''_'')"

definition b64_val :: "char \<Rightarrow> nat option" where
  "b64_val c =
     (let n = code c in
      if 65 \<le> n \<and> n \<le> 90 then Some (n - 65) else if 97 \<le> n \<and> n \<le> 122 then Some (n - 71)
      else if 48 \<le> n \<and> n \<le> 57 then Some (n + 4)
      else if c = CHR ''-'' \<or> c = CHR ''+'' then Some 62
      else if c = CHR ''_'' \<or> c = CHR ''/'' then Some 63 else None)"

text \<open>\<open>base64.urlsafe_b64encode(value).rstrip("=")\<close>.\<close>

fun encode_signature :: "string \<Rightarrow> string" where
  "encode_signature [] = []"
| "encode_signature [a] = [b64_char (code a div 4), b64_char (code a mod 4 * 16)]"
| "encode_signature [a, b] =
     [b64_char (code a div 4), b64_char (code a mod 4 * 16 + code b div 16), b64_char (code b mod 16 * 4)]"
| "encode_signature (a # b # c # r) =
     b64_char (code a div 4) # b64_char (code a mod 4 * 16 + code b div 16)
     # b64_char (code b mod 16 * 4 + code c div 64) # b64_char (code c mod 64) # encode_signature r"

text \<open>The digits of a text whose padding has been removed, four at a time.\<close>

fun decode_digits :: "nat list \<Rightarrow> string option" where
  "decode_digits [] = Some []"
| "decode_digits [w] = None"
| "decode_digits [w, x] = Some [char_of (w * 4 + x div 16)]"
| "decode_digits [w, x, y] = Some [char_of (w * 4 + x div 16), char_of (x mod 16 * 16 + y div 4)]"
| "decode_digits (w # x # y # z # r) =
     map_option (\<lambda>t. char_of (w * 4 + x div 16) # char_of (x mod 16 * 16 + y div 4)
        # char_of (y mod 4 * 64 + z) # t) (decode_digits r)"

text \<open>\<open>base64.b64decode(value + padding, altchars=b"-_", validate=True)\<close>: digits, then the
  padding that completes the last group, and nothing else.  \<open>None\<close> is \<open>ValueError\<close>.\<close>

definition decode_signature :: "string \<Rightarrow> string option" where
  "decode_signature v =
     (if v = [] then None
      else
        let s = v @ replicate ((4 - length v mod 4) mod 4) (CHR ''='');
            body = takeWhile (\<lambda>c. c \<noteq> CHR ''='') s;
            pad = dropWhile (\<lambda>c. c \<noteq> CHR ''='') s;
            digits = map b64_val body
        in if None \<in> set digits \<or> \<not> list_all (\<lambda>c. c = CHR ''='') pad
              \<or> length pad \<noteq> (4 - length body mod 4) mod 4
           then None else decode_digits (map the digits))"

section \<open>Signers\<close>

definition SIGNING_DOMAIN :: string where
  "SIGNING_DOMAIN = ''ERA-AUDIT-SIGNATURE-V1'' @ [CHR 0x00]"

definition signing_payload :: "(pyfloat \<Rightarrow> string) \<Rightarrow> string \<Rightarrow> string \<Rightarrow> string \<Rightarrow> string" where
  "signing_payload frepr h algorithm key_id =
     SIGNING_DOMAIN @ canonical_json frepr
       (JObj [(''algorithm'', JStr algorithm), (''entry_hash'', JStr h), (''key_id'', JStr key_id)])"

text \<open>A signer as the audit repository sees it; \<open>sign\<close> may raise (\<open>None\<close>).\<close>

record audit_signer =
  sg_algorithm :: string
  sg_key_id :: string
  sg_sign :: "string \<Rightarrow> string option"
  sg_verify :: "string \<Rightarrow> string \<Rightarrow> bool"

definition HMAC_ALGORITHM :: string where "HMAC_ALGORITHM = ''hmac-sha256''"
definition ED25519_ALGORITHM :: string where "ED25519_ALGORITHM = ''ed25519''"

definition hmac_sign ::
  "(string \<Rightarrow> string \<Rightarrow> string) \<Rightarrow> (pyfloat \<Rightarrow> string) \<Rightarrow> string \<Rightarrow> string \<Rightarrow> string \<Rightarrow> string option" where
  "hmac_sign hmac frepr key key_id h =
     Some (encode_signature (hmac key (signing_payload frepr h HMAC_ALGORITHM key_id)))"

definition hmac_verify ::
  "(string \<Rightarrow> string \<Rightarrow> string) \<Rightarrow> (pyfloat \<Rightarrow> string) \<Rightarrow> string \<Rightarrow> string \<Rightarrow> string \<Rightarrow> string \<Rightarrow> bool" where
  "hmac_verify hmac frepr key key_id h signature =
     (case decode_signature signature of
        None \<Rightarrow> False
      | Some supplied \<Rightarrow> supplied = hmac key (signing_payload frepr h HMAC_ALGORITHM key_id))"

datatype signer_error = KeyTooShort | KeyIdEmpty | NoKey | KeyMismatch

definition hmac_signer ::
  "(string \<Rightarrow> string \<Rightarrow> string) \<Rightarrow> (pyfloat \<Rightarrow> string) \<Rightarrow> string \<Rightarrow> string
     \<Rightarrow> (signer_error, audit_signer) result" where
  "hmac_signer hmac frepr key key_id =
     (if length key < 32 then Inl KeyTooShort
      else if key_id = [] then Inl KeyIdEmpty
      else Inr \<lparr>sg_algorithm = HMAC_ALGORITHM, sg_key_id = key_id,
                sg_sign = hmac_sign hmac frepr key key_id,
                sg_verify = hmac_verify hmac frepr key key_id\<rparr>)"

definition ed25519_sign ::
  "('k \<Rightarrow> string \<Rightarrow> string) \<Rightarrow> (pyfloat \<Rightarrow> string) \<Rightarrow> 'k option \<Rightarrow> string \<Rightarrow> string \<Rightarrow> string option" where
  "ed25519_sign ed_sign frepr private key_id h = (case private of
       None \<Rightarrow> None
     | Some k \<Rightarrow> Some (encode_signature (ed_sign k (signing_payload frepr h ED25519_ALGORITHM key_id))))"

definition ed25519_verify ::
  "('pk \<Rightarrow> string \<Rightarrow> string \<Rightarrow> bool) \<Rightarrow> (pyfloat \<Rightarrow> string) \<Rightarrow> 'pk \<Rightarrow> string \<Rightarrow> string \<Rightarrow> string \<Rightarrow> bool" where
  "ed25519_verify ed_verify frepr public key_id h signature =
     (case decode_signature signature of
        None \<Rightarrow> False
      | Some v \<Rightarrow> ed_verify public v (signing_payload frepr h ED25519_ALGORITHM key_id))"

text \<open>The constructor: a key is required, and a given public key must be the one of the private
  key (\<open>public_of\<close> derives it).\<close>

definition ed25519_signer ::
  "('k \<Rightarrow> string \<Rightarrow> string) \<Rightarrow> ('pk \<Rightarrow> string \<Rightarrow> string \<Rightarrow> bool) \<Rightarrow> ('k \<Rightarrow> 'pk) \<Rightarrow> (pyfloat \<Rightarrow> string)
     \<Rightarrow> 'k option \<Rightarrow> 'pk option \<Rightarrow> string \<Rightarrow> (signer_error, audit_signer) result" where
  "ed25519_signer ed_sign ed_verify public_of frepr private public key_id =
     (let pk = (case public of Some p \<Rightarrow> Some p | None \<Rightarrow> map_option public_of private)
      in case pk of
           None \<Rightarrow> Inl NoKey
         | Some p \<Rightarrow>
             if key_id = [] then Inl KeyIdEmpty
             else if private \<noteq> None \<and> public \<noteq> None \<and> public_of (the private) \<noteq> the public
             then Inl KeyMismatch
             else Inr \<lparr>sg_algorithm = ED25519_ALGORITHM, sg_key_id = key_id,
                       sg_sign = ed25519_sign ed_sign frepr private key_id,
                       sg_verify = ed25519_verify ed_verify frepr p key_id\<rparr>)"

section \<open>Base64 round trip\<close>

lemma b64_val_char: "n < 64 \<Longrightarrow> b64_val (b64_char n) = Some n"
  by (auto simp: b64_val_def b64_char_def Let_def code_def)

lemma b64_char_not_pad: "n < 64 \<Longrightarrow> b64_char n \<noteq> CHR ''=''"
  using b64_val_char [of n] by (auto simp: b64_val_def Let_def code_def)

fun digits_of :: "string \<Rightarrow> nat list" where
  "digits_of [] = []"
| "digits_of [a] = [code a div 4, code a mod 4 * 16]"
| "digits_of [a, b] = [code a div 4, code a mod 4 * 16 + code b div 16, code b mod 16 * 4]"
| "digits_of (a # b # c # r) =
     code a div 4 # (code a mod 4 * 16 + code b div 16) # (code b mod 16 * 4 + code c div 64)
     # code c mod 64 # digits_of r"

lemma encode_digits: "encode_signature s = map b64_char (digits_of s)"
  by (induction s rule: digits_of.induct) simp_all

text \<open>Splitting bytes into 6-bit digits and joining them again.\<close>

lemma byte_bits:
  fixes x y z :: nat
  assumes "x < 256" "y < 256" "z < 256"
  shows "x div 4 < 64" "x mod 4 * 16 + y div 16 < 64" "y mod 16 * 4 + z div 64 < 64" "z mod 64 < 64"
    and "x div 4 * 4 + (x mod 4 * 16 + y div 16) div 16 = x"
    and "(x mod 4 * 16 + y div 16) mod 16 * 16 + (y mod 16 * 4 + z div 64) div 4 = y"
    and "(y mod 16 * 4 + z div 64) mod 4 * 64 + z mod 64 = z"
proof -
  have d: "x div 4 < 64" "y div 16 < 16" "z div 64 < 4" "x mod 4 < 4" "y mod 16 < 16"
    using assms by simp_all
  then show "x div 4 < 64" "x mod 4 * 16 + y div 16 < 64" "y mod 16 * 4 + z div 64 < 64" "z mod 64 < 64"
    by linarith+
  have "(x mod 4 * 16 + y div 16) div 16 = x mod 4" "(x mod 4 * 16 + y div 16) mod 16 = y div 16"
    "(y mod 16 * 4 + z div 64) div 4 = y mod 16" "(y mod 16 * 4 + z div 64) mod 4 = z div 64"
    using d by (simp_all add: div_mult_self3)
  then show "x div 4 * 4 + (x mod 4 * 16 + y div 16) div 16 = x"
    "(x mod 4 * 16 + y div 16) mod 16 * 16 + (y mod 16 * 4 + z div 64) div 4 = y"
    "(y mod 16 * 4 + z div 64) mod 4 * 64 + z mod 64 = z"
    by simp_all
qed

lemma byte_bits_short:
  fixes x y :: nat
  assumes "x < 256" "y < 256"
  shows "x mod 4 * 16 < 64" "y mod 16 * 4 < 64"
    and "x div 4 * 4 + x mod 4 * 16 div 16 = x"
    and "(x mod 4 * 16 + y div 16) mod 16 * 16 + y mod 16 * 4 div 4 = y"
  using byte_bits [OF assms, of 0] byte_bits [OF assms(1), of 0 0] by auto

lemma char_of_code_eq [simp]: "char_of (code c) = c"
  by (simp add: code_def)

lemma digits_less: "d \<in> set (digits_of s) \<Longrightarrow> d < 64"
  by (induction s rule: digits_of.induct)
    (use byte_bits [OF code_less code_less code_less] byte_bits_short [OF code_less code_less] in auto)

lemma decode_encode_digits: "decode_digits (digits_of s) = Some s"
  by (induction s rule: digits_of.induct)
    (simp_all only: digits_of.simps decode_digits.simps option.map
      byte_bits(5,6,7) [OF code_less code_less code_less] byte_bits_short(3,4) [OF code_less code_less]
      char_of_code_eq)

lemma digits_length: "length (digits_of s) mod 4 \<noteq> 1"
  by (induction s rule: digits_of.induct) simp_all

lemma decode_encode: "s \<noteq> [] \<Longrightarrow> decode_signature (encode_signature s) = Some s"
proof -
  assume "s \<noteq> []"
  then have ne: "encode_signature s \<noteq> []" by (cases s rule: digits_of.cases) auto
  have plain: "CHR ''='' \<notin> set (encode_signature s)"
    using b64_char_not_pad [OF digits_less, symmetric] by (auto simp: encode_digits)
  let ?e = "encode_signature s" and ?pad = "\<lambda>n. replicate n (CHR ''='')"
  have tw: "takeWhile (\<lambda>c. c \<noteq> CHR ''='') (?e @ ?pad n) = ?e"
    and dw: "dropWhile (\<lambda>c. c \<noteq> CHR ''='') (?e @ ?pad n) = ?pad n" for n
    using plain by (subst takeWhile_append2 dropWhile_append2; cases n; force)+
  have digits: "map b64_val ?e = map Some (digits_of s)"
    using digits_less b64_val_char by (auto simp: encode_digits)
  then have "map the (map b64_val ?e) = digits_of s" by (simp only: map_map) simp
  then show ?thesis
    unfolding decode_signature_def Let_def tw dw
    using ne decode_encode_digits [of s] digits by (auto simp: list_all_iff)
qed

section \<open>The signing interface\<close>

locale audit_signing =
  fixes sign :: "string \<Rightarrow> string option" and verify :: "string \<Rightarrow> string \<Rightarrow> bool"
  assumes verify_sign: "sign h = Some s \<Longrightarrow> s \<noteq> [] \<Longrightarrow> verify h s"
begin

text \<open>The check of the audit repository on a row with a non-empty signature of this signer.\<close>

lemma signed_checks:
  assumes "sign h = Some s" and "s \<noteq> []"
  shows "s \<noteq> [] \<and> verify h s"
  using assms verify_sign by blast

end

lemma encode_nonempty: "encode_signature s \<noteq> [] \<longleftrightarrow> s \<noteq> []"
  by (cases s rule: digits_of.cases) auto

interpretation hmac: audit_signing "hmac_sign hmac frepr key key_id" "hmac_verify hmac frepr key key_id"
  for hmac frepr key key_id
  by unfold_locales (auto simp: hmac_sign_def hmac_verify_def encode_nonempty decode_encode)

text \<open>The Ed25519 signer meets the interface when the package's verification accepts what its
  signing produced under the matching key.\<close>

lemma ed25519_verify_sign:
  assumes "\<And>k m. ed_verify (public_of k) (ed_sign k m) m"
    and "ed25519_signer ed_sign ed_verify public_of frepr (Some k) public key_id = Inr sg"
    and "sg_sign sg h = Some s" and "s \<noteq> []"
  shows "sg_verify sg h s"
  using assms
  by (auto simp: ed25519_signer_def ed25519_sign_def ed25519_verify_def Let_def encode_nonempty
      decode_encode split: option.splits if_splits)

section \<open>Properties\<close>

text \<open>A signature survives its text form: for both signers, what \<open>sign\<close> returns for an
  entry hash (when the digest is not empty) is accepted by \<open>verify\<close> for that hash; and the
  HMAC signer accepts a text for a hash exactly when it decodes to the MAC of the payload of
  that hash, algorithm and key id.  For Ed25519 the package is assumed to verify what it
  signed under the matching key.\<close>

theorem signer_roundtrip:
  assumes "\<And>k m. ed_verify (public_of k) (ed_sign k m) m"
    and "hmac_signer hmac frepr key key_id = Inr sg
      \<or> ed25519_signer ed_sign ed_verify public_of frepr (Some k) public key_id = Inr sg"
    and "sg_sign sg h = Some s" and "s \<noteq> []"
  shows "sg_verify sg h s
    \<and> (hmac_signer hmac frepr key key_id = Inr sg \<longrightarrow>
        (\<forall>t. sg_verify sg h t \<longleftrightarrow>
          decode_signature t = Some (hmac key (signing_payload frepr h HMAC_ALGORITHM key_id))))"
proof -
  have hmac_sg: "sg_sign sg = hmac_sign hmac frepr key key_id" "sg_verify sg = hmac_verify hmac frepr key key_id"
    if "hmac_signer hmac frepr key key_id = Inr sg"
    using that by (auto simp: hmac_signer_def split: if_splits)
  have "sg_verify sg h s"
    using assms(2)
  proof
    assume h: "hmac_signer hmac frepr key key_id = Inr sg"
    from hmac.signed_checks [of hmac frepr key key_id h s] assms(3,4) hmac_sg [OF h] show ?thesis by simp
  next
    assume "ed25519_signer ed_sign ed_verify public_of frepr (Some k) public key_id = Inr sg"
    from ed25519_verify_sign [OF assms(1) this assms(3,4)] show ?thesis .
  qed
  then show ?thesis
    using hmac_sg by (auto simp: hmac_verify_def split: option.splits)
qed

definition echo_mac :: "string \<Rightarrow> string \<Rightarrow> string" where
  "echo_mac key msg = take 3 key @ take 3 msg"

lemma signer_roundtrip_witness:
  "\<exists>sg s. hmac_signer echo_mac fraction_text (replicate 32 CHR ''k'') ''default'' = Inr sg
     \<and> sg_sign sg ''abc'' = Some s \<and> sg_verify sg ''abc'' s \<and> s = ''a2trRVJB''"
proof -
  let ?sg = "\<lparr>sg_algorithm = HMAC_ALGORITHM, sg_key_id = ''default'',
    sg_sign = hmac_sign echo_mac fraction_text (replicate 32 CHR ''k'') ''default'',
    sg_verify = hmac_verify echo_mac fraction_text (replicate 32 CHR ''k'') ''default''\<rparr>"
  have sg: "hmac_signer echo_mac fraction_text (replicate 32 CHR ''k'') ''default'' = Inr ?sg"
    by (simp add: hmac_signer_def)
  have s: "sg_sign ?sg ''abc'' = Some ''a2trRVJB''"
    by code_simp
  from signer_roundtrip [where ed_verify = "\<lambda>_ _ _. True" and public_of = id and ed_sign = "\<lambda>_ _. []",
      OF _ disjI1 [OF sg] s]
  have "sg_verify ?sg ''abc'' ''a2trRVJB''" by simp
  with sg s show ?thesis by blast
qed

end
