(* ===== verification/Permission.thy ===== *)
theory Permission
  imports Catalog
begin

text \<open>
  Model of the policy document (\<^verbatim>\<open>era/schemas/policy.py\<close>), the default policy
  (\<^verbatim>\<open>era/services/policy.py\<close>) and the permission engine (\<^verbatim>\<open>era/services/permission_engine.py\<close>).
  Policy documents are parsed by pydantic, so the branches of the engine that guard against a
  rule or a decision of the wrong Python type are unreachable for the typed values here; a
  missing policy is \<open>None\<close>.
\<close>

section \<open>Policies\<close>

record action_rule =
  rule_decision :: decision
  rule_when :: "params option"

definition rule_matches :: "action_rule \<Rightarrow> params \<Rightarrow> bool" where
  "rule_matches rule ps = (case rule_when rule of None \<Rightarrow> True
     | Some ws \<Rightarrow> list_all (\<lambda>(k, v). py_eq (get_param ps k) v) ws)"

record policy =
  pol_version :: int
  pol_tier_defaults :: "(risk_level \<times> decision) list"
  pol_overrides :: "(string \<times> action_rule) list"
  pol_missing_default :: decision

definition DEFAULT_TIER_DEFAULTS :: "(risk_level \<times> decision) list" where
  "DEFAULT_TIER_DEFAULTS =
     [(SAFE, ALLOW), (SENSITIVE, ALLOW), (COMMUNICATION, CONFIRM), (MUTATING, CONFIRM),
      (FINANCIAL, CONFIRM_STRONG), (BOOKING, CONFIRM_STRONG), (DESTRUCTIVE, CONFIRM_STRONG),
      (FORBIDDEN, DENY)]"

definition default_policy :: policy where
  "default_policy =
     \<lparr>pol_version = 1, pol_tier_defaults = DEFAULT_TIER_DEFAULTS, pol_overrides = [],
      pol_missing_default = DENY\<rparr>"

section \<open>The engine\<close>

definition evaluate :: "catalog \<Rightarrow> action \<Rightarrow> policy option \<Rightarrow> decision" where
  "evaluate cat act pol = (case pol of
       None \<Rightarrow> DENY
     | Some p \<Rightarrow>
         if action_type act = [] then DENY
         else case catalog_get cat (action_type act) of
           None \<Rightarrow> DENY
         | Some spec \<Rightarrow>
             if as_risk spec = FORBIDDEN then DENY
             else if pol_tier_defaults p = [] then DENY
             else
               let tier = (case map_of (pol_tier_defaults p) (as_risk spec) of None \<Rightarrow> DENY | Some d \<Rightarrow> d)
               in case map_of (pol_overrides p) (action_type act) of
                    None \<Rightarrow> tier
                  | Some rule \<Rightarrow> if rule_matches rule (a_params act) then rule_decision rule else tier)"

section \<open>Properties\<close>

text \<open>C10. The engine fails closed: a decision other than \<open>DENY\<close> is only given under an
  existing policy to a catalogued action that is not \<open>FORBIDDEN\<close>, and is the decision of the
  matching override of that action type, or else of the tier of the action; no policy
  document turns the denial of an unknown or forbidden action into anything else.\<close>

theorem evaluate_fails_closed:
  assumes "evaluate cat act pol = d" and "d \<noteq> DENY"
  shows "\<exists>p spec. pol = Some p \<and> catalog_get cat (action_type act) = Some spec
     \<and> as_risk spec \<noteq> FORBIDDEN
     \<and> ((\<exists>rule. map_of (pol_overrides p) (action_type act) = Some rule
            \<and> rule_matches rule (a_params act) \<and> rule_decision rule = d)
        \<or> ((\<forall>rule. map_of (pol_overrides p) (action_type act) = Some rule \<longrightarrow>
                \<not> rule_matches rule (a_params act))
            \<and> map_of (pol_tier_defaults p) (as_risk spec) = Some d))"
  using assms by (auto simp: evaluate_def Let_def split: option.splits if_splits)

definition noop_action :: action where
  "noop_action = \<lparr>action_type = ''stub.noop'', a_params = []\<rparr>"

lemma noop_in_catalog:
  "catalog_get ACTION_CATALOG ''stub.noop'' = Some (mk_spec ''stub.noop'' SAFE ''core'' [])"
  unfolding catalog_get_iff by (simp add: SPECS_def, simp add: mk_spec_def)

lemma evaluate_noop: "evaluate ACTION_CATALOG noop_action (Some default_policy) = ALLOW"
  by (simp add: evaluate_def noop_action_def noop_in_catalog default_policy_def
      DEFAULT_TIER_DEFAULTS_def) (simp add: mk_spec_def)

lemma evaluate_fails_closed_witness:
  "\<exists>spec. catalog_get ACTION_CATALOG ''stub.noop'' = Some spec
     \<and> map_of (pol_tier_defaults default_policy) (as_risk spec) = Some ALLOW"
  using evaluate_fails_closed [OF evaluate_noop]
  by (auto simp: noop_action_def default_policy_def)

text \<open>The default policy over the catalog of the program.\<close>

definition ALLOWED_BY_DEFAULT :: "string list" where
  "ALLOWED_BY_DEFAULT =
     [''stub.noop'', ''web.search'', ''web.fetch'', ''browser.navigate'', ''browser.screenshot'',
      ''browser.extract_dom'', ''browser.inspect'', ''browser.tabs'', ''browser.activate_tab'',
      ''email.read'', ''email.search'', ''whatsapp.read'', ''booking.search'', ''fs.list'',
      ''fs.read'', ''photo.view'', ''device.screenshot'', ''device.location'',
      ''device.notification'', ''device.contacts'', ''device.sms_read'', ''github.repo_get'',
      ''github.issue_list'', ''github.issue_get'', ''github.pr_list'', ''github.pr_get'',
      ''github.file_get'']"

lemma default_tier:
  "map_of DEFAULT_TIER_DEFAULTS r = Some ALLOW \<longleftrightarrow> r \<in> {SAFE, SENSITIVE}"
  "map_of DEFAULT_TIER_DEFAULTS r = Some CONFIRM \<longleftrightarrow> r \<in> {COMMUNICATION, MUTATING}"
  "map_of DEFAULT_TIER_DEFAULTS r = Some CONFIRM_STRONG \<longleftrightarrow> r \<in> {FINANCIAL, BOOKING, DESTRUCTIVE}"
  by (cases r; simp add: DEFAULT_TIER_DEFAULTS_def)+

lemma evaluate_default:
  "evaluate cat act (Some default_policy) =
     (if action_type act = [] then DENY
      else case catalog_get cat (action_type act) of None \<Rightarrow> DENY
      | Some spec \<Rightarrow> (case map_of DEFAULT_TIER_DEFAULTS (as_risk spec) of None \<Rightarrow> DENY | Some d \<Rightarrow> d))"
  by (auto simp: evaluate_def default_policy_def DEFAULT_TIER_DEFAULTS_def split: option.splits)

lemma specs_allowed:
  "list_all (\<lambda>s. (as_risk s \<in> {SAFE, SENSITIVE}) = (as_action_type s \<in> set ALLOWED_BY_DEFAULT)) SPECS"
  by (simp add: SPECS_def mk_spec_def ALLOWED_BY_DEFAULT_def)

lemma allowed_known: "set ALLOWED_BY_DEFAULT \<subseteq> set (map as_action_type SPECS)"
  unfolding spec_types by (simp add: ALLOWED_BY_DEFAULT_def ACTION_TYPES_def)

lemma evaluate_default_allow:
  "evaluate ACTION_CATALOG act (Some default_policy) = ALLOW \<longleftrightarrow> action_type act \<in> set ALLOWED_BY_DEFAULT"
proof (cases "catalog_get ACTION_CATALOG (action_type act)")
  case None
  have "action_type act \<notin> set (map as_action_type SPECS)"
  proof
    assume "action_type act \<in> set (map as_action_type SPECS)"
    then obtain s where "s \<in> set SPECS" "as_action_type s = action_type act" by auto
    with None show False using catalog_get_iff [of "action_type act" s] by simp
  qed
  with None allowed_known show ?thesis by (auto simp: evaluate_default)
next
  case (Some spec)
  then have "spec \<in> set SPECS" and a: "as_action_type spec = action_type act"
    by (simp_all add: catalog_get_iff)
  with specs_allowed have "as_risk spec \<in> {SAFE, SENSITIVE} \<longleftrightarrow> action_type act \<in> set ALLOWED_BY_DEFAULT"
    by (auto simp: list_all_iff)
  moreover have "action_type act \<noteq> []"
  proof
    assume "action_type act = []"
    moreover have "[] \<notin> set (map as_action_type SPECS)"
      unfolding spec_types by (simp add: ACTION_TYPES_def)
    ultimately show False using \<open>spec \<in> set SPECS\<close> a by (metis image_eqI set_map)
  qed
  ultimately show ?thesis
    using Some default_tier(1) [of "as_risk spec"]
    by (auto simp: evaluate_default split: option.splits)
qed

text \<open>Under the default policy the actions of the catalog that run without any
  confirmation are exactly the 27 reading ones; every other action, catalogued or not, is
  denied or must be confirmed.\<close>

theorem default_policy_allows_exactly:
  "evaluate ACTION_CATALOG act (Some default_policy) = ALLOW \<longleftrightarrow>
     action_type act \<in>
     {''stub.noop'', ''web.search'', ''web.fetch'', ''browser.navigate'', ''browser.screenshot'',
      ''browser.extract_dom'', ''browser.inspect'', ''browser.tabs'', ''browser.activate_tab'',
      ''email.read'', ''email.search'', ''whatsapp.read'', ''booking.search'', ''fs.list'',
      ''fs.read'', ''photo.view'', ''device.screenshot'', ''device.location'',
      ''device.notification'', ''device.contacts'', ''device.sms_read'', ''github.repo_get'',
      ''github.issue_list'', ''github.issue_get'', ''github.pr_list'', ''github.pr_get'',
      ''github.file_get''}"
  unfolding evaluate_default_allow ALLOWED_BY_DEFAULT_def by simp

end
