(* ===== verification/Audit_Chain.thy ===== *)
theory Audit_Chain
  imports Signing Permission
begin

text \<open>
  The append-only audit log: rows and their hash chain (\<^verbatim>\<open>era/repositories/audit.py\<close>,
  \<^verbatim>\<open>era/models/audit.py\<close>), the SQLite repository (\<^verbatim>\<open>SQLiteAuditRepo\<close> of
  \<^verbatim>\<open>era/repositories/sqlite.py\<close>) and the service that is its only writer
  (\<^verbatim>\<open>era/services/audit_service.py\<close>).  The table is the list of its rows in insertion order.
  SHA-256 is the parameter \<open>sha\<close>, the text of floats \<open>frepr\<close>; the time of an append is an
  argument.  \<open>None\<close> as the result of an append is the exception of a signer that cannot sign.
\<close>

section \<open>Rows\<close>

record audit_payload =
  au_seq :: int
  au_created_at :: string
  au_actor_id :: string
  au_action_type :: string
  au_action_params :: params
  au_risk_level :: string
  au_decision :: string
  au_outcome :: string
  au_confirmation_id :: "string option"
  au_result :: "string option"
  au_error_code :: "string option"
  au_provider_id :: "string option"
  au_capability_domain :: "string option"
  au_credential_ref :: "string option"
  au_policy_version :: int
  au_app_version :: string
  au_meta :: params
  au_prev_hash :: string

record audit_row = audit_payload +
  au_entry_hash :: string
  au_signing_algorithm :: "string option"
  au_signing_key_id :: "string option"
  au_signature :: "string option"

record new_audit_entry =
  ne_actor_id :: string
  ne_action_type :: string
  ne_action_params :: params
  ne_risk_level :: string
  ne_decision :: string
  ne_outcome :: string
  ne_policy_version :: int
  ne_app_version :: string
  ne_confirmation_id :: "string option"
  ne_result :: "string option"
  ne_error_code :: "string option"
  ne_provider_id :: "string option"
  ne_capability_domain :: "string option"
  ne_credential_ref :: "string option"
  ne_meta :: params

record verify_result =
  vr_valid :: bool
  vr_entry_count :: nat
  vr_first_mismatch_seq :: "int option"
  vr_message :: string

definition opt_str :: "string option \<Rightarrow> json" where
  "opt_str x = (case x of None \<Rightarrow> JNull | Some s \<Rightarrow> JStr s)"

text \<open>The hashed fields, in the order of \<open>AuditLogEntry.HASH_FIELDS\<close>.\<close>

definition payload_json :: "'a audit_payload_scheme \<Rightarrow> json" where
  "payload_json r = JObj
     [(''seq'', JInt (au_seq r)),
      (''created_at'', JStr (au_created_at r)),
      (''actor_id'', JStr (au_actor_id r)),
      (''action_type'', JStr (au_action_type r)),
      (''action_params'', JObj (au_action_params r)),
      (''risk_level'', JStr (au_risk_level r)),
      (''decision'', JStr (au_decision r)),
      (''outcome'', JStr (au_outcome r)),
      (''confirmation_id'', opt_str (au_confirmation_id r)),
      (''result'', opt_str (au_result r)),
      (''error_code'', opt_str (au_error_code r)),
      (''provider_id'', opt_str (au_provider_id r)),
      (''capability_domain'', opt_str (au_capability_domain r)),
      (''credential_ref'', opt_str (au_credential_ref r)),
      (''policy_version'', JInt (au_policy_version r)),
      (''app_version'', JStr (au_app_version r)),
      (''meta'', JObj (au_meta r)),
      (''prev_hash'', JStr (au_prev_hash r))]"

definition row_hash :: "(string \<Rightarrow> string) \<Rightarrow> (pyfloat \<Rightarrow> string) \<Rightarrow> 'a audit_payload_scheme \<Rightarrow> string" where
  "row_hash sha frepr r = sha (canonical_json frepr (payload_json r))"

definition entry_payload :: "string \<Rightarrow> new_audit_entry \<Rightarrow> int \<Rightarrow> string \<Rightarrow> audit_payload" where
  "entry_payload now e seq prev =
     \<lparr>au_seq = seq, au_created_at = now, au_actor_id = ne_actor_id e,
      au_action_type = ne_action_type e, au_action_params = ne_action_params e,
      au_risk_level = ne_risk_level e, au_decision = ne_decision e, au_outcome = ne_outcome e,
      au_confirmation_id = ne_confirmation_id e, au_result = ne_result e,
      au_error_code = ne_error_code e, au_provider_id = ne_provider_id e,
      au_capability_domain = ne_capability_domain e, au_credential_ref = ne_credential_ref e,
      au_policy_version = ne_policy_version e, au_app_version = ne_app_version e,
      au_meta = ne_meta e, au_prev_hash = prev\<rparr>"

definition build_audit_row ::
  "(string \<Rightarrow> string) \<Rightarrow> (pyfloat \<Rightarrow> string) \<Rightarrow> string \<Rightarrow> new_audit_entry \<Rightarrow> int \<Rightarrow> string
     \<Rightarrow> audit_signer option \<Rightarrow> audit_row option" where
  "build_audit_row sha frepr now e seq prev signer =
     (let payload = entry_payload now e seq prev;
          h = row_hash sha frepr payload
      in case signer of
           None \<Rightarrow> Some (audit_payload.extend payload
             \<lparr>au_entry_hash = h, au_signing_algorithm = None, au_signing_key_id = None, au_signature = None\<rparr>)
         | Some sg \<Rightarrow> (case sg_sign sg h of
             None \<Rightarrow> None
           | Some s \<Rightarrow> Some (audit_payload.extend payload
               \<lparr>au_entry_hash = h, au_signing_algorithm = Some (sg_algorithm sg),
                au_signing_key_id = Some (sg_key_id sg), au_signature = Some s\<rparr>)))"

section \<open>Verification\<close>

definition truthy_opt :: "string option \<Rightarrow> bool" where
  "truthy_opt x = (x \<noteq> None \<and> x \<noteq> Some [])"

definition verify_signature :: "audit_row \<Rightarrow> audit_signer option \<Rightarrow> string option" where
  "verify_signature r signer =
     (let signed = (truthy_opt (au_signing_algorithm r) \<or> truthy_opt (au_signing_key_id r)
                    \<or> truthy_opt (au_signature r))
      in case signer of
           None \<Rightarrow> if signed then Some ''signing key unavailable for signed entry'' else None
         | Some sg \<Rightarrow>
             if au_signing_algorithm r \<noteq> Some (sg_algorithm sg) then Some ''audit signing algorithm mismatch''
             else if au_signing_key_id r \<noteq> Some (sg_key_id sg) then Some ''audit signing key id mismatch''
             else (case au_signature r of
                 None \<Rightarrow> Some ''audit signature mismatch''
               | Some s \<Rightarrow> if s = [] \<or> \<not> sg_verify sg (au_entry_hash r) s
                         then Some ''audit signature mismatch'' else None))"

text \<open>The loop of \<open>verify_audit_rows\<close>: the first row that fails, and why.\<close>

fun verify_from ::
  "(string \<Rightarrow> string) \<Rightarrow> (pyfloat \<Rightarrow> string) \<Rightarrow> audit_signer option \<Rightarrow> string \<Rightarrow> audit_row list
     \<Rightarrow> (audit_row \<times> string) option" where
  "verify_from sha frepr signer prev [] = None"
| "verify_from sha frepr signer prev (r # rs) =
     (if au_prev_hash r \<noteq> prev then Some (r, ''broken chain link'')
      else if au_entry_hash r \<noteq> row_hash sha frepr r then Some (r, ''entry hash mismatch'')
      else case verify_signature r signer of
        Some err \<Rightarrow> Some (r, err)
      | None \<Rightarrow> verify_from sha frepr signer (au_entry_hash r) rs)"

definition mismatch :: "audit_row list \<Rightarrow> audit_row \<Rightarrow> string \<Rightarrow> verify_result" where
  "mismatch rows r reason =
     \<lparr>vr_valid = False, vr_entry_count = length rows, vr_first_mismatch_seq = Some (au_seq r),
      vr_message = reason @ '' at seq '' @ show_int (au_seq r)\<rparr>"

definition verify_audit_rows ::
  "(string \<Rightarrow> string) \<Rightarrow> (pyfloat \<Rightarrow> string) \<Rightarrow> string \<Rightarrow> audit_signer option \<Rightarrow> audit_row list \<Rightarrow> verify_result" where
  "verify_audit_rows sha frepr genesis signer rows =
     (if rows = [] then
        \<lparr>vr_valid = True, vr_entry_count = 0, vr_first_mismatch_seq = None, vr_message = ''empty log''\<rparr>
      else case verify_from sha frepr signer genesis rows of
        Some (r, reason) \<Rightarrow> mismatch rows r reason
      | None \<Rightarrow>
          \<lparr>vr_valid = True, vr_entry_count = length rows, vr_first_mismatch_seq = None,
           vr_message = ''chain valid ('' @ (case signer of Some sg \<Rightarrow> ''signed by '' @ sg_key_id sg
                                            | None \<Rightarrow> ''legacy unsigned'') @ '')''\<rparr>)"

section \<open>The repository\<close>

record audit_repo =
  repo_genesis :: string
  repo_signer :: "audit_signer option"

fun get_last :: "audit_row list \<Rightarrow> audit_row option" where
  "get_last [] = None"
| "get_last (r # rs) = (case get_last rs of None \<Rightarrow> Some r
     | Some m \<Rightarrow> if au_seq m < au_seq r then Some r else Some m)"

definition audit_append ::
  "(string \<Rightarrow> string) \<Rightarrow> (pyfloat \<Rightarrow> string) \<Rightarrow> audit_repo \<Rightarrow> string \<Rightarrow> new_audit_entry \<Rightarrow> audit_row list
     \<Rightarrow> audit_row list option" where
  "audit_append sha frepr repo now e rows =
     (let newest = get_last rows;
          seq = (case newest of Some r \<Rightarrow> au_seq r + 1 | None \<Rightarrow> 1);
          prev = (case newest of Some r \<Rightarrow> au_entry_hash r | None \<Rightarrow> repo_genesis repo)
      in case build_audit_row sha frepr now e seq prev (repo_signer repo) of
           None \<Rightarrow> None
         | Some row \<Rightarrow> Some (rows @ [row]))"

definition audit_list ::
  "nat \<Rightarrow> nat \<Rightarrow> string option \<Rightarrow> string option \<Rightarrow> string option \<Rightarrow> audit_row list \<Rightarrow> audit_row list" where
  "audit_list limit offset aty outcome cid rows =
     take limit (drop offset (filter (\<lambda>r.
        (aty = None \<or> aty = Some (au_action_type r)) \<and> (outcome = None \<or> outcome = Some (au_outcome r))
        \<and> (cid = None \<or> au_confirmation_id r = cid)) (sort_key au_seq rows)))"

definition audit_verify ::
  "(string \<Rightarrow> string) \<Rightarrow> (pyfloat \<Rightarrow> string) \<Rightarrow> audit_repo \<Rightarrow> audit_row list \<Rightarrow> verify_result" where
  "audit_verify sha frepr repo rows =
     verify_audit_rows sha frepr (repo_genesis repo) (repo_signer repo) (sort_key au_seq rows)"

section \<open>The service\<close>

definition AUDIT_PARAM_STR_LIMIT :: nat where "AUDIT_PARAM_STR_LIMIT = 2000"

definition truncation_marker :: "nat \<Rightarrow> string" where
  "truncation_marker n = ''<truncated:'' @ show_nat n @ '' chars>''"

fun cap_strings :: "nat \<Rightarrow> nat \<Rightarrow> json \<Rightarrow> json" where
  "cap_strings limit d v =
     (if d > 6 then JStr ''[truncated]''
      else case v of
        JStr s \<Rightarrow> if length s \<le> limit then JStr s
                  else JStr (truncation_marker (length s))
      | JObj kvs \<Rightarrow> JObj (map (\<lambda>(k, x). (k, cap_strings limit (d + 1) x)) kvs)
      | JList xs \<Rightarrow> JList (map (cap_strings limit (d + 1)) xs)
      | _ \<Rightarrow> v)"

declare cap_strings.simps [simp del]

definition cap_params :: "params \<Rightarrow> params" where
  "cap_params ps = map (\<lambda>(k, x). (k, cap_strings AUDIT_PARAM_STR_LIMIT 1 x)) ps"

lemma cap_params_top: "cap_strings AUDIT_PARAM_STR_LIMIT 0 (JObj ps) = JObj (cap_params ps)"
  by (simp add: cap_strings.simps [of _ 0] cap_params_def)

definition risk_text :: "(risk_level + string) option \<Rightarrow> string" where
  "risk_text r = (case r of None \<Rightarrow> ''UNKNOWN'' | Some (Inl l) \<Rightarrow> risk_value l | Some (Inr s) \<Rightarrow> s)"

record audit_note =
  an_confirmation_id :: "string option"
  an_result :: "string option"
  an_error_code :: "string option"
  an_provider_id :: "string option"
  an_capability_domain :: "string option"
  an_credential_ref :: "string option"
  an_meta :: params

definition blank_note :: audit_note where
  "blank_note = \<lparr>an_confirmation_id = None, an_result = None, an_error_code = None,
     an_provider_id = None, an_capability_domain = None, an_credential_ref = None, an_meta = []\<rparr>"

definition audit_entry ::
  "catalog \<Rightarrow> string \<Rightarrow> action \<Rightarrow> exec_ctx \<Rightarrow> (risk_level + string) option \<Rightarrow> decision \<Rightarrow> outcome \<Rightarrow> int
     \<Rightarrow> audit_note \<Rightarrow> new_audit_entry" where
  "audit_entry cat app_version act ctx risk dec out version note =
     (let secret = sensitive_fields_for_action (action_type act)
            (case catalog_get cat (action_type act) of Some spec \<Rightarrow> as_secret_fields spec | None \<Rightarrow> {})
      in \<lparr>ne_actor_id = actor_id ctx, ne_action_type = action_type act,
          ne_action_params = cap_params (redact_params secret (a_params act)),
          ne_risk_level = risk_text risk, ne_decision = decision_value dec,
          ne_outcome = outcome_value out, ne_policy_version = version,
          ne_app_version = app_version, ne_confirmation_id = an_confirmation_id note,
          ne_result = an_result note, ne_error_code = an_error_code note,
          ne_provider_id = an_provider_id note, ne_capability_domain = an_capability_domain note,
          ne_credential_ref = an_credential_ref note, ne_meta = an_meta note\<rparr>)"

definition audit_record ::
  "(string \<Rightarrow> string) \<Rightarrow> (pyfloat \<Rightarrow> string) \<Rightarrow> audit_repo \<Rightarrow> catalog \<Rightarrow> string \<Rightarrow> string \<Rightarrow> action \<Rightarrow> exec_ctx
     \<Rightarrow> (risk_level + string) option \<Rightarrow> decision \<Rightarrow> outcome \<Rightarrow> int \<Rightarrow> audit_note \<Rightarrow> audit_row list
     \<Rightarrow> audit_row list option" where
  "audit_record sha frepr repo cat app_version now act ctx risk dec out version note rows =
     audit_append sha frepr repo now (audit_entry cat app_version act ctx risk dec out version note) rows"

section \<open>The chain invariant\<close>

definition head_hash :: "string \<Rightarrow> audit_row list \<Rightarrow> string" where
  "head_hash genesis rows = (if rows = [] then genesis else au_entry_hash (last rows))"

definition log_ok :: "(string \<Rightarrow> string) \<Rightarrow> (pyfloat \<Rightarrow> string) \<Rightarrow> audit_repo \<Rightarrow> audit_row list \<Rightarrow> bool" where
  "log_ok sha frepr repo rows =
     (map au_seq rows = map int [1..<Suc (length rows)]
      \<and> verify_from sha frepr (repo_signer repo) (repo_genesis repo) rows = None)"

lemma verify_from_append:
  "verify_from sha frepr signer prev (xs @ ys) = None \<longleftrightarrow>
     verify_from sha frepr signer prev xs = None
     \<and> verify_from sha frepr signer (head_hash prev xs) ys = None"
  by (induction xs arbitrary: prev) (auto simp: head_hash_def split: option.splits)

lemma get_last_snoc: "\<forall>r \<in> set rs. au_seq r < au_seq x \<Longrightarrow> get_last (rs @ [x]) = Some x"
  by (induction rs) auto

lemma log_ok_seq: "log_ok sha frepr repo (rs @ [x]) \<Longrightarrow> r \<in> set rs \<Longrightarrow> au_seq r < au_seq x"
proof -
  assume ok: "log_ok sha frepr repo (rs @ [x])" and r: "r \<in> set rs"
  from ok have eq: "map au_seq rs = map int [1..<Suc (length rs)]" "au_seq x = int (Suc (length rs))"
    by (simp_all add: log_ok_def)
  from r have "au_seq r \<in> set (map au_seq rs)" by simp
  then have "au_seq r \<in> set (map int [1..<Suc (length rs)])" by (simp only: eq)
  then show ?thesis using eq(2) by auto
qed

lemma log_ok_last:
  assumes "log_ok sha frepr repo rows"
  shows "get_last rows = (if rows = [] then None else Some (last rows))"
    and "rows \<noteq> [] \<Longrightarrow> au_seq (last rows) = int (length rows)"
proof -
  show "get_last rows = (if rows = [] then None else Some (last rows))"
    using assms log_ok_seq get_last_snoc by (cases rows rule: rev_cases) auto
  show "au_seq (last rows) = int (length rows)" if "rows \<noteq> []"
    using assms that by (cases rows rule: rev_cases) (auto simp: log_ok_def)
qed

lemma log_ok_sorted: "log_ok sha frepr repo rows \<Longrightarrow> sort_key au_seq rows = rows"
proof -
  assume "log_ok sha frepr repo rows"
  then have "map au_seq rows = map int [1..<Suc (length rows)]" by (simp add: log_ok_def)
  moreover have "sorted (map int [1..<Suc (length rows)])"
    by (simp add: sorted_wrt_map del: upt_Suc)
  ultimately show ?thesis by (simp add: sort_key_id_if_sorted)
qed

lemma log_ok_verifies:
  assumes "log_ok sha frepr repo rows"
  shows "vr_valid (audit_verify sha frepr repo rows)"
    and "vr_entry_count (audit_verify sha frepr repo rows) = length rows"
  using assms log_ok_sorted [OF assms]
  by (auto simp: audit_verify_def verify_audit_rows_def log_ok_def split: option.splits)

lemma build_row_fields:
  assumes "build_audit_row sha frepr now e seq prev signer = Some row"
  shows "au_seq row = seq" "au_prev_hash row = prev" "au_entry_hash row = row_hash sha frepr row"
    "payload_json row = payload_json (entry_payload now e seq prev)"
  using assms
  by (auto simp: build_audit_row_def Let_def entry_payload_def audit_payload.defs row_hash_def
      payload_json_def split: option.splits)

lemma append_ok_step:
  assumes ok: "log_ok sha frepr repo rows"
    and app: "audit_append sha frepr repo now e rows = Some rows'"
    and sig: "\<And>row. build_audit_row sha frepr now e (int (length rows) + 1)
        (head_hash (repo_genesis repo) rows) (repo_signer repo) = Some row
        \<Longrightarrow> verify_signature row (repo_signer repo) = None"
  shows "log_ok sha frepr repo rows'
    \<and> (\<exists>row. rows' = rows @ [row]
        \<and> payload_json row = payload_json (entry_payload now e (int (length rows) + 1)
             (head_hash (repo_genesis repo) rows)))"
proof -
  have "(case get_last rows of Some r \<Rightarrow> au_seq r + 1 | None \<Rightarrow> 1) = int (length rows) + 1"
    "(case get_last rows of Some r \<Rightarrow> au_entry_hash r | None \<Rightarrow> repo_genesis repo)
      = head_hash (repo_genesis repo) rows"
    using log_ok_last [OF ok] by (auto simp: head_hash_def)
  with app obtain row where row: "build_audit_row sha frepr now e (int (length rows) + 1)
      (head_hash (repo_genesis repo) rows) (repo_signer repo) = Some row" and rows': "rows' = rows @ [row]"
    by (auto simp: audit_append_def Let_def split: option.splits)
  note f = build_row_fields [OF row]
  have "verify_from sha frepr (repo_signer repo) (head_hash (repo_genesis repo) rows) [row] = None"
    using f sig [OF row] by simp
  then show ?thesis
    using ok f rows' by (simp add: log_ok_def verify_from_append)
qed

text \<open>With a signer that meets the signing interface, the row just built passes the signature
  check.\<close>

context audit_signing
begin

lemma built_row_signed:
  assumes sg: "sg_sign sg = sign" "sg_verify sg = verify"
    and nonempty: "\<And>h s. sign h = Some s \<Longrightarrow> s \<noteq> []"
    and row: "build_audit_row sha frepr now e seq prev (Some sg) = Some row"
  shows "verify_signature row (Some sg) = None"
  using row nonempty signed_checks
  by (auto simp: build_audit_row_def Let_def verify_signature_def audit_payload.defs sg split: option.splits)

end

lemma built_row_unsigned:
  "build_audit_row sha frepr now e seq prev None = Some row \<Longrightarrow> verify_signature row None = None"
  by (auto simp: build_audit_row_def Let_def verify_signature_def truthy_opt_def audit_payload.defs)

text \<open>The configurations of the repository: no signer, or an HMAC signer.\<close>

definition repo_configured :: "(pyfloat \<Rightarrow> string) \<Rightarrow> audit_repo \<Rightarrow> bool" where
  "repo_configured frepr repo =
     (repo_signer repo = None
      \<or> (\<exists>hmac key key_id sg. hmac_signer hmac frepr key key_id = Inr sg
           \<and> (\<forall>m. hmac key m \<noteq> []) \<and> repo_signer repo = Some sg))"

lemma configured_row_verifies:
  assumes "repo_configured frepr repo"
    and "build_audit_row sha frepr now e seq prev (repo_signer repo) = Some row"
  shows "verify_signature row (repo_signer repo) = None"
  using assms(1) unfolding repo_configured_def
proof (elim disjE exE conjE)
  assume "repo_signer repo = None"
  then show ?thesis using assms(2) built_row_unsigned by metis
next
  fix hmac key key_id sg
  assume sg: "hmac_signer hmac frepr key key_id = Inr sg" and ne: "\<forall>m. hmac key m \<noteq> []"
    and repo: "repo_signer repo = Some sg"
  from sg have fields: "sg_sign sg = hmac_sign hmac frepr key key_id" "sg_verify sg = hmac_verify hmac frepr key key_id"
    by (auto simp: hmac_signer_def split: if_splits)
  show ?thesis
    unfolding repo
    by (rule hmac.built_row_signed [OF fields, where sha = sha and frepr = frepr])
      (use ne assms(2) repo in \<open>auto simp: hmac_sign_def encode_nonempty\<close>)
qed

lemma append_log_ok:
  assumes "repo_configured frepr repo" and "log_ok sha frepr repo rows"
    and "audit_append sha frepr repo now e rows = Some rows'"
  shows "log_ok sha frepr repo rows'" "\<exists>row. rows' = rows @ [row]
        \<and> payload_json row = payload_json (entry_payload now e (int (length rows) + 1)
             (head_hash (repo_genesis repo) rows))"
  using append_ok_step [OF assms(2,3)] configured_row_verifies [OF assms(1)] by blast+

lemma append_defined:
  assumes "repo_configured frepr repo"
  shows "\<exists>rows'. audit_append sha frepr repo now e rows = Some rows'"
  using assms
  by (auto simp: repo_configured_def audit_append_def Let_def build_audit_row_def hmac_signer_def
      hmac_sign_def split: option.splits if_splits)

section \<open>Histories\<close>

fun append_all ::
  "(string \<Rightarrow> string) \<Rightarrow> (pyfloat \<Rightarrow> string) \<Rightarrow> audit_repo \<Rightarrow> (string \<times> new_audit_entry) list
     \<Rightarrow> audit_row list \<Rightarrow> audit_row list option" where
  "append_all sha frepr repo [] rows = Some rows"
| "append_all sha frepr repo ((now, e) # es) rows =
     (case audit_append sha frepr repo now e rows of
        None \<Rightarrow> None | Some rows' \<Rightarrow> append_all sha frepr repo es rows')"

lemma append_all_ok:
  assumes "repo_configured frepr repo" and "log_ok sha frepr repo rows"
  shows "\<exists>rows'. append_all sha frepr repo es rows = Some rows' \<and> log_ok sha frepr repo rows'
     \<and> take (length rows) rows' = rows \<and> length rows' = length rows + length es"
  using assms(2)
proof (induction es arbitrary: rows)
  case (Cons x es)
  obtain now e where x: "x = (now, e)" by (cases x)
  obtain rows1 where app: "audit_append sha frepr repo now e rows = Some rows1"
    using append_defined [OF assms(1)] by blast
  note step = append_log_ok [OF assms(1) Cons.prems app]
  from Cons.IH [OF step(1)] obtain rows' where
    "append_all sha frepr repo es rows1 = Some rows'" "log_ok sha frepr repo rows'"
    "take (length rows1) rows' = rows1" "length rows' = length rows1 + length es" by blast
  moreover from step(2) obtain row where "rows1 = rows @ [row]" by blast
  moreover from this calculation have "take (length rows) rows' = rows"
    by (metis append_eq_conv_conj append_take_drop_id append_assoc)
  ultimately show ?case by (simp add: x app)
qed simp

lemma log_ok_empty: "log_ok sha frepr repo []"
  by (simp add: log_ok_def)

text \<open>Two chains that end in the same hash, read backwards.\<close>

definition payload_texts :: "(pyfloat \<Rightarrow> string) \<Rightarrow> audit_row list \<Rightarrow> string set" where
  "payload_texts frepr rows = (\<lambda>r. canonical_json frepr (payload_json r)) ` set rows"

lemma payload_sort_inject:
  assumes "sort_json (payload_json r) = sort_json (payload_json r')"
  shows "au_seq r = au_seq r'" "au_prev_hash r = au_prev_hash r'"
    "au_actor_id r = au_actor_id r'" "au_action_type r = au_action_type r'"
    "au_decision r = au_decision r'" "au_outcome r = au_outcome r'"
    "sort_json (JObj (au_action_params r)) = sort_json (JObj (au_action_params r'))"
  using assms by (simp_all add: payload_json_def sort_key_def)

lemma chain_same_head:
  assumes float: "float_text_ok frepr"
    and inj: "inj_on sha (payload_texts frepr xs \<union> payload_texts frepr ys)"
    and fresh: "genesis \<notin> sha ` (payload_texts frepr xs \<union> payload_texts frepr ys)"
    and xs: "verify_from sha frepr signer genesis xs = None"
    and ys: "verify_from sha frepr signer' genesis ys = None"
    and head: "head_hash genesis xs = head_hash genesis ys"
  shows "map (\<lambda>r. sort_json (payload_json r)) xs = map (\<lambda>r. sort_json (payload_json r)) ys"
  using inj fresh xs ys head
proof (induction xs arbitrary: ys rule: rev_induct)
  case Nil
  show ?case
  proof (cases ys rule: rev_cases)
    case (snoc ys' y)
    with Nil have "au_entry_hash y = genesis" "au_entry_hash y = row_hash sha frepr y"
      by (auto simp: head_hash_def verify_from_append split: if_splits)
    with Nil snoc have False by (auto simp: row_hash_def payload_texts_def)
    then show ?thesis ..
  qed simp
next
  case (snoc x xs)
  from snoc.prems(3) have x: "verify_from sha frepr signer genesis xs = None"
    "au_prev_hash x = head_hash genesis xs" "au_entry_hash x = row_hash sha frepr x"
    by (auto simp: verify_from_append split: if_splits)
  show ?case
  proof (cases ys rule: rev_cases)
    case Nil
    with snoc.prems(5) x(3) have "genesis = row_hash sha frepr x" by (simp add: head_hash_def)
    with snoc.prems(2) show ?thesis by (auto simp: row_hash_def payload_texts_def)
  next
    case ys: (snoc ys' y)
    with snoc.prems(4) have y: "verify_from sha frepr signer' genesis ys' = None"
      "au_prev_hash y = head_hash genesis ys'" "au_entry_hash y = row_hash sha frepr y"
      by (auto simp: verify_from_append split: if_splits)
    from snoc.prems(5) ys x(3) y(3)
    have "sha (canonical_json frepr (payload_json x)) = sha (canonical_json frepr (payload_json y))"
      by (simp add: head_hash_def row_hash_def)
    moreover have "canonical_json frepr (payload_json x) \<in> payload_texts frepr (xs @ [x]) \<union> payload_texts frepr ys"
      "canonical_json frepr (payload_json y) \<in> payload_texts frepr (xs @ [x]) \<union> payload_texts frepr ys"
      using ys by (auto simp: payload_texts_def)
    ultimately have "canonical_json frepr (payload_json x) = canonical_json frepr (payload_json y)"
      using snoc.prems(1) by (auto dest: inj_onD)
    then have eq: "sort_json (payload_json x) = sort_json (payload_json y)"
      using canonical_json_inject [OF float] by simp
    have sub: "payload_texts frepr xs \<union> payload_texts frepr ys'
        \<subseteq> payload_texts frepr (xs @ [x]) \<union> payload_texts frepr ys"
      using ys by (auto simp: payload_texts_def)
    have "map (\<lambda>r. sort_json (payload_json r)) xs = map (\<lambda>r. sort_json (payload_json r)) ys'"
    proof (rule snoc.IH [OF _ _ x(1) y(1)])
      show "inj_on sha (payload_texts frepr xs \<union> payload_texts frepr ys')"
        using inj_on_subset [OF snoc.prems(1) sub] .
      show "genesis \<notin> sha ` (payload_texts frepr xs \<union> payload_texts frepr ys')"
        using snoc.prems(2) sub by blast
      show "head_hash genesis xs = head_hash genesis ys'"
        using payload_sort_inject(2) [OF eq] x(2) y(2) by simp
    qed
    with eq ys show ?thesis by simp
  qed
qed

section \<open>What is stored\<close>

definition stored_string :: "nat \<Rightarrow> string \<Rightarrow> bool" where
  "stored_string limit t =
     (length t \<le> limit \<or> t = ''[truncated]'' \<or> (\<exists>n > limit. t = truncation_marker n))"

lemma stored_stringI:
  "length t \<le> limit \<Longrightarrow> stored_string limit t" "stored_string limit ''[truncated]''"
  "\<not> n \<le> limit \<Longrightarrow> stored_string limit (truncation_marker n)"
  unfolding stored_string_def not_le by blast+

lemma cap_strings_values:
  "JStr t \<in> set (subvalues (cap_strings limit d v)) \<Longrightarrow> stored_string limit t"
proof (induction limit d v rule: cap_strings.induct)
  case (1 limit d v)
  show ?case
  proof (cases "d > 6")
    case True
    with 1 show ?thesis by (simp add: cap_strings.simps [of limit d] stored_stringI(2))
  next
    case False
    with 1 show ?thesis
      by (cases v) (auto simp: cap_strings.simps [of limit d] stored_stringI split: if_splits)
  qed
qed

lemma cap_strings_height: "d + height (cap_strings limit d v) \<le> 7 \<or> d > 6 \<and> height (cap_strings limit d v) = 0"
proof (induction limit d v rule: cap_strings.induct)
  case (1 limit d v)
  show ?case
  proof (cases "d > 6")
    case True
    then show ?thesis by (simp add: cap_strings.simps [of limit d])
  next
    case False
    note IH = 1(1,2) [OF False]
    show ?thesis
    proof (cases v)
      case (JObj kvs)
      have "Suc d + height (cap_strings limit (d + 1) x) \<le> 7" if "(k, x) \<in> set kvs" for k x
        using IH(2) [OF JObj that refl] False by auto
      then show ?thesis using False JObj
        by (auto simp: cap_strings.simps [of limit d] add_fold_max_le)
    next
      case (JList xs)
      have "Suc d + height (cap_strings limit (d + 1) x) \<le> 7" if "x \<in> set xs" for x
        using IH(1) [OF JList that] False by auto
      then show ?thesis using False JList
        by (auto simp: cap_strings.simps [of limit d] add_fold_max_le)
    qed (use False in \<open>auto simp: cap_strings.simps [of limit d]\<close>)
  qed
qed

lemma cap_params_bounds:
  "JStr t \<in> set (subvalues (JObj (cap_params ps))) \<Longrightarrow> stored_string AUDIT_PARAM_STR_LIMIT t"
  "height (JObj (cap_params ps)) \<le> 7"
  using cap_strings_values [of t AUDIT_PARAM_STR_LIMIT 0 "JObj ps"]
    cap_strings_height [of 0 AUDIT_PARAM_STR_LIMIT "JObj ps"]
  unfolding cap_params_top by simp_all

lemma audit_entry_public:
  assumes "same_public (sensitive_fields_for_action a
        (case catalog_get cat a of Some spec \<Rightarrow> as_secret_fields spec | None \<Rightarrow> {})) (JObj ps) (JObj ps')"
  shows "audit_entry cat app \<lparr>action_type = a, a_params = ps\<rparr> ctx risk dec out version note
    = audit_entry cat app \<lparr>action_type = a, a_params = ps'\<rparr> ctx risk dec out version note"
  using redact_eq_iff [THEN iffD2, OF assms]
  by (simp add: audit_entry_def Let_def redact_JObj del: redact.simps)

section \<open>Properties\<close>


definition demo_repo :: audit_repo where
  "demo_repo = \<lparr>repo_genesis = ''0'', repo_signer = Some
     \<lparr>sg_algorithm = HMAC_ALGORITHM, sg_key_id = ''default'',
      sg_sign = hmac_sign echo_mac fraction_text (replicate 32 CHR ''k'') ''default'',
      sg_verify = hmac_verify echo_mac fraction_text (replicate 32 CHR ''k'') ''default''\<rparr>\<rparr>"

lemma demo_repo_configured: "repo_configured fraction_text demo_repo"
proof -
  have "\<forall>m. echo_mac (replicate 32 CHR ''k'') m \<noteq> []" by (simp add: echo_mac_def)
  moreover have "hmac_signer echo_mac fraction_text (replicate 32 CHR ''k'') ''default'' = Inr (the (repo_signer demo_repo))"
    by (simp add: hmac_signer_def demo_repo_def)
  ultimately show ?thesis unfolding repo_configured_def demo_repo_def by auto
qed

definition demo_ctx :: exec_ctx where
  "demo_ctx = \<lparr>actor_id = ''u1'', session_id = None, execution_scope = None, cred_refs = [], deadline = None\<rparr>"

definition demo_entry :: new_audit_entry where
  "demo_entry = audit_entry [] ''1.0'' noop_action demo_ctx (Some (Inl SAFE)) ALLOW O_EXECUTED 1 blank_note"


text \<open>C23. The head of the chain pins its whole history: two verified logs (in \<open>seq\<close> order, each
  under its own signer or none) that end in the same entry hash have the same number of rows and,
  row by row, the same hashed content up to the order of dictionary keys, if SHA-256 has no
  collision among the texts of their rows and none of them hashes to the genesis value.\<close>

theorem same_head_same_history:
  assumes "float_text_ok frepr"
    and "inj_on sha (payload_texts frepr xs \<union> payload_texts frepr ys)"
    and "genesis \<notin> sha ` (payload_texts frepr xs \<union> payload_texts frepr ys)"
    and "vr_valid (verify_audit_rows sha frepr genesis signer xs)"
    and "vr_valid (verify_audit_rows sha frepr genesis signer' ys)"
    and "head_hash genesis xs = head_hash genesis ys"
  shows "length xs = length ys
    \<and> (\<forall>i < length xs. sort_json (payload_json (xs ! i)) = sort_json (payload_json (ys ! i)))"
proof -
  have valid: "verify_from sha frepr sg genesis rows = None"
    if "vr_valid (verify_audit_rows sha frepr genesis sg rows)" for sg rows
    using that by (auto simp: verify_audit_rows_def mismatch_def split: if_splits option.splits)
  from chain_same_head [OF assms(1-3) valid [OF assms(4)] valid [OF assms(5)] assms(6)]
  show ?thesis by (auto simp: list_eq_iff_nth_eq)
qed

lemma demo_row_exists:
  "\<exists>row. build_audit_row (\<lambda>x. x) fraction_text ''t1'' demo_entry 1 ''0'' None = Some row"
  by (simp add: build_audit_row_def Let_def)

lemma same_head_same_history_witness:
  "\<exists>row. vr_valid (verify_audit_rows (\<lambda>x. x) fraction_text ''0'' None [row])
     \<and> sort_json (payload_json ([row] ! 0)) = sort_json (payload_json ([row] ! 0))"
proof -
  from demo_row_exists obtain row
    where row: "build_audit_row (\<lambda>x. x) fraction_text ''t1'' demo_entry 1 ''0'' None = Some row" by blast
  have valid: "vr_valid (verify_audit_rows (\<lambda>x. x) fraction_text ''0'' None [row])"
    using build_row_fields [OF row] built_row_unsigned [OF row] by (simp add: verify_audit_rows_def)
  have "canonical_json fraction_text (payload_json row) \<noteq> ''0''" by (simp add: payload_json_def)
  then have "''0'' \<notin> (\<lambda>x. x) ` (payload_texts fraction_text [row] \<union> payload_texts fraction_text [row])"
    by (auto simp: payload_texts_def)
  from same_head_same_history [OF fraction_text_ok _ this valid valid] valid show ?thesis by auto
qed

text \<open>\<open>verify\<close> does not notice a truncated log: dropping any number of the newest rows of a
  log built by appends leaves a log it accepts.\<close>

theorem truncation_not_detected:
  assumes "repo_configured frepr repo" and "append_all sha frepr repo es [] = Some rows"
  shows "vr_valid (audit_verify sha frepr repo (take n rows))"
proof -
  have "log_ok sha frepr repo rows" using append_all_ok [OF assms(1) log_ok_empty, of sha es] assms(2) by auto
  then have "log_ok sha frepr repo (take n rows)"
  proof (cases "n \<le> length rows")
    case True
    assume ok: "log_ok sha frepr repo rows"
    have "verify_from sha frepr (repo_signer repo) (repo_genesis repo) (take n rows @ drop n rows) = None"
      using ok by (simp add: log_ok_def)
    moreover have "map au_seq (take n rows) = map int [1..<Suc n]"
      using ok True by (simp add: log_ok_def take_map [symmetric] del: upt_Suc) (simp add: take_map take_upt del: upt_Suc)
    ultimately show ?thesis
      using True unfolding verify_from_append by (simp add: log_ok_def min_absorb2)
  qed simp
  then show ?thesis by (rule log_ok_verifies(1))
qed

lemma truncation_not_detected_witness:
  "\<exists>rows. append_all (\<lambda>x. x) fraction_text demo_repo [(''t1'', demo_entry), (''t2'', demo_entry)] [] = Some rows
     \<and> vr_valid (audit_verify (\<lambda>x. x) fraction_text demo_repo (take 1 rows))"
proof -
  obtain rows where "append_all (\<lambda>x. x) fraction_text demo_repo [(''t1'', demo_entry), (''t2'', demo_entry)] [] = Some rows"
    using append_all_ok [OF demo_repo_configured log_ok_empty] by blast
  with truncation_not_detected [OF demo_repo_configured this] show ?thesis by blast
qed

text \<open>C24. The log holds no secrets and stays bounded: recording two actions whose parameters
  differ only in secret values (secret by name, declared by the catalog, or private to the
  action type) appends the same row; and in the parameters of every entry a string is at most
  2000 characters long or a truncation mark, and values nest at most seven levels deep.\<close>

theorem audit_record_hides_secrets:
  assumes "same_public (sensitive_fields_for_action a
        (case catalog_get cat a of Some spec \<Rightarrow> as_secret_fields spec | None \<Rightarrow> {})) (JObj ps) (JObj ps')"
  shows "audit_record sha frepr repo cat app now \<lparr>action_type = a, a_params = ps\<rparr> ctx risk dec out version note rows
      = audit_record sha frepr repo cat app now \<lparr>action_type = a, a_params = ps'\<rparr> ctx risk dec out version note rows
    \<and> (let stored = JObj (ne_action_params
              (audit_entry cat app \<lparr>action_type = a, a_params = ps\<rparr> ctx risk dec out version note))
       in height stored \<le> 7
        \<and> (\<forall>t. JStr t \<in> set (subvalues stored) \<longrightarrow>
             length t \<le> 2000 \<or> t = ''[truncated]'' \<or> (\<exists>n > 2000. t = truncation_marker n)))"
  unfolding audit_record_def audit_entry_public [OF assms]
  using cap_params_bounds
  by (simp add: audit_entry_def Let_def AUDIT_PARAM_STR_LIMIT_def stored_string_def)

lemma audit_record_hides_secrets_witness:
  "audit_record (\<lambda>x. x) fraction_text demo_repo [] ''1.0'' ''t1''
      \<lparr>action_type = ''email.send'', a_params = [(''body'', JStr ''hello''), (''to'', JStr ''x'')]\<rparr>
      demo_ctx None ALLOW O_EXECUTED 1 blank_note []
   = audit_record (\<lambda>x. x) fraction_text demo_repo [] ''1.0'' ''t1''
      \<lparr>action_type = ''email.send'', a_params = [(''body'', JStr ''bye''), (''to'', JStr ''x'')]\<rparr>
      demo_ctx None ALLOW O_EXECUTED 1 blank_note []"
proof -
  have "same_public (sensitive_fields_for_action ''email.send''
        (case catalog_get [] ''email.send'' of Some spec \<Rightarrow> as_secret_fields spec | None \<Rightarrow> {}))
      (JObj [(''body'', JStr ''hello''), (''to'', JStr ''x'')]) (JObj [(''body'', JStr ''bye''), (''to'', JStr ''x'')])"
    by (simp add: sensitive_fields_for_action_def ACTION_PRIVATE_FIELDS_def is_secret_key_def)
  from audit_record_hides_secrets [OF this] show ?thesis by blast
qed

end
