(* ===== verification/Timestamps.thy ===== *)
theory Timestamps
  imports Cron
begin

text \<open>
  Timestamps (\<^verbatim>\<open>era/core/util.py\<close>): UTC instants are stored as the ISO-8601 text of
  \<open>datetime.isoformat()\<close> and compared as strings.  \<open>from_iso\<close> is \<open>datetime.fromisoformat\<close> on
  such texts and \<open>add_seconds\<close> the helper \<open>_add_seconds\<close> of
  \<^verbatim>\<open>era/services/confirmation_service.py\<close>; \<open>compute_next_run\<close> is the entry point of
  \<^verbatim>\<open>era/core/cron.py\<close>.
\<close>

section \<open>The text\<close>

primrec pad :: "nat \<Rightarrow> int \<Rightarrow> string" where
  "pad 0 i = []"
| "pad (Suc w) i = pad w (i div 10) @ [char_of (48 + nat (i mod 10))]"

definition iso_of :: "datetime \<Rightarrow> string" where
  "iso_of dt =
     pad 4 (dt_year dt) @ ''-'' @ pad 2 (dt_month dt) @ ''-'' @ pad 2 (dt_day dt) @ ''T''
     @ pad 2 (dt_hour dt) @ '':'' @ pad 2 (dt_minute dt) @ '':'' @ pad 2 (dt_second dt)
     @ (if dt_micro dt = 0 then [] else ''.'' @ pad 6 (dt_micro dt)) @ ''+00:00''"

text \<open>Reading the text back: digits at fixed positions.\<close>

definition num_at :: "nat \<Rightarrow> nat \<Rightarrow> string \<Rightarrow> int" where
  "num_at from n s = foldl (\<lambda>a c. 10 * a + int (code c - 48)) 0 (take n (drop from s))"

definition digits_at :: "nat \<Rightarrow> nat \<Rightarrow> string \<Rightarrow> bool" where
  "digits_at from n s = (length (take n (drop from s)) = n \<and> list_all is_digit (take n (drop from s)))"

definition from_iso :: "string \<Rightarrow> datetime option" where
  "from_iso s =
     (let frac = (length s = 32);
          dt = \<lparr>dt_year = num_at 0 4 s, dt_month = num_at 5 2 s, dt_day = num_at 8 2 s,
                dt_hour = num_at 11 2 s, dt_minute = num_at 14 2 s, dt_second = num_at 17 2 s,
                dt_micro = (if frac then num_at 20 6 s else 0)\<rparr>
      in if (length s = 25 \<or> frac)
            \<and> digits_at 0 4 s \<and> s ! 4 = CHR ''-'' \<and> digits_at 5 2 s \<and> s ! 7 = CHR ''-'' \<and> digits_at 8 2 s
            \<and> s ! 10 = CHR ''T'' \<and> digits_at 11 2 s \<and> s ! 13 = CHR '':'' \<and> digits_at 14 2 s
            \<and> s ! 16 = CHR '':'' \<and> digits_at 17 2 s
            \<and> (frac \<longrightarrow> s ! 19 = CHR ''.'' \<and> digits_at 20 6 s)
            \<and> drop (length s - 6) s = ''+00:00'' \<and> valid_dt dt
         then Some dt else None)"

section \<open>Arithmetic\<close>

definition seconds :: "datetime \<Rightarrow> int" where
  "seconds dt = minutes dt * 60 + dt_second dt"

definition micros :: "datetime \<Rightarrow> int" where
  "micros dt = seconds dt * 1000000 + dt_micro dt"

function find_year :: "int \<Rightarrow> int \<Rightarrow> int" where
  "find_year n y = (if n \<le> days_before_year (y + 1) then y else find_year n (y + 1))"
  by pat_completeness auto
termination
proof (relation "measure (\<lambda>(n, y). nat (n - days_before_year y))")
  fix n y :: int
  assume "\<not> n \<le> days_before_year (y + 1)"
  then show "((n, y + 1), n, y) \<in> measure (\<lambda>(n, y). nat (n - days_before_year y))"
    using days_before_year_mono [of y "y + 1"] by (simp split: if_splits)
qed simp

declare find_year.simps [simp del]

function find_month :: "int \<Rightarrow> int \<Rightarrow> int \<Rightarrow> int" where
  "find_month y n m =
     (if 12 \<le> m \<or> n \<le> days_before_month y (m + 1) then m else find_month y n (m + 1))"
  by pat_completeness auto
termination by (relation "measure (\<lambda>(y, n, m). nat (12 - m))") auto

declare find_month.simps [simp del]

text \<open>\<open>dt + timedelta(seconds=s)\<close>; the result must lie in the years 1 to 9999.\<close>

definition plus_seconds :: "datetime \<Rightarrow> int \<Rightarrow> (cron_exc, datetime) result" where
  "plus_seconds dt s =
     (let total = seconds dt + s; n = total div 86400; r = total mod 86400
      in if n < 1 \<or> days_before_year 10000 < n then Inl OverflowErr
         else
           let y = find_year n ((n - 1) div 366 + 1);
               k = n - days_before_year y;
               m = find_month y k 1
           in Inr \<lparr>dt_year = y, dt_month = m, dt_day = k - days_before_month y m,
                   dt_hour = r div 3600, dt_minute = r mod 3600 div 60, dt_second = r mod 60,
                   dt_micro = dt_micro dt\<rparr>)"

definition add_seconds :: "string \<Rightarrow> int \<Rightarrow> (cron_exc, string) result" where
  "add_seconds stamp s = (case from_iso stamp of
       None \<Rightarrow> Inl (ValueErr ''Invalid isoformat string'')
     | Some dt \<Rightarrow> map_sum id iso_of (plus_seconds dt s))"

definition compute_next_run ::
  "string option \<Rightarrow> int option \<Rightarrow> datetime \<Rightarrow> (cron_exc, datetime) result" where
  "compute_next_run cron_expr interval_seconds base =
     (if interval_seconds \<noteq> None \<and> 0 < the interval_seconds
      then plus_seconds base (the interval_seconds)
      else if cron_expr \<noteq> None \<and> cron_expr \<noteq> Some []
      then (case parse_cron (the cron_expr) of Inl e \<Rightarrow> Inl e | Inr sch \<Rightarrow> next_after sch base)
      else Inl (ValueErr ''must provide either cron_expr or interval_seconds > 0''))"

lemma timestamp_examples:
  "iso_of \<lparr>dt_year = 2024, dt_month = 2, dt_day = 29, dt_hour = 23, dt_minute = 59, dt_second = 30, dt_micro = 5\<rparr>
     = ''2024-02-29T23:59:30.000005+00:00''"
  "add_seconds ''2024-02-29T23:59:30+00:00'' 45 = Inr ''2024-03-01T00:00:15+00:00''"
  by code_simp+

section \<open>Texts compare as times\<close>

lemma append_less_append:
  fixes a b x y :: string
  shows "length a = length b \<Longrightarrow> a @ x < b @ y \<longleftrightarrow> a < b \<or> (a = b \<and> x < y)"
proof (induction a arbitrary: b)
  case (Cons c a)
  then show ?case by (cases b) auto
qed simp

lemma pad_length [simp]: "length (pad w i) = w"
  by (induction w arbitrary: i) auto

lemma code_digit: "0 \<le> i \<Longrightarrow> i < 10 \<Longrightarrow> code (char_of (48 + nat i)) = 48 + nat i"
  by (simp add: code_def nat_less_iff)

lemma snoc_less_snoc:
  fixes a b :: string
  assumes "length a = length b"
  shows "a @ [c] < b @ [d] \<longleftrightarrow> a < b \<or> (a = b \<and> c < d)"
  using append_less_append [OF assms, of "[c]" "[d]"] by simp

lemma digit_less: "char_of (48 + nat (i mod 10)) < (char_of (48 + nat (j mod 10)) :: char) \<longleftrightarrow> i mod 10 < j mod 10"
  using code_digit [of "i mod 10"] code_digit [of "j mod 10"] pos_mod_sign [of 10 i]
  by (auto simp: less_char_def code_def)

lemma digit_eq: "char_of (48 + nat (i mod 10)) = (char_of (48 + nat (j mod 10)) :: char) \<longleftrightarrow> i mod 10 = j mod 10"
  using digit_less [of i j] digit_less [of j i] by (metis less_irrefl linorder_neqE)

lemma radix_less:
  fixes q r q' r' k :: int
  assumes "0 \<le> r" and "r < k" and "0 \<le> r'" and "r' < k"
  shows "q * k + r < q' * k + r' \<longleftrightarrow> q < q' \<or> (q = q' \<and> r < r')"
proof -
  have lt: "a * k + x < b * k + y" if "a < b" "x < k" "0 \<le> y" for a b x y
  proof -
    have "a + 1 \<le> b" using that(1) by simp
    then have "(a + 1) * k \<le> b * k" using assms by (intro mult_right_mono) auto
    then show ?thesis using that by (simp add: algebra_simps)
  qed
  show ?thesis using lt [of q q' r r'] lt [of q' q r' r] assms by (cases q q' rule: linorder_cases) auto
qed

lemma pad_order:
  "0 \<le> i \<Longrightarrow> i < 10 ^ w \<Longrightarrow> 0 \<le> j \<Longrightarrow> j < 10 ^ w
   \<Longrightarrow> (pad w i = pad w j \<longleftrightarrow> i = j) \<and> (pad w i < pad w j \<longleftrightarrow> i < j)"
proof (induction w arbitrary: i j)
  case (Suc w)
  have "(pad w (i div 10) = pad w (j div 10) \<longleftrightarrow> i div 10 = j div 10)
      \<and> (pad w (i div 10) < pad w (j div 10) \<longleftrightarrow> i div 10 < j div 10)"
    using Suc.prems by (intro Suc.IH) (auto simp: div_less_mult)
  then have "(pad (Suc w) i = pad (Suc w) j \<longleftrightarrow> i div 10 = j div 10 \<and> i mod 10 = j mod 10)
      \<and> (pad (Suc w) i < pad (Suc w) j \<longleftrightarrow> i div 10 < j div 10 \<or> i div 10 = j div 10 \<and> i mod 10 < j mod 10)"
    by (simp only: pad.simps append_eq_append_conv pad_length snoc_less_snoc digit_less digit_eq
        list.inject simp_thms length_Cons)
  moreover have "i div 10 = j div 10 \<and> i mod 10 = j mod 10 \<longleftrightarrow> i = j" by (metis mod_div_mult_eq)
  moreover have "i div 10 < j div 10 \<or> i div 10 = j div 10 \<and> i mod 10 < j mod 10 \<longleftrightarrow> i < j"
    using radix_less [of "i mod 10" 10 "j mod 10" "i div 10" "j div 10"] by simp
  ultimately show ?case by simp
qed simp

lemma pad_append_less:
  assumes "0 \<le> i" "i < 10 ^ w" "0 \<le> j" "j < 10 ^ w"
  shows "pad w i @ x < pad w j @ y \<longleftrightarrow> i < j \<or> (i = j \<and> x < y)"
  using pad_order [OF assms] append_less_append [of "pad w i" "pad w j" x y] by simp

lemma fraction_less:
  assumes "0 \<le> i" "i < 1000000" "0 \<le> j" "j < 1000000"
  shows "(if i = 0 then [] else ''.'' @ pad 6 i) @ ''+00:00'' < (if j = 0 then [] else ''.'' @ pad 6 j) @ ''+00:00''
    \<longleftrightarrow> i < j"
  using assms pad_append_less [of i 6 j "''+00:00''" "''+00:00''"]
  by (auto simp: less_char_def)

lemma ordinal_less_iff:
  assumes "valid_date y m d" and "valid_date y' m' d'"
  shows "ordinal y m d < ordinal y' m' d' \<longleftrightarrow> y < y' \<or> (y = y' \<and> (m < m' \<or> (m = m' \<and> d < d')))"
  using ordinal_less_month [OF assms] ordinal_less_month [OF assms(2,1)]
  by (cases y y' rule: linorder_cases; cases m m' rule: linorder_cases) (auto simp: ordinal_def)

lemma ordinal_eq_iff:
  assumes "valid_date y m d" and "valid_date y' m' d'"
  shows "ordinal y m d = ordinal y' m' d' \<longleftrightarrow> y = y' \<and> m = m' \<and> d = d'"
  using ordinal_inject [OF assms] by auto

lemma radix_eq:
  fixes q r q' r' k :: int
  assumes "0 \<le> r" and "r < k" and "0 \<le> r'" and "r' < k"
  shows "q * k + r = q' * k + r' \<longleftrightarrow> q = q' \<and> r = r'"
  using radix_less [OF assms, of q q'] radix_less [OF assms(3,4,1,2), of q' q] by auto

lemma micros_less:
  assumes "valid_dt a" and "valid_dt b"
  defines "n \<equiv> \<lambda>dt. ordinal (dt_year dt) (dt_month dt) (dt_day dt)"
  shows "micros a < micros b \<longleftrightarrow> n a < n b \<or> (n a = n b \<and>
      (dt_hour a < dt_hour b \<or> (dt_hour a = dt_hour b \<and>
      (dt_minute a < dt_minute b \<or> (dt_minute a = dt_minute b \<and>
      (dt_second a < dt_second b \<or> (dt_second a = dt_second b \<and> dt_micro a < dt_micro b)))))))"
proof -
  note v = assms(1,2) [unfolded valid_dt_def]
  have m: "minutes dt = (n dt * 24 + dt_hour dt) * 60 + dt_minute dt" for dt
    by (simp add: minutes_def n_def)
  have us: "micros a < micros b \<longleftrightarrow> seconds a < seconds b \<or> (seconds a = seconds b \<and> dt_micro a < dt_micro b)"
    unfolding micros_def using v by (intro radix_less) auto
  have sec: "seconds a < seconds b \<longleftrightarrow> minutes a < minutes b \<or> (minutes a = minutes b \<and> dt_second a < dt_second b)"
      "seconds a = seconds b \<longleftrightarrow> minutes a = minutes b \<and> dt_second a = dt_second b"
    unfolding seconds_def using v by (intro radix_less radix_eq; auto)+
  have mi: "minutes a < minutes b \<longleftrightarrow>
      n a * 24 + dt_hour a < n b * 24 + dt_hour b \<or> (n a * 24 + dt_hour a = n b * 24 + dt_hour b \<and> dt_minute a < dt_minute b)"
      "minutes a = minutes b \<longleftrightarrow> n a * 24 + dt_hour a = n b * 24 + dt_hour b \<and> dt_minute a = dt_minute b"
    unfolding m using v by (intro radix_less radix_eq; auto)+
  have ho: "n a * 24 + dt_hour a < n b * 24 + dt_hour b \<longleftrightarrow> n a < n b \<or> (n a = n b \<and> dt_hour a < dt_hour b)"
      "n a * 24 + dt_hour a = n b * 24 + dt_hour b \<longleftrightarrow> n a = n b \<and> dt_hour a = dt_hour b"
    using v by (intro radix_less radix_eq; auto)+
  show ?thesis unfolding us sec mi ho by blast
qed

lemma iso_less_iff:
  assumes "valid_dt a" and "valid_dt b"
  shows "iso_of a < iso_of b \<longleftrightarrow> micros a < micros b"
proof -
  note v = assms [unfolded valid_dt_def]
  note date = assms [THEN valid_dt_date]
  have d: "dt_day a \<le> 31" "dt_day b \<le> 31"
    using v dim_bounds order_trans by blast+
  have "iso_of a < iso_of b \<longleftrightarrow>
      dt_year a < dt_year b \<or> (dt_year a = dt_year b \<and>
      (dt_month a < dt_month b \<or> (dt_month a = dt_month b \<and>
      (dt_day a < dt_day b \<or> (dt_day a = dt_day b \<and>
      (dt_hour a < dt_hour b \<or> (dt_hour a = dt_hour b \<and>
      (dt_minute a < dt_minute b \<or> (dt_minute a = dt_minute b \<and>
      (dt_second a < dt_second b \<or> (dt_second a = dt_second b \<and> dt_micro a < dt_micro b)))))))))))"
    using v d unfolding iso_of_def
    by (simp add: pad_append_less fraction_less [simplified])
  also have "\<dots> \<longleftrightarrow> micros a < micros b"
    unfolding micros_less [OF assms] ordinal_less_iff [OF date] ordinal_eq_iff [OF date] by blast
  finally show ?thesis .
qed

section \<open>Reading a text back\<close>

lemma digit_pad_char: "is_digit (char_of (48 + nat (i mod 10)))"
  using code_digit [of "i mod 10"] by (simp add: is_digit_def nat_le_iff)

lemma pad_digits: "list_all is_digit (pad w i)"
  by (induction w arbitrary: i) (auto simp: digit_pad_char)

lemma pad_value: "0 \<le> i \<Longrightarrow> i < 10 ^ w \<Longrightarrow> foldl (\<lambda>a c. 10 * a + int (code c - 48)) 0 (pad w i) = i"
proof (induction w arbitrary: i)
  case (Suc w)
  have "foldl (\<lambda>a c. 10 * a + int (code c - 48)) 0 (pad w (i div 10)) = i div 10"
    using Suc.prems by (intro Suc.IH) (auto simp: div_less_mult)
  then show ?case using code_digit [of "i mod 10"] by simp
qed simp

lemma read_pad:
  assumes "s = p @ pad w i @ q" and "length p = k" and "0 \<le> i" and "i < 10 ^ w"
  shows "num_at k w s = i \<and> digits_at k w s"
  using assms pad_value [of i w] pad_digits [of w i] by (auto simp: num_at_def digits_at_def)

lemma from_iso_iso_of:
  assumes "valid_dt dt"
  shows "from_iso (iso_of dt) = Some dt"
proof -
  note v = assms [unfolded valid_dt_def]
  have d: "dt_day dt \<le> 31" using v dim_bounds order_trans by blast
  let ?f = "if dt_micro dt = 0 then [] else ''.'' @ pad 6 (dt_micro dt)"
  let ?y = "pad 4 (dt_year dt) @ ''-''"
  let ?m = "?y @ pad 2 (dt_month dt) @ ''-''"
  let ?d = "?m @ pad 2 (dt_day dt) @ ''T''"
  let ?h = "?d @ pad 2 (dt_hour dt) @ '':''"
  let ?i = "?h @ pad 2 (dt_minute dt) @ '':''"
  let ?s = "?i @ pad 2 (dt_second dt)"
  define s where "s = iso_of dt"
  have year: "num_at 0 4 s = dt_year dt \<and> digits_at 0 4 s"
    by (rule read_pad [where p = "[]"]; use v in \<open>simp add: s_def iso_of_def\<close>)
  have month: "num_at 5 2 s = dt_month dt \<and> digits_at 5 2 s"
    by (rule read_pad [where p = ?y]; use v in \<open>simp add: s_def iso_of_def\<close>)
  have day: "num_at 8 2 s = dt_day dt \<and> digits_at 8 2 s"
    by (rule read_pad [where p = ?m]; use v d in \<open>simp add: s_def iso_of_def\<close>)
  have hour: "num_at 11 2 s = dt_hour dt \<and> digits_at 11 2 s"
    by (rule read_pad [where p = ?d]; use v in \<open>simp add: s_def iso_of_def\<close>)
  have minute: "num_at 14 2 s = dt_minute dt \<and> digits_at 14 2 s"
    by (rule read_pad [where p = ?h]; use v in \<open>simp add: s_def iso_of_def\<close>)
  have second: "num_at 17 2 s = dt_second dt \<and> digits_at 17 2 s"
    by (rule read_pad [where p = ?i]; use v in \<open>simp add: s_def iso_of_def\<close>)
  have micro: "dt_micro dt \<noteq> 0 \<Longrightarrow> num_at 20 6 s = dt_micro dt \<and> digits_at 20 6 s"
    by (rule read_pad [where p = "?s @ ''.''"]; use v in \<open>simp add: s_def iso_of_def\<close>)
  have len: "length s = (if dt_micro dt = 0 then 25 else 32)" by (simp add: s_def iso_of_def)
  have marks: "s ! 4 = CHR ''-''" "s ! 7 = CHR ''-''" "s ! 10 = CHR ''T''" "s ! 13 = CHR '':''" "s ! 16 = CHR '':''"
      "dt_micro dt \<noteq> 0 \<Longrightarrow> s ! 19 = CHR ''.''" "drop (length s - 6) s = ''+00:00''"
    by (simp_all add: s_def iso_of_def nth_append nth_Cons')
  have "from_iso s = Some dt"
    using marks(7) v by (cases "dt_micro dt = 0")
      (simp_all add: valid_dt_def from_iso_def Let_def year month day hour minute second micro len marks(1-6))
  then show ?thesis by (simp add: s_def)
qed

section \<open>Addition of seconds\<close>

lemma days_before_year_le:
  assumes "1 \<le> y"
  shows "days_before_year y \<le> (y - 1) * 366"
proof -
  have "(y - 1) div 400 \<le> (y - 1) div 100" using assms by (intro zdiv_mono2) auto
  moreover have "(y - 1) div 4 \<le> y - 1" using assms zdiv_mono2 [of "y - 1" 1 4] by simp
  ultimately show ?thesis by (simp add: days_before_year_def)
qed

lemma find_year_bounds:
  "days_before_year y < n \<Longrightarrow>
   days_before_year (find_year n y) < n \<and> n \<le> days_before_year (find_year n y + 1) \<and> y \<le> find_year n y"
proof (induction n y rule: find_year.induct)
  case (1 n y)
  show ?case
  proof (cases "n \<le> days_before_year (y + 1)")
    case True
    then show ?thesis using 1 by (subst (1 2 3) find_year.simps) simp
  next
    case False
    then have "find_year n y = find_year n (y + 1)" by (subst find_year.simps) simp
    then show ?thesis using 1 False by simp
  qed
qed

lemma find_month_bounds:
  "days_before_month y m < n \<Longrightarrow> n \<le> days_before_month y 13 \<Longrightarrow> 1 \<le> m \<Longrightarrow> m \<le> 12 \<Longrightarrow>
   days_before_month y (find_month y n m) < n \<and> n \<le> days_before_month y (find_month y n m + 1)
   \<and> m \<le> find_month y n m \<and> find_month y n m \<le> 12"
proof (induction y n m rule: find_month.induct)
  case (1 y n m)
  show ?case
  proof (cases "12 \<le> m \<or> n \<le> days_before_month y (m + 1)")
    case True
    then have "find_month y n m = m" by (subst find_month.simps) simp
    then show ?thesis using 1 True by auto
  next
    case False
    then have "find_month y n m = find_month y n (m + 1)" by (subst find_month.simps) simp
    then show ?thesis using 1 False by simp
  qed
qed

lemma seconds_of_parts:
  assumes "0 \<le> r" and "r < 86400"
  shows "0 \<le> r div 3600 \<and> r div 3600 < 24 \<and> 0 \<le> r mod 3600 div 60 \<and> r mod 3600 div 60 < 60
    \<and> 0 \<le> r mod 60 \<and> r mod 60 < 60 \<and> (r div 3600 * 60 + r mod 3600 div 60) * 60 + r mod 60 = (r :: int)"
proof -
  have "r mod 3600 mod 60 = r mod 60" by (simp add: mod_mod_cancel)
  then have "(r div 3600 * 60 + r mod 3600 div 60) * 60 + r mod 60
      = r div 3600 * 3600 + (r mod 3600 div 60 * 60 + r mod 3600 mod 60)" by simp
  also have "\<dots> = r" by (simp only: div_mult_mod_eq)
  finally have "(r div 3600 * 60 + r mod 3600 div 60) * 60 + r mod 60 = r" .
  then show ?thesis using assms by (auto simp: div_less_mult pos_imp_zdiv_nonneg_iff)
qed

lemma plus_seconds_correct:
  assumes v: "valid_dt dt" and res: "plus_seconds dt s = Inr dt'"
  shows "valid_dt dt' \<and> micros dt' = micros dt + s * 1000000"
proof -
  define t where "t = seconds dt + s"
  define n where "n = t div 86400"
  define r where "r = t mod 86400"
  have range: "1 \<le> n" "n \<le> days_before_year 10000"
    using res by (auto simp: plus_seconds_def Let_def t_def n_def split: if_splits)
  define y where "y = find_year n ((n - 1) div 366 + 1)"
  define k where "k = n - days_before_year y"
  define m where "m = find_month y k 1"
  have dt': "dt' = \<lparr>dt_year = y, dt_month = m, dt_day = k - days_before_month y m,
      dt_hour = r div 3600, dt_minute = r mod 3600 div 60, dt_second = r mod 60, dt_micro = dt_micro dt\<rparr>"
    using res by (auto simp: plus_seconds_def Let_def t_def n_def r_def y_def k_def m_def split: if_splits)
  have start: "days_before_year ((n - 1) div 366 + 1) < n"
  proof -
    have "0 \<le> (n - 1) div 366" using range(1) by (simp add: pos_imp_zdiv_nonneg_iff)
    then have "days_before_year ((n - 1) div 366 + 1) \<le> (n - 1) div 366 * 366"
      using days_before_year_le [of "(n - 1) div 366 + 1"] by simp
    also have "\<dots> \<le> n - 1" by presburger
    finally show ?thesis by simp
  qed
  have y: "days_before_year y < n" "n \<le> days_before_year (y + 1)" "(n - 1) div 366 + 1 \<le> y"
    using find_year_bounds [OF start] by (auto simp: y_def)
  have "1 \<le> y" using y(3) range(1) pos_imp_zdiv_nonneg_iff [of 366 "n - 1"] by simp
  moreover have "y \<le> 9999"
  proof (rule ccontr)
    assume "\<not> y \<le> 9999"
    then have "days_before_year 10000 \<le> days_before_year y"
      using days_before_year_mono [of 10000 y] by (cases "y = 10000") (auto split: if_splits)
    then show False using y(1) range(2) by simp
  qed
  moreover have k: "days_before_month y 1 < k" "k \<le> days_before_month y 13"
    using y(1,2) days_before_year_step [of y] by (auto simp: k_def days_before_month_13)
  have m: "days_before_month y m < k" "k \<le> days_before_month y (m + 1)" "1 \<le> m" "m \<le> 12"
    using find_month_bounds [OF k] by (auto simp: m_def)
  moreover have "k - days_before_month y m \<le> days_in_month y m"
    using m(2) days_before_month_step [OF m(3), of y] by simp
  moreover have r: "0 \<le> r" "r < 86400" by (auto simp: r_def)
  ultimately have "valid_dt dt'"
    using v seconds_of_parts [OF r] by (simp add: dt' valid_dt_def)
  moreover have "seconds dt' = n * 86400 + r"
    using seconds_of_parts [OF r] by (simp add: dt' seconds_def minutes_def ordinal_def k_def)
  then have "seconds dt' = seconds dt + s" by (simp add: n_def r_def t_def)
  then have "micros dt' = micros dt + s * 1000000" by (simp add: micros_def dt' algebra_simps)
  ultimately show ?thesis by simp
qed

text \<open>Two stored timestamps compare as strings exactly as their instants compare: for any two
  valid UTC instants the ISO text of the first is lexicographically smaller than that of the second
  if and only if it is the earlier one, with or without a microsecond part.\<close>
theorem iso_text_order_is_time_order:
  assumes "valid_dt a" and "valid_dt b"
  shows "iso_of a < iso_of b \<longleftrightarrow> micros a < micros b"
  using assms by (rule iso_less_iff)

definition whole_second :: datetime where
  "whole_second = \<lparr>dt_year = 2024, dt_month = 2, dt_day = 29, dt_hour = 23, dt_minute = 59, dt_second = 30, dt_micro = 0\<rparr>"

lemma iso_text_order_is_time_order_witness:
  "iso_of whole_second < iso_of (whole_second\<lparr>dt_micro := 5\<rparr>)"
proof -
  have "valid_dt whole_second" "valid_dt (whole_second\<lparr>dt_micro := 5\<rparr>)"
      "micros whole_second < micros (whole_second\<lparr>dt_micro := 5\<rparr>)" by code_simp+
  then show ?thesis using iso_text_order_is_time_order by blast
qed

lemma add_seconds_correct:
  assumes "valid_dt dt" and "add_seconds (iso_of dt) s = Inr t"
  obtains dt' where "t = iso_of dt'" "valid_dt dt'" "micros dt' = micros dt + s * 1000000"
  using assms plus_seconds_correct [OF assms(1)]
  by (auto simp: add_seconds_def from_iso_iso_of map_sum_eq_Inr)

lemma next_run_later:
  assumes v: "valid_dt base" and run: "compute_next_run cron_expr interval_seconds base = Inr r"
  shows "valid_dt r \<and> micros base < micros r"
proof (cases "interval_seconds \<noteq> None \<and> 0 < the interval_seconds")
  case True
  then have "plus_seconds base (the interval_seconds) = Inr r" using run by (simp add: compute_next_run_def)
  then show ?thesis using plus_seconds_correct [OF v] True by fastforce
next
  case False
  then obtain sch where "next_after sch base = Inr r"
    using run by (auto simp: compute_next_run_def split: if_splits sum.splits)
  then obtain dt where dt: "add_minute (base\<lparr>dt_second := 0, dt_micro := 0\<rparr>) = Inr dt" "search sch 0 dt = Inr r"
    by (auto simp: next_after_def split: sum.splits)
  have "on_minute (base\<lparr>dt_second := 0, dt_micro := 0\<rparr>)"
    using v by (simp add: on_minute_def valid_dt_def)
  then have "on_minute dt" "minutes dt = minutes base + 1"
    using add_minute_Inr [OF _ dt(1)] by (auto simp: minutes_def)
  then have r: "on_minute r" "minutes base < minutes r" using search_correct [OF dt(2)] by auto
  have "micros base < (minutes base + 1) * 60000000"
    using v by (simp add: micros_def seconds_def valid_dt_def)
  also have "\<dots> \<le> micros r" using r by (simp add: micros_def seconds_def on_minute_def)
  finally show ?thesis using r(1) by (simp add: on_minute_def)
qed

text \<open>A schedule never stands still: whenever \<open>compute_next_run\<close> returns, whether the next run
  comes from an interval or from a cron expression, the result is a valid instant strictly after
  the base, and its stored text is strictly greater than the text of the base.\<close>
theorem compute_next_run_advances:
  assumes "valid_dt base" and "compute_next_run cron_expr interval_seconds base = Inr r"
  shows "valid_dt r \<and> micros base < micros r \<and> iso_of base < iso_of r"
  using next_run_later [OF assms] iso_less_iff [of base r] assms(1) by simp

lemma compute_next_run_advances_witness:
  "\<exists>r. compute_next_run None (Some 45) whole_second = Inr r \<and> iso_of whole_second < iso_of r"
proof -
  have "is_ok (compute_next_run None (Some 45) whole_second)" and v: "valid_dt whole_second" by code_simp+
  then obtain r where "compute_next_run None (Some 45) whole_second = Inr r" by (elim is_okE)
  then show ?thesis using compute_next_run_advances [OF v] by blast
qed

end
