(* ===== verification/Confirmation.thy ===== *)
theory Confirmation
  imports Audit_Chain Timestamps
begin

text \<open>
  Confirmations: the rows of \<^verbatim>\<open>era/models/confirmation.py\<close> and
  \<^verbatim>\<open>era/models/confirmation_approval.py\<close>, their SQLite repositories, the confirmation service
  (\<^verbatim>\<open>era/services/confirmation_service.py\<close>), the dual-approval service
  (\<^verbatim>\<open>era/services/dual_approval.py\<close>) and the expiry sweeper
  (\<^verbatim>\<open>era/services/confirmation_sweeper.py\<close>).

  The columns \<open>risk_level\<close>, \<open>decision\<close> and \<open>status\<close> hold the values of enumerations and are typed
  as such.  A table is the list of its rows in insertion order.  The current time, a new UUID and
  a new challenge are arguments of the operations that ask for them.
\<close>

section \<open>Rows\<close>

datatype conf_status = STATUS_PENDING | STATUS_USED | STATUS_DENIED | STATUS_EXPIRED

record confirmation =
  cf_id :: string
  cf_actor_id :: "string option"
  cf_execution_scope :: "string option"
  cf_action_type :: string
  cf_action_hash :: string
  cf_risk_level :: risk_level
  cf_decision :: decision
  cf_policy_version :: int
  cf_challenge_hash :: "string option"
  cf_params_redacted :: params
  cf_created_at :: string
  cf_expires_at :: string
  cf_used_at :: "string option"
  cf_status :: conf_status

datatype approval_status = APPROVAL_GRANTED | APPROVAL_DENIED

record approval =
  ap_id :: string
  ap_confirmation_id :: string
  ap_actor_id :: string
  ap_status :: approval_status
  ap_sequence :: int
  ap_context_hash :: "string option"
  ap_created_at :: string

section \<open>Repositories\<close>

text \<open>\<open>None\<close> is the integrity error of a primary key that is already taken.\<close>

definition confirmation_create :: "confirmation \<Rightarrow> confirmation list \<Rightarrow> confirmation list option" where
  "confirmation_create c cs = (if cf_id c \<in> cf_id ` set cs then None else Some (cs @ [c]))"

definition confirmation_get :: "confirmation list \<Rightarrow> string \<Rightarrow> confirmation option" where
  "confirmation_get cs cid = find (\<lambda>c. cf_id c = cid) cs"

definition confirmation_update :: "confirmation \<Rightarrow> confirmation list \<Rightarrow> confirmation list" where
  "confirmation_update c cs = map (\<lambda>x. if cf_id x = cf_id c then c else x) cs"

definition approval_create :: "approval \<Rightarrow> approval list \<Rightarrow> approval list option" where
  "approval_create a as = (if ap_id a \<in> ap_id ` set as then None else Some (as @ [a]))"

text \<open>\<open>scalar_one_or_none\<close>: more than one row is an error.\<close>

definition approval_get_by_actor ::
  "approval list \<Rightarrow> string \<Rightarrow> string \<Rightarrow> (py_exc, approval option) result" where
  "approval_get_by_actor as cid actor =
     (case filter (\<lambda>a. ap_confirmation_id a = cid \<and> ap_actor_id a = actor) as of
        [] \<Rightarrow> Inr None
      | [a] \<Rightarrow> Inr (Some a)
      | _ \<Rightarrow> Inl (OtherExc ''MultipleResultsFound''))"

definition approval_list_for :: "approval list \<Rightarrow> string \<Rightarrow> approval list" where
  "approval_list_for as cid = sort_key ap_sequence (filter (\<lambda>a. ap_confirmation_id a = cid) as)"

definition approval_count_granted :: "approval list \<Rightarrow> string \<Rightarrow> nat" where
  "approval_count_granted as cid =
     length (filter (\<lambda>a. ap_confirmation_id a = cid \<and> ap_status a = APPROVAL_GRANTED) as)"

section \<open>The confirmation service\<close>

record conf_settings =
  confirmation_ttl_seconds :: int
  confirmation_ttl_strong_seconds :: int

fun cron_exc_name :: "cron_exc \<Rightarrow> string" where
  "cron_exc_name (CronError m) = ''CronError''"
| "cron_exc_name (ValueErr m) = ''ValueError''"
| "cron_exc_name OverflowErr = ''OverflowError''"

definition confirmation_build ::
  "(string \<Rightarrow> string) \<Rightarrow> (pyfloat \<Rightarrow> string) \<Rightarrow> catalog \<Rightarrow> conf_settings \<Rightarrow> string \<Rightarrow> string \<Rightarrow> string
     \<Rightarrow> action \<Rightarrow> risk_level \<Rightarrow> decision \<Rightarrow> int \<Rightarrow> (py_exc, confirmation \<times> string option) result" where
  "confirmation_build sha frepr cat cfg now uuid token act risk dec version =
     (let challenge = (if dec = CONFIRM_STRONG then Some token else None);
          challenge_hash = (if dec = CONFIRM_STRONG then Some (sha token) else None);
          ttl = (if dec = CONFIRM_STRONG then confirmation_ttl_strong_seconds cfg
                 else confirmation_ttl_seconds cfg);
          secret = sensitive_fields_for_action (action_type act)
            (case catalog_get cat (action_type act) of Some spec \<Rightarrow> as_secret_fields spec | None \<Rightarrow> {})
      in case add_seconds now ttl of
           Inl e \<Rightarrow> Inl (OtherExc (cron_exc_name e))
         | Inr expires \<Rightarrow> Inr
            (\<lparr>cf_id = uuid, cf_actor_id = None, cf_execution_scope = None,
              cf_action_type = action_type act,
              cf_action_hash = action_fingerprint sha frepr (action_type act) (a_params act) (Some (risk_value risk)),
              cf_risk_level = risk, cf_decision = dec, cf_policy_version = version,
              cf_challenge_hash = challenge_hash,
              cf_params_redacted = redact_params secret (a_params act),
              cf_created_at = now, cf_expires_at = expires, cf_used_at = None,
              cf_status = STATUS_PENDING\<rparr>, challenge))"

definition create_confirmation ::
  "(string \<Rightarrow> string) \<Rightarrow> (pyfloat \<Rightarrow> string) \<Rightarrow> catalog \<Rightarrow> conf_settings \<Rightarrow> string \<Rightarrow> string \<Rightarrow> string
     \<Rightarrow> action \<Rightarrow> risk_level \<Rightarrow> decision \<Rightarrow> int \<Rightarrow> confirmation list
     \<Rightarrow> (py_exc, (confirmation \<times> string option) \<times> confirmation list) result" where
  "create_confirmation sha frepr cat cfg now uuid token act risk dec version cs =
     (case confirmation_build sha frepr cat cfg now uuid token act risk dec version of
        Inl e \<Rightarrow> Inl e
      | Inr (c, challenge) \<Rightarrow>
          (case confirmation_create c cs of
             None \<Rightarrow> Inl (OtherExc ''IntegrityError'')
           | Some cs' \<Rightarrow> Inr ((c, challenge), cs')))"

text \<open>\<open>validate\<close>: \<open>None\<close> is \<open>(True, "")\<close>, \<open>Some reason\<close> is \<open>(False, reason)\<close>.\<close>

definition validate_confirmation ::
  "(string \<Rightarrow> string) \<Rightarrow> (pyfloat \<Rightarrow> string) \<Rightarrow> string \<Rightarrow> confirmation \<Rightarrow> action \<Rightarrow> string option
     \<Rightarrow> string option" where
  "validate_confirmation sha frepr now c act challenge =
     (if cf_status c \<noteq> STATUS_PENDING then Some ''already resolved''
      else if cf_used_at c \<noteq> None then Some ''already used''
      else if cf_expires_at c < now then Some ''expired''
      else if action_fingerprint sha frepr (action_type act) (a_params act) (Some (risk_value (cf_risk_level c)))
              \<noteq> cf_action_hash c
      then Some ''action does not match confirmation (hash mismatch)''
      else if cf_decision c = CONFIRM_STRONG then
        (if \<not> truthy_opt challenge \<or> cf_challenge_hash c = None then Some ''challenge required''
         else if Some (sha (the challenge)) \<noteq> cf_challenge_hash c then Some ''challenge incorrect''
         else None)
      else None)"

definition mark_status :: "string \<Rightarrow> confirmation \<Rightarrow> conf_status \<Rightarrow> confirmation list \<Rightarrow> confirmation list" where
  "mark_status now c st cs = confirmation_update (c\<lparr>cf_status := st, cf_used_at := Some now\<rparr>) cs"

section \<open>Dual approval\<close>

definition DUAL_APPROVAL_RISK_LEVELS :: "risk_level set" where
  "DUAL_APPROVAL_RISK_LEVELS = {FINANCIAL, BOOKING}"

definition requires_dual_approval :: "risk_level \<Rightarrow> bool" where
  "requires_dual_approval r = (r \<in> DUAL_APPROVAL_RISK_LEVELS)"

definition required_approvals :: "risk_level \<Rightarrow> nat" where
  "required_approvals r = (if requires_dual_approval r then 2 else 1)"

text \<open>The subclasses of \<open>DualApprovalError\<close>, and the errors of the storage layer.\<close>

datatype approval_error =
    DualApprovalError string
  | ApprovalAlreadyExists
  | ApprovalNotRequired
  | ConfirmationNotPending
  | StorageError py_exc

definition record_approval_in_session ::
  "string \<Rightarrow> string \<Rightarrow> string \<Rightarrow> string \<Rightarrow> approval_status \<Rightarrow> string option \<Rightarrow> confirmation list
     \<Rightarrow> approval list \<Rightarrow> (approval_error, approval \<times> approval list) result" where
  "record_approval_in_session now uuid cid actor status ctx_hash cs as =
     (case confirmation_get cs cid of
        None \<Rightarrow> Inl (DualApprovalError ''unknown confirmation'')
      | Some c \<Rightarrow>
          if cf_status c \<noteq> STATUS_PENDING then Inl ConfirmationNotPending
          else (case approval_get_by_actor as cid actor of
            Inl e \<Rightarrow> Inl (StorageError e)
          | Inr (Some _) \<Rightarrow> Inl ApprovalAlreadyExists
          | Inr None \<Rightarrow>
              let existing = approval_list_for as cid in
              if required_approvals (cf_risk_level c) \<le> length existing then Inl ApprovalNotRequired
              else
                let a = \<lparr>ap_id = uuid, ap_confirmation_id = cid, ap_actor_id = actor, ap_status = status,
                         ap_sequence = int (length existing) + 1, ap_context_hash = ctx_hash,
                         ap_created_at = now\<rparr>
                in (case approval_create a as of
                      None \<Rightarrow> Inl (StorageError (OtherExc ''IntegrityError''))
                    | Some as' \<Rightarrow> Inr (a, as'))))"

text \<open>\<open>(dispatchable, denied)\<close>.\<close>

definition state_in_session :: "approval list \<Rightarrow> confirmation \<Rightarrow> bool \<times> bool" where
  "state_in_session as c =
     (let approvals = approval_list_for as (cf_id c);
          denied = (\<exists>a \<in> set approvals. ap_status a = APPROVAL_DENIED);
          granted = remdups (map ap_actor_id (filter (\<lambda>a. ap_status a = APPROVAL_GRANTED) approvals));
          required = required_approvals (cf_risk_level c);
          dispatchable = (if requires_dual_approval (cf_risk_level c) then length granted = required
                          else required \<le> length granted)
      in (\<not> denied \<and> dispatchable, denied))"

definition build_context_hash :: "(string \<Rightarrow> string) \<Rightarrow> string option \<Rightarrow> string option \<Rightarrow> string" where
  "build_context_hash sha ip ua =
     sha ((case ip of None \<Rightarrow> [] | Some s \<Rightarrow> s) @ '':'' @ (case ua of None \<Rightarrow> [] | Some s \<Rightarrow> s))"

section \<open>The sweeper\<close>

definition BATCH_SIZE :: nat where "BATCH_SIZE = 100"

definition overdue :: "string \<Rightarrow> confirmation \<Rightarrow> bool" where
  "overdue now c = (cf_status c = STATUS_PENDING \<and> cf_expires_at c \<le> now)"

text \<open>The rows of the batch are marked in place; the count is returned.\<close>

fun sweep_batch :: "string \<Rightarrow> nat \<Rightarrow> confirmation list \<Rightarrow> nat \<times> confirmation list" where
  "sweep_batch now limit [] = (0, [])"
| "sweep_batch now limit (c # cs) =
     (if 0 < limit \<and> overdue now c
      then (case sweep_batch now (limit - 1) cs of (n, cs') \<Rightarrow>
              (n + 1, c\<lparr>cf_status := STATUS_EXPIRED, cf_used_at := Some now\<rparr> # cs'))
      else (case sweep_batch now limit cs of (n, cs') \<Rightarrow> (n, c # cs')))"

definition sweep :: "string \<Rightarrow> confirmation list \<Rightarrow> nat \<times> confirmation list" where
  "sweep now cs = sweep_batch now BATCH_SIZE cs"

section \<open>Tables keyed by an id\<close>

text \<open>What the services rely on of a table: rows are found under their key, a new row needs a
  fresh key, an update replaces the row of its key and no other.\<close>

locale keyed_table =
  fixes key :: "'r \<Rightarrow> 'k"
    and get :: "'t \<Rightarrow> 'k \<Rightarrow> 'r option"
    and create :: "'r \<Rightarrow> 't \<Rightarrow> 't option"
    and update :: "'r \<Rightarrow> 't \<Rightarrow> 't"
  assumes get_key: "get t k = Some r \<Longrightarrow> key r = k"
    and create_fresh: "create r t = Some t' \<Longrightarrow> get t (key r) = None"
    and get_create: "create r t = Some t' \<Longrightarrow> get t' k = (if k = key r then Some r else get t k)"
    and get_update: "get (update r t) k = (if k = key r \<and> get t k \<noteq> None then Some r else get t k)"
begin

definition evolves :: "('r \<Rightarrow> 'r \<Rightarrow> bool) \<Rightarrow> 't \<Rightarrow> 't \<Rightarrow> bool" where
  "evolves R t t' = (\<forall>k r. get t k = Some r \<longrightarrow> (\<exists>r'. get t' k = Some r' \<and> R r r'))"

lemma evolves_refl: "(\<And>r. R r r) \<Longrightarrow> evolves R t t"
  by (auto simp: evolves_def)

lemma evolves_trans:
  assumes "evolves R t t'" and "evolves R t' t''" and "\<And>a b c. R a b \<Longrightarrow> R b c \<Longrightarrow> R a c"
  shows "evolves R t t''"
  using assms by (simp add: evolves_def) metis

lemma evolves_create:
  assumes "create r t = Some t'" and "\<And>r. R r r"
  shows "evolves R t t'"
  using assms create_fresh [OF assms(1)] by (auto simp: evolves_def get_create)

lemma evolves_update:
  assumes "get t (key r) = Some r0" and "R r0 r" and "\<And>r. R r r"
  shows "evolves R t (update r t)"
  using assms by (auto simp: evolves_def get_update)

lemma update_get: "get t (key r) = Some r0 \<Longrightarrow> get (update r t) (key r) = Some r"
  by (simp add: get_update)

lemma update_other: "k \<noteq> key r \<Longrightarrow> get (update r t) k = get t k"
  by (simp add: get_update)

end

lemma find_app: "find P (xs @ ys) = (case find P xs of None \<Rightarrow> find P ys | Some x \<Rightarrow> Some x)"
  by (induction xs) auto

lemma confirmation_get_None: "confirmation_get cs k = None \<longleftrightarrow> k \<notin> cf_id ` set cs"
  by (auto simp: confirmation_get_def find_None_iff)

lemma confirmation_get_update:
  "confirmation_get (confirmation_update r cs) k
     = (if k = cf_id r \<and> confirmation_get cs k \<noteq> None then Some r else confirmation_get cs k)"
  unfolding confirmation_get_def confirmation_update_def by (induction cs) auto

interpretation conf: keyed_table cf_id confirmation_get confirmation_create confirmation_update
proof
  show "cf_id r = k" if "confirmation_get t k = Some r" for t k r
    using that by (auto simp: confirmation_get_def find_Some_iff)
  show "confirmation_get t (cf_id r) = None" if "confirmation_create r t = Some t'" for r t t'
    using that by (auto simp: confirmation_create_def confirmation_get_None split: if_splits)
  show "confirmation_get t' k = (if k = cf_id r then Some r else confirmation_get t k)"
    if "confirmation_create r t = Some t'" for r t t' k
    using that confirmation_get_None [of t "cf_id r"]
    by (auto simp: confirmation_create_def confirmation_get_def find_app split: if_splits option.splits)
  show "confirmation_get (confirmation_update r t) k
      = (if k = cf_id r \<and> confirmation_get t k \<noteq> None then Some r else confirmation_get t k)" for r t k
    by (rule confirmation_get_update)
qed

text \<open>A confirmation moves from pending to a final status and keeps everything it is bound to.\<close>

definition same_binding :: "confirmation \<Rightarrow> confirmation \<Rightarrow> bool" where
  "same_binding c c' =
     (cf_id c' = cf_id c \<and> cf_actor_id c' = cf_actor_id c \<and> cf_action_type c' = cf_action_type c
      \<and> cf_action_hash c' = cf_action_hash c \<and> cf_risk_level c' = cf_risk_level c
      \<and> cf_decision c' = cf_decision c \<and> cf_policy_version c' = cf_policy_version c
      \<and> cf_challenge_hash c' = cf_challenge_hash c \<and> cf_expires_at c' = cf_expires_at c
      \<and> (cf_status c \<noteq> STATUS_PENDING \<longrightarrow> cf_status c' \<noteq> STATUS_PENDING))"

lemma same_binding_refl [simp]: "same_binding c c"
  by (simp add: same_binding_def)

lemma same_binding_trans: "same_binding a b \<Longrightarrow> same_binding b c \<Longrightarrow> same_binding a c"
  by (auto simp: same_binding_def)

abbreviation conf_evolves :: "confirmation list \<Rightarrow> confirmation list \<Rightarrow> bool" where
  "conf_evolves \<equiv> conf.evolves same_binding"

lemma mark_status_get:
  assumes "confirmation_get cs cid = Some c"
  shows "confirmation_get (mark_status now c st cs) k
    = (if k = cid then Some (c\<lparr>cf_status := st, cf_used_at := Some now\<rparr>) else confirmation_get cs k)"
  using assms conf.get_key [OF assms] by (simp add: mark_status_def confirmation_get_update)

lemma mark_status_evolves:
  assumes "confirmation_get cs cid = Some c" and "st \<noteq> STATUS_PENDING"
  shows "conf_evolves cs (mark_status now c st cs)"
  unfolding mark_status_def
  by (rule conf.evolves_update [of _ _ c]) (use assms conf.get_key [OF assms(1)] in \<open>auto simp: same_binding_def\<close>)

section \<open>The sweeper\<close>

lemma sweep_batch_rows:
  "sweep_batch now limit cs = (n, cs') \<Longrightarrow>
   n \<le> limit
   \<and> list_all2 (\<lambda>c c'. c' = c \<or> (overdue now c \<and> c' = c\<lparr>cf_status := STATUS_EXPIRED, cf_used_at := Some now\<rparr>)) cs cs'
   \<and> length (filter (overdue now) cs) = n + length (filter (overdue now) cs')
   \<and> (n < limit \<longrightarrow> filter (overdue now) cs' = [])"
proof (induction now limit cs arbitrary: n cs' rule: sweep_batch.induct)
  case (2 now limit c cs)
  show ?case
  proof (cases "0 < limit \<and> overdue now c")
    case True
    with 2(3) obtain m ds where "sweep_batch now (limit - 1) cs = (m, ds)" "n = m + 1"
        "cs' = c\<lparr>cf_status := STATUS_EXPIRED, cf_used_at := Some now\<rparr> # ds"
      by (auto split: prod.splits)
    then show ?thesis using 2(1) [OF True, of m ds] True by (auto simp: overdue_def)
  next
    case False
    with 2(3) obtain ds where "sweep_batch now limit cs = (n, ds)" "cs' = c # ds"
      by (auto split: prod.splits)
    then show ?thesis using 2(2) [OF False, of n ds] False by auto
  qed
qed simp

lemma list_all2_get:
  assumes "list_all2 R cs cs'" and "\<And>c c'. R c c' \<Longrightarrow> cf_id c' = cf_id c"
  shows "(case confirmation_get cs k of None \<Rightarrow> confirmation_get cs' k = None
    | Some c \<Rightarrow> (\<exists>c'. confirmation_get cs' k = Some c' \<and> R c c'))"
  using assms by (induction rule: list_all2_induct) (auto simp: confirmation_get_def split: option.splits)

lemma sweep_evolves: "conf_evolves cs (snd (sweep now cs))"
proof -
  obtain n cs' where sw: "sweep_batch now BATCH_SIZE cs = (n, cs')" by fastforce
  have "list_all2 same_binding cs cs'"
    using sweep_batch_rows [OF sw] by (auto simp: same_binding_def overdue_def elim!: list_all2_mono)
  then have "case confirmation_get cs k of None \<Rightarrow> confirmation_get cs' k = None
    | Some c \<Rightarrow> (\<exists>c'. confirmation_get cs' k = Some c' \<and> same_binding c c')" for k
    by (rule list_all2_get) (simp add: same_binding_def)
  then show ?thesis
    unfolding conf.evolves_def sweep_def sw by (force split: option.splits)
qed

lemma sweep_overdue:
  "length (filter (overdue now) (snd (sweep now cs))) = length (filter (overdue now) cs) - BATCH_SIZE"
proof -
  obtain n cs' where sw: "sweep_batch now BATCH_SIZE cs = (n, cs')" by fastforce
  have "n = BATCH_SIZE \<or> filter (overdue now) cs' = []"
    using sweep_batch_rows [OF sw] by linarith
  then show ?thesis
    using sweep_batch_rows [OF sw] by (auto simp: sweep_def sw)
qed

lemma sweep_iterate_overdue:
  "length (filter (overdue now) (((\<lambda>cs. snd (sweep now cs)) ^^ n) cs))
     = length (filter (overdue now) cs) - n * BATCH_SIZE"
  by (induction n) (simp_all add: sweep_overdue)

text \<open>C37. The sweeper drains the backlog: with at most \<open>n * 100\<close> overdue pending confirmations in the
  table, \<open>n\<close> ticks leave none, however many there are; one tick touches at most 100 rows, only rows that
  were pending and past their expiry, and returns how many it expired.\<close>
theorem sweep_drains_backlog:
  assumes "length (filter (overdue now) cs) \<le> n * BATCH_SIZE"
  shows "filter (overdue now) (((\<lambda>cs. snd (sweep now cs)) ^^ n) cs) = []
    \<and> fst (sweep now cs) \<le> 100
    \<and> fst (sweep now cs) + length (filter (overdue now) (snd (sweep now cs))) = length (filter (overdue now) cs)
    \<and> list_all2 (\<lambda>c c'. c' = c \<or> (cf_status c = STATUS_PENDING \<and> cf_expires_at c \<le> now
         \<and> c' = c\<lparr>cf_status := STATUS_EXPIRED, cf_used_at := Some now\<rparr>)) cs (snd (sweep now cs))"
proof -
  obtain k cs' where sw: "sweep_batch now BATCH_SIZE cs = (k, cs')" by fastforce
  have "filter (overdue now) (((\<lambda>cs. snd (sweep now cs)) ^^ n) cs) = []"
    using sweep_iterate_overdue [of now n cs] assms by simp
  moreover have "sweep now cs = (k, cs')" by (simp add: sweep_def sw)
  ultimately show ?thesis
    using sweep_batch_rows [OF sw] by (auto simp: BATCH_SIZE_def overdue_def)
qed

definition pending_at :: "string \<Rightarrow> string \<Rightarrow> confirmation" where
  "pending_at cid expires =
     \<lparr>cf_id = cid, cf_actor_id = Some ''alice'', cf_execution_scope = None, cf_action_type = ''email.send'',
      cf_action_hash = ''h'', cf_risk_level = COMMUNICATION, cf_decision = CONFIRM, cf_policy_version = 1,
      cf_challenge_hash = None, cf_params_redacted = [], cf_created_at = ''2024'', cf_expires_at = expires,
      cf_used_at = None, cf_status = STATUS_PENDING\<rparr>"

lemma sweep_drains_backlog_witness:
  "filter (overdue ''2025'') (((\<lambda>cs. snd (sweep ''2025'' cs)) ^^ 1)
     [pending_at ''a'' ''2024-06'', pending_at ''b'' ''2026''])  = []
   \<and> fst (sweep ''2025'' [pending_at ''a'' ''2024-06'', pending_at ''b'' ''2026'']) = 1"
proof -
  have "length (filter (overdue ''2025'') [pending_at ''a'' ''2024-06'', pending_at ''b'' ''2026'']) \<le> 1 * BATCH_SIZE"
    by code_simp
  note drains = sweep_drains_backlog [OF this]
  have "fst (sweep ''2025'' [pending_at ''a'' ''2024-06'', pending_at ''b'' ''2026'']) = 1" by code_simp
  then show ?thesis using drains by blast
qed

section \<open>Approvals\<close>

abbreviation approvals_of :: "approval list \<Rightarrow> string \<Rightarrow> approval list" where
  "approvals_of as cid \<equiv> filter (\<lambda>a. ap_confirmation_id a = cid) as"

text \<open>The table of approvals: every actor decides at most once per confirmation, the sequence
  numbers count from one, and there are never more decisions than the confirmation needs.\<close>

definition approvals_inv :: "confirmation list \<Rightarrow> approval list \<Rightarrow> bool" where
  "approvals_inv cs as =
     (\<forall>cid. distinct (map ap_actor_id (approvals_of as cid))
        \<and> map ap_sequence (approvals_of as cid) = map int [1..<Suc (length (approvals_of as cid))]
        \<and> (approvals_of as cid \<noteq> [] \<longrightarrow>
             (\<exists>c. confirmation_get cs cid = Some c
                \<and> length (approvals_of as cid) \<le> required_approvals (cf_risk_level c))))"

lemma approvals_inv_evolves:
  assumes "approvals_inv cs as" and "conf_evolves cs cs'"
  shows "approvals_inv cs' as"
  using assms unfolding approvals_inv_def conf.evolves_def same_binding_def by metis

lemma no_approval_by_actor:
  "approval_get_by_actor as cid actor = Inr None \<longleftrightarrow> actor \<notin> ap_actor_id ` set (approvals_of as cid)"
proof -
  have "filter (\<lambda>a. ap_confirmation_id a = cid \<and> ap_actor_id a = actor) as = [] \<longleftrightarrow>
      actor \<notin> ap_actor_id ` set (approvals_of as cid)"
    by (auto simp: filter_empty_conv)
  then show ?thesis by (auto simp: approval_get_by_actor_def split: list.splits)
qed

lemma record_approval_Inr:
  assumes "record_approval_in_session now uuid cid actor status ctx_hash cs as = Inr (a, as')"
  obtains c where "confirmation_get cs cid = Some c" "cf_status c = STATUS_PENDING"
    "actor \<notin> ap_actor_id ` set (approvals_of as cid)"
    "length (approvals_of as cid) < required_approvals (cf_risk_level c)" "as' = as @ [a]"
    "ap_confirmation_id a = cid" "ap_actor_id a = actor" "ap_status a = status"
    "ap_sequence a = int (length (approvals_of as cid)) + 1"
  using assms
  by (auto simp: record_approval_in_session_def Let_def approval_create_def approval_list_for_def
      no_approval_by_actor not_le split: option.splits sum.splits if_splits)

lemma record_approval_inv:
  assumes inv: "approvals_inv cs as"
    and rec: "record_approval_in_session now uuid cid actor status ctx_hash cs as = Inr (a, as')"
  shows "approvals_inv cs as'"
proof -
  from rec obtain c where c: "confirmation_get cs cid = Some c"
      "actor \<notin> ap_actor_id ` set (approvals_of as cid)"
      "length (approvals_of as cid) < required_approvals (cf_risk_level c)" "as' = as @ [a]"
      "ap_confirmation_id a = cid" "ap_actor_id a = actor"
      "ap_sequence a = int (length (approvals_of as cid)) + 1"
    by (rule record_approval_Inr)
  show ?thesis
    unfolding approvals_inv_def
  proof
    fix k
    have old: "distinct (map ap_actor_id (approvals_of as k))"
        "map ap_sequence (approvals_of as k) = map int [1..<Suc (length (approvals_of as k))]"
        "approvals_of as k \<noteq> [] \<Longrightarrow> \<exists>c. confirmation_get cs k = Some c
           \<and> length (approvals_of as k) \<le> required_approvals (cf_risk_level c)"
      using inv by (auto simp: approvals_inv_def)
    show "distinct (map ap_actor_id (approvals_of as' k))
        \<and> map ap_sequence (approvals_of as' k) = map int [1..<Suc (length (approvals_of as' k))]
        \<and> (approvals_of as' k \<noteq> [] \<longrightarrow> (\<exists>c. confirmation_get cs k = Some c
            \<and> length (approvals_of as' k) \<le> required_approvals (cf_risk_level c)))"
      using old c by (cases "k = cid") auto
  qed
qed

lemma remdups_two: "length (remdups xs) = 2 \<longleftrightarrow> (\<exists>a b. a \<noteq> b \<and> set xs = {a, b})"
proof -
  have "length (remdups xs) = card (set xs)" by (simp add: length_remdups_card_conv)
  then show ?thesis by (simp add: card_2_iff) blast
qed

text \<open>C9. A payment or booking is released by exactly two people: for a confirmation of risk
  \<open>FINANCIAL\<close> or \<open>BOOKING\<close> the dual-approval state is dispatchable if and only if no recorded decision
  is a denial and the actors who granted are two distinct ones.\<close>
theorem dual_approval_two_actors:
  assumes "requires_dual_approval (cf_risk_level c)"
  shows "fst (state_in_session as c) \<longleftrightarrow>
    (\<forall>a \<in> set as. ap_confirmation_id a = cf_id c \<longrightarrow> ap_status a = APPROVAL_GRANTED)
    \<and> (\<exists>x y. x \<noteq> y \<and> {ap_actor_id a | a. a \<in> set as \<and> ap_confirmation_id a = cf_id c} = {x, y})"
proof -
  let ?all = "approval_list_for as (cf_id c)"
  have all: "set ?all = {a \<in> set as. ap_confirmation_id a = cf_id c}" by (simp add: approval_list_for_def)
  have st: "ap_status a \<noteq> APPROVAL_DENIED \<longleftrightarrow> ap_status a = APPROVAL_GRANTED" for a
    by (cases "ap_status a") auto
  have "fst (state_in_session as c) \<longleftrightarrow> (\<forall>a \<in> set ?all. ap_status a = APPROVAL_GRANTED)
      \<and> length (remdups (map ap_actor_id (filter (\<lambda>a. ap_status a = APPROVAL_GRANTED) ?all))) = 2"
    using assms by (auto simp: state_in_session_def Let_def required_approvals_def st)
  also have "\<dots> \<longleftrightarrow> (\<forall>a \<in> set ?all. ap_status a = APPROVAL_GRANTED)
      \<and> (\<exists>x y. x \<noteq> y \<and> ap_actor_id ` set ?all = {x, y})"
    by (rule conj_cong [OF refl]) (simp add: remdups_two filter_True)
  finally have state: "fst (state_in_session as c) \<longleftrightarrow> (\<forall>a \<in> set ?all. ap_status a = APPROVAL_GRANTED)
      \<and> (\<exists>x y. x \<noteq> y \<and> ap_actor_id ` set ?all = {x, y})" .
  have actors: "ap_actor_id ` set ?all = {ap_actor_id a | a. a \<in> set as \<and> ap_confirmation_id a = cf_id c}"
    unfolding all by auto
  have granted: "(\<forall>a \<in> set ?all. ap_status a = APPROVAL_GRANTED)
      \<longleftrightarrow> (\<forall>a \<in> set as. ap_confirmation_id a = cf_id c \<longrightarrow> ap_status a = APPROVAL_GRANTED)"
    unfolding all by auto
  show ?thesis unfolding state actors granted by (rule refl)
qed

definition grant :: "string \<Rightarrow> string \<Rightarrow> int \<Rightarrow> approval" where
  "grant cid actor n = \<lparr>ap_id = actor, ap_confirmation_id = cid, ap_actor_id = actor, ap_status = APPROVAL_GRANTED,
     ap_sequence = n, ap_context_hash = None, ap_created_at = ''2024''\<rparr>"

lemma dual_approval_two_actors_witness:
  "\<not> fst (state_in_session [grant ''a'' ''alice'' 1] ((pending_at ''a'' ''2026'')\<lparr>cf_risk_level := FINANCIAL\<rparr>))"
proof -
  have "requires_dual_approval (cf_risk_level ((pending_at ''a'' ''2026'')\<lparr>cf_risk_level := FINANCIAL\<rparr>))"
    by code_simp
  from dual_approval_two_actors [OF this, of "[grant ''a'' ''alice'' 1]"]
  show ?thesis by (auto simp: grant_def pending_at_def doubleton_eq_iff)
qed

text \<open>The table of approvals keeps its invariant: every recorded decision is the only one of its
  actor on that confirmation, the sequence numbers of a confirmation count 1, 2, ..., and no
  confirmation collects more decisions than it needs; recording a further decision keeps all of this
  and adds exactly one row, and it is only possible on a pending confirmation.\<close>
theorem record_approval_keeps_invariant:
  assumes "approvals_inv cs as"
    and "record_approval_in_session now uuid cid actor status ctx_hash cs as = Inr (a, as')"
  shows "approvals_inv cs as' \<and> as' = as @ [a] \<and> ap_actor_id a = actor \<and> ap_status a = status
    \<and> (\<exists>c. confirmation_get cs cid = Some c \<and> cf_status c = STATUS_PENDING
         \<and> length (approvals_of as' cid) \<le> required_approvals (cf_risk_level c))"
proof -
  from assms(2) obtain c where c: "confirmation_get cs cid = Some c" "cf_status c = STATUS_PENDING"
      "length (approvals_of as cid) < required_approvals (cf_risk_level c)" "as' = as @ [a]"
      "ap_confirmation_id a = cid" "ap_actor_id a = actor" "ap_status a = status"
    by (rule record_approval_Inr)
  then show ?thesis using record_approval_inv [OF assms] by simp
qed

lemma record_approval_keeps_invariant_witness:
  "\<exists>a. record_approval_in_session ''2025'' ''u1'' ''a'' ''bob'' APPROVAL_GRANTED None
      [(pending_at ''a'' ''2026'')\<lparr>cf_risk_level := BOOKING\<rparr>] [grant ''a'' ''alice'' 1]
        = Inr (a, [grant ''a'' ''alice'' 1, a])
    \<and> approvals_inv [(pending_at ''a'' ''2026'')\<lparr>cf_risk_level := BOOKING\<rparr>] [grant ''a'' ''alice'' 1, a]"
proof -
  let ?cs = "[(pending_at ''a'' ''2026'')\<lparr>cf_risk_level := BOOKING\<rparr>]"
  have inv: "approvals_inv ?cs [grant ''a'' ''alice'' 1]"
    by (simp add: approvals_inv_def grant_def pending_at_def confirmation_get_def required_approvals_def
        requires_dual_approval_def DUAL_APPROVAL_RISK_LEVELS_def)
  have "record_approval_in_session ''2025'' ''u1'' ''a'' ''bob'' APPROVAL_GRANTED None ?cs [grant ''a'' ''alice'' 1]
      = Inr ((grant ''a'' ''bob'' 2)\<lparr>ap_id := ''u1'', ap_created_at := ''2025''\<rparr>,
             [grant ''a'' ''alice'' 1, (grant ''a'' ''bob'' 2)\<lparr>ap_id := ''u1'', ap_created_at := ''2025''\<rparr>])"
    by code_simp
  then show ?thesis using record_approval_keeps_invariant [OF inv] by blast
qed

end
