(* ===== verification/Access.thy ===== *)
theory Access
  imports Catalog Confirmation
begin

text \<open>
  Model of the outer gate: roles (\<^verbatim>\<open>era/security/rbac.py\<close>), the rows of users and API keys
  (\<^verbatim>\<open>era/models/user.py\<close>, \<open>SQLiteUserRepo\<close> and \<open>SQLiteApiKeyRepo\<close> of \<^verbatim>\<open>era/repositories/sqlite.py\<close>) and
  \<^verbatim>\<open>era/services/auth_service.py\<close>.

  Every operation is one transaction.  The fresh id, the fresh secret and the time are arguments; SHA-256
  of a text is the parameter \<open>sha\<close>.  A unique constraint that fails raises \<open>IntegrityError\<close> and changes
  nothing.  Credential references of users are left out, as are exceptions' wordings.
\<close>

section \<open>Roles\<close>

datatype role = ADMIN | USER

definition ALL_PERMISSIONS :: "string list" where
  "ALL_PERMISSIONS = [''policy.read'', ''policy.write'', ''audit.read'', ''providers.read'', ''actions.evaluate'', ''actions.execute'',
     ''actions.confirm'', ''users.manage'', ''api_keys.manage'', ''agent.run'', ''vault.manage'', ''jobs.read'', ''schedules.manage'',
     ''schedules.read'', ''workflow.schedule'', ''workflow.templates.manage'', ''workflow.review'', ''workflow.read'',
     ''operator.review'']"

fun role_permissions :: "role \<Rightarrow> string list" where
  "role_permissions ADMIN = ALL_PERMISSIONS"
| "role_permissions USER = [''policy.read'', ''providers.read'', ''actions.evaluate'', ''actions.execute'', ''actions.confirm'',
     ''agent.run'', ''jobs.read'', ''schedules.manage'', ''schedules.read'', ''workflow.schedule'', ''workflow.read'']"

definition ALL_ACTION_DOMAINS :: "string list" where
  "ALL_ACTION_DOMAINS = [''core'', ''web'', ''browser'', ''email'', ''whatsapp'', ''booking'', ''file'', ''device'', ''github'', ''code'', ''image'']"

fun action_domains :: "role \<Rightarrow> string list" where
  "action_domains ADMIN = ALL_ACTION_DOMAINS"
| "action_domains USER = [''core'', ''web'', ''browser'', ''email'', ''whatsapp'', ''booking'', ''file'', ''github'', ''code'', ''image'']"

definition coerce_role :: "string \<Rightarrow> role option" where
  "coerce_role s = (if s = ''admin'' then Some ADMIN else if s = ''user'' then Some USER else None)"

definition role_has_permission :: "string \<Rightarrow> string \<Rightarrow> bool" where
  "role_has_permission r p = (case coerce_role r of None \<Rightarrow> False | Some x \<Rightarrow> p \<in> set (role_permissions x))"

definition role_domain_allowed :: "string \<Rightarrow> string option \<Rightarrow> bool" where
  "role_domain_allowed r domain = (case coerce_role r of None \<Rightarrow> False
     | Some x \<Rightarrow> (case domain of None \<Rightarrow> False | Some d \<Rightarrow> d \<noteq> [] \<and> d \<in> set (action_domains x)))"

text \<open>The guard of an agent run, and of the tools its brain may see.\<close>

definition domain_guard :: "catalog \<Rightarrow> string \<Rightarrow> string \<Rightarrow> bool" where
  "domain_guard cat r a = (case catalog_get cat a of None \<Rightarrow> False
     | Some spec \<Rightarrow> as_risk spec \<noteq> FORBIDDEN \<and> role_domain_allowed r (Some (as_domain spec)))"

section \<open>Users and keys\<close>

record user =
  ur_id :: string
  ur_username :: string
  ur_display :: "string option"
  ur_role :: string
  ur_disabled :: bool

record api_key =
  ak_id :: string
  ak_user :: string
  ak_name :: string
  ak_hash :: string
  ak_prefix :: string
  ak_last_used :: "string option"
  ak_revoked :: "string option"

record accounts =
  ac_users :: "user list"
  ac_keys :: "api_key list"

definition user_get :: "user list \<Rightarrow> string \<Rightarrow> user option" where
  "user_get us i = find (\<lambda>u. ur_id u = i) us"

definition user_by_name :: "user list \<Rightarrow> string \<Rightarrow> user option" where
  "user_by_name us n = find (\<lambda>u. ur_username u = n) us"

definition user_create :: "user \<Rightarrow> user list \<Rightarrow> user list option" where
  "user_create u us = (if user_get us (ur_id u) \<noteq> None \<or> user_by_name us (ur_username u) \<noteq> None then None else Some (us @ [u]))"

definition user_update :: "user \<Rightarrow> user list \<Rightarrow> user list" where
  "user_update u us = map (\<lambda>x. if ur_id x = ur_id u then u else x) us"

definition key_get :: "api_key list \<Rightarrow> string \<Rightarrow> api_key option" where
  "key_get ks i = find (\<lambda>k. ak_id k = i) ks"

definition key_by_hash :: "api_key list \<Rightarrow> string \<Rightarrow> api_key option" where
  "key_by_hash ks h = find (\<lambda>k. ak_hash k = h) ks"

definition key_create :: "api_key \<Rightarrow> api_key list \<Rightarrow> api_key list option" where
  "key_create k ks = (if key_get ks (ak_id k) \<noteq> None \<or> key_by_hash ks (ak_hash k) \<noteq> None then None else Some (ks @ [k]))"

definition key_update :: "api_key \<Rightarrow> api_key list \<Rightarrow> api_key list" where
  "key_update k ks = map (\<lambda>x. if ak_id x = ak_id k then k else x) ks"

section \<open>The service\<close>

type_synonym 'a auth_op = "accounts \<Rightarrow> (py_exc, 'a) result \<times> accounts"

definition authentication_error :: py_exc where "authentication_error = OtherExc ''AuthenticationError''"
definition authorization_error :: py_exc where "authorization_error = OtherExc ''AuthorizationError''"
definition value_error :: py_exc where "value_error = OtherExc ''ValueError''"
definition integrity_error :: py_exc where "integrity_error = OtherExc ''IntegrityError''"

definition add_user :: "user \<Rightarrow> user auth_op" where
  "add_user u st = (case user_create u (ac_users st) of
       None \<Rightarrow> (Inl integrity_error, st)
     | Some us \<Rightarrow> (Inr u, st\<lparr>ac_users := us\<rparr>))"

definition bootstrap_admin :: "string \<Rightarrow> unit auth_op" where
  "bootstrap_admin uuid st =
     (if user_by_name (ac_users st) ''admin'' \<noteq> None then (Inr (), st)
      else case add_user \<lparr>ur_id = uuid, ur_username = ''admin'', ur_display = Some ''System Administrator'', ur_role = ''admin'',
             ur_disabled = False\<rparr> st of (Inl e, st') \<Rightarrow> (Inl e, st') | (Inr _, st') \<Rightarrow> (Inr (), st'))"

definition create_user :: "string \<Rightarrow> string \<Rightarrow> string \<Rightarrow> string option \<Rightarrow> bool \<Rightarrow> user auth_op" where
  "create_user uuid username r display disabled st =
     (if \<not> is_ok (validate_name username) then (Inl value_error, st)
      else if (case display of None \<Rightarrow> False | Some d \<Rightarrow> \<not> is_ok (validate_name d)) then (Inl value_error, st)
      else if coerce_role r = None then (Inl value_error, st)
      else if user_by_name (ac_users st) username \<noteq> None then (Inl value_error, st)
      else add_user \<lparr>ur_id = uuid, ur_username = username, ur_display = display, ur_role = r, ur_disabled = disabled\<rparr> st)"

definition set_user_disabled :: "string \<Rightarrow> bool \<Rightarrow> user option auth_op" where
  "set_user_disabled i disabled st = (case user_get (ac_users st) i of
       None \<Rightarrow> (Inr None, st)
     | Some u \<Rightarrow> let u' = u\<lparr>ur_disabled := disabled\<rparr> in (Inr (Some u'), st\<lparr>ac_users := user_update u' (ac_users st)\<rparr>))"

definition KEY_PREFIX :: string where "KEY_PREFIX = ''era_''"

definition create_api_key :: "(string \<Rightarrow> string) \<Rightarrow> string \<Rightarrow> string \<Rightarrow> string \<Rightarrow> string \<Rightarrow> (api_key \<times> string) auth_op" where
  "create_api_key sha uuid secret user_id name st =
     (if \<not> is_ok (validate_name name) then (Inl value_error, st)
      else if user_get (ac_users st) user_id = None then (Inl value_error, st)
      else let raw = KEY_PREFIX @ secret;
               k = \<lparr>ak_id = uuid, ak_user = user_id, ak_name = name, ak_hash = sha raw, ak_prefix = take 10 secret,
                    ak_last_used = None, ak_revoked = None\<rparr>
           in case key_create k (ac_keys st) of
                None \<Rightarrow> (Inl integrity_error, st)
              | Some ks \<Rightarrow> (Inr (k, raw), st\<lparr>ac_keys := ks\<rparr>))"

definition revoke_key :: "string \<Rightarrow> string \<Rightarrow> api_key option auth_op" where
  "revoke_key i now st = (case key_get (ac_keys st) i of
       None \<Rightarrow> (Inr None, st)
     | Some k \<Rightarrow> if ak_revoked k \<noteq> None then (Inr (Some k), st)
                 else let k' = k\<lparr>ak_revoked := Some now\<rparr> in (Inr (Some k'), st\<lparr>ac_keys := key_update k' (ac_keys st)\<rparr>))"

definition authenticate_token :: "(string \<Rightarrow> string) \<Rightarrow> string option \<Rightarrow> string \<Rightarrow> (user \<times> api_key) auth_op" where
  "authenticate_token sha token now st = (case token of
       None \<Rightarrow> (Inl authentication_error, st)
     | Some tok \<Rightarrow>
         if tok = [] then (Inl authentication_error, st)
         else case key_by_hash (ac_keys st) (sha tok) of
           None \<Rightarrow> (Inl authentication_error, st)
         | Some k \<Rightarrow>
             if ak_revoked k \<noteq> None then (Inl authentication_error, st)
             else case user_get (ac_users st) (ak_user k) of
               None \<Rightarrow> (Inl authentication_error, st)
             | Some u \<Rightarrow>
                 if ur_disabled u then (Inl authentication_error, st)
                 else let k' = k\<lparr>ak_last_used := Some now\<rparr>
                      in (Inr (u, k'), st\<lparr>ac_keys := key_update k' (ac_keys st)\<rparr>))"

definition require_permission :: "user option \<Rightarrow> string \<Rightarrow> (py_exc, unit) result" where
  "require_permission u p = (case u of None \<Rightarrow> Inl authorization_error
     | Some u \<Rightarrow> if ur_disabled u \<or> \<not> role_has_permission (ur_role u) p then Inl authorization_error else Inr ())"

definition authorize_action :: "catalog \<Rightarrow> user option \<Rightarrow> string \<Rightarrow> (py_exc, unit) result" where
  "authorize_action cat u a = (case u of None \<Rightarrow> Inl authorization_error
     | Some u \<Rightarrow> if ur_disabled u \<or> \<not> role_domain_allowed (ur_role u) (map_option as_domain (catalog_get cat a))
                then Inl authorization_error else Inr ())"

definition is_admin :: "user \<Rightarrow> bool" where
  "is_admin u = role_has_permission (ur_role u) ''users.manage''"

section \<open>The tables\<close>

interpretation users: keyed_table ur_id user_get user_create user_update
proof
  show "ur_id r = k" if "user_get t k = Some r" for t k r using that by (auto simp: user_get_def find_Some_iff)
  show "user_get t (ur_id r) = None" if "user_create r t = Some t'" for r t t'
    using that by (auto simp: user_create_def split: if_splits)
  show "user_get t' k = (if k = ur_id r then Some r else user_get t k)" if "user_create r t = Some t'" for r t t' k
    using that by (auto simp: user_create_def user_get_def find_app split: if_splits option.splits)
  show "user_get (user_update r t) k = (if k = ur_id r \<and> user_get t k \<noteq> None then Some r else user_get t k)" for r t k
    unfolding user_get_def user_update_def by (induction t) auto
qed

interpretation keys: keyed_table ak_id key_get key_create key_update
proof
  show "ak_id r = k" if "key_get t k = Some r" for t k r using that by (auto simp: key_get_def find_Some_iff)
  show "key_get t (ak_id r) = None" if "key_create r t = Some t'" for r t t'
    using that by (auto simp: key_create_def split: if_splits)
  show "key_get t' k = (if k = ak_id r then Some r else key_get t k)" if "key_create r t = Some t'" for r t t' k
    using that by (auto simp: key_create_def key_get_def find_app split: if_splits option.splits)
  show "key_get (key_update r t) k = (if k = ak_id r \<and> key_get t k \<noteq> None then Some r else key_get t k)" for r t k
    unfolding key_get_def key_update_def by (induction t) auto
qed

section \<open>Histories\<close>

text \<open>
  The states that the operations lead to, with the keys issued so far (the raw key, its id and its user) and the
  ids revoked.
\<close>

inductive accounts_reached :: "(string \<Rightarrow> string) \<Rightarrow> (string \<times> string \<times> string) list \<Rightarrow> string list \<Rightarrow> accounts \<Rightarrow> bool"
  for sha where
  start: "accounts_reached sha [] [] \<lparr>ac_users = [], ac_keys = []\<rparr>"
| bootstrap: "accounts_reached sha I R st \<Longrightarrow> bootstrap_admin uuid st = (r, st') \<Longrightarrow> accounts_reached sha I R st'"
| new_user: "accounts_reached sha I R st \<Longrightarrow> create_user uuid name rl display disabled st = (u, st') \<Longrightarrow> accounts_reached sha I R st'"
| disable: "accounts_reached sha I R st \<Longrightarrow> set_user_disabled i b st = (u, st') \<Longrightarrow> accounts_reached sha I R st'"
| issue: "accounts_reached sha I R st \<Longrightarrow> create_api_key sha uuid secret i name st = (Inr (k, raw), st')
    \<Longrightarrow> accounts_reached sha (I @ [(raw, ak_id k, i)]) R st'"
| revoke: "accounts_reached sha I R st \<Longrightarrow> revoke_key i now st = (Inr (Some k), st') \<Longrightarrow> accounts_reached sha I (R @ [i]) st'"
| use: "accounts_reached sha I R st \<Longrightarrow> authenticate_token sha token now st = (p, st') \<Longrightarrow> accounts_reached sha I R st'"

definition key_matches :: "(string \<Rightarrow> string) \<Rightarrow> string list \<Rightarrow> api_key \<Rightarrow> string \<times> string \<times> string \<Rightarrow> bool" where
  "key_matches sha R k issued = (case issued of (raw, i, u) \<Rightarrow>
     ak_id k = i \<and> ak_user k = u \<and> ak_hash k = sha raw \<and> (ak_revoked k \<noteq> None \<longleftrightarrow> i \<in> set R))"

definition keys_issued :: "(string \<Rightarrow> string) \<Rightarrow> (string \<times> string \<times> string) list \<Rightarrow> string list \<Rightarrow> api_key list \<Rightarrow> bool" where
  "keys_issued sha I R ks = (list_all2 (key_matches sha R) ks I \<and> distinct (map ak_id ks) \<and> distinct (map ak_hash ks)
     \<and> set R \<subseteq> ak_id ` set ks \<and> (\<forall>(raw, i, u) \<in> set I. raw \<noteq> []))"

lemma key_get_SomeD: "key_get ks i = Some k \<Longrightarrow> k \<in> set ks \<and> ak_id k = i"
  by (auto simp: key_get_def find_Some_iff)

lemma keys_issued_update:
  assumes "keys_issued sha I R ks" and "k \<in> set ks" and "ak_id k' = ak_id k" and "ak_user k' = ak_user k" and "ak_hash k' = ak_hash k"
    and "ak_revoked k' \<noteq> None \<longleftrightarrow> ak_revoked k \<noteq> None \<or> new = [ak_id k]" and "new = [] \<or> new = [ak_id k]"
  shows "keys_issued sha I (R @ new) (key_update k' ks)"
proof -
  have only: "x = k" if "x \<in> set ks" "ak_id x = ak_id k" for x
    using assms(1,2) that by (auto simp: keys_issued_def distinct_map inj_on_def)
  have ids: "map ak_id (key_update k' ks) = map ak_id ks" by (auto simp: key_update_def)
  have hashes: "map ak_hash (key_update k' ks) = map ak_hash ks" using only assms(3,5) by (auto simp: key_update_def)
  have "list_all2 (key_matches sha (R @ new)) (key_update k' ks) I"
    unfolding key_update_def list.rel_map
  proof (rule list.rel_mono_strong)
    show "list_all2 (key_matches sha R) ks I" using assms(1) by (simp add: keys_issued_def)
    show "key_matches sha (R @ new) (if ak_id x = ak_id k' then k' else x) y" if "x \<in> set ks" "key_matches sha R x y" for x y
      using that only [OF that(1)] assms(3-7) by (cases y) (auto simp: key_matches_def)
  qed
  moreover have "set (R @ new) \<subseteq> ak_id ` set (key_update k' ks)"
    using assms(1,2,7) arg_cong [OF ids, of set] by (auto simp: keys_issued_def)
  ultimately show ?thesis using assms(1) ids hashes by (simp add: keys_issued_def)
qed

lemma keys_of_users [simp]:
  "bootstrap_admin uuid st = (r, st') \<Longrightarrow> ac_keys st' = ac_keys st"
  "create_user uuid name rl display disabled st = (u, st') \<Longrightarrow> ac_keys st' = ac_keys st"
  "set_user_disabled i b st = (v, st') \<Longrightarrow> ac_keys st' = ac_keys st"
  by (auto simp: bootstrap_admin_def create_user_def add_user_def set_user_disabled_def Let_def split: if_splits option.splits)

lemma reached_keys: "accounts_reached sha I R st \<Longrightarrow> keys_issued sha I R (ac_keys st)"
proof (induction rule: accounts_reached.induct)
  case start
  then show ?case by (simp add: keys_issued_def)
next
  case (issue I R st uuid secret i name k raw st')
  have k: "key_create k (ac_keys st) = Some (ac_keys st')" "raw \<noteq> []" "ak_hash k = sha raw" "ak_user k = i" "ak_revoked k = None"
    using issue(2) by (auto simp: create_api_key_def Let_def KEY_PREFIX_def split: if_splits option.splits)
  then have ks: "ac_keys st' = ac_keys st @ [k]" "ak_id k \<notin> ak_id ` set (ac_keys st)" "ak_hash k \<notin> ak_hash ` set (ac_keys st)"
    by (auto simp: key_create_def key_get_def key_by_hash_def find_None_iff split: if_splits)
  then have "ak_id k \<notin> set R" using issue(3) by (auto simp: keys_issued_def)
  then show ?case using issue(3) ks k by (auto simp: keys_issued_def key_matches_def list_all2_appendI)
next
  case (revoke I R st i now k st')
  obtain k0 where k0: "key_get (ac_keys st) i = Some k0" using revoke(2) by (auto simp: revoke_key_def split: option.splits)
  note in_keys = key_get_SomeD [OF k0]
  show ?case
  proof (cases "ak_revoked k0 = None")
    case True
    then have "ac_keys st' = key_update (k0\<lparr>ak_revoked := Some now\<rparr>) (ac_keys st)"
      using revoke(2) k0 by (auto simp: revoke_key_def Let_def)
    then show ?thesis using keys_issued_update [OF revoke(3), of k0 "k0\<lparr>ak_revoked := Some now\<rparr>" "[i]"] in_keys by simp
  next
    case False
    then have "st' = st" using revoke(2) k0 by (auto simp: revoke_key_def)
    moreover have "keys_issued sha I (R @ [i]) (key_update k0 (ac_keys st))"
      using keys_issued_update [OF revoke(3), of k0 k0 "[i]"] in_keys False by simp
    moreover have "key_update k0 (ac_keys st) = ac_keys st"
      using revoke(3) in_keys by (auto simp: key_update_def keys_issued_def distinct_map inj_on_def intro!: map_idI)
    ultimately show ?thesis by simp
  qed
next
  case (use I R st token now p st')
  show ?case
  proof (cases "st' = st")
    case False
    then obtain tok k where k: "key_by_hash (ac_keys st) (sha tok) = Some k" "ac_keys st' = key_update (k\<lparr>ak_last_used := Some now\<rparr>) (ac_keys st)"
      using use(2) by (auto simp: authenticate_token_def Let_def split: option.splits if_splits)
    then have "k \<in> set (ac_keys st)" by (auto simp: key_by_hash_def find_Some_iff)
    then show ?thesis using keys_issued_update [OF use(3), of k "k\<lparr>ak_last_used := Some now\<rparr>" "[]"] k(2) by simp
  qed (use use in simp)
qed simp_all

lemma list_all2_memD:
  assumes "list_all2 P xs ys"
  shows "x \<in> set xs \<Longrightarrow> \<exists>y \<in> set ys. P x y" and "y \<in> set ys \<Longrightarrow> \<exists>x \<in> set xs. P x y"
  using assms by (induction rule: list_all2_induct) auto

section \<open>Properties\<close>

text \<open>C11. Authentication is exact.  Over any history of the service a token authenticates just when it was issued as
  a key, that key has not been revoked since, and its user exists and is not disabled; the identity it gives is that
  user's.  Hash collisions apart.\<close>

theorem authentication_is_exact:
  assumes "accounts_reached sha issued revoked st"
    and "\<And>raw i u. (raw, i, u) \<in> set issued \<Longrightarrow> sha raw = sha token \<Longrightarrow> raw = token"
  shows "(\<exists>u k st'. authenticate_token sha (Some token) now st = (Inr (u, k), st') \<and> ur_id u = uid \<and> ak_id k = kid)
    \<longleftrightarrow> ((token, kid, uid) \<in> set issued \<and> kid \<notin> set revoked
       \<and> (\<exists>u. user_get (ac_users st) uid = Some u \<and> \<not> ur_disabled u))"
proof -
  let ?ks = "ac_keys st"
  have inv: "keys_issued sha issued revoked ?ks" by (rule reached_keys [OF assms(1)])
  have to_issued: "\<exists>raw. (raw, ak_id k, ak_user k) \<in> set issued \<and> ak_hash k = sha raw \<and> (ak_revoked k \<noteq> None \<longleftrightarrow> ak_id k \<in> set revoked)"
    if mem: "k \<in> set ?ks" for k
  proof -
    obtain y where "y \<in> set issued" "key_matches sha revoked k y" using list_all2_memD(1) [OF _ mem] inv unfolding keys_issued_def by blast
    then show ?thesis by (cases y) (auto simp: key_matches_def)
  qed
  have of_issued: "\<exists>k \<in> set ?ks. ak_id k = i \<and> ak_user k = u \<and> ak_hash k = sha raw \<and> (ak_revoked k \<noteq> None \<longleftrightarrow> i \<in> set revoked)"
    if mem: "(raw, i, u) \<in> set issued" for raw i u
  proof -
    obtain k where "k \<in> set ?ks" "key_matches sha revoked k (raw, i, u)"
      using list_all2_memD(2) [OF _ mem] inv unfolding keys_issued_def by blast
    then show ?thesis by (intro bexI [of _ k]) (auto simp: key_matches_def)
  qed
  show ?thesis
  proof
    assume "\<exists>u k st'. authenticate_token sha (Some token) now st = (Inr (u, k), st') \<and> ur_id u = uid \<and> ak_id k = kid"
    then obtain k u where k: "key_by_hash ?ks (sha token) = Some k" "ak_revoked k = None" "user_get (ac_users st) (ak_user k) = Some u"
      "\<not> ur_disabled u" "ak_id k = kid" "ur_id u = uid"
      by (auto simp: authenticate_token_def Let_def split: if_splits option.splits)
    then have key: "k \<in> set ?ks" "ak_hash k = sha token" by (auto simp: key_by_hash_def find_Some_iff)
    obtain raw where raw: "(raw, ak_id k, ak_user k) \<in> set issued" "ak_hash k = sha raw" "ak_revoked k \<noteq> None \<longleftrightarrow> ak_id k \<in> set revoked"
      using to_issued [OF key(1)] by blast
    moreover have "raw = token" using assms(2) raw(1,2) key(2) by simp
    moreover have "ak_user k = uid" using users.get_key [OF k(3)] k(6) by simp
    ultimately show "(token, kid, uid) \<in> set issued \<and> kid \<notin> set revoked
       \<and> (\<exists>u. user_get (ac_users st) uid = Some u \<and> \<not> ur_disabled u)"
      using k by auto
  next
    assume r: "(token, kid, uid) \<in> set issued \<and> kid \<notin> set revoked \<and> (\<exists>u. user_get (ac_users st) uid = Some u \<and> \<not> ur_disabled u)"
    then obtain k where k: "k \<in> set ?ks" "ak_id k = kid" "ak_user k = uid" "ak_hash k = sha token" "ak_revoked k = None"
      using of_issued [of token kid uid] by blast
    have "key_by_hash ?ks (sha token) = Some k"
    proof (cases "key_by_hash ?ks (sha token)")
      case None
      then show ?thesis using k(1,4) by (auto simp: key_by_hash_def find_None_iff)
    next
      case (Some x)
      then have "x \<in> set ?ks" "ak_hash x = ak_hash k" using k(4) by (auto simp: key_by_hash_def find_Some_iff)
      then show ?thesis using Some inv k(1) by (auto simp: keys_issued_def distinct_map inj_on_def)
    qed
    moreover have "token \<noteq> []" using inv r by (auto simp: keys_issued_def)
    moreover obtain u where u: "user_get (ac_users st) uid = Some u" "\<not> ur_disabled u" using r by blast
    ultimately show "\<exists>u k st'. authenticate_token sha (Some token) now st = (Inr (u, k), st') \<and> ur_id u = uid \<and> ak_id k = kid"
      using k users.get_key [OF u(1)] by (auto simp: authenticate_token_def Let_def)
  qed
qed

text \<open>A user whose first key is revoked and whose second one is good, with the identity as the hash.\<close>

definition ann :: user where
  "ann = \<lparr>ur_id = ''u'', ur_username = ''ann'', ur_display = None, ur_role = ''user'', ur_disabled = False\<rparr>"

definition key_of :: "string \<Rightarrow> string \<Rightarrow> string option \<Rightarrow> api_key" where
  "key_of i secret revoked = \<lparr>ak_id = i, ak_user = ''u'', ak_name = ''laptop'', ak_hash = ''era_'' @ secret, ak_prefix = secret,
     ak_last_used = None, ak_revoked = revoked\<rparr>"

lemma two_keys_reached:
  "accounts_reached id [(''era_s'', ''k'', ''u''), (''era_t'', ''l'', ''u'')] [''k'']
     \<lparr>ac_users = [ann], ac_keys = [key_of ''k'' ''s'' (Some ''later''), key_of ''l'' ''t'' None]\<rparr>"
proof -
  have 1: "accounts_reached id [] [] \<lparr>ac_users = [ann], ac_keys = []\<rparr>"
    by (rule new_user [where uuid = "''u''" and name = "''ann''" and rl = "''user''" and display = None and disabled = False and u = "Inr ann",
          OF accounts_reached.start])
      (simp add: create_user_def validate_name_def MAX_NAME_LEN_def is_ok_def coerce_role_def user_by_name_def user_get_def
        add_user_def user_create_def ann_def)
  have 2: "accounts_reached id ([] @ [(''era_s'', ak_id (key_of ''k'' ''s'' None), ''u'')]) [] \<lparr>ac_users = [ann], ac_keys = [key_of ''k'' ''s'' None]\<rparr>"
    by (rule issue [where uuid = "''k''" and secret = "''s''" and name = "''laptop''", OF 1])
      (simp add: create_api_key_def validate_name_def MAX_NAME_LEN_def is_ok_def user_get_def ann_def key_create_def key_get_def
        key_by_hash_def key_of_def KEY_PREFIX_def Let_def)
  have 3: "accounts_reached id ([(''era_s'', ''k'', ''u'')] @ [(''era_t'', ak_id (key_of ''l'' ''t'' None), ''u'')]) []
      \<lparr>ac_users = [ann], ac_keys = [key_of ''k'' ''s'' None, key_of ''l'' ''t'' None]\<rparr>"
    by (rule issue [of _ _ _ "\<lparr>ac_users = [ann], ac_keys = [key_of ''k'' ''s'' None]\<rparr>" "''l''" "''t''" "''u''" "''laptop''"])
      (use 2 in \<open>simp_all add: create_api_key_def validate_name_def MAX_NAME_LEN_def is_ok_def user_get_def ann_def key_create_def key_get_def
        key_by_hash_def key_of_def KEY_PREFIX_def Let_def\<close>)
  have "accounts_reached id [(''era_s'', ''k'', ''u''), (''era_t'', ''l'', ''u'')] ([] @ [''k''])
     \<lparr>ac_users = [ann], ac_keys = [key_of ''k'' ''s'' (Some ''later''), key_of ''l'' ''t'' None]\<rparr>"
    by (rule revoke [of _ _ _ "\<lparr>ac_users = [ann], ac_keys = [key_of ''k'' ''s'' None, key_of ''l'' ''t'' None]\<rparr>" "''k''" "''later''"
          "key_of ''k'' ''s'' (Some ''later'')"])
      (use 3 in \<open>simp_all add: key_of_def revoke_key_def key_get_def key_update_def Let_def\<close>)
  then show ?thesis by simp
qed

lemma authentication_is_exact_witness:
  "(\<exists>u k st'. authenticate_token id (Some ''era_t'') ''now'' \<lparr>ac_users = [ann], ac_keys = [key_of ''k'' ''s'' (Some ''later''), key_of ''l'' ''t'' None]\<rparr>
      = (Inr (u, k), st') \<and> ur_id u = ''u'' \<and> ak_id k = ''l'')
   \<and> \<not> (\<exists>u k st'. authenticate_token id (Some ''era_s'') ''now'' \<lparr>ac_users = [ann], ac_keys = [key_of ''k'' ''s'' (Some ''later''), key_of ''l'' ''t'' None]\<rparr>
      = (Inr (u, k), st') \<and> ur_id u = ''u'' \<and> ak_id k = ''k'')"
  using authentication_is_exact [OF two_keys_reached, of "''era_t''" "''now''" "''u''" "''l''"]
    authentication_is_exact [OF two_keys_reached, of "''era_s''" "''now''" "''u''" "''k''"]
  by (simp add: user_get_def ann_def)

text \<open>What the roles may do: of the catalogued actions an admin's guard lets through all that are not FORBIDDEN, a
  user's all of these outside the device domain, and any other role's none.\<close>

lemma catalog_domains: "list_all (\<lambda>s. as_domain s \<in> set ALL_ACTION_DOMAINS) SPECS"
  by (simp add: SPECS_def mk_spec_def ALL_ACTION_DOMAINS_def)

theorem guard_by_role:
  "domain_guard ACTION_CATALOG r a \<longleftrightarrow> (\<exists>spec. catalog_get ACTION_CATALOG a = Some spec \<and> as_risk spec \<noteq> FORBIDDEN
     \<and> (r = ''admin'' \<or> r = ''user'' \<and> as_domain spec \<noteq> ''device''))"
proof (cases "catalog_get ACTION_CATALOG a")
  case None
  then show ?thesis by (simp add: domain_guard_def)
next
  case (Some spec)
  then have "(a, spec) \<in> set ACTION_CATALOG" by (simp add: catalog_get_def map_of_SomeD)
  then have "spec \<in> set SPECS" unfolding ACTION_CATALOG_eq by auto
  then have "as_domain spec \<in> set ALL_ACTION_DOMAINS" using catalog_domains by (simp add: list_all_iff)
  then have "role_domain_allowed r (Some (as_domain spec)) \<longleftrightarrow> r = ''admin'' \<or> r = ''user'' \<and> as_domain spec \<noteq> ''device''"
    by (auto simp: role_domain_allowed_def coerce_role_def ALL_ACTION_DOMAINS_def)
  then show ?thesis using Some by (simp add: domain_guard_def)
qed

end
