(* ===== verification/Leader.thy ===== *)
theory Leader
  imports Core_Types
begin

text \<open>
  Model of \<^verbatim>\<open>era/services/scheduler_leader.py\<close> over the singleton row of \<^verbatim>\<open>era/models/scheduler_leader.py\<close>.

  An operation is given the process's id, the time it writes, and which heartbeats are stale when it looks
  (\<open>_is_stale\<close>, a comparison of clocks).  Each is one transaction: it reads the row and writes what it decided
  on.  The two halves are also separate, since nothing in the code compares the version it read with the
  version it overwrites.
\<close>

record leader_row =
  lr_leader :: string
  lr_heartbeat :: string
  lr_version :: int

text \<open>What a transaction decides on the row it read: whether it succeeded, and the row to write.\<close>

definition claim_decision :: "string \<Rightarrow> string \<Rightarrow> (string \<Rightarrow> bool) \<Rightarrow> leader_row option \<Rightarrow> bool \<times> leader_row option" where
  "claim_decision me now stale row = (case row of
       None \<Rightarrow> (True, Some \<lparr>lr_leader = me, lr_heartbeat = now, lr_version = 1\<rparr>)
     | Some r \<Rightarrow>
         if lr_leader r = me then (True, Some (r\<lparr>lr_heartbeat := now, lr_version := lr_version r + 1\<rparr>))
         else if stale (lr_heartbeat r) then (True, Some (r\<lparr>lr_leader := me, lr_heartbeat := now, lr_version := lr_version r + 1\<rparr>))
         else (False, None))"

definition written :: "leader_row option \<Rightarrow> leader_row option \<Rightarrow> leader_row option" where
  "written w row = (case w of None \<Rightarrow> row | Some r \<Rightarrow> Some r)"

definition try_claim :: "string \<Rightarrow> string \<Rightarrow> (string \<Rightarrow> bool) \<Rightarrow> leader_row option \<Rightarrow> bool \<times> leader_row option" where
  "try_claim me now stale row = (case claim_decision me now stale row of (ok, w) \<Rightarrow> (ok, written w row))"

definition is_leader :: "string \<Rightarrow> leader_row option \<Rightarrow> bool" where
  "is_leader me row = (case row of None \<Rightarrow> False | Some r \<Rightarrow> lr_leader r = me)"

definition leader_heartbeat :: "string \<Rightarrow> string \<Rightarrow> leader_row option \<Rightarrow> bool \<times> leader_row option" where
  "leader_heartbeat me now row = (case row of
       None \<Rightarrow> (False, row)
     | Some r \<Rightarrow> if lr_leader r \<noteq> me then (False, row)
                 else (True, Some (r\<lparr>lr_heartbeat := now, lr_version := lr_version r + 1\<rparr>)))"

definition release_leader :: "string \<Rightarrow> string \<Rightarrow> leader_row option \<Rightarrow> leader_row option" where
  "release_leader me now row = (case row of
       None \<Rightarrow> None
     | Some r \<Rightarrow> if lr_leader r = me then Some (r\<lparr>lr_leader := [], lr_heartbeat := now, lr_version := lr_version r + 1\<rparr>) else row)"

definition leader_info :: "(string \<Rightarrow> bool) \<Rightarrow> leader_row option \<Rightarrow> string option \<times> string option \<times> bool \<times> int option" where
  "leader_info stale row = (case row of
       None \<Rightarrow> (None, None, False, None)
     | Some r \<Rightarrow> (if lr_leader r = [] then None else Some (lr_leader r), Some (lr_heartbeat r), stale (lr_heartbeat r), Some (lr_version r)))"

text \<open>Transactions that do not overlap: a claim succeeds exactly when it leaves its process the leader, and it takes the
  row from another process only when that one's heartbeat is stale.\<close>

lemma claim_iff_leader:
  "try_claim me now stale row = (ok, row') \<Longrightarrow>
     ok = is_leader me row' \<and> (\<forall>r. row = Some r \<longrightarrow> lr_leader r \<noteq> me \<longrightarrow> \<not> stale (lr_heartbeat r) \<longrightarrow> row' = row)"
  by (auto simp: try_claim_def claim_decision_def is_leader_def written_def split: option.splits if_splits)

lemma one_leader: "is_leader a row \<Longrightarrow> is_leader b row \<Longrightarrow> a = b"
  by (auto simp: is_leader_def split: option.splits)

lemma heartbeat_iff_leader: "leader_heartbeat me now row = (ok, row') \<Longrightarrow> ok = is_leader me row \<and> ok = is_leader me row'"
  by (auto simp: leader_heartbeat_def is_leader_def split: option.splits if_splits)

text \<open>Transactions that overlap: two processes that read the same stale row are both told that they lead.\<close>

lemma overlapping_claims_both_succeed:
  assumes "stale (lr_heartbeat r)" and "lr_leader r \<noteq> a" and "lr_leader r \<noteq> b"
  shows "fst (claim_decision a now stale (Some r)) \<and> fst (claim_decision b now' stale (Some r))"
  using assms by (simp add: claim_decision_def)

text \<open>A row that was released keeps its fresh heartbeat: until it is stale, no other process gets the row.\<close>

lemma released_row_blocks:
  assumes "row = Some r" and "lr_leader r = a" and "\<not> stale now" and "b \<noteq> []"
  shows "fst (try_claim b now' stale (release_leader a now row)) = False"
  using assms by (simp add: release_leader_def try_claim_def claim_decision_def)

end
