(* ===== verification/Database.thy ===== *)
theory Database
  imports Confirmation
begin

text \<open>
  The database and the world around the services: the tables, the transaction helper of
  \<^verbatim>\<open>era/db.py\<close>, the calls to the clock, to the random source and to the storage engine, and the
  versioned policy (\<^verbatim>\<open>PolicyService\<close> of \<^verbatim>\<open>era/services/policy.py\<close>, \<^verbatim>\<open>SQLitePolicyRepo\<close>).

  A computation takes a state and returns a value or an exception, and the state.  A session
  computation works on a copy of the tables; \<open>transaction\<close> makes the copy durable when its body
  returns and the commit succeeds, and drops it otherwise.  Whether a commit succeeds, the time,
  new identifiers and the like are decided by the world \<open>'e\<close> through the operations \<open>env_ops\<close>.
\<close>

section \<open>Computations that may raise\<close>

type_synonym ('s, 'a) comp = "'s \<Rightarrow> (py_exc, 'a) result \<times> 's"

definition ret :: "'a \<Rightarrow> ('s, 'a) comp" where
  "ret x s = (Inr x, s)"

definition raise_exc :: "py_exc \<Rightarrow> ('s, 'a) comp" where
  "raise_exc e s = (Inl e, s)"

definition bind :: "('s, 'a) comp \<Rightarrow> ('a \<Rightarrow> ('s, 'b) comp) \<Rightarrow> ('s, 'b) comp" where
  "bind m f s = (case m s of (Inl e, s') \<Rightarrow> (Inl e, s') | (Inr x, s') \<Rightarrow> f x s')"

text \<open>\<open>m; k\<close>: the value of \<open>m\<close> is dropped.\<close>

definition seq :: "('s, 'a) comp \<Rightarrow> ('s, 'b) comp \<Rightarrow> ('s, 'b) comp" where
  "seq m k = bind m (\<lambda>_. k)"

lemma bind_ret [simp]: "bind (ret x) f = f x"
  by (rule ext) (simp add: bind_def ret_def)

lemma bind_Inr_iff: "bind m f s = (Inr y, s'') \<longleftrightarrow> (\<exists>x s'. m s = (Inr x, s') \<and> f x s' = (Inr y, s''))"
  by (auto simp: bind_def split: prod.splits sum.splits)

lemma bind_Inl_iff:
  "bind m f s = (Inl e, s'') \<longleftrightarrow> m s = (Inl e, s'') \<or> (\<exists>x s'. m s = (Inr x, s') \<and> f x s' = (Inl e, s''))"
  by (auto simp: bind_def split: prod.splits sum.splits)

lemma seq_Inr_iff: "seq m k s = (Inr y, s'') \<longleftrightarrow> (\<exists>x s'. m s = (Inr x, s') \<and> k s' = (Inr y, s''))"
  by (simp add: seq_def bind_Inr_iff)

lemma seqE:
  assumes "seq m k s = (r, s')"
  obtains e where "m s = (Inl e, s')" "r = Inl e" | x s1 where "m s = (Inr x, s1)" "k s1 = (r, s')"
  using assms by (auto simp: seq_def bind_def split: prod.splits sum.splits)

lemma bindE:
  assumes "bind m f s = (r, s')"
  obtains e where "m s = (Inl e, s')" "r = Inl e" | x s1 where "m s = (Inr x, s1)" "f x s1 = (r, s')"
  using assms by (auto simp: bind_def split: prod.splits sum.splits)

lemma ret_Inr_iff [simp]: "ret x s = (r, s') \<longleftrightarrow> r = Inr x \<and> s' = s"
  by (auto simp: ret_def)

lemma raise_iff [simp]: "raise_exc e s = (r, s') \<longleftrightarrow> r = Inl e \<and> s' = s"
  by (auto simp: raise_exc_def)

section \<open>The world\<close>

record 'e env_ops =
  op_utcnow :: "'e \<Rightarrow> string \<times> 'e"
  op_monotonic :: "'e \<Rightarrow> rat \<times> 'e"
  op_sleep :: "rat \<Rightarrow> 'e \<Rightarrow> 'e"
  op_uuid :: "'e \<Rightarrow> string \<times> 'e"
  op_token :: "'e \<Rightarrow> string \<times> 'e"
  op_commit :: "'e \<Rightarrow> bool \<times> 'e"
  op_overrun :: "'e \<Rightarrow> bool \<times> 'e"

section \<open>Tables and transactions\<close>

record policy_row =
  pr_version :: int
  pr_document :: policy
  pr_changed_by :: string

record db =
  db_audit :: "audit_row list"
  db_confirmations :: "confirmation list"
  db_approvals :: "approval list"
  db_policies :: "policy_row list"

type_synonym 'e session = "db \<times> 'e"

definition ask :: "('e \<Rightarrow> 'a \<times> 'e) \<Rightarrow> ('e session, 'a) comp" where
  "ask f s = (case f (snd s) of (x, e') \<Rightarrow> (Inr x, (fst s, e')))"

definition query :: "(db \<Rightarrow> 'a) \<Rightarrow> ('e session, 'a) comp" where
  "query f s = (Inr (f (fst s)), s)"

definition change :: "(db \<Rightarrow> db) \<Rightarrow> ('e session, unit) comp" where
  "change f s = (Inr (), (f (fst s), snd s))"

definition lift_res :: "(py_exc, 'a) result \<Rightarrow> ('s, 'a) comp" where
  "lift_res r s = (r, s)"

text \<open>\<open>with transaction(session_factory) as session: body\<close>.\<close>

definition transaction :: "'e env_ops \<Rightarrow> ('e session, 'a) comp \<Rightarrow> ('e session, 'a) comp" where
  "transaction ops body s = (case body s of
       (Inl e, s') \<Rightarrow> (Inl e, (fst s, snd s'))
     | (Inr x, s') \<Rightarrow> (case op_commit ops (snd s') of
         (True, e') \<Rightarrow> (Inr x, (fst s', e'))
       | (False, e') \<Rightarrow> (Inl (OtherExc ''OperationalError''), (fst s, e'))))"

lemma ask_iff [simp]: "ask f s = (r, s') \<longleftrightarrow> (\<exists>x e'. f (snd s) = (x, e') \<and> r = Inr x \<and> s' = (fst s, e'))"
  by (auto simp: ask_def split: prod.splits)

lemma query_iff [simp]: "query f s = (r, s') \<longleftrightarrow> r = Inr (f (fst s)) \<and> s' = s"
  by (auto simp: query_def)

lemma change_iff [simp]: "change f s = (r, s') \<longleftrightarrow> r = Inr () \<and> s' = (f (fst s), snd s)"
  by (auto simp: change_def)

lemma lift_res_iff [simp]: "lift_res x s = (r, s') \<longleftrightarrow> x = r \<and> s' = s"
  by (auto simp: lift_res_def)

text \<open>A transaction commits what its body did, or nothing.\<close>

lemma transaction_Inr:
  assumes "transaction ops body s = (Inr x, s')"
  obtains s'' where "body s = (Inr x, s'')" "fst s' = fst s''"
  using assms by (auto simp: transaction_def split: prod.splits sum.splits bool.splits)

lemma transaction_Inl: "transaction ops body s = (Inl e, s') \<Longrightarrow> fst s' = fst s"
  by (auto simp: transaction_def split: prod.splits sum.splits bool.splits)

section \<open>The audit service in a session\<close>

text \<open>The services of one deployment: what they are configured with.\<close>

record 'e core =
  co_sha :: "string \<Rightarrow> string"
  co_frepr :: "pyfloat \<Rightarrow> string"
  co_repo :: audit_repo
  co_catalog :: catalog
  co_app_version :: string
  co_conf :: conf_settings
  co_ops :: "'e env_ops"

definition audit_in_session ::
  "('e, 'z) core_scheme \<Rightarrow> action \<Rightarrow> exec_ctx \<Rightarrow> risk_level option \<Rightarrow> decision \<Rightarrow> outcome \<Rightarrow> int
     \<Rightarrow> audit_note \<Rightarrow> ('e session, unit) comp" where
  "audit_in_session co act ctx risk dec out version note =
     bind (ask (op_utcnow (co_ops co))) (\<lambda>now.
     bind (query db_audit) (\<lambda>rows.
       case audit_record (co_sha co) (co_frepr co) (co_repo co) (co_catalog co) (co_app_version co) now
              act ctx (map_option Inl risk) dec out version note rows of
         None \<Rightarrow> raise_exc (OtherExc ''SigningError'')
       | Some rows' \<Rightarrow> change (db_audit_update (\<lambda>_. rows'))))"

section \<open>The policy service\<close>

fun policy_current :: "policy_row list \<Rightarrow> policy_row option" where
  "policy_current [] = None"
| "policy_current (r # rs) = (case policy_current rs of None \<Rightarrow> Some r
     | Some m \<Rightarrow> if pr_version m < pr_version r then Some r else Some m)"

text \<open>\<open>version\<close> is unique; inserting a version that exists is an integrity error.\<close>

definition policy_create :: "int \<Rightarrow> policy \<Rightarrow> string \<Rightarrow> ('e session, policy_row) comp" where
  "policy_create version document changed_by =
     bind (query db_policies) (\<lambda>rows.
       let row = \<lparr>pr_version = version, pr_document = document, pr_changed_by = changed_by\<rparr>
       in if version \<in> pr_version ` set rows then raise_exc (OtherExc ''IntegrityError'')
          else seq (change (db_policies_update (\<lambda>_. rows @ [row]))) (ret row))"

definition bootstrap :: "'e env_ops \<Rightarrow> ('e session, unit) comp" where
  "bootstrap ops = transaction ops
     (bind (query (\<lambda>d. policy_current (db_policies d))) (\<lambda>cur.
        if cur = None
        then seq (policy_create (pol_version default_policy) default_policy ''bootstrap'') (ret ())
        else ret ()))"

definition get_current :: "'e env_ops \<Rightarrow> ('e session, policy option) comp" where
  "get_current ops = transaction ops
     (query (\<lambda>d. map_option pr_document (policy_current (db_policies d))))"

definition plain_ctx :: "string \<Rightarrow> exec_ctx" where
  "plain_ctx actor = \<lparr>actor_id = actor, session_id = None, execution_scope = None, cred_refs = [], deadline = None\<rparr>"

definition create_version_tx :: "('e, 'z) core_scheme \<Rightarrow> policy \<Rightarrow> string \<Rightarrow> ('e session, policy_row) comp" where
  "create_version_tx co document changed_by =
     bind (query (\<lambda>d. policy_current (db_policies d))) (\<lambda>cur.
        let new_version = (case cur of Some r \<Rightarrow> pr_version r + 1 | None \<Rightarrow> 1)
        in bind (policy_create new_version (document\<lparr>pol_version := new_version\<rparr>) changed_by) (\<lambda>row.
           seq (audit_in_session co \<lparr>action_type = ''policy.update'', a_params = []\<rparr> (plain_ctx changed_by)
                  (Some MUTATING) ALLOW O_EXECUTED new_version
                  (blank_note\<lparr>an_result := Some (''policy updated to version '' @ show_int new_version),
                              an_capability_domain := Some ''core''\<rparr>))
             (ret row)))"

definition create_version :: "('e, 'z) core_scheme \<Rightarrow> policy \<Rightarrow> string \<Rightarrow> ('e session, policy_row) comp" where
  "create_version co document changed_by = transaction (co_ops co) (create_version_tx co document changed_by)"

section \<open>Approvals and sweeps in transactions of their own\<close>

text \<open>The operator's entry points of the dual-approval service, and a tick of the sweeper.\<close>

fun approval_exc :: "approval_error \<Rightarrow> py_exc" where
  "approval_exc (DualApprovalError msg) = OtherExc ''DualApprovalError''"
| "approval_exc ApprovalAlreadyExists = OtherExc ''ApprovalAlreadyExists''"
| "approval_exc ApprovalNotRequired = OtherExc ''ApprovalNotRequired''"
| "approval_exc ConfirmationNotPending = OtherExc ''ConfirmationNotPending''"
| "approval_exc (StorageError e) = e"

definition record_approval ::
  "'e env_ops \<Rightarrow> string \<Rightarrow> string \<Rightarrow> approval_status \<Rightarrow> string option \<Rightarrow> ('e session, approval) comp" where
  "record_approval ops cid actor status ctx_hash = transaction ops
     (bind (ask (op_uuid ops)) (\<lambda>uuid. bind (ask (op_utcnow ops)) (\<lambda>now.
      bind (query (\<lambda>d. record_approval_in_session now uuid cid actor status ctx_hash
                         (db_confirmations d) (db_approvals d))) (\<lambda>res.
        case res of
          Inl e \<Rightarrow> raise_exc (approval_exc e)
        | Inr (a, as') \<Rightarrow> seq (change (db_approvals_update (\<lambda>_. as'))) (ret a)))))"

definition is_dispatchable :: "'e env_ops \<Rightarrow> confirmation \<Rightarrow> ('e session, bool) comp" where
  "is_dispatchable ops c = transaction ops (query (\<lambda>d. fst (state_in_session (db_approvals d) c)))"

definition is_denied :: "'e env_ops \<Rightarrow> confirmation \<Rightarrow> ('e session, bool) comp" where
  "is_denied ops c = transaction ops (query (\<lambda>d. snd (state_in_session (db_approvals d) c)))"

definition get_approvals :: "'e env_ops \<Rightarrow> string \<Rightarrow> ('e session, approval list) comp" where
  "get_approvals ops cid = transaction ops (query (\<lambda>d. approval_list_for (db_approvals d) cid))"

definition sweep_tick :: "'e env_ops \<Rightarrow> ('e session, nat) comp" where
  "sweep_tick ops = bind (ask (op_utcnow ops)) (\<lambda>now. transaction ops
     (bind (query (\<lambda>d. sweep now (db_confirmations d))) (\<lambda>(n, cs).
        seq (change (db_confirmations_update (\<lambda>_. cs))) (ret n))))"

section \<open>Evaluation\<close>

text \<open>Rules that run a computation on a given state, without looking into its continuations.\<close>

lemma bind_weak_cong: "m = m' \<Longrightarrow> s = s' \<Longrightarrow> bind m f s = bind m' f s'"
  by simp
lemma seq_weak_cong: "m = m' \<Longrightarrow> s = s' \<Longrightarrow> seq m f s = seq m' f s'"
  by simp
lemma bind_run: "bind m k s = (case m s of (Inl e, s') \<Rightarrow> (Inl e, s') | (Inr x, s') \<Rightarrow> k x s')"
  by (simp add: bind_def)
lemma seq_run: "seq m k s = (case m s of (Inl e, s') \<Rightarrow> (Inl e, s') | (Inr x, s') \<Rightarrow> k s')"
  by (simp add: seq_def bind_def)

end
