(* ===== verification/Result_Safety.thy ===== *)
theory Result_Safety
  imports Redaction Cron
begin

text \<open>
  Model of \<^verbatim>\<open>era/security/result_safety.py\<close>: the masking of credential tokens in free text and
  the bounded, JSON-safe copy of a provider result.

  The patterns are regular expressions of Python's \<open>re\<close>; \<open>matches\<close> is its backtracking matcher on
  the constructs the patterns use, and returns the rests of the text after each match in the order
  in which the engine tries them.  \<open>sub\<close> replaces the leftmost matches.
\<close>

section \<open>Regular expressions\<close>

datatype rx =
    Lit char                            \<comment> \<open>one character\<close>
  | AnyCase char                        \<comment> \<open>one letter under \<open>(?i)\<close>, given in lower case\<close>
  | Cls "char \<Rightarrow> bool"                  \<comment> \<open>one character of a class\<close>
  | Rep nat "char \<Rightarrow> bool"              \<comment> \<open>\<open>[...]{n,}\<close>, greedy\<close>
  | Opt rx                              \<comment> \<open>\<open>r?\<close>, greedy\<close>
  | Bnd                                 \<comment> \<open>\<open>\b\<close>\<close>
  | Alt "rx list"                       \<comment> \<open>\<open>(?:r|...)\<close>\<close>
  | Cat "rx list"

text \<open>\<open>prev\<close> is the character before the position, if any.  A result is the character before the
  new position and the rest of the text.\<close>

type_synonym pos = "char option \<times> string"

definition last_char :: "char option \<Rightarrow> string \<Rightarrow> char option" where
  "last_char prev s = (if s = [] then prev else Some (last s))"

definition word_at :: "char option \<Rightarrow> bool" where
  "word_at p = (case p of None \<Rightarrow> False | Some c \<Rightarrow> is_word c)"

definition one_char :: "(char \<Rightarrow> bool) \<Rightarrow> pos \<Rightarrow> pos list" where
  "one_char f p = (case snd p of [] \<Rightarrow> [] | c # cs \<Rightarrow> if f c then [(Some c, cs)] else [])"

definition advance :: "pos \<Rightarrow> nat \<Rightarrow> pos" where
  "advance p k = (last_char (fst p) (take k (snd p)), drop k (snd p))"

fun matches :: "rx \<Rightarrow> pos \<Rightarrow> pos list"
  and matches_seq :: "rx list \<Rightarrow> pos \<Rightarrow> pos list"
  and matches_alt :: "rx list \<Rightarrow> pos \<Rightarrow> pos list" where
  "matches (Lit c) p = one_char (\<lambda>d. d = c) p"
| "matches (AnyCase c) p = one_char (\<lambda>d. lower_char d = c) p"
| "matches (Cls f) p = one_char f p"
| "matches (Rep n f) p =
     map (advance p) (rev [n ..< Suc (length (takeWhile f (snd p)))])"
| "matches (Opt r) p = matches r p @ [p]"
| "matches Bnd p =
     (if word_at (fst p) \<noteq> word_at (case snd p of [] \<Rightarrow> None | c # _ \<Rightarrow> Some c) then [p] else [])"
| "matches (Alt rs) p = matches_alt rs p"
| "matches (Cat rs) p = matches_seq rs p"
| "matches_seq [] p = [p]"
| "matches_seq (r # rs) p = concat (map (matches_seq rs) (matches r p))"
| "matches_alt [] p = []"
| "matches_alt (r # rs) p = matches r p @ matches_alt rs p"

text \<open>A match at a position: the first one the engine finds.  All patterns below consume at least
  one character, so the empty match need not be treated.\<close>

definition first_match :: "rx \<Rightarrow> pos \<Rightarrow> pos option" where
  "first_match r p = (case matches r p of [] \<Rightarrow> None | q # _ \<Rightarrow>
      if length (snd q) < length (snd p) then Some q else None)"

text \<open>\<open>pattern.sub(REDACTED, s)\<close>.\<close>

function (sequential) sub :: "rx \<Rightarrow> char option \<Rightarrow> string \<Rightarrow> string" where
  "sub r prev [] = []"
| "sub r prev (c # cs) =
     (case first_match r (prev, c # cs) of
        Some (prev', rest) \<Rightarrow> REDACTED @ sub r prev' rest
      | None \<Rightarrow> c # sub r (Some c) cs)"
  by pat_completeness auto
termination
  by (relation "measure (\<lambda>(r, prev, s). length s)")
    (auto simp: first_match_def split: list.splits if_splits)

section \<open>The patterns\<close>

definition lits :: "string \<Rightarrow> rx list" where
  "lits s = map Lit s"

definition word_ci :: "string \<Rightarrow> rx list" where
  "word_ci s = map AnyCase s"

definition alnum :: "char \<Rightarrow> bool" where
  "alnum c = (is_alpha c \<or> is_digit c)"

definition SECRET_VALUE_PATTERNS :: "rx list" where
  "SECRET_VALUE_PATTERNS =
     [Cat (Bnd # word_ci ''bearer'' @ [Rep 1 is_space, Rep 8 (\<lambda>c. alnum c \<or> c \<in> set ''._~+/=-'')]),
      Cat (Bnd # lits ''sk-'' @ [Rep 8 (\<lambda>c. alnum c \<or> c \<in> set ''_-'')]),
      Cat (Bnd # lits ''gh'' @ [Cls (\<lambda>c. c \<in> set ''pousr'')] @ lits ''_''
           @ [Rep 8 (\<lambda>c. alnum c \<or> c = CHR ''_'')]),
      Cat (Bnd # lits ''AKIA'' @ [Rep 12 (\<lambda>c. is_digit c \<or> (65 \<le> code c \<and> code c \<le> 90))]),
      Cat [Bnd,
           Alt [Cat (word_ci ''password''), Cat (word_ci ''passwd''),
                Cat (word_ci ''api'' @ [Opt (Cls (\<lambda>c. c \<in> set ''_-''))] @ word_ci ''key''),
                Cat (word_ci ''access'' @ [Opt (Cls (\<lambda>c. c \<in> set ''_-''))] @ word_ci ''token''),
                Cat (word_ci ''secret'')],
           Rep 0 is_space, Cls (\<lambda>c. c \<in> set '':=''), Rep 0 is_space,
           Opt (Cls (\<lambda>c. c \<in> {CHR 0x22, CHR 0x27})),
           Rep 4 (\<lambda>c. \<not> is_space c \<and> c \<notin> set '',;'' \<and> c \<notin> {CHR 0x22, CHR 0x27})],
      Cat (word_ci ''http'' @ [Opt (AnyCase (CHR ''s''))] @ lits ''://''
           @ [Rep 1 (\<lambda>c. \<not> is_space c \<and> c \<notin> set ''/:@''), Lit (CHR '':''),
              Rep 1 (\<lambda>c. \<not> is_space c \<and> c \<notin> set ''/@''), Lit (CHR ''@'')])]"

definition redact_sensitive_text :: "string \<Rightarrow> string" where
  "redact_sensitive_text s = fold (\<lambda>r t. sub r None t) SECRET_VALUE_PATTERNS s"

lemma sub_examples:
  "sub (SECRET_VALUE_PATTERNS ! 1) None ''ask-12345678 sk-12345678'' = ''ask-12345678 [REDACTED]''"
  "sub (SECRET_VALUE_PATTERNS ! 4) None ''Api_Key = hunter2;x'' = ''[REDACTED];x''"
  "sub (SECRET_VALUE_PATTERNS ! 5) None ''HTTPS://u:p@h'' = ''[REDACTED]h''"
  by code_simp+

section \<open>The safe copy of a result\<close>

definition DEFAULT_MAX_RESULT_BYTES :: int where "DEFAULT_MAX_RESULT_BYTES = 524288"
definition MAX_RESULT_DEPTH :: nat where "MAX_RESULT_DEPTH = 8"
definition MAX_RESULT_ITEMS :: nat where "MAX_RESULT_ITEMS = 1000"
definition MAX_RESULT_KEY_CHARS :: nat where "MAX_RESULT_KEY_CHARS = 256"
definition MAX_RESULT_SUMMARY_CHARS :: nat where "MAX_RESULT_SUMMARY_CHARS = 4000"

text \<open>\<open>UnsafeResultError\<close>.\<close>

datatype unsafe_result = UnsafeResult string

fun sanitize :: "nat \<Rightarrow> json \<Rightarrow> (unsafe_result, json) result" where
  "sanitize depth (JStr s) =
     (if MAX_RESULT_DEPTH < depth then Inl (UnsafeResult ''provider result nesting is too deep'')
      else Inr (JStr (redact_sensitive_text s)))"
| "sanitize depth (JFloat f) =
     (if MAX_RESULT_DEPTH < depth then Inl (UnsafeResult ''provider result nesting is too deep'')
      else (case f of Fin q \<Rightarrow> Inr (JFloat f)
            | _ \<Rightarrow> Inl (UnsafeResult ''provider result contains a non-finite number'')))"
| "sanitize depth (JObj kvs) =
     (if MAX_RESULT_DEPTH < depth then Inl (UnsafeResult ''provider result nesting is too deep'')
      else if MAX_RESULT_ITEMS < length kvs
      then Inl (UnsafeResult ''provider result contains too many object fields'')
      else map_sum id JObj (try_map (\<lambda>(key, item).
             if key = [] \<or> MAX_RESULT_KEY_CHARS < length key
             then Inl (UnsafeResult ''provider result contains an invalid object key'')
             else map_sum id (Pair key)
               (if is_secret_key key {} then Inr (JStr REDACTED) else sanitize (depth + 1) item)) kvs))"
| "sanitize depth (JList xs) =
     (if MAX_RESULT_DEPTH < depth then Inl (UnsafeResult ''provider result nesting is too deep'')
      else if MAX_RESULT_ITEMS < length xs
      then Inl (UnsafeResult ''provider result contains too many list items'')
      else map_sum id JList (try_map (sanitize (depth + 1)) xs))"
| "sanitize depth v =
     (if MAX_RESULT_DEPTH < depth then Inl (UnsafeResult ''provider result nesting is too deep'')
      else Inr v)"

text \<open>The number of bytes of \<open>json.dumps(..., ensure_ascii=False, separators=(",", ":"))\<close> in UTF-8.\<close>

definition char_bytes :: "char \<Rightarrow> nat" where
  "char_bytes c =
     (if c = CHR 0x22 \<or> c = CHR 0x5C \<or> code c \<in> {8, 9, 10, 12, 13} then 2
      else if code c < 32 then 6 else if code c < 128 then 1 else 2)"

definition string_bytes :: "string \<Rightarrow> nat" where
  "string_bytes s = 2 + sum_list (map char_bytes s)"

fun json_bytes :: "(pyfloat \<Rightarrow> string) \<Rightarrow> json \<Rightarrow> nat" where
  "json_bytes frepr JNull = 4"
| "json_bytes frepr (JBool b) = (if b then 4 else 5)"
| "json_bytes frepr (JInt i) = length (show_int i)"
| "json_bytes frepr (JFloat f) = length (frepr f)"
| "json_bytes frepr (JStr s) = string_bytes s"
| "json_bytes frepr (JList xs) = 2 + sum_list (map (json_bytes frepr) xs) + (length xs - 1)"
| "json_bytes frepr (JObj kvs) =
     2 + sum_list (map (\<lambda>(k, v). string_bytes k + 1 + json_bytes frepr v) kvs) + (length kvs - 1)"

text \<open>The ellipsis of a cut summary is U+2026, outside the characters of the model; it is
  represented by one character and counted with its three bytes.\<close>

definition ELLIPSIS :: string where "ELLIPSIS = [CHR 0x85]"

definition sanitize_action_result ::
  "(pyfloat \<Rightarrow> string) \<Rightarrow> int \<Rightarrow> action_result \<Rightarrow> (unsafe_result, action_result) result" where
  "sanitize_action_result frepr max_bytes result =
     (if max_bytes \<le> 0 then Inl (UnsafeResult ''result byte limit must be positive'')
      else
        let summary = redact_sensitive_text (ar_summary result);
            kept = take MAX_RESULT_SUMMARY_CHARS summary;
            cut = (MAX_RESULT_SUMMARY_CHARS < length summary)
        in (case sanitize 0 (JObj (ar_data result)) of
              Inl e \<Rightarrow> Inl e
            | Inr (JObj data) \<Rightarrow>
                if max_bytes < int (json_bytes frepr (JObj [(''summary'', JStr kept), (''data'', JObj data)])
                                    + (if cut then 3 else 0))
                then Inl (UnsafeResult ''provider result exceeds configured limit'')
                else Inr \<lparr>ar_success = ar_success result,
                          ar_summary = kept @ (if cut then ELLIPSIS else []), ar_data = data\<rparr>
            | Inr _ \<Rightarrow> Inl (UnsafeResult ''provider did not return ActionResult'')))"

section \<open>What a sanitized result can contain\<close>

text \<open>The bounds of the copy: nesting, sizes, keys, finite numbers, and the mask under every
  secret key.\<close>

fun result_safe :: "nat \<Rightarrow> json \<Rightarrow> bool" where
  "result_safe depth (JObj kvs) =
     (depth \<le> MAX_RESULT_DEPTH \<and> length kvs \<le> MAX_RESULT_ITEMS
      \<and> (\<forall>(k, v) \<in> set kvs. k \<noteq> [] \<and> length k \<le> MAX_RESULT_KEY_CHARS
           \<and> (if is_secret_key k {} then v = JStr REDACTED else result_safe (depth + 1) v)))"
| "result_safe depth (JList xs) =
     (depth \<le> MAX_RESULT_DEPTH \<and> length xs \<le> MAX_RESULT_ITEMS \<and> (\<forall>x \<in> set xs. result_safe (depth + 1) x))"
| "result_safe depth (JFloat f) = (depth \<le> MAX_RESULT_DEPTH \<and> f \<notin> {PosInf, NegInf, NaN})"
| "result_safe depth v = (depth \<le> MAX_RESULT_DEPTH)"

lemma list_all2_set2: "list_all2 P xs ys \<Longrightarrow> y \<in> set ys \<Longrightarrow> \<exists>x \<in> set xs. P x y"
  by (metis in_set_conv_nth list_all2_conv_all_nth)

lemma map_sum_InrE:
  assumes "map_sum f g x = Inr y"
  obtains z where "y = g z" "x = Inr z"
  using assms by (cases x) auto

lemma sanitize_guards:
  assumes "(if M < depth then Inl e else if N < n then Inl e' else r) = Inr (w :: json)"
  shows "r = Inr w" and "depth \<le> (M :: nat)" and "n \<le> (N :: nat)"
  using assms by (auto split: if_splits)

lemma sanitize_safe: "sanitize depth v = Inr w \<Longrightarrow> result_safe depth w"
proof (induction depth v arbitrary: w rule: sanitize.induct)
  case (3 depth kvs)
  let ?f = "\<lambda>(key, item). if key = [] \<or> MAX_RESULT_KEY_CHARS < length key
             then Inl (UnsafeResult ''provider result contains an invalid object key'')
             else map_sum id (Pair key)
               (if is_secret_key key {} then Inr (JStr REDACTED) else sanitize (depth + 1) item)"
  note guards = sanitize_guards [OF 3(2) [unfolded sanitize.simps(3)]]
  note len = guards(3,2)
  obtain kws where w: "w = JObj kws" and "try_map ?f kvs = Inr kws"
    by (rule map_sum_InrE [OF guards(1)])
  then have all: "list_all2 (\<lambda>x y. ?f x = Inr y) kvs kws" by (simp only: try_map_Inr_iff)
  have "k \<noteq> [] \<and> length k \<le> MAX_RESULT_KEY_CHARS
      \<and> (if is_secret_key k {} then x = JStr REDACTED else result_safe (depth + 1) x)"
    if kx: "(k, x) \<in> set kws" for k x
  proof -
    obtain p where p: "p \<in> set kvs" "?f p = Inr (k, x)"
      using list_all2_set2 [OF all kx] by (rule bexE)
    obtain key item where ki: "(key, item) \<in> set kvs" "?f (key, item) = Inr (k, x)"
      by (rule that [of "fst p" "snd p"]) (simp_all only: prod.collapse p)
    then have key: "key = k" "k \<noteq> []" "length k \<le> MAX_RESULT_KEY_CHARS"
      and x: "(if is_secret_key k {} then Inr (JStr REDACTED) else sanitize (depth + 1) item) = Inr x"
      by (auto simp: map_sum_eq_Inr split: if_splits)
    then show ?thesis
      using ki(1) 3(1) [OF _ _ ki(1) refl, of x] len by (auto split: if_splits)
  qed
  then have "\<forall>(k, x) \<in> set kws. k \<noteq> [] \<and> length k \<le> MAX_RESULT_KEY_CHARS
      \<and> (if is_secret_key k {} then x = JStr REDACTED else result_safe (depth + 1) x)" by blast
  then show ?case using w len list_all2_lengthD [OF all] by simp
next
  case (4 depth xs)
  then obtain ys where w: "w = JList ys" and len: "length xs \<le> MAX_RESULT_ITEMS" "depth \<le> MAX_RESULT_DEPTH"
    and all: "list_all2 (\<lambda>x y. sanitize (depth + 1) x = Inr y) xs ys"
    by (auto simp: map_sum_eq_Inr try_map_Inr_iff split: if_splits)
  then show ?case using 4(1) list_all2_set2 [OF all] list_all2_lengthD [OF all] by fastforce
qed (auto split: if_splits pyfloat.splits)

lemma try_map_list_all2:
  assumes "list_all2 P xs ys" and "\<And>x y. x \<in> set xs \<Longrightarrow> P x y \<Longrightarrow> f x = f y"
  shows "try_map f xs = try_map f ys"
  using assms by (induction rule: list_all2_induct) (auto split: sum.splits)

text \<open>The values of secret keys have no influence on the copy.\<close>

lemma sanitize_public: "same_public {} v w \<Longrightarrow> sanitize depth v = sanitize depth w"
proof (induction depth v arbitrary: w rule: sanitize.induct)
  case (3 depth kvs)
  then obtain kws where w: "w = JObj kws" and all: "list_all2 (\<lambda>p q. fst p = fst q
      \<and> (is_secret_key (fst p) {} \<or> same_public {} (snd p) (snd q))) kvs kws" by auto
  let ?f = "\<lambda>(key, item). if key = [] \<or> MAX_RESULT_KEY_CHARS < length key
             then Inl (UnsafeResult ''provider result contains an invalid object key'')
             else map_sum id (Pair key)
               (if is_secret_key key {} then Inr (JStr REDACTED) else sanitize (depth + 1) item)"
  show ?case
  proof (cases "MAX_RESULT_DEPTH < depth \<or> MAX_RESULT_ITEMS < length kvs")
    case False
    have "try_map ?f kvs = try_map ?f kws"
      using all
    proof (rule try_map_list_all2)
      fix p q assume p: "p \<in> set kvs" and pq: "fst p = fst q \<and> (is_secret_key (fst p) {} \<or> same_public {} (snd p) (snd q))"
      show "?f p = ?f q"
        using 3(1) [OF _ _ p prod.collapse, of "snd q"] False pq
        by (auto simp: case_prod_unfold)
    qed
    then show ?thesis using w list_all2_lengthD [OF all] by simp
  qed (use w list_all2_lengthD [OF all] in auto)
next
  case (4 depth xs)
  then obtain ys where w: "w = JList ys" and all: "list_all2 (same_public {}) xs ys" by auto
  show ?case
  proof (cases "MAX_RESULT_DEPTH < depth \<or> MAX_RESULT_ITEMS < length xs")
    case False
    have "try_map (sanitize (depth + 1)) xs = try_map (sanitize (depth + 1)) ys"
      using all by (rule try_map_list_all2) (use 4(1) False in auto)
    then show ?thesis using w list_all2_lengthD [OF all] by simp
  qed (use w list_all2_lengthD [OF all] in auto)
qed auto

lemma sanitize_JObj: "sanitize depth (JObj kvs) = Inr w \<Longrightarrow> \<exists>kws. w = JObj kws"
  by (auto simp: map_sum_eq_Inr split: if_splits)



end
