(* ===== verification/Execution.thy ===== *)
theory Execution
  imports Database Result_Safety Circuit_Breaker
begin

text \<open>
  Model of \<^verbatim>\<open>era/services/execution_service.py\<close>, the only route from an action to a provider, and of
  \<^verbatim>\<open>era/core/timeout.py\<close>.  The state holds the durable tables, the circuit breakers, the world and a
  trace of the calls made to providers; a trace entry for \<open>execute\<close> records the audit rows that were
  durable at that moment.  Providers are values with a \<open>validate\<close> and an \<open>execute\<close> function over the
  world.  The engine's \<open>evaluate\<close> is total in the model, so the branch of \<open>request\<close> that catches its
  exceptions does not occur; the details that the source formats into validation messages are left
  out.  The clock is read before each breaker operation, which uses the reading only where the code
  reads the clock.
\<close>

section \<open>Providers, state, responses\<close>

record 'e provider_impl =
  pv_validate :: "action \<Rightarrow> 'e \<Rightarrow> (py_exc, unit) result \<times> 'e"
  pv_execute :: "action \<Rightarrow> exec_ctx \<Rightarrow> 'e \<Rightarrow> (py_exc, action_result) result \<times> 'e"
  pv_non_retryable :: "string set"
  pv_ambiguous :: "string set"

datatype event =
    EvValidate string action
  | EvExecute string action exec_ctx "audit_row list"

record 'e sys =
  sy_db :: db
  sy_breakers :: "breaker_table breaker_registry"
  sy_env :: 'e
  sy_trace :: "event list"

record 'e service = "'e core" +
  sv_registry :: "'e provider_impl tool_registry"
  sv_timeout_seconds :: rat
  sv_result_max_bytes :: int
  sv_retry_policy :: retry_policy
  sv_dual_approval :: bool

datatype exec_status =
  St_executed | St_failed | St_rejected | St_confirmation_required | St_awaiting_approval | St_denied

record response =
  rs_status :: exec_status
  rs_decision :: decision
  rs_confirmation_id :: "string option"
  rs_challenge :: "string option"
  rs_result :: "action_result option"
  rs_message :: "string option"
  rs_error_code :: "string option"

definition mk_response :: "exec_status \<Rightarrow> decision \<Rightarrow> response" where
  "mk_response st d = \<lparr>rs_status = st, rs_decision = d, rs_confirmation_id = None, rs_challenge = None,
     rs_result = None, rs_message = None, rs_error_code = None\<rparr>"

definition denied_response :: "decision \<Rightarrow> string \<Rightarrow> response" where
  "denied_response d msg = (mk_response St_denied d)\<lparr>rs_message := Some msg\<rparr>"

definition in_db :: "('e session, 'a) comp \<Rightarrow> ('e sys, 'a) comp" where
  "in_db m s = (case m (sy_db s, sy_env s) of (r, (d, e)) \<Rightarrow> (r, s\<lparr>sy_db := d, sy_env := e\<rparr>))"

definition in_env :: "('e \<Rightarrow> 'a \<times> 'e) \<Rightarrow> 'e sys \<Rightarrow> 'a \<times> 'e sys" where
  "in_env f s = (case f (sy_env s) of (x, e) \<Rightarrow> (x, s\<lparr>sy_env := e\<rparr>))"

definition ask_env :: "('e \<Rightarrow> 'a \<times> 'e) \<Rightarrow> ('e sys, 'a) comp" where
  "ask_env f s = (case in_env f s of (x, s') \<Rightarrow> (Inr x, s'))"

section \<open>Timeouts\<close>

text \<open>The worker thread of an overrun call is abandoned, not stopped: what it does to the world
  happens, its result is dropped.\<close>

definition run_with_timeout ::
  "('s \<Rightarrow> bool \<times> 's) \<Rightarrow> rat \<Rightarrow> string option \<Rightarrow> string \<Rightarrow> ('s, 'a) comp \<Rightarrow> ('s, 'a) comp" where
  "run_with_timeout overrun timeout_seconds pid stage call s =
     (if timeout_seconds \<le> 0 then call s
      else case overrun s of (late, s1) \<Rightarrow> (case call s1 of (r, s2) \<Rightarrow>
        if late
        then (Inl (ToolErr (mk_tool_error (''provider '' @ stage @ '' timed out'') pid (Code E_TIMEOUT))), s2)
        else case r of
          Inr v \<Rightarrow> (Inr v, s2)
        | Inl (ToolErr e) \<Rightarrow> (Inl (ToolErr e), s2)
        | Inl (OtherExc x) \<Rightarrow>
            (Inl (ToolErr (mk_tool_error (''provider '' @ stage @ '' error: '' @ x) pid (Code E_INTERNAL))), s2)))"

section \<open>Breakers\<close>

text \<open>\<open>breaker = circuit_breakers.get(provider.id)\<close> and the operations on that object.\<close>

definition breaker_get :: "string \<Rightarrow> ('e sys, breaker) comp" where
  "breaker_get pid s = (case registry_get sql_load (sy_breakers s) pid of
       Inl _ \<Rightarrow> (Inl (OtherExc ''ValueError''), s)
     | Inr (b, reg) \<Rightarrow> (Inr b, s\<lparr>sy_breakers := reg\<rparr>))"

definition breaker_allow :: "'e env_ops \<Rightarrow> string \<Rightarrow> ('e sys, bool) comp" where
  "breaker_allow ops pid =
     bind (breaker_get pid) (\<lambda>b. bind (ask_env (op_monotonic ops)) (\<lambda>t s.
       case allow_request sql_load sql_save t (b, reg_store (sy_breakers s)) of
         (Inl _, bs) \<Rightarrow> (Inl (OtherExc ''AssertionError''), s\<lparr>sy_breakers := registry_put (sy_breakers s) pid bs\<rparr>)
       | (Inr ok, bs) \<Rightarrow> (Inr ok, s\<lparr>sy_breakers := registry_put (sy_breakers s) pid bs\<rparr>)))"

definition breaker_success :: "string \<Rightarrow> ('e sys, unit) comp" where
  "breaker_success pid =
     bind (breaker_get pid) (\<lambda>b s.
       (Inr (), s\<lparr>sy_breakers := registry_put (sy_breakers s) pid
                    (record_success sql_load sql_save (b, reg_store (sy_breakers s)))\<rparr>))"

definition breaker_failure :: "'e env_ops \<Rightarrow> string \<Rightarrow> error_code \<Rightarrow> ('e sys, unit) comp" where
  "breaker_failure ops pid c =
     bind (breaker_get pid) (\<lambda>b. bind (ask_env (op_monotonic ops)) (\<lambda>t s.
       (Inr (), s\<lparr>sy_breakers := registry_put (sy_breakers s) pid
                    (record_failure sql_load sql_save t (Code c) (b, reg_store (sy_breakers s)))\<rparr>)))"

section \<open>Running a provider\<close>

definition timeout_budget :: "'e service \<Rightarrow> rat" where
  "timeout_budget sv = sv_timeout_seconds sv"

definition retry_policy_for :: "'e service \<Rightarrow> 'e provider_impl provider \<Rightarrow> string \<Rightarrow> retry_policy" where
  "retry_policy_for sv p a =
     (if a \<in> pv_non_retryable (p_impl p) \<and> max_attempts (sv_retry_policy sv) \<noteq> 1
      then (sv_retry_policy sv)\<lparr>max_attempts := 1\<rparr> else sv_retry_policy sv)"

definition dispatch_context :: "'e service \<Rightarrow> exec_ctx \<Rightarrow> ('e sys, exec_ctx) comp" where
  "dispatch_context sv ctx =
     (if timeout_budget sv \<le> 0 \<or> deadline ctx \<noteq> None then ret ctx
      else bind (ask_env (op_monotonic (co_ops sv))) (\<lambda>t.
        ret (ctx\<lparr>deadline := Some (t + timeout_budget sv)\<rparr>)))"

definition call_validate :: "'e provider_impl provider \<Rightarrow> action \<Rightarrow> ('e sys, unit) comp" where
  "call_validate p act s = (case pv_validate (p_impl p) act (sy_env s) of (r, e) \<Rightarrow>
     (r, s\<lparr>sy_env := e, sy_trace := sy_trace s @ [EvValidate (p_id p) act]\<rparr>))"

definition call_execute :: "'e provider_impl provider \<Rightarrow> action \<Rightarrow> exec_ctx \<Rightarrow> ('e sys, action_result) comp" where
  "call_execute p act ctx s = (case pv_execute (p_impl p) act ctx (sy_env s) of (r, e) \<Rightarrow>
     (r, s\<lparr>sy_env := e, sy_trace := sy_trace s @ [EvExecute (p_id p) act ctx (db_audit (sy_db s))]\<rparr>))"

definition failed_result :: "string \<Rightarrow> action_result" where
  "failed_result msg = \<lparr>ar_success = False, ar_summary = msg, ar_data = []\<rparr>"

text \<open>The two checks of the parameters before the provider sees them.  Errors of the module are
  rejections; from \<open>validate_params\<close>, any other exception escapes.\<close>

definition is_validation_exc :: "validation_error \<Rightarrow> bool" where
  "is_validation_exc e = (e \<notin> {PyTypeError, PyIntTooLong})"

definition check_params :: "'e service \<Rightarrow> action \<Rightarrow> (py_exc, string option) result" where
  "check_params sv act =
     (let schema_error =
        (case catalog_get (co_catalog sv) (action_type act) of
           Some spec \<Rightarrow>
             (if as_param_schema spec \<noteq> None then
                (case validate_param_schema (a_params act) (as_param_schema spec) of
                   Inl e \<Rightarrow> Some (if is_validation_exc e then ''parameter validation failed''
                                  else ''parameter validation error'')
                 | Inr _ \<Rightarrow> None)
              else None)
         | None \<Rightarrow> None)
      in case schema_error of
           Some msg \<Rightarrow> Inr (Some msg)
         | None \<Rightarrow>
             (case validate_params (co_frepr sv) (a_params act) (Some (action_type act)) None of
                Inl e \<Rightarrow> if is_validation_exc e then Inr (Some ''parameter validation failed'')
                         else Inl (OtherExc ''ValueError'')
              | Inr _ \<Rightarrow> Inr None))"

type_synonym run_result = "outcome \<times> action_result \<times> error_code option"

text \<open>The reliability defaults that the constructor takes from the settings.\<close>

definition retry_policy_from_settings :: "int \<Rightarrow> rat \<Rightarrow> rat \<Rightarrow> rat \<Rightarrow> (string, retry_policy) result" where
  "retry_policy_from_settings attempts base_backoff max_backoff factor =
     retry_policy_check \<lparr>max_attempts = attempts, base_backoff_seconds = base_backoff,
       max_backoff_seconds = max_backoff, backoff_factor = factor, retryable_codes = DEFAULT_RETRYABLE_CODES\<rparr>"

definition breaker_registry_from_settings ::
  "int \<Rightarrow> rat \<Rightarrow> (string, breaker_table breaker_registry) result" where
  "breaker_registry_from_settings threshold cooldown =
     map_sum id (\<lambda>cfg. \<lparr>reg_config = cfg, reg_store = None, reg_breakers = Map.empty\<rparr>)
       (breaker_config_check \<lparr>failure_threshold = threshold, cooldown_seconds = cooldown,
          trip_codes = DEFAULT_RETRYABLE_CODES\<rparr>)"

text \<open>What the validation stage answers, given the error the provider raised.\<close>

definition validate_error_code :: "error_code \<Rightarrow> error_code" where
  "validate_error_code c =
     (if c \<in> {E_VALIDATION, E_FORBIDDEN, E_NOT_FOUND, E_TIMEOUT} then c else E_VALIDATION)"

definition after_validate_error ::
  "'e service \<Rightarrow> 'e provider_impl provider \<Rightarrow> tool_error \<Rightarrow> ('e sys, run_result) comp" where
  "after_validate_error sv p e =
     (let safe_error = redact_sensitive_text (te_message e) in
      if te_code e = E_UNAVAILABLE
      then seq (breaker_failure (co_ops sv) (p_id p) (te_code e))
             (ret (O_FAILED, failed_result safe_error, Some (te_code e)))
      else ret (O_REJECTED, failed_result safe_error, Some (validate_error_code (te_code e))))"

definition execute_error_code :: "'e provider_impl provider \<Rightarrow> string \<Rightarrow> error_code \<Rightarrow> error_code" where
  "execute_error_code p a c =
     (if a \<in> pv_ambiguous (p_impl p) \<and> c \<in> {E_UNAVAILABLE, E_TIMEOUT, E_PROVIDER_ERROR}
      then E_SIDE_EFFECT_UNKNOWN else c)"

definition after_execute ::
  "'e service \<Rightarrow> 'e provider_impl provider \<Rightarrow> action \<Rightarrow> (py_exc, action_result) result
     \<Rightarrow> ('e sys, run_result) comp" where
  "after_execute sv p act r =
     (case r of
        Inr result \<Rightarrow>
          (case sanitize_action_result (co_frepr sv) (sv_result_max_bytes sv) result of
             Inl _ \<Rightarrow> seq (breaker_failure (co_ops sv) (p_id p) E_INTERNAL)
               (ret (O_FAILED, failed_result ''provider returned an unsafe result'', Some E_INTERNAL))
           | Inr safe \<Rightarrow>
               if ar_success safe
               then seq (breaker_success (p_id p)) (ret (O_EXECUTED, safe, None))
               else seq (breaker_failure (co_ops sv) (p_id p) E_PROVIDER_ERROR)
                 (ret (O_FAILED,
                       failed_result (if ar_summary safe = [] then ''provider returned failure'' else ar_summary safe),
                       Some E_PROVIDER_ERROR)))
      | Inl (ToolErr e) \<Rightarrow>
          let c = execute_error_code p (action_type act) (te_code e) in
          seq (breaker_failure (co_ops sv) (p_id p) c)
            (ret (O_FAILED, failed_result (redact_sensitive_text (te_message e)), Some c))
      | Inl (OtherExc x) \<Rightarrow>
          seq (breaker_failure (co_ops sv) (p_id p) E_INTERNAL)
            (ret (O_FAILED, failed_result (''provider error: '' @ x), Some E_INTERNAL)))"

text \<open>Run a computation and hand its result or exception on (\<open>try\<close>).\<close>

definition attempt :: "('s, 'a) comp \<Rightarrow> ((py_exc, 'a) result \<Rightarrow> ('s, 'b) comp) \<Rightarrow> ('s, 'b) comp" where
  "attempt m k s = (case m s of (r, s') \<Rightarrow> k r s')"

definition execute_stage ::
  "'e service \<Rightarrow> 'e provider_impl provider \<Rightarrow> action \<Rightarrow> exec_ctx \<Rightarrow> ('e sys, action_result) comp" where
  "execute_stage sv p act ctx =
     run_with_timeout (in_env (op_overrun (co_ops sv))) (timeout_budget sv) (Some (p_id p)) ''execute''
       (with_retry (retry_policy_for sv p (action_type act)) (deadline ctx) (Some (p_id p))
          (in_env (op_monotonic (co_ops sv)))
          (\<lambda>d s. s\<lparr>sy_env := op_sleep (co_ops sv) d (sy_env s)\<rparr>)
          (call_execute p act ctx))"

definition validated_run ::
  "'e service \<Rightarrow> 'e provider_impl provider \<Rightarrow> action \<Rightarrow> exec_ctx \<Rightarrow> ('e sys, run_result) comp" where
  "validated_run sv p act dispatch_ctx =
     attempt (run_with_timeout (in_env (op_overrun (co_ops sv))) (timeout_budget sv) (Some (p_id p))
                ''validate'' (call_validate p act)) (\<lambda>v.
       case v of
         Inl (ToolErr e) \<Rightarrow> after_validate_error sv p e
       | Inl (OtherExc x) \<Rightarrow> raise_exc (OtherExc x)
       | Inr _ \<Rightarrow> attempt (execute_stage sv p act dispatch_ctx) (after_execute sv p act))"

definition checked_run ::
  "'e service \<Rightarrow> 'e provider_impl provider \<Rightarrow> action \<Rightarrow> exec_ctx \<Rightarrow> ('e sys, run_result) comp" where
  "checked_run sv p act dispatch_ctx =
     bind (lift_res (check_params sv act)) (\<lambda>bad.
       case bad of
         Some msg \<Rightarrow> ret (O_REJECTED, failed_result msg, Some E_VALIDATION)
       | None \<Rightarrow> validated_run sv p act dispatch_ctx)"

definition run_provider ::
  "'e service \<Rightarrow> 'e provider_impl provider \<Rightarrow> action \<Rightarrow> exec_ctx \<Rightarrow> ('e sys, run_result) comp" where
  "run_provider sv p act ctx =
     bind (dispatch_context sv ctx) (\<lambda>dispatch_ctx.
     bind (breaker_allow (co_ops sv) (p_id p)) (\<lambda>allowed.
       if \<not> allowed
       then ret (O_FAILED, failed_result (''provider '' @ p_id p @ '' circuit open: dispatch blocked''),
                 Some E_UNAVAILABLE)
       else checked_run sv p act dispatch_ctx))"

section \<open>Dispatch and record\<close>

definition credential_ref :: "exec_ctx \<Rightarrow> string option \<Rightarrow> string option" where
  "credential_ref ctx domain =
     (let refs = cred_refs ctx in
      if refs = [] then None
      else case domain of
        Some d \<Rightarrow> if d \<noteq> [] \<and> map_of refs d \<noteq> None then map_of refs d else Some (snd (hd refs))
      | None \<Rightarrow> Some (snd (hd refs)))"

definition meta_of ::
  "'e service \<Rightarrow> string \<Rightarrow> exec_ctx \<Rightarrow> risk_level option \<times> string option \<times> string option \<times> string option" where
  "meta_of sv a ctx =
     (let spec = catalog_get (co_catalog sv) a;
          domain = map_option as_domain spec
      in (map_option as_risk spec, domain, map_option p_id (registry_lookup (sv_registry sv) a),
          credential_ref ctx domain))"

definition forbidden :: "'e service \<Rightarrow> string \<Rightarrow> bool" where
  "forbidden sv a = (case catalog_get (co_catalog sv) a of None \<Rightarrow> False | Some spec \<Rightarrow> as_risk spec = FORBIDDEN)"

definition note_for ::
  "'e service \<Rightarrow> string \<Rightarrow> exec_ctx \<Rightarrow> string option \<Rightarrow> string option \<Rightarrow> audit_note" where
  "note_for sv a ctx cid result = (case meta_of sv a ctx of (risk, domain, provider_id, cred) \<Rightarrow>
     blank_note\<lparr>an_confirmation_id := cid, an_result := result, an_provider_id := provider_id,
                an_capability_domain := domain, an_credential_ref := cred\<rparr>)"

definition record_event ::
  "'e service \<Rightarrow> action \<Rightarrow> exec_ctx \<Rightarrow> risk_level option \<Rightarrow> decision \<Rightarrow> outcome \<Rightarrow> int \<Rightarrow> audit_note
     \<Rightarrow> ('e sys, unit) comp" where
  "record_event sv act ctx risk dec out version note =
     in_db (transaction (co_ops sv) (audit_in_session sv act ctx risk dec out version note))"

fun status_of_outcome :: "outcome \<Rightarrow> exec_status" where
  "status_of_outcome O_EXECUTED = St_executed"
| "status_of_outcome O_FAILED = St_failed"
| "status_of_outcome _ = St_rejected"

definition dispatch_and_record ::
  "'e service \<Rightarrow> action \<Rightarrow> exec_ctx \<Rightarrow> decision \<Rightarrow> int \<Rightarrow> string option \<Rightarrow> ('e sys, response) comp" where
  "dispatch_and_record sv act ctx dec version cid =
     bind (case registry_lookup (sv_registry sv) (action_type act) of
             None \<Rightarrow> ret (O_REJECTED, failed_result ''no provider registered for action'', Some E_NOT_IMPLEMENTED)
           | Some p \<Rightarrow> run_provider sv p act ctx)
       (\<lambda>(out, result, err).
          seq (record_event sv act ctx (fst (meta_of sv (action_type act) ctx)) dec out version
                 ((note_for sv (action_type act) ctx cid (Some (ar_summary result)))
                    \<lparr>an_error_code := map_option error_value err\<rparr>))
            (ret ((mk_response (status_of_outcome out) dec)
                   \<lparr>rs_result := Some result,
                    rs_message := (if ar_success result then None else Some (ar_summary result)),
                    rs_error_code := map_option error_value err\<rparr>)))"

definition authorize_and_dispatch ::
  "'e service \<Rightarrow> action \<Rightarrow> exec_ctx \<Rightarrow> risk_level option \<Rightarrow> decision \<Rightarrow> int \<Rightarrow> string option
     \<Rightarrow> ('e sys, response) comp" where
  "authorize_and_dispatch sv act ctx risk dec version cid =
     seq (record_event sv act ctx risk dec O_AUTHORIZED version (note_for sv (action_type act) ctx cid None))
       (dispatch_and_record sv act ctx dec version cid)"

section \<open>Requests\<close>

text \<open>The new confirmation is bound to the actor and its scope, and the pending event is written.\<close>

definition bind_confirmation ::
  "'e service \<Rightarrow> action \<Rightarrow> exec_ctx \<Rightarrow> risk_level \<Rightarrow> decision \<Rightarrow> int
     \<Rightarrow> (confirmation \<times> string option) \<times> confirmation list \<Rightarrow> ('e session, response) comp" where
  "bind_confirmation sv act ctx risk dec version created =
     (let c = fst (fst created);
          c' = c\<lparr>cf_actor_id := Some (actor_id ctx), cf_execution_scope := execution_scope ctx\<rparr>
      in seq (change (db_confirmations_update (\<lambda>_. confirmation_update c' (snd created))))
        (seq (audit_in_session sv act ctx (Some risk) dec O_PENDING version
                (note_for sv (action_type act) ctx (Some (cf_id c)) None))
          (ret ((mk_response St_confirmation_required dec)
                 \<lparr>rs_confirmation_id := Some (cf_id c), rs_challenge := snd (fst created)\<rparr>))))"

definition require_confirmation_tx ::
  "'e service \<Rightarrow> action \<Rightarrow> exec_ctx \<Rightarrow> risk_level \<Rightarrow> decision \<Rightarrow> int \<Rightarrow> ('e session, response) comp" where
  "require_confirmation_tx sv act ctx risk dec version =
     bind (if dec = CONFIRM_STRONG then ask (op_token (co_ops sv)) else ret []) (\<lambda>token.
     bind (ask (op_utcnow (co_ops sv))) (\<lambda>now.
     bind (ask (op_uuid (co_ops sv))) (\<lambda>uuid.
     bind (query db_confirmations) (\<lambda>cs.
     bind (lift_res (create_confirmation (co_sha sv) (co_frepr sv) (co_catalog sv) (co_conf sv) now uuid token
                       act risk dec version cs))
       (bind_confirmation sv act ctx risk dec version)))))"

text \<open>An action without a catalog entry has no risk level, and \<open>risk_level.value\<close> raises.\<close>

definition require_confirmation ::
  "'e service \<Rightarrow> action \<Rightarrow> exec_ctx \<Rightarrow> risk_level option \<Rightarrow> decision \<Rightarrow> int \<Rightarrow> ('e sys, response) comp" where
  "require_confirmation sv act ctx risk dec version =
     in_db (transaction (co_ops sv) (case risk of
       None \<Rightarrow> raise_exc (OtherExc ''AttributeError'')
     | Some r \<Rightarrow> require_confirmation_tx sv act ctx r dec version))"

definition policy_version :: "policy option \<Rightarrow> int" where
  "policy_version pol = (case pol of Some p \<Rightarrow> pol_version p | None \<Rightarrow> 0)"

definition request_under :: "'e service \<Rightarrow> action \<Rightarrow> exec_ctx \<Rightarrow> policy option \<Rightarrow> ('e sys, response) comp" where
  "request_under sv act ctx pol =
     (if forbidden sv (action_type act)
      then seq (record_event sv act ctx (Some FORBIDDEN) DENY O_DENIED_BY_POLICY (policy_version pol)
                  (note_for sv (action_type act) ctx None (Some ''forbidden action'')))
             (ret (denied_response DENY ''forbidden''))
      else case evaluate (co_catalog sv) act pol of
        DENY \<Rightarrow> seq (record_event sv act ctx (fst (meta_of sv (action_type act) ctx)) DENY O_DENIED_BY_POLICY
                        (policy_version pol) (note_for sv (action_type act) ctx None None))
                  (ret (denied_response DENY ''denied by policy''))
      | ALLOW \<Rightarrow> authorize_and_dispatch sv act ctx (fst (meta_of sv (action_type act) ctx)) ALLOW (policy_version pol) None
      | dec \<Rightarrow> require_confirmation sv act ctx (fst (meta_of sv (action_type act) ctx)) dec (policy_version pol))"

definition request :: "'e service \<Rightarrow> action \<Rightarrow> exec_ctx \<Rightarrow> ('e sys, response) comp" where
  "request sv act ctx = bind (in_db (get_current (co_ops sv))) (request_under sv act ctx)"

section \<open>Approvals and denials\<close>

datatype approve_result = Respond response | Dispatch exec_ctx decision int string

text \<open>Mark the confirmation (when a status is given), write an audit row, and answer.\<close>

definition resolve ::
  "'e service \<Rightarrow> confirmation \<Rightarrow> conf_status option \<Rightarrow> action \<Rightarrow> exec_ctx \<Rightarrow> risk_level option \<Rightarrow> decision
     \<Rightarrow> outcome \<Rightarrow> audit_note \<Rightarrow> 'a \<Rightarrow> ('e session, 'a) comp" where
  "resolve sv c st act ctx risk dec out note x =
     seq (case st of
            None \<Rightarrow> ret ()
          | Some status \<Rightarrow> bind (ask (op_utcnow (co_ops sv))) (\<lambda>now.
              change (db_confirmations_update (mark_status now c status))))
       (seq (audit_in_session sv act ctx risk dec out (cf_policy_version c) note) (ret x))"

definition awaiting_response :: "decision \<Rightarrow> string \<Rightarrow> response" where
  "awaiting_response dec cid = (mk_response St_awaiting_approval dec)
     \<lparr>rs_confirmation_id := Some cid, rs_message := Some ''awaiting a distinct secondary approval''\<rparr>"

text \<open>The caller's own approval is recorded first; \<open>None\<close> is the branch in which it could not be.\<close>

definition settle_approval ::
  "(approval_error, approval \<times> approval list) result \<Rightarrow> ('e session, unit option) comp" where
  "settle_approval res = (case res of
       Inr (_, as') \<Rightarrow> seq (change (db_approvals_update (\<lambda>_. as'))) (ret (Some ()))
     | Inl ApprovalAlreadyExists \<Rightarrow> ret (Some ())
     | Inl (StorageError e) \<Rightarrow> raise_exc e
     | Inl _ \<Rightarrow> ret None)"

definition record_primary ::
  "'e service \<Rightarrow> confirmation \<Rightarrow> string \<Rightarrow> ('e session, unit option) comp" where
  "record_primary sv c actor =
     bind (query (\<lambda>d. approval_get_by_actor (db_approvals d) (cf_id c) actor)) (\<lambda>r. bind (lift_res r) (\<lambda>existing.
       if existing \<noteq> None then ret (Some ())
       else
         bind (ask (op_uuid (co_ops sv))) (\<lambda>uuid. bind (ask (op_utcnow (co_ops sv))) (\<lambda>now.
         bind (query (\<lambda>d. record_approval_in_session now uuid (cf_id c) actor APPROVAL_GRANTED None
                            (db_confirmations d) (db_approvals d))) settle_approval))))"

text \<open>The gate of dual approval: \<open>None\<close> lets the confirmation be used.\<close>

definition dual_gate ::
  "'e service \<Rightarrow> confirmation \<Rightarrow> action \<Rightarrow> exec_ctx \<Rightarrow> ('e session, approve_result option) comp" where
  "dual_gate sv c act dctx =
     (let dec = cf_decision c; cid = cf_id c; risk = Some (cf_risk_level c);
          note = (\<lambda>text. note_for sv (cf_action_type c) dctx (Some cid) (Some text));
          deny = Respond (denied_response dec ''denied'')
      in if \<not> sv_dual_approval sv
         then resolve sv c (Some STATUS_DENIED) act dctx risk dec O_REJECTED
                (note ''dual approval service unavailable'') (Some deny)
         else bind (record_primary sv c (actor_id dctx)) (\<lambda>recorded.
           case recorded of
             None \<Rightarrow> resolve sv c (Some STATUS_DENIED) act dctx risk dec O_REJECTED
                       (note ''dual approval could not be recorded'') (Some deny)
           | Some _ \<Rightarrow> bind (query (\<lambda>d. state_in_session (db_approvals d) c)) (\<lambda>(dispatchable, denied).
               if denied
               then resolve sv c (Some STATUS_DENIED) act dctx risk dec O_DENIED_BY_USER
                      (note ''dual approval denied'') (Some deny)
               else if \<not> dispatchable
               then resolve sv c None act dctx risk dec O_PENDING
                      (note ''awaiting a distinct secondary approval'') (Some (Respond (awaiting_response dec cid)))
               else ret None)))"

text \<open>A valid confirmation: through the gate where two approvals are needed, then it is used up and
  the authorization is written in the same transaction.\<close>

definition scope_ctx :: "confirmation \<Rightarrow> exec_ctx \<Rightarrow> exec_ctx" where
  "scope_ctx c ctx = ctx\<lparr>execution_scope :=
     (if truthy_opt (cf_execution_scope c) then cf_execution_scope c else execution_scope ctx)\<rparr>"

definition consume :: "'e service \<Rightarrow> confirmation \<Rightarrow> action \<Rightarrow> exec_ctx \<Rightarrow> ('e session, approve_result) comp" where
  "consume sv c act dctx =
     bind (if requires_dual_approval (cf_risk_level c) then dual_gate sv c act dctx else ret None) (\<lambda>stop.
       case stop of
         Some r \<Rightarrow> ret r
       | None \<Rightarrow> resolve sv c (Some STATUS_USED) act dctx (Some (cf_risk_level c)) (cf_decision c) O_AUTHORIZED
                   (note_for sv (cf_action_type c) dctx (Some (cf_id c)) None)
                   (Dispatch dctx (cf_decision c) (cf_policy_version c) (cf_id c)))"

definition bare_note :: "confirmation \<Rightarrow> string \<Rightarrow> audit_note" where
  "bare_note c text = blank_note\<lparr>an_confirmation_id := Some (cf_id c), an_result := Some text\<rparr>"

text \<open>An invalid one: a confirmation that is already resolved is left as it is.\<close>

definition refuse ::
  "'e service \<Rightarrow> confirmation \<Rightarrow> action \<Rightarrow> exec_ctx \<Rightarrow> string \<Rightarrow> ('e session, approve_result) comp" where
  "refuse sv c act ctx reason =
     (let resp = Respond (denied_response (cf_decision c) reason) in
      if cf_status c \<noteq> STATUS_PENDING
      then resolve sv c None act ctx (Some (cf_risk_level c)) (cf_decision c) O_REJECTED
             (bare_note c (''redundant resolution attempt: '' @ reason)) resp
      else resolve sv c (Some (if reason = ''expired'' then STATUS_EXPIRED else STATUS_DENIED)) act ctx
             (Some (cf_risk_level c)) (cf_decision c)
             (if reason = ''expired'' then O_EXPIRED else O_REJECTED) (bare_note c reason) resp)"

definition approve_found ::
  "'e service \<Rightarrow> confirmation \<Rightarrow> action \<Rightarrow> exec_ctx \<Rightarrow> string option \<Rightarrow> bool \<Rightarrow> ('e session, approve_result) comp" where
  "approve_found sv c act ctx challenge allow_cross_actor =
     (if forbidden sv (cf_action_type c) \<or> forbidden sv (action_type act)
      then resolve sv c (Some STATUS_DENIED) act ctx (Some FORBIDDEN) DENY O_DENIED_BY_POLICY
             (bare_note c ''forbidden action'') (Respond (denied_response DENY ''forbidden''))
      else if \<not> allow_cross_actor \<and> cf_actor_id c \<noteq> None \<and> cf_actor_id c \<noteq> Some (actor_id ctx)
      then resolve sv c (Some STATUS_DENIED) act ctx (Some (cf_risk_level c)) (cf_decision c) O_REJECTED
             (bare_note c ''confirmation belongs to another actor'')
             (Respond (denied_response (cf_decision c) ''denied''))
      else bind (ask (op_utcnow (co_ops sv))) (\<lambda>now.
        case validate_confirmation (co_sha sv) (co_frepr sv) now c act challenge of
          Some reason \<Rightarrow> refuse sv c act ctx reason
        | None \<Rightarrow> consume sv c act (scope_ctx c ctx)))"

definition approve_tx ::
  "'e service \<Rightarrow> string \<Rightarrow> action \<Rightarrow> exec_ctx \<Rightarrow> string option \<Rightarrow> bool \<Rightarrow> ('e session, approve_result) comp" where
  "approve_tx sv cid act ctx challenge allow_cross_actor =
     bind (query (\<lambda>d. confirmation_get (db_confirmations d) cid)) (\<lambda>found.
     case found of
       None \<Rightarrow> seq (audit_in_session sv act ctx None DENY O_REJECTED 0
                     (blank_note\<lparr>an_result := Some ''unknown confirmation''\<rparr>))
                (ret (Respond (denied_response DENY ''unknown confirmation'')))
     | Some c \<Rightarrow> approve_found sv c act ctx challenge allow_cross_actor)"

definition approve ::
  "'e service \<Rightarrow> string \<Rightarrow> action \<Rightarrow> exec_ctx \<Rightarrow> string option \<Rightarrow> bool \<Rightarrow> ('e sys, response) comp" where
  "approve sv cid act ctx challenge allow_cross_actor =
     bind (in_db (transaction (co_ops sv) (approve_tx sv cid act ctx challenge allow_cross_actor))) (\<lambda>r.
       case r of
         Respond resp \<Rightarrow> ret resp
       | Dispatch dctx dec version cid' \<Rightarrow> dispatch_and_record sv act dctx dec version (Some cid'))"

fun status_text :: "conf_status \<Rightarrow> string" where
  "status_text STATUS_PENDING = ''PENDING''"
| "status_text STATUS_USED = ''USED''"
| "status_text STATUS_DENIED = ''DENIED''"
| "status_text STATUS_EXPIRED = ''EXPIRED''"

definition deny_tx :: "'e service \<Rightarrow> string \<Rightarrow> exec_ctx \<Rightarrow> ('e session, response) comp" where
  "deny_tx sv cid ctx =
     bind (query (\<lambda>d. confirmation_get (db_confirmations d) cid)) (\<lambda>found.
     case found of
       None \<Rightarrow> ret (denied_response DENY ''unknown confirmation'')
     | Some c \<Rightarrow>
         if cf_status c \<noteq> STATUS_PENDING
         then ret (denied_response (cf_decision c) (''already '' @ status_text (cf_status c)))
         else if cf_actor_id c \<noteq> None \<and> cf_actor_id c \<noteq> Some (actor_id ctx)
         then ret (denied_response (cf_decision c) ''denied'')
         else resolve sv c (Some STATUS_DENIED) \<lparr>action_type = cf_action_type c, a_params = cf_params_redacted c\<rparr>
                ctx (Some (cf_risk_level c)) (cf_decision c) O_DENIED_BY_USER
                (note_for sv (cf_action_type c) ctx (Some (cf_id c)) None)
                (denied_response (cf_decision c) ''denied by user''))"

definition deny :: "'e service \<Rightarrow> string \<Rightarrow> exec_ctx \<Rightarrow> ('e sys, response) comp" where
  "deny sv cid ctx = in_db (transaction (co_ops sv) (deny_tx sv cid ctx))"

end
