(* ===== verification/Small_Deployment.thy ===== *)
theory Small_Deployment
  imports Execution
begin

text \<open>
  A small deployment of the execution service, on which the operations are evaluated step by step:
  a clock that stands still, commits that succeed, and one provider that answers at once.  The
  simplifier runs a computation by these rules, which keep it from looking into continuations.
\<close>

section \<open>A small deployment\<close>

definition still_ops :: "unit env_ops" where
  "still_ops = \<lparr>op_utcnow = (\<lambda>e. (''2024-02-29T23:59:30+00:00'', e)), op_monotonic = (\<lambda>e. (0, e)),
     op_sleep = (\<lambda>_ e. e), op_uuid = (\<lambda>e. (''c1'', e)), op_token = (\<lambda>e. (''phrase'', e)),
     op_commit = (\<lambda>e. (True, e)), op_overrun = (\<lambda>e. (False, e))\<rparr>"

definition echo_provider :: "unit provider_impl provider" where
  "echo_provider = \<lparr>p_id = ''echo'', p_action_types = [''note.add'', ''note.wipe'', ''pay''],
     p_impl = \<lparr>pv_validate = (\<lambda>_ e. (Inr (), e)),
       pv_execute = (\<lambda>_ _ e. (Inr \<lparr>ar_success = True, ar_summary = ''done'', ar_data = []\<rparr>, e)),
       pv_non_retryable = {''pay''}, pv_ambiguous = {''pay''}\<rparr>\<rparr>"

definition plain_spec :: "string \<Rightarrow> risk_level \<Rightarrow> action_spec" where
  "plain_spec a risk = \<lparr>as_action_type = a, as_risk = risk, as_domain = ''notes'', as_secret_fields = {},
     as_param_schema = None\<rparr>"

definition small_service :: "unit service" where
  "small_service =
     \<lparr>co_sha = (\<lambda>x. x), co_frepr = (\<lambda>_. ''1.5''), co_repo = \<lparr>repo_genesis = ''0'', repo_signer = None\<rparr>,
      co_catalog = [(''note.add'', plain_spec ''note.add'' SAFE), (''note.wipe'', plain_spec ''note.wipe'' FORBIDDEN),
                    (''pay'', plain_spec ''pay'' FINANCIAL), (''note.mail'', plain_spec ''note.mail'' COMMUNICATION)],
      co_app_version = ''1'', co_conf = \<lparr>confirmation_ttl_seconds = 300, confirmation_ttl_strong_seconds = 120\<rparr>,
      co_ops = still_ops,
      sv_registry = \<lparr>tr_providers = [(''note.add'', echo_provider), (''note.wipe'', echo_provider), (''pay'', echo_provider),
                       (''note.mail'', echo_provider)],
                     tr_by_id = [(''echo'', echo_provider)]\<rparr>,
      sv_timeout_seconds = 30, sv_result_max_bytes = 1000, sv_retry_policy = default_retry_policy,
      sv_dual_approval = True\<rparr>"

definition small_db :: db where
  "small_db = \<lparr>db_audit = [], db_confirmations = [], db_approvals = [],
     db_policies = [\<lparr>pr_version = 1, pr_document = default_policy, pr_changed_by = ''bootstrap''\<rparr>]\<rparr>"

definition small_state :: "unit sys" where
  "small_state = \<lparr>sy_db = small_db,
     sy_breakers = \<lparr>reg_config = default_breaker_config, reg_store = None, reg_breakers = Map.empty\<rparr>,
     sy_env = (), sy_trace = []\<rparr>"

definition add_note :: action where
  "add_note = \<lparr>action_type = ''note.add'', a_params = []\<rparr>"

definition send_note :: action where
  "send_note = \<lparr>action_type = ''note.mail'', a_params = [(''to'', JStr ''bob'')]\<rparr>"

section \<open>Evaluation\<close>

lemma attempt_weak_cong: "m = m' \<Longrightarrow> s = s' \<Longrightarrow> attempt m f s = attempt m' f s'"
  by simp

lemmas plumbing = bind_def seq_run attempt_def ret_def raise_exc_def ask_def query_def change_def lift_res_def
  transaction_def in_db_def in_env_def ask_env_def
lemma echo_result: "sanitize_action_result (\<lambda>_. ''1.5'') 1000 \<lparr>ar_success = True, ar_summary = ''done'', ar_data = []\<rparr> = Inr \<lparr>ar_success = True, ar_summary = ''done'', ar_data = []\<rparr>"
  by code_simp
lemma small_params: "check_params small_service add_note = Inr None" "check_params small_service send_note = Inr None"
  by code_simp+


lemma small_service_sel [simp]:
  "co_sha small_service = (\<lambda>x. x)" "co_frepr small_service = (\<lambda>_. ''1.5'')"
  "co_repo small_service = \<lparr>repo_genesis = ''0'', repo_signer = None\<rparr>"
  "co_ops small_service = still_ops" "sv_timeout_seconds small_service = 30"
  "sv_result_max_bytes small_service = 1000" "sv_retry_policy small_service = default_retry_policy"
  "sv_dual_approval small_service"
  by (simp_all add: small_service_def)

lemma still_ops_sel [simp]:
  "op_utcnow still_ops e = (''2024-02-29T23:59:30+00:00'', e)" "op_monotonic still_ops e = (0, e)"
  "op_sleep still_ops d e = e" "op_uuid still_ops e = (''c1'', e)" "op_token still_ops e = (''phrase'', e)"
  "op_commit still_ops e = (True, e)" "op_overrun still_ops e = (False, e)"
  by (simp_all add: still_ops_def)

lemma echo_sel [simp]: "p_id echo_provider = ''echo''" "pv_validate (p_impl echo_provider) a e = (Inr (), e)"
  "pv_execute (p_impl echo_provider) a c e = (Inr \<lparr>ar_success = True, ar_summary = ''done'', ar_data = []\<rparr>, e)"
  by (simp_all add: echo_provider_def)

lemma echo_run:
  assumes "check_params small_service act = Inr None"
    and "sy_breakers s = \<lparr>reg_config = default_breaker_config, reg_store = None, reg_breakers = Map.empty\<rparr>"
    and "deadline ctx = None" 
  shows "\<exists>s'. run_provider small_service echo_provider act ctx s
      = (Inr (O_EXECUTED, \<lparr>ar_success = True, ar_summary = ''done'', ar_data = []\<rparr>, None), s')
     \<and> sy_trace s' = sy_trace s @ [EvValidate ''echo'' act, EvExecute ''echo'' act (ctx\<lparr>deadline := Some 30\<rparr>) (db_audit (sy_db s))]"
  using assms
  by (simp add: run_provider_def dispatch_context_def timeout_budget_def breaker_allow_def breaker_get_def
      registry_get_def new_breaker_def allow_request_def registry_put_def plumbing checked_run_def
      validated_run_def run_with_timeout_def call_validate_def execute_stage_def with_retry_def
      retry_loop.simps retry_policy_for_def call_execute_def after_execute_def echo_result breaker_success_def record_success_def persist_def
      default_retry_policy_def
      cong: bind_weak_cong seq_weak_cong attempt_weak_cong)
lemma small_audit:
  "\<exists>row. audit_in_session small_service act ctx risk dec out v nt s
     = (Inr (), ((fst s)\<lparr>db_audit := db_audit (fst s) @ [row]\<rparr>, snd s))"
proof -
  have "\<exists>rows. audit_record (\<lambda>x. x) (\<lambda>_. ''1.5'') \<lparr>repo_genesis = ''0'', repo_signer = None\<rparr> (co_catalog small_service)
      (co_app_version small_service) now act ctx r dec out v nt rs = Some (rs @ [rows])" for now r rs
    by (simp add: audit_record_def audit_append_def build_audit_row_def Let_def)
  then obtain row where "audit_record (\<lambda>x. x) (\<lambda>_. ''1.5'') \<lparr>repo_genesis = ''0'', repo_signer = None\<rparr> (co_catalog small_service)
      (co_app_version small_service) ''2024-02-29T23:59:30+00:00'' act ctx (map_option Inl risk) dec out v nt (db_audit (fst s))
      = Some (db_audit (fst s) @ [row])" by blast
  then show ?thesis
    by (intro exI [of _ row]) (simp add: audit_in_session_def plumbing cong: bind_weak_cong)
qed

lemma small_record:
  "\<exists>row. record_event small_service act ctx risk dec out v nt s
     = (Inr (), s\<lparr>sy_db := (sy_db s)\<lparr>db_audit := db_audit (sy_db s) @ [row]\<rparr>\<rparr>)"
proof -
  obtain row where "audit_in_session small_service act ctx risk dec out v nt (sy_db s, sy_env s)
      = (Inr (), ((sy_db s)\<lparr>db_audit := db_audit (sy_db s) @ [row]\<rparr>, sy_env s))"
    using small_audit [of act ctx risk dec out v nt "(sy_db s, sy_env s)"] by auto
  then show ?thesis
    by (intro exI [of _ row]) (simp add: record_event_def transaction_def in_db_def)
qed

lemma small_lookup:
  "registry_lookup (sv_registry small_service) ''note.add'' = Some echo_provider"
  "registry_lookup (sv_registry small_service) ''note.mail'' = Some echo_provider"
  by (simp_all add: registry_lookup_def small_service_def)

lemma small_catalog:
  "map_of (co_catalog small_service) ''note.add'' = Some (plain_spec ''note.add'' SAFE)"
  "map_of (co_catalog small_service) ''note.mail'' = Some (plain_spec ''note.mail'' COMMUNICATION)"
  "map_of (co_catalog small_service) ''note.wipe'' = Some (plain_spec ''note.wipe'' FORBIDDEN)"
  "as_risk (plain_spec a r) = r"
  by (simp_all add: small_service_def plain_spec_def)

lemma small_forbidden:
  "\<not> forbidden small_service ''note.add''" "\<not> forbidden small_service ''note.mail''"
  "forbidden small_service ''note.wipe''"
  by (simp_all add: forbidden_def catalog_get_def small_catalog)

lemma small_dispatch:
  assumes "check_params small_service act = Inr None"
    and "registry_lookup (sv_registry small_service) (action_type act) = Some echo_provider"
    and "sy_breakers s = \<lparr>reg_config = default_breaker_config, reg_store = None, reg_breakers = Map.empty\<rparr>"
    and "deadline ctx = None"
  shows "\<exists>resp s'. dispatch_and_record small_service act ctx dec v cid s = (Inr resp, s') \<and> rs_status resp = St_executed
    \<and> sy_trace s' = sy_trace s @ [EvValidate ''echo'' act, EvExecute ''echo'' act (ctx\<lparr>deadline := Some 30\<rparr>) (db_audit (sy_db s))]"
proof -
  from echo_run [OF assms(1,3,4)] obtain t where t: "run_provider small_service echo_provider act ctx s
      = (Inr (O_EXECUTED, \<lparr>ar_success = True, ar_summary = ''done'', ar_data = []\<rparr>, None), t)"
    "sy_trace t = sy_trace s @ [EvValidate ''echo'' act, EvExecute ''echo'' act (ctx\<lparr>deadline := Some 30\<rparr>) (db_audit (sy_db s))]"
    by blast
  obtain row where row: "record_event small_service act ctx (fst (meta_of small_service (action_type act) ctx)) dec
      O_EXECUTED v (note_for small_service (action_type act) ctx cid (Some ''done'')\<lparr>an_error_code := None\<rparr>) t
      = (Inr (), t\<lparr>sy_db := (sy_db t)\<lparr>db_audit := db_audit (sy_db t) @ [row]\<rparr>\<rparr>)"
    using small_record by blast
  show ?thesis
    using t assms(2) row by (simp add: dispatch_and_record_def plumbing mk_response_def)
qed

lemma small_request:
  "\<exists>resp s'. request small_service add_note (plain_ctx ''alice'') small_state = (Inr resp, s')
     \<and> rs_status resp = St_executed \<and> length (sy_trace s') = 2"
proof -
  have current: "in_db (get_current still_ops) small_state = (Inr (Some default_policy), small_state)"
    by (simp add: get_current_def plumbing small_state_def small_db_def)
  have allowed: "\<not> forbidden small_service (action_type add_note)"
      "evaluate (co_catalog small_service) add_note (Some default_policy) = ALLOW"
    by (simp_all add: small_forbidden add_note_def evaluate_def default_policy_def DEFAULT_TIER_DEFAULTS_def
        catalog_get_def small_catalog)
  let ?ctx = "plain_ctx ''alice''"
  obtain row where row: "record_event small_service add_note ?ctx
      (fst (meta_of small_service (action_type add_note) ?ctx)) ALLOW O_AUTHORIZED (policy_version (Some default_policy))
      (note_for small_service (action_type add_note) ?ctx None None) small_state
      = (Inr (), small_state\<lparr>sy_db := (sy_db small_state)\<lparr>db_audit := db_audit (sy_db small_state) @ [row]\<rparr>\<rparr>)" (is "_ = (_, ?s)")
    using small_record by blast
  obtain resp s' where disp: "dispatch_and_record small_service add_note ?ctx ALLOW (policy_version (Some default_policy)) None ?s
      = (Inr resp, s')" "rs_status resp = St_executed" "length (sy_trace s') = 2"
    using small_dispatch [of add_note ?s ?ctx ALLOW "policy_version (Some default_policy)" None] small_params(1) small_lookup(1)
    by (auto simp: add_note_def plain_ctx_def small_state_def)
  have "request small_service add_note ?ctx small_state = (Inr resp, s')"
    using disp(1) by (simp add: request_def bind_def [of "in_db m" for m] current request_under_def allowed
        authorize_and_dispatch_def seq_run row)
  then show ?thesis using disp(2,3) by blast
qed

definition mail_confirmation :: confirmation where
  "mail_confirmation = (pending_at ''c1'' ''2024-03-01T00:00:00+00:00'')
     \<lparr>cf_action_type := ''note.mail'',
      cf_action_hash := action_fingerprint (\<lambda>x. x) (\<lambda>_. ''1.5'') ''note.mail'' (a_params send_note) (Some ''COMMUNICATION'')\<rparr>"

definition small_pending :: "unit sys" where
  "small_pending = small_state\<lparr>sy_db := small_db\<lparr>db_confirmations := [mail_confirmation]\<rparr>\<rparr>"

lemma not_expired: "\<not> ''2024-03-01T00:00:00+00:00'' < (''2024-02-29T23:59:30+00:00'' :: string)"
  by code_simp

lemma small_approve:
  "\<exists>resp s'. approve small_service ''c1'' send_note (plain_ctx ''alice'') None False small_pending = (Inr resp, s')
     \<and> rs_status resp = St_executed \<and> length (sy_trace s') = 2"
proof -
  let ?ctx = "plain_ctx ''alice''" and ?c = mail_confirmation
  have c: "confirmation_get (db_confirmations (sy_db small_pending)) ''c1'' = Some ?c"
    by (simp add: confirmation_get_def small_pending_def mail_confirmation_def pending_at_def)
  have guards: "\<not> forbidden small_service (cf_action_type ?c)" "\<not> forbidden small_service (action_type send_note)"
      "cf_actor_id ?c = Some (actor_id ?ctx)" "\<not> requires_dual_approval (cf_risk_level ?c)"
      "truthy_opt (cf_execution_scope ?c) = False" "execution_scope ?ctx = None"
    by (simp_all add: small_forbidden mail_confirmation_def pending_at_def send_note_def plain_ctx_def truthy_opt_def
        requires_dual_approval_def DUAL_APPROVAL_RISK_LEVELS_def)
  have valid: "validate_confirmation (\<lambda>x. x) (\<lambda>_. ''1.5'') ''2024-02-29T23:59:30+00:00'' ?c send_note None = None"
    by (simp only: validate_confirmation_def mail_confirmation_def pending_at_def send_note_def confirmation.simps
        action.simps not_expired risk_value.simps decision.distinct if_False simp_thms)
  have scope: "scope_ctx ?c ?ctx = ?ctx" using guards(5,6) by (simp add: scope_ctx_def plain_ctx_def)
  define d where "d = (sy_db small_pending)\<lparr>db_confirmations := mark_status ''2024-02-29T23:59:30+00:00'' ?c STATUS_USED
      (db_confirmations (sy_db small_pending))\<rparr>"
  obtain row where row: "audit_in_session small_service send_note ?ctx (Some (cf_risk_level ?c)) (cf_decision ?c) O_AUTHORIZED
      (cf_policy_version ?c) (note_for small_service (cf_action_type ?c) ?ctx (Some (cf_id ?c)) None) (d, ())
      = (Inr (), (d\<lparr>db_audit := db_audit d @ [row]\<rparr>, ()))"
    using small_audit [of send_note ?ctx _ _ _ _ _ "(d, ())"] by fastforce
  let ?s = "small_pending\<lparr>sy_db := d\<lparr>db_audit := db_audit d @ [row]\<rparr>\<rparr>"
  have upd: "db_confirmations_update (mark_status n c st) x
      = x\<lparr>db_confirmations := mark_status n c st (db_confirmations x)\<rparr>" for n c st x by (cases x) simp
  have tx: "in_db (transaction still_ops (approve_tx small_service ''c1'' send_note ?ctx None False)) small_pending
      = (Inr (Dispatch ?ctx (cf_decision ?c) (cf_policy_version ?c) (cf_id ?c)), ?s)"
    using row by (simp add: approve_tx_def approve_found_def consume_def resolve_def plumbing c guards valid scope
        upd d_def [symmetric] cong: bind_weak_cong seq_weak_cong)
  have "\<exists>resp s'. dispatch_and_record small_service send_note ?ctx (cf_decision ?c) (cf_policy_version ?c) (Some (cf_id ?c)) ?s
      = (Inr resp, s') \<and> rs_status resp = St_executed \<and> length (sy_trace s') = 2"
    using small_dispatch [of send_note ?s ?ctx "cf_decision ?c" "cf_policy_version ?c" "Some (cf_id ?c)"]
      small_params(2) small_lookup(2)
    by (auto simp: send_note_def plain_ctx_def small_pending_def small_state_def)
  then show ?thesis using tx by (simp add: approve_def bind_def)
qed

end
