(* ===== verification/Dispatch_Safety.thy ===== *)
theory Dispatch_Safety
  imports Small_Deployment
begin

text \<open>
  What the execution service guarantees about provider calls: which calls a request or an approval
  can make, what is durable in the audit log before each of them, how often a provider is executed,
  and what is recorded.
\<close>

section \<open>Relations kept by computations\<close>

text \<open>A relation between the states before and after, graded by a count that adds up under
  composition.  A computation is \<open>bounded\<close> by \<open>n\<close> when it always relates its states with a count of
  at most \<open>n\<close>; the rules follow the structure of the computation.\<close>

locale graded_relation =
  fixes G :: "nat \<Rightarrow> 's \<Rightarrow> 's \<Rightarrow> bool"
  assumes G_refl: "G 0 s s" and G_trans: "G i s t \<Longrightarrow> G j t u \<Longrightarrow> G (i + j) s u"
begin

definition reach :: "nat \<Rightarrow> 's \<Rightarrow> 's \<Rightarrow> bool" where
  "reach n s t = (\<exists>k \<le> n. G k s t)"

definition bounded :: "('s, 'a) comp \<Rightarrow> nat \<Rightarrow> bool" where
  "bounded m n = (\<forall>s. reach n s (snd (m s)))"

lemma reach_refl: "reach n s s"
  using G_refl by (auto simp: reach_def)

lemma reach_trans: "reach i s t \<Longrightarrow> reach j t u \<Longrightarrow> reach (i + j) s u"
  unfolding reach_def using G_trans add_mono by meson

lemma reach_mono: "reach i s t \<Longrightarrow> i \<le> j \<Longrightarrow> reach j s t"
  unfolding reach_def by (meson order_trans)

lemma boundedD: "bounded m n \<Longrightarrow> m s = (r, s') \<Longrightarrow> reach n s s'"
  unfolding bounded_def by (metis snd_conv)

lemma boundedI: "(\<And>s r s'. m s = (r, s') \<Longrightarrow> reach n s s') \<Longrightarrow> bounded m n"
  unfolding bounded_def by (metis surjective_pairing)

lemma bounded_ret: "bounded (ret x) n"
  by (rule boundedI) (simp add: reach_refl)

lemma bounded_raise: "bounded (raise_exc e) n"
  by (rule boundedI) (simp add: reach_refl)

lemma bounded_lift_res: "bounded (lift_res r) n"
  by (rule boundedI) (simp add: reach_refl)

lemma bounded_mono: "bounded m i \<Longrightarrow> i \<le> j \<Longrightarrow> bounded m j"
  unfolding bounded_def using reach_mono by blast

lemma bounded_bind:
  assumes "bounded m i" and "\<And>x s s'. m s = (Inr x, s') \<Longrightarrow> bounded (f x) j"
  shows "bounded (bind m f) (i + j)"
proof (rule boundedI)
  fix s r s'
  assume run: "bind m f s = (r, s')"
  obtain v t where m: "m s = (v, t)" by (cases "m s")
  have st: "reach i s t" by (rule boundedD [OF assms(1) m])
  show "reach (i + j) s s'"
  proof (cases v)
    case (Inl e)
    with run m have "s' = t" by (simp add: bind_def)
    then show ?thesis using st reach_mono by simp
  next
    case (Inr x)
    with run m have "f x t = (r, s')" by (simp add: bind_def)
    then show ?thesis using reach_trans [OF st boundedD [OF assms(2)]] m Inr by blast
  qed
qed

lemma bounded_seq: "bounded m i \<Longrightarrow> bounded k j \<Longrightarrow> bounded (seq m k) (i + j)"
  by (simp add: seq_def bounded_bind)

lemma bounded_attempt:
  assumes "bounded m i" and "\<And>r. bounded (k r) j"
  shows "bounded (attempt m k) (i + j)"
proof (rule boundedI)
  fix s r s'
  assume run: "attempt m k s = (r, s')"
  obtain v t where m: "m s = (v, t)" by (cases "m s")
  with run have "k v t = (r, s')" by (simp add: attempt_def)
  then show "reach (i + j) s s'"
    using reach_trans [OF boundedD [OF assms(1) m] boundedD [OF assms(2)]] by blast
qed

lemma bounded_timeout:
  assumes call: "bounded call n" and overrun: "\<And>s. reach 0 s (snd (overrun s))"
  shows "bounded (run_with_timeout overrun budget pid stage call) n"
proof (rule boundedI)
  fix s r s'
  assume run: "run_with_timeout overrun budget pid stage call s = (r, s')"
  obtain late s1 where o: "overrun s = (late, s1)" by (cases "overrun s")
  obtain v s2 where c: "call s1 = (v, s2)" by (cases "call s1")
  have "reach 0 s s1" using overrun [of s] o by simp
  then have "reach (0 + n) s s2" by (rule reach_trans) (rule boundedD [OF call c])
  moreover have "s' = s2 \<or> call s = (r, s')"
    using run o c by (auto simp: run_with_timeout_def split: if_splits sum.splits py_exc.splits)
  ultimately show "reach n s s'" using boundedD [OF call] by auto
qed

lemma reach_retry_loop:
  assumes call: "bounded call 1" and now: "\<And>s. reach 0 s (snd (now s))" and sleep: "\<And>d s. reach 0 s (sleep d s)"
  shows "reach (nat (max_attempts pol + 1 - a)) s (snd (retry_loop pol dl pid now sleep call le a s))"
proof (induction "nat (max_attempts pol + 1 - a)" arbitrary: le a s rule: less_induct)
  case less
  let ?n = "nat (max_attempts pol + 1 - a)"
  let ?loop = "retry_loop pol dl pid now sleep call"
  show ?case
  proof (cases "max_attempts pol < a")
    case True
    then show ?thesis
      by (subst retry_loop.simps) (simp add: reach_refl split: option.splits)
  next
    case False
    obtain ex s1 where g1: "(case dl of None \<Rightarrow> (False, s)
        | Some d \<Rightarrow> let (t, s') = now s in (d - t \<le> 0, s')) = (ex, s1)" by fastforce
    have r1: "reach 0 s s1"
      using g1 now [of s] reach_refl by (auto split: option.splits prod.splits)
    obtain rc s2 where c: "call s1 = (rc, s2)" by (cases "call s1")
    have r2: "reach 1 s s2" using reach_trans [OF r1 boundedD [OF call c]] by simp
    obtain st s3 where g2: "(case dl of None \<Rightarrow> (False, s2)
        | Some d \<Rightarrow> let (t, s') = now s2 in (d - t \<le> 0 \<or> d - t < backoff_for pol a, s')) = (st, s3)" by fastforce
    have "reach 0 s2 s3"
      using g2 now [of s2] reach_refl by (auto split: option.splits prod.splits)
    then have r3: "reach 1 s s3" using reach_trans [OF r2] by fastforce
    have "reach 0 s3 (sleep (backoff_for pol a) s3)" by (rule sleep)
    then have r4: "reach 1 s (sleep (backoff_for pol a) s3)" using reach_trans [OF r3] by fastforce
    have one: "1 \<le> ?n" using False by simp
    have fin: "reach ?n s t" if "t = s1 \<or> t = s2 \<or> t = s3" for t
      using that reach_mono [OF r1] reach_mono [OF r2 one] reach_mono [OF r3 one] by auto
    show ?thesis
    proof (cases "\<not> ex \<and> (\<exists>e. rc = Inl (ToolErr e) \<and> is_retryable pol (Code (te_code e))) \<and> a < max_attempts pol \<and> \<not> st")
      case True
      then obtain e where e: "rc = Inl (ToolErr e)" "is_retryable pol (Code (te_code e))" by blast
      have eq: "?loop le a s = ?loop (Some (ToolErr e)) (a + 1) (sleep (backoff_for pol a) s3)"
        using True False e by (subst retry_loop.simps) (simp add: g1 c g2)
      have "reach (nat (max_attempts pol + 1 - (a + 1))) (sleep (backoff_for pol a) s3)
          (snd (?loop (Some (ToolErr e)) (a + 1) (sleep (backoff_for pol a) s3)))"
        using True by (intro less) simp
      then have "reach (1 + nat (max_attempts pol + 1 - (a + 1))) s (snd (?loop le a s))"
        unfolding eq by (rule reach_trans [OF r4])
      then show ?thesis by (rule reach_mono) (use True in arith)
    next
      case stop: False
      have "snd (?loop le a s) \<in> {s1, s2, s3}"
        using False stop by (subst retry_loop.simps) (auto simp: g1 c g2 split: sum.splits py_exc.splits)
      then show ?thesis using fin by blast
    qed
  qed
qed

lemma bounded_with_retry:
  assumes "bounded call 1" and "\<And>s. reach 0 s (snd (now s))" and "\<And>d s. reach 0 s (sleep d s)"
  shows "bounded (with_retry pol dl pid now sleep call) (nat (max_attempts pol))"
  unfolding bounded_def with_retry_def using reach_retry_loop [OF assms, of pol 1] by simp

end

section \<open>Provider calls\<close>

fun is_execute :: "event \<Rightarrow> bool" where
  "is_execute (EvValidate _ _) = False"
| "is_execute (EvExecute _ _ _ _) = True"

text \<open>A call made on behalf of an action, with a given durable audit log.\<close>

fun call_for :: "string \<Rightarrow> action \<Rightarrow> exec_ctx \<Rightarrow> audit_row list \<Rightarrow> event \<Rightarrow> bool" where
  "call_for pid act ctx rows (EvValidate i a) = (i = pid \<and> a = act)"
| "call_for pid act ctx rows (EvExecute i a c rs) =
     (i = pid \<and> a = act \<and> c\<lparr>deadline := None\<rparr> = ctx\<lparr>deadline := None\<rparr> \<and> rs = rows)"

definition calls :: "string \<Rightarrow> action \<Rightarrow> exec_ctx \<Rightarrow> nat \<Rightarrow> 'e sys \<Rightarrow> 'e sys \<Rightarrow> bool" where
  "calls pid act ctx n s t =
     (sy_db t = sy_db s \<and> (\<exists>evs. sy_trace t = sy_trace s @ evs \<and> length (filter is_execute evs) = n
        \<and> list_all (call_for pid act ctx (db_audit (sy_db s))) evs))"

interpretation run: graded_relation "calls pid act ctx" for pid act ctx
proof
  show "calls pid act ctx 0 s s" for s :: "'a sys" by (simp add: calls_def)
  show "calls pid act ctx (i + j) s u" if "calls pid act ctx i s t" "calls pid act ctx j t u"
    for i j and s t u :: "'a sys"
    using that by (auto simp: calls_def)
qed

lemma reach_quiet:
  assumes "sy_db t = sy_db s" and "sy_trace t = sy_trace s"
  shows "run.reach pid act ctx n s t"
  unfolding run.reach_def by (rule exI [of _ 0]) (use assms in \<open>simp add: calls_def\<close>)

lemma in_env_quiet: "sy_db (snd (in_env f s)) = sy_db s" "sy_trace (snd (in_env f s)) = sy_trace s"
  by (simp_all add: in_env_def split: prod.splits)

lemma bounded_ask_env: "run.bounded pid act ctx (ask_env f) 0"
  by (rule run.boundedI) (auto simp: ask_env_def in_env_def split: prod.splits intro: reach_quiet)

lemma bounded_breaker_get: "run.bounded pid act ctx (breaker_get i) 0"
  by (rule run.boundedI) (auto simp: breaker_get_def split: sum.splits intro: reach_quiet)

lemma bounded_breaker_allow: "run.bounded pid act ctx (breaker_allow ops i) 0"
  unfolding breaker_allow_def
  by (rule run.bounded_bind [where i = 0 and j = 0, simplified], rule bounded_breaker_get,
      rule run.bounded_bind [where i = 0 and j = 0, simplified], rule bounded_ask_env)
    (rule run.boundedI, auto split: prod.splits sum.splits intro: reach_quiet)

lemma bounded_breaker_success: "run.bounded pid act ctx (breaker_success i) 0"
  unfolding breaker_success_def
  by (rule run.bounded_bind [where i = 0 and j = 0, simplified], rule bounded_breaker_get)
    (rule run.boundedI, auto intro: reach_quiet)

lemma bounded_breaker_failure: "run.bounded pid act ctx (breaker_failure ops i c) 0"
  unfolding breaker_failure_def
  by (rule run.bounded_bind [where i = 0 and j = 0, simplified], rule bounded_breaker_get,
      rule run.bounded_bind [where i = 0 and j = 0, simplified], rule bounded_ask_env)
    (rule run.boundedI, auto intro: reach_quiet)

lemma bounded_call_validate: "run.bounded (p_id p) act ctx (call_validate p act) 0"
  by (rule run.boundedI)
    (auto simp: call_validate_def run.reach_def calls_def split: prod.splits)

lemma bounded_call_execute:
  assumes "c\<lparr>deadline := None\<rparr> = ctx\<lparr>deadline := None\<rparr>"
  shows "run.bounded (p_id p) act ctx (call_execute p act c) 1"
  by (rule run.boundedI) (use assms in
    \<open>auto simp: call_execute_def run.reach_def calls_def intro!: exI [of _ 1] split: prod.splits\<close>)

lemma dispatch_context_value:
  "dispatch_context sv ctx s = (Inr c, s') \<Longrightarrow> c\<lparr>deadline := None\<rparr> = ctx\<lparr>deadline := None\<rparr>"
  by (auto simp: dispatch_context_def bind_Inr_iff split: if_splits)

lemma bounded_dispatch_context: "run.bounded pid act ctx (dispatch_context sv c) 0"
  unfolding dispatch_context_def
  by (auto intro!: run.bounded_ret run.bounded_bind [where i = 0, simplified] bounded_ask_env)

lemmas quiet_steps = run.bounded_ret run.bounded_raise run.bounded_lift_res bounded_breaker_success
  bounded_breaker_failure bounded_breaker_allow

lemmas bounded_seq0 = run.bounded_seq [where i = 0 and j = 0, simplified]

lemma bounded_after_validate_error: "run.bounded pid act ctx (after_validate_error sv p e) 0"
  by (auto simp: after_validate_error_def Let_def intro!: bounded_seq0 quiet_steps)

lemma bounded_after_execute: "run.bounded pid act ctx (after_execute sv p a r) 0"
  by (auto simp: after_execute_def Let_def intro!: bounded_seq0 quiet_steps split: sum.splits py_exc.splits)

lemma bounded_execute_stage:
  assumes "c\<lparr>deadline := None\<rparr> = ctx\<lparr>deadline := None\<rparr>"
  shows "run.bounded (p_id p) act ctx (execute_stage sv p act c)
    (nat (max_attempts (retry_policy_for sv p (action_type act))))"
  unfolding execute_stage_def
  by (rule run.bounded_timeout, rule run.bounded_with_retry, rule bounded_call_execute [OF assms])
    (auto intro: reach_quiet simp: in_env_quiet)

lemma bounded_validated_run:
  assumes c: "c\<lparr>deadline := None\<rparr> = ctx\<lparr>deadline := None\<rparr>"
  shows "run.bounded (p_id p) act ctx (validated_run sv p act c)
     (nat (max_attempts (retry_policy_for sv p (action_type act))))" (is "run.bounded _ _ _ _ ?n")
proof -
  have val: "run.bounded (p_id p) act ctx (run_with_timeout (in_env (op_overrun (co_ops sv))) (timeout_budget sv)
      (Some (p_id p)) ''validate'' (call_validate p act)) 0"
    by (rule run.bounded_timeout, rule bounded_call_validate) (auto intro: reach_quiet simp: in_env_quiet)
  have exec: "run.bounded (p_id p) act ctx (attempt (execute_stage sv p act c) (after_execute sv p act)) ?n"
    using run.bounded_attempt [OF bounded_execute_stage [OF c] bounded_after_execute] by simp
  have "run.bounded (p_id p) act ctx (validated_run sv p act c) (0 + ?n)"
    unfolding validated_run_def
    by (rule run.bounded_attempt [OF val])
      (use exec run.bounded_mono [OF bounded_after_validate_error, where j = ?n] run.bounded_raise in
        \<open>auto split: sum.splits py_exc.splits\<close>)
  then show ?thesis by simp
qed

lemma bounded_run_provider:
  "run.bounded (p_id p) act ctx (run_provider sv p act ctx)
     (nat (max_attempts (retry_policy_for sv p (action_type act))))" (is "run.bounded _ _ _ _ ?n")
proof -
  have checked: "run.bounded (p_id p) act ctx (checked_run sv p act c) ?n"
    if c: "c\<lparr>deadline := None\<rparr> = ctx\<lparr>deadline := None\<rparr>" for c
    unfolding checked_run_def
    by (rule run.bounded_bind [where i = 0, simplified], rule run.bounded_lift_res)
      (use bounded_validated_run [OF c] run.bounded_ret in \<open>auto split: option.splits\<close>)
  show ?thesis
    unfolding run_provider_def
    by (rule run.bounded_bind [where i = 0, simplified], rule bounded_dispatch_context,
        rule run.bounded_bind [where i = 0, simplified], rule bounded_breaker_allow)
      (use checked [OF dispatch_context_value] run.bounded_ret in auto)
qed

text \<open>The calls of one dispatch.\<close>

lemma run_provider_calls:
  assumes "run_provider sv p act ctx s = (r, s')"
  obtains evs where "sy_db s' = sy_db s" "sy_trace s' = sy_trace s @ evs"
    "length (filter is_execute evs) \<le> nat (max_attempts (retry_policy_for sv p (action_type act)))"
    "list_all (call_for (p_id p) act ctx (db_audit (sy_db s))) evs"
  using run.boundedD [OF bounded_run_provider assms] by (auto simp: run.reach_def calls_def)

section \<open>Audit rows\<close>

definition row_for :: "action \<Rightarrow> exec_ctx \<Rightarrow> decision \<Rightarrow> outcome \<Rightarrow> int \<Rightarrow> string option \<Rightarrow> audit_row \<Rightarrow> bool" where
  "row_for act ctx dec out version cid row =
     (au_action_type row = action_type act \<and> au_actor_id row = actor_id ctx
      \<and> au_decision row = decision_value dec \<and> au_outcome row = outcome_value out
      \<and> au_policy_version row = version \<and> au_confirmation_id row = cid)"

lemma audit_append_row:
  assumes "audit_append sha frepr repo now e rows = Some rows'"
  obtains row where "rows' = rows @ [row]" "au_action_type row = ne_action_type e" "au_actor_id row = ne_actor_id e"
    "au_decision row = ne_decision e" "au_outcome row = ne_outcome e" "au_policy_version row = ne_policy_version e"
    "au_confirmation_id row = ne_confirmation_id e"
  using assms by (auto simp: audit_append_def Let_def build_audit_row_def entry_payload_def audit_payload.defs
      split: option.splits)

lemma audit_in_session_effect:
  assumes "audit_in_session co act ctx risk dec out version note s = (r, s')"
  shows "case r of
      Inl _ \<Rightarrow> fst s' = fst s
    | Inr _ \<Rightarrow> \<exists>row. fst s' = (fst s)\<lparr>db_audit := db_audit (fst s) @ [row]\<rparr>
                 \<and> row_for act ctx dec out version (an_confirmation_id note) row"
proof -
  obtain now e' where t: "op_utcnow (co_ops co) (snd s) = (now, e')" by fastforce
  let ?rec = "audit_record (co_sha co) (co_frepr co) (co_repo co) (co_catalog co) (co_app_version co) now
              act ctx (map_option Inl risk) dec out version note (db_audit (fst s))"
  have run: "(r, s') = (case ?rec of None \<Rightarrow> (Inl (OtherExc ''SigningError''), (fst s, e'))
      | Some rows' \<Rightarrow> (Inr (), ((fst s)\<lparr>db_audit := rows'\<rparr>, e')))"
    using assms unfolding audit_in_session_def
    by (simp add: bind_def ask_def query_def t raise_exc_def change_def split: option.splits)
  show ?thesis
  proof (cases ?rec)
    case None
    then show ?thesis using run by simp
  next
    case (Some rows')
    then obtain row where "rows' = db_audit (fst s) @ [row]" "row_for act ctx dec out version (an_confirmation_id note) row"
      unfolding audit_record_def by (elim audit_append_row) (simp add: row_for_def audit_entry_def Let_def)
    then show ?thesis using run Some by auto
  qed
qed

lemma in_db_iff:
  "in_db m s = (r, s') \<longleftrightarrow> (\<exists>d e. m (sy_db s, sy_env s) = (r, (d, e)) \<and> s' = s\<lparr>sy_db := d, sy_env := e\<rparr>)"
  by (auto simp: in_db_def split: prod.splits)

lemma record_event_effect:
  assumes "record_event sv act ctx risk dec out version note s = (r, s')"
  shows "sy_trace s' = sy_trace s \<and> (case r of
      Inl _ \<Rightarrow> sy_db s' = sy_db s
    | Inr _ \<Rightarrow> \<exists>row. sy_db s' = (sy_db s)\<lparr>db_audit := db_audit (sy_db s) @ [row]\<rparr>
                 \<and> row_for act ctx dec out version (an_confirmation_id note) row)"
proof -
  from assms obtain d e where tx: "transaction (co_ops sv) (audit_in_session sv act ctx risk dec out version note)
      (sy_db s, sy_env s) = (r, (d, e))" and s': "s' = s\<lparr>sy_db := d, sy_env := e\<rparr>"
    by (auto simp: record_event_def in_db_iff)
  show ?thesis
  proof (cases r)
    case (Inl x)
    then show ?thesis using transaction_Inl tx s' by fastforce
  next
    case (Inr u)
    with tx obtain t where "audit_in_session sv act ctx risk dec out version note (sy_db s, sy_env s) = (Inr u, t)"
      and "d = fst t" by (auto elim!: transaction_Inr)
    then show ?thesis using audit_in_session_effect s' Inr by fastforce
  qed
qed

section \<open>Dispatch\<close>

lemma after_validate_error_outcome:
  "after_validate_error sv p e s = (Inr (out, res, err), s') \<Longrightarrow> out \<in> {O_FAILED, O_REJECTED} \<and> err \<noteq> None"
  by (auto simp: after_validate_error_def Let_def seq_Inr_iff split: if_splits)

lemma after_execute_outcome:
  "after_execute sv p act r s = (Inr (out, res, err), s') \<Longrightarrow>
   out \<in> {O_EXECUTED, O_FAILED} \<and> (out = O_EXECUTED \<longleftrightarrow> err = None \<and> ar_success res)"
  by (auto simp: after_execute_def Let_def seq_Inr_iff failed_result_def
      split: if_splits sum.splits py_exc.splits)

lemma attempt_iff: "attempt m k s = (r, s'') \<longleftrightarrow> (\<exists>v s'. m s = (v, s') \<and> k v s' = (r, s''))"
  by (auto simp: attempt_def split: prod.splits)

definition run_outcome_ok :: "run_result \<Rightarrow> bool" where
  "run_outcome_ok x = (case x of (out, res, err) \<Rightarrow>
     out \<in> {O_EXECUTED, O_FAILED, O_REJECTED} \<and> (out = O_EXECUTED \<longrightarrow> err = None \<and> ar_success res))"

lemma run_outcome_ok_simps [simp]:
  "run_outcome_ok (O_FAILED, res, err)" "run_outcome_ok (O_REJECTED, res, err)"
  by (simp_all add: run_outcome_ok_def)

lemma validated_run_outcome:
  assumes "validated_run sv p act c s = (Inr x, s')"
  shows "run_outcome_ok x"
proof -
  obtain out res err where x: "x = (out, res, err)" by (cases x)
  from assms obtain v :: "(py_exc, unit) result" and t where "(case v of
         Inl (ToolErr e) \<Rightarrow> after_validate_error sv p e
       | Inl (OtherExc y) \<Rightarrow> raise_exc (OtherExc y)
       | Inr _ \<Rightarrow> attempt (execute_stage sv p act c) (after_execute sv p act)) t = (Inr x, s')"
    unfolding validated_run_def attempt_iff by blast
  then consider e where "after_validate_error sv p e t = (Inr x, s')"
    | r u where "after_execute sv p act r u = (Inr x, s')"
    by (cases v) (auto simp: attempt_iff split: py_exc.splits)
  then show ?thesis
    by cases (auto simp: x run_outcome_ok_def dest!: after_validate_error_outcome after_execute_outcome)
qed

lemma run_provider_outcome:
  assumes "run_provider sv p act ctx s = (Inr x, s')"
  shows "run_outcome_ok x"
proof -
  from assms obtain c allowed t where "(if \<not> allowed
       then ret (O_FAILED, failed_result (''provider '' @ p_id p @ '' circuit open: dispatch blocked''), Some E_UNAVAILABLE)
       else checked_run sv p act c) t = (Inr x, s')"
    unfolding run_provider_def bind_Inr_iff by blast
  then show ?thesis
    by (auto simp: checked_run_def bind_Inr_iff dest: validated_run_outcome split: if_splits option.splits)
qed

lemma dispatch_and_record_effect:
  assumes "dispatch_and_record sv act ctx dec version cid s = (r, s')"
  shows "\<exists>evs rows. sy_trace s' = sy_trace s @ evs \<and> sy_db s' = (sy_db s)\<lparr>db_audit := db_audit (sy_db s) @ rows\<rparr>
    \<and> (\<forall>ev \<in> set evs. \<exists>p. registry_lookup (sv_registry sv) (action_type act) = Some p
          \<and> call_for (p_id p) act ctx (db_audit (sy_db s)) ev)
    \<and> (case r of Inl _ \<Rightarrow> rows = []
       | Inr resp \<Rightarrow> \<exists>row out. rows = [row] \<and> row_for act ctx dec out version cid row
            \<and> out \<in> {O_EXECUTED, O_FAILED, O_REJECTED} \<and> rs_status resp = status_of_outcome out)"
proof -
  let ?run = "case registry_lookup (sv_registry sv) (action_type act) of
      None \<Rightarrow> ret (O_REJECTED, failed_result ''no provider registered for action'', Some E_NOT_IMPLEMENTED)
    | Some p \<Rightarrow> run_provider sv p act ctx"
  obtain v t where v: "?run s = (v, t)" by fastforce
  obtain evs where evs: "sy_db t = sy_db s" "sy_trace t = sy_trace s @ evs"
      "\<forall>ev \<in> set evs. \<exists>p. registry_lookup (sv_registry sv) (action_type act) = Some p
          \<and> call_for (p_id p) act ctx (db_audit (sy_db s)) ev"
  proof (cases "registry_lookup (sv_registry sv) (action_type act)")
    case None
    then show ?thesis using v that [of "[]"] by simp
  next
    case (Some p)
    then have "run_provider sv p act ctx s = (v, t)" using v by simp
    then show ?thesis using Some that by (elim run_provider_calls) (simp add: list_all_iff)
  qed
  show ?thesis
  proof (cases v)
    case (Inl e)
    then have "r = Inl e" "s' = t" using assms v by (auto simp: dispatch_and_record_def bind_def)
    then show ?thesis using evs by (intro exI [of _ evs] exI [of _ "[]"]) simp
  next
    case (Inr x)
    obtain out res err where x: "x = (out, res, err)" by (cases x)
    have out: "out \<in> {O_EXECUTED, O_FAILED, O_REJECTED}"
      using v run_provider_outcome [of sv _ act ctx s x t]
      by (cases "registry_lookup (sv_registry sv) (action_type act)") (auto simp: Inr x run_outcome_ok_def)
    define nt where "nt = (note_for sv (action_type act) ctx cid (Some (ar_summary res)))
                    \<lparr>an_error_code := map_option error_value err\<rparr>"
    obtain w u where w: "record_event sv act ctx (fst (meta_of sv (action_type act) ctx)) dec out version nt t = (w, u)"
      by fastforce
    have cid: "an_confirmation_id nt = cid" by (simp add: nt_def note_for_def blank_note_def split: prod.splits)
    have r: "s' = u \<and> (case w of Inl e \<Rightarrow> r = Inl e
        | Inr _ \<Rightarrow> \<exists>resp. r = Inr resp \<and> rs_status resp = status_of_outcome out)"
      using assms v w unfolding nt_def
      by (auto simp: dispatch_and_record_def bind_def seq_def Inr x mk_response_def split: sum.splits)
    show ?thesis
    proof (cases w)
      case (Inl e)
      then show ?thesis
        using record_event_effect [OF w] r evs by (intro exI [of _ evs] exI [of _ "[]"]) auto
    next
      case (Inr y)
      then obtain row where row: "sy_db u = (sy_db t)\<lparr>db_audit := db_audit (sy_db t) @ [row]\<rparr>"
          "row_for act ctx dec out version cid row" "sy_trace u = sy_trace t"
        using record_event_effect [OF w] cid by auto
      obtain resp where resp: "r = Inr resp" "rs_status resp = status_of_outcome out" "s' = u"
        using Inr r by auto
      have "\<exists>row' out'. [row] = [row'] \<and> row_for act ctx dec out' version cid row'
          \<and> out' \<in> {O_EXECUTED, O_FAILED, O_REJECTED} \<and> rs_status resp = status_of_outcome out'"
        using row(2) out resp(2) by blast
      then show ?thesis
        using row(1,3) resp(1,3) evs by (intro exI [of _ evs] exI [of _ "[row]"]) simp
    qed
  qed
qed

section \<open>Requests\<close>

definition current_policy :: "db \<Rightarrow> policy option" where
  "current_policy d = map_option pr_document (policy_current (db_policies d))"

lemma get_current_effect:
  assumes "in_db (get_current ops) s = (r, s')"
  shows "sy_db s' = sy_db s \<and> sy_trace s' = sy_trace s \<and> (\<forall>pol. r = Inr pol \<longrightarrow> pol = current_policy (sy_db s))"
  using assms
  by (auto simp: in_db_iff get_current_def transaction_def query_def current_policy_def
      split: prod.splits bool.splits)

lemma in_db_trace: "in_db m s = (r, s') \<Longrightarrow> sy_trace s' = sy_trace s"
  by (auto simp: in_db_iff)

lemma record_trace: "record_event sv act ctx risk dec out version nt s = (r, s') \<Longrightarrow> sy_trace s' = sy_trace s"
  by (simp add: record_event_def in_db_trace)

text \<open>A request that reaches a provider was allowed by the current policy, and every call of it sees
  the authorization in the durable log.\<close>

lemma authorize_effect:
  assumes "authorize_and_dispatch sv act ctx risk dec version cid s = (r, s')"
  shows "\<exists>evs. sy_trace s' = sy_trace s @ evs \<and> (evs \<noteq> [] \<longrightarrow>
    (\<exists>row. row_for act ctx dec O_AUTHORIZED version cid row
       \<and> (\<forall>ev \<in> set evs. \<exists>p. registry_lookup (sv_registry sv) (action_type act) = Some p
            \<and> call_for (p_id p) act ctx (db_audit (sy_db s) @ [row]) ev)))"
proof -
  define nt where "nt = note_for sv (action_type act) ctx cid None"
  have cid: "an_confirmation_id nt = cid" by (simp add: nt_def note_for_def blank_note_def split: prod.splits)
  obtain w t where w: "record_event sv act ctx risk dec O_AUTHORIZED version nt s = (w, t)" by fastforce
  show ?thesis
  proof (cases w)
    case (Inl e)
    then have "s' = t" using assms w by (simp add: authorize_and_dispatch_def seq_def bind_def nt_def)
    then show ?thesis using record_trace [OF w] by auto
  next
    case (Inr u)
    then obtain row where row: "sy_db t = (sy_db s)\<lparr>db_audit := db_audit (sy_db s) @ [row]\<rparr>"
        "row_for act ctx dec O_AUTHORIZED version cid row"
      using record_event_effect [OF w] cid by auto
    have "dispatch_and_record sv act ctx dec version cid t = (r, s')"
      using assms w Inr by (simp add: authorize_and_dispatch_def seq_def bind_def nt_def)
    from dispatch_and_record_effect [OF this] row record_trace [OF w] show ?thesis by auto
  qed
qed

lemma request_effect:
  assumes "request sv act ctx s = (r, s')"
  shows "\<exists>evs. sy_trace s' = sy_trace s @ evs \<and> (evs \<noteq> [] \<longrightarrow>
    evaluate (co_catalog sv) act (current_policy (sy_db s)) = ALLOW \<and> \<not> forbidden sv (action_type act)
    \<and> (\<exists>row. row_for act ctx ALLOW O_AUTHORIZED (policy_version (current_policy (sy_db s))) None row
       \<and> (\<forall>ev \<in> set evs. \<exists>p. registry_lookup (sv_registry sv) (action_type act) = Some p
            \<and> call_for (p_id p) act ctx (db_audit (sy_db s) @ [row]) ev)))"
proof -
  obtain g t where g: "in_db (get_current (co_ops sv)) s = (g, t)" by fastforce
  note gc = get_current_effect [OF g]
  show ?thesis
  proof (cases g)
    case (Inl e)
    then show ?thesis using assms g gc by (simp add: request_def bind_def)
  next
    case (Inr pol)
    with gc have pol: "pol = current_policy (sy_db s)" by simp
    have run: "request_under sv act ctx pol t = (r, s')" using assms g Inr by (simp add: request_def bind_def)
    have quiet: "seq (record_event sv act ctx k d out v n) (ret x) t = (r, s') \<Longrightarrow> sy_trace s' = sy_trace t" for k d out v n x
      by (auto simp: seq_def bind_def split: prod.splits sum.splits dest: record_trace)
    show ?thesis
    proof (cases "\<not> forbidden sv (action_type act) \<and> evaluate (co_catalog sv) act pol = ALLOW")
      case True
      then have "authorize_and_dispatch sv act ctx (fst (meta_of sv (action_type act) ctx)) ALLOW (policy_version pol) None t = (r, s')"
        using run by (simp add: request_under_def)
      from authorize_effect [OF this] show ?thesis using True gc pol by auto
    next
      case False
      then have "sy_trace s' = sy_trace t"
        using run quiet
        by (auto simp: request_under_def require_confirmation_def in_db_trace split: if_splits decision.splits)
      then show ?thesis using gc by auto
    qed
  qed
qed



section \<open>Approvals\<close>

lemma db_update_simps:
  "db_confirmations_update f d = d\<lparr>db_confirmations := f (db_confirmations d)\<rparr>"
  "d\<lparr>db_approvals := db_approvals d\<rparr> = d"
  by (cases d; simp)+

lemma resolve_effect:
  assumes "resolve sv c st act ctx risk dec out nt x s = (Inr y, s')"
  shows "y = x \<and> (\<exists>row now. row_for act ctx dec out (cf_policy_version c) (an_confirmation_id nt) row
    \<and> fst s' = (fst s)\<lparr>db_audit := db_audit (fst s) @ [row],
         db_confirmations := (case st of None \<Rightarrow> db_confirmations (fst s)
           | Some status \<Rightarrow> mark_status now c status (db_confirmations (fst s)))\<rparr>)"
proof -
  from assms obtain u t where mark: "(case st of None \<Rightarrow> ret ()
          | Some status \<Rightarrow> bind (ask (op_utcnow (co_ops sv))) (\<lambda>now.
              change (db_confirmations_update (mark_status now c status)))) s = (Inr u, t)"
    and rest: "seq (audit_in_session sv act ctx risk dec out (cf_policy_version c) nt) (ret x) t = (Inr y, s')"
    unfolding resolve_def seq_Inr_iff [of _ "seq a b" for a b] by blast
  from rest obtain w where "audit_in_session sv act ctx risk dec out (cf_policy_version c) nt t = (Inr w, s')" and y: "y = x"
    unfolding seq_Inr_iff by auto
  from audit_in_session_effect [OF this(1)] obtain row where row:
      "fst s' = (fst t)\<lparr>db_audit := db_audit (fst t) @ [row]\<rparr>"
      "row_for act ctx dec out (cf_policy_version c) (an_confirmation_id nt) row" by auto
  show ?thesis
  proof (cases st)
    case None
    then show ?thesis using mark row y by auto
  next
    case (Some status)
    with mark obtain now where "fst t = (fst s)\<lparr>db_confirmations := mark_status now c status (db_confirmations (fst s))\<rparr>"
      by (auto simp: bind_Inr_iff db_update_simps(1) [of "mark_status x c status" for x])
    then have "fst s' = (fst s)\<lparr>db_audit := db_audit (fst s) @ [row],
        db_confirmations := mark_status now c status (db_confirmations (fst s))\<rparr>" using row(1) by simp
    then show ?thesis using row(2) y Some by auto
  qed
qed

lemma settle_approval_effect:
  assumes "settle_approval res s = (Inr x, s')"
  shows "fst s' = fst s \<or> (\<exists>a as. res = Inr (a, as) \<and> fst s' = (fst s)\<lparr>db_approvals := as\<rparr>)"
  using assms
  by (auto simp: settle_approval_def seq_Inr_iff split: sum.splits prod.splits approval_error.splits)

lemma record_primary_effect:
  assumes "record_primary sv c actor s = (Inr x, s')"
  shows "\<exists>as. fst s' = (fst s)\<lparr>db_approvals := as\<rparr>
    \<and> (as = db_approvals (fst s) \<or> (\<exists>now uuid a. record_approval_in_session now uuid (cf_id c) actor APPROVAL_GRANTED None
          (db_confirmations (fst s)) (db_approvals (fst s)) = Inr (a, as)))"
proof (cases "fst s' = fst s")
  case True
  then show ?thesis by (intro exI [of _ "db_approvals (fst s)"]) (simp add: db_update_simps)
next
  case False
  with assms obtain now uuid t where t: "fst t = fst s"
      and settle: "settle_approval (record_approval_in_session now uuid (cf_id c) actor APPROVAL_GRANTED None
         (db_confirmations (fst s)) (db_approvals (fst s))) t = (Inr x, s')"
    by (auto simp: record_primary_def bind_Inr_iff split: if_splits)
  from settle_approval_effect [OF settle] show ?thesis using t False by auto
qed

text \<open>The gate lets a confirmation pass only in a dispatchable state, and otherwise answers.\<close>

lemma dual_gate_effect:
  assumes "dual_gate sv c act dctx s = (Inr stop, s')"
  shows "case stop of
      None \<Rightarrow> sv_dual_approval sv \<and> fst (state_in_session (db_approvals (fst s')) c)
        \<and> (\<exists>as. fst s' = (fst s)\<lparr>db_approvals := as\<rparr>)
    | Some r \<Rightarrow> \<exists>resp. r = Respond resp"
proof (cases "sv_dual_approval sv")
  case False
  then show ?thesis using assms resolve_effect by (fastforce simp: dual_gate_def Let_def)
next
  case True
  with assms obtain rec t where rec: "record_primary sv c (actor_id dctx) s = (Inr rec, t)"
    by (auto simp: dual_gate_def Let_def bind_Inr_iff)
  then obtain as where t: "fst t = (fst s)\<lparr>db_approvals := as\<rparr>" using record_primary_effect by blast
  show ?thesis
  proof (cases rec)
    case None
    then show ?thesis using assms rec True
      by (auto simp: dual_gate_def Let_def bind_def dest!: resolve_effect)
  next
    case (Some u)
    obtain dispatchable denied where st: "state_in_session (db_approvals (fst t)) c = (dispatchable, denied)" by fastforce
    show ?thesis
      using assms rec True Some st t
      by (auto simp: dual_gate_def Let_def bind_def query_def split: if_splits dest!: resolve_effect)
  qed
qed

text \<open>The conditions under which a confirmation is consumed: every check of \<open>approve\<close>.\<close>

definition may_consume ::
  "'e service \<Rightarrow> db \<Rightarrow> confirmation \<Rightarrow> action \<Rightarrow> exec_ctx \<Rightarrow> string option \<Rightarrow> bool \<Rightarrow> bool" where
  "may_consume sv d c act ctx challenge cross =
     (\<not> forbidden sv (cf_action_type c) \<and> \<not> forbidden sv (action_type act)
      \<and> (cross \<or> cf_actor_id c = None \<or> cf_actor_id c = Some (actor_id ctx))
      \<and> cf_status c = STATUS_PENDING \<and> cf_used_at c = None
      \<and> action_fingerprint (co_sha sv) (co_frepr sv) (action_type act) (a_params act)
          (Some (risk_value (cf_risk_level c))) = cf_action_hash c
      \<and> (cf_decision c = CONFIRM_STRONG \<longrightarrow>
           (\<exists>phrase. challenge = Some phrase \<and> Some (co_sha sv phrase) = cf_challenge_hash c))
      \<and> (requires_dual_approval (cf_risk_level c) \<longrightarrow>
           sv_dual_approval sv \<and> fst (state_in_session (db_approvals d) c)))"

lemma validate_confirmation_None:
  "validate_confirmation sha frepr now c act challenge = None \<Longrightarrow>
   cf_status c = STATUS_PENDING \<and> cf_used_at c = None \<and> now \<le> cf_expires_at c
   \<and> action_fingerprint sha frepr (action_type act) (a_params act) (Some (risk_value (cf_risk_level c))) = cf_action_hash c
   \<and> (cf_decision c = CONFIRM_STRONG \<longrightarrow> (\<exists>phrase. challenge = Some phrase \<and> Some (sha phrase) = cf_challenge_hash c))"
  by (auto simp: validate_confirmation_def truthy_opt_def not_less split: if_splits)

lemma refuse_responds: "refuse sv c act ctx reason s = (Inr r, s') \<Longrightarrow> \<exists>resp. r = Respond resp"
  by (auto simp: refuse_def Let_def split: if_splits dest!: resolve_effect)

lemma consume_dispatch:
  assumes "consume sv c act dctx s = (Inr (Dispatch dctx' dec version cid), s')"
  shows "dctx' = dctx \<and> dec = cf_decision c \<and> version = cf_policy_version c \<and> cid = cf_id c
    \<and> (requires_dual_approval (cf_risk_level c) \<longrightarrow>
         sv_dual_approval sv \<and> fst (state_in_session (db_approvals (fst s')) c))
    \<and> (\<exists>row now. row_for act dctx dec O_AUTHORIZED version (Some cid) row
         \<and> db_audit (fst s') = db_audit (fst s) @ [row]
         \<and> db_confirmations (fst s') = mark_status now c STATUS_USED (db_confirmations (fst s)))"
proof -
  from assms obtain stop t where gate0: "(if requires_dual_approval (cf_risk_level c) then dual_gate sv c act dctx else ret None) s
      = (Inr stop, t)"
    and k: "(case stop of Some r \<Rightarrow> ret r
       | None \<Rightarrow> resolve sv c (Some STATUS_USED) act dctx (Some (cf_risk_level c)) (cf_decision c) O_AUTHORIZED
                   (note_for sv (cf_action_type c) dctx (Some (cf_id c)) None)
                   (Dispatch dctx (cf_decision c) (cf_policy_version c) (cf_id c))) t
       = (Inr (Dispatch dctx' dec version cid), s')"
    unfolding consume_def bind_Inr_iff by blast
  have "stop = None"
    using gate0 k dual_gate_effect [of sv c act dctx s stop t] by (auto split: option.splits if_splits)
  then have gate: "(if requires_dual_approval (cf_risk_level c) then dual_gate sv c act dctx else ret None) s = (Inr None, t)"
    and use: "resolve sv c (Some STATUS_USED) act dctx (Some (cf_risk_level c)) (cf_decision c) O_AUTHORIZED
        (note_for sv (cf_action_type c) dctx (Some (cf_id c)) None)
        (Dispatch dctx (cf_decision c) (cf_policy_version c) (cf_id c)) t = (Inr (Dispatch dctx' dec version cid), s')"
    using gate0 k by simp_all
  have same: "db_audit (fst t) = db_audit (fst s)" "db_confirmations (fst t) = db_confirmations (fst s)"
    and dual: "requires_dual_approval (cf_risk_level c) \<Longrightarrow>
        sv_dual_approval sv \<and> fst (state_in_session (db_approvals (fst t)) c)"
    using gate dual_gate_effect [of sv c act dctx s None t] by (auto split: if_splits)
  have cid: "an_confirmation_id (note_for sv (cf_action_type c) dctx (Some (cf_id c)) None) = Some (cf_id c)"
    by (simp add: note_for_def blank_note_def split: prod.splits)
  show ?thesis using resolve_effect [OF use] same dual cid by auto
qed

lemma approve_tx_dispatch:
  assumes "approve_tx sv cid act ctx challenge cross s = (Inr (Dispatch dctx dec version cid'), s')"
  shows "\<exists>c row now. confirmation_get (db_confirmations (fst s)) cid = Some c \<and> cid' = cid
    \<and> may_consume sv (fst s') c act ctx challenge cross
    \<and> dctx = scope_ctx c ctx \<and> dec = cf_decision c \<and> version = cf_policy_version c
    \<and> row_for act dctx dec O_AUTHORIZED version (Some cid) row
    \<and> db_audit (fst s') = db_audit (fst s) @ [row]
    \<and> db_confirmations (fst s') = mark_status now c STATUS_USED (db_confirmations (fst s))"
proof -
  from assms obtain c where c: "confirmation_get (db_confirmations (fst s)) cid = Some c"
      and found: "approve_found sv c act ctx challenge cross s = (Inr (Dispatch dctx dec version cid'), s')"
    by (auto simp: approve_tx_def bind_Inr_iff seq_Inr_iff split: option.splits)
  from found obtain now e where guards: "\<not> forbidden sv (cf_action_type c)" "\<not> forbidden sv (action_type act)"
      "cross \<or> cf_actor_id c = None \<or> cf_actor_id c = Some (actor_id ctx)"
      and v: "validate_confirmation (co_sha sv) (co_frepr sv) now c act challenge = None"
      and use: "consume sv c act (scope_ctx c ctx) (fst s, e) = (Inr (Dispatch dctx dec version cid'), s')"
    by (auto simp: approve_found_def bind_Inr_iff split: if_splits option.splits dest!: resolve_effect refuse_responds)
  show ?thesis
    using c guards validate_confirmation_None [OF v] consume_dispatch [OF use] conf.get_key [OF c]
    by (auto simp: may_consume_def)
qed

lemma approve_effect:
  assumes "approve sv cid act ctx challenge cross s = (r, s')"
  shows "\<exists>evs. sy_trace s' = sy_trace s @ evs \<and> (evs \<noteq> [] \<longrightarrow>
    (\<exists>c row now. confirmation_get (db_confirmations (sy_db s)) cid = Some c
       \<and> may_consume sv (sy_db s') c act ctx challenge cross
       \<and> confirmation_get (db_confirmations (sy_db s')) cid = Some (c\<lparr>cf_status := STATUS_USED, cf_used_at := Some now\<rparr>)
       \<and> row_for act (scope_ctx c ctx) (cf_decision c) O_AUTHORIZED (cf_policy_version c) (Some cid) row
       \<and> (\<forall>ev \<in> set evs. \<exists>p. registry_lookup (sv_registry sv) (action_type act) = Some p
            \<and> call_for (p_id p) act (scope_ctx c ctx) (db_audit (sy_db s) @ [row]) ev)))"
proof -
  let ?tx = "in_db (transaction (co_ops sv) (approve_tx sv cid act ctx challenge cross))"
  obtain w t where w: "?tx s = (w, t)" by fastforce
  show ?thesis
  proof (cases "\<exists>dctx dec version cid'. w = Inr (Dispatch dctx dec version cid')")
    case False
    then have "s' = t"
      using assms w by (auto simp: approve_def bind_def split: sum.splits approve_result.splits)
    then show ?thesis using in_db_trace [OF w] by auto
  next
    case True
    then obtain dctx dec version cid' where wd: "w = Inr (Dispatch dctx dec version cid')" by blast
    from w obtain d e where tx: "transaction (co_ops sv) (approve_tx sv cid act ctx challenge cross) (sy_db s, sy_env s)
        = (Inr (Dispatch dctx dec version cid'), (d, e))" and t: "sy_db t = d" "sy_trace t = sy_trace s"
      by (auto simp: in_db_iff wd)
    from transaction_Inr [OF tx] obtain t'' where
        "approve_tx sv cid act ctx challenge cross (sy_db s, sy_env s) = (Inr (Dispatch dctx dec version cid'), t'')"
        and d: "d = fst t''" by auto
    from approve_tx_dispatch [OF this(1)] obtain c row now where c:
        "confirmation_get (db_confirmations (sy_db s)) cid = Some c" "cid' = cid" "dctx = scope_ctx c ctx"
        "dec = cf_decision c" "version = cf_policy_version c"
        "row_for act dctx dec O_AUTHORIZED version (Some cid) row" "may_consume sv d c act ctx challenge cross"
        "db_audit d = db_audit (sy_db s) @ [row]"
        "db_confirmations d = mark_status now c STATUS_USED (db_confirmations (sy_db s))"
      unfolding d by auto
    have "dispatch_and_record sv act dctx dec version (Some cid') t = (r, s')"
      using assms w by (simp add: approve_def bind_def wd)
    from dispatch_and_record_effect [OF this] obtain evs rows where disp:
        "sy_trace s' = sy_trace s @ evs" "sy_db s' = d\<lparr>db_audit := db_audit d @ rows\<rparr>"
        "\<forall>ev \<in> set evs. \<exists>p. registry_lookup (sv_registry sv) (action_type act) = Some p
          \<and> call_for (p_id p) act dctx (db_audit d) ev"
      unfolding t by auto
    have "may_consume sv (sy_db s') c act ctx challenge cross" using c(7) disp(2) by (simp add: may_consume_def)
    moreover have "confirmation_get (db_confirmations (sy_db s')) cid = Some (c\<lparr>cf_status := STATUS_USED, cf_used_at := Some now\<rparr>)"
      using disp(2) c(9) mark_status_get [OF c(1)] by simp
    ultimately show ?thesis using disp(1,3) c(1,6,8) unfolding c(3-5) by auto
  qed
qed



text \<open>C3. A forbidden action never reaches a provider: neither a request for it nor an approval of it,
  with whatever policy, confirmation, challenge or operator flag, makes a single provider call.\<close>
theorem forbidden_never_dispatched:
  assumes "forbidden sv (action_type act)"
  shows "sy_trace (snd (request sv act ctx s)) = sy_trace s
    \<and> sy_trace (snd (approve sv cid act ctx challenge cross s)) = sy_trace s"
proof -
  obtain r s1 where r: "request sv act ctx s = (r, s1)" by fastforce
  obtain q s2 where q: "approve sv cid act ctx challenge cross s = (q, s2)" by fastforce
  show ?thesis
    using request_effect [OF r] approve_effect [OF q] assms r q by (auto simp: may_consume_def)
qed

lemma forbidden_never_dispatched_witness:
  "sy_trace (snd (request small_service \<lparr>action_type = ''note.wipe'', a_params = []\<rparr> (plain_ctx ''alice'') small_state))
     = sy_trace small_state"
  using forbidden_never_dispatched [of small_service "\<lparr>action_type = ''note.wipe'', a_params = []\<rparr>"] small_forbidden(3)
  by simp

section \<open>What is recorded\<close>

lemma confirmation_update_fresh:
  "cf_id c \<notin> cf_id ` set cs \<Longrightarrow> cf_id c' = cf_id c \<Longrightarrow> confirmation_update c' (cs @ [c]) = cs @ [c']"
  by (auto simp: confirmation_update_def image_iff intro!: map_idI)

text \<open>The confirmation that a request creates.\<close>

definition confirmation_for ::
  "'e service \<Rightarrow> action \<Rightarrow> exec_ctx \<Rightarrow> risk_level \<Rightarrow> decision \<Rightarrow> int \<Rightarrow> confirmation \<Rightarrow> bool" where
  "confirmation_for sv act ctx risk dec version c =
     (cf_status c = STATUS_PENDING \<and> cf_used_at c = None \<and> cf_actor_id c = Some (actor_id ctx)
      \<and> cf_action_type c = action_type act \<and> cf_risk_level c = risk \<and> cf_decision c = dec
      \<and> cf_policy_version c = version
      \<and> cf_action_hash c = action_fingerprint (co_sha sv) (co_frepr sv) (action_type act) (a_params act)
          (Some (risk_value risk)))"

lemma create_confirmation_Inr:
  assumes "create_confirmation sha frepr cat cfg now uuid token act risk dec version cs = Inr ((c, challenge), cs')"
  shows "cs' = cs @ [c] \<and> cf_id c \<notin> cf_id ` set cs \<and> cf_status c = STATUS_PENDING
    \<and> cf_used_at c = None \<and> cf_action_type c = action_type act \<and> cf_risk_level c = risk \<and> cf_decision c = dec
    \<and> cf_policy_version c = version
    \<and> cf_action_hash c = action_fingerprint sha frepr (action_type act) (a_params act) (Some (risk_value risk))"
  using assms by (auto simp: create_confirmation_def confirmation_build_def confirmation_create_def Let_def
      split: sum.splits option.splits if_splits)

lemma require_confirmation_tx_effect:
  assumes "require_confirmation_tx sv act ctx risk dec version s = (Inr resp, s')"
  shows "\<exists>row c. fst s' = (fst s)\<lparr>db_confirmations := db_confirmations (fst s) @ [c], db_audit := db_audit (fst s) @ [row]\<rparr>
    \<and> cf_id c \<notin> cf_id ` set (db_confirmations (fst s)) \<and> confirmation_for sv act ctx risk dec version c
    \<and> row_for act ctx dec O_PENDING version (Some (cf_id c)) row
    \<and> rs_status resp = St_confirmation_required \<and> rs_confirmation_id resp = Some (cf_id c)"
proof -
  from assms obtain t now uuid token c challenge cs' where t: "fst t = fst s"
    and create: "create_confirmation (co_sha sv) (co_frepr sv) (co_catalog sv) (co_conf sv) now uuid token
                       act risk dec version (db_confirmations (fst s)) = Inr ((c, challenge), cs')"
    and rest: "bind_confirmation sv act ctx risk dec version ((c, challenge), cs') t = (Inr resp, s')"
    by (auto simp: require_confirmation_tx_def bind_Inr_iff split: if_splits)
  let ?c = "c\<lparr>cf_actor_id := Some (actor_id ctx), cf_execution_scope := execution_scope ctx\<rparr>"
  note cr = create_confirmation_Inr [OF create]
  then have fresh: "cf_id c \<notin> cf_id ` set (db_confirmations (fst s))" by blast
  have upd: "confirmation_update ?c cs' = db_confirmations (fst s) @ [?c]"
    using confirmation_update_fresh [OF fresh, of ?c] cr by simp
  have cid: "an_confirmation_id (note_for sv (action_type act) ctx (Some (cf_id c)) None) = Some (cf_id c)"
    by (simp add: note_for_def blank_note_def split: prod.splits)
  from rest obtain u where aud: "audit_in_session sv act ctx (Some risk) dec O_PENDING version
      (note_for sv (action_type act) ctx (Some (cf_id c)) None) ((fst s)\<lparr>db_confirmations := db_confirmations (fst s) @ [?c]\<rparr>, u)
      = (Inr (), s')"
    and resp: "rs_status resp = St_confirmation_required" "rs_confirmation_id resp = Some (cf_id c)"
    by (auto simp: bind_confirmation_def Let_def upd seq_Inr_iff t mk_response_def)
  from audit_in_session_effect [OF aud] obtain row where
      "fst s' = (fst s)\<lparr>db_confirmations := db_confirmations (fst s) @ [?c], db_audit := db_audit (fst s) @ [row]\<rparr>"
      "row_for act ctx dec O_PENDING version (Some (cf_id c)) row"
    unfolding cid by auto
  then show ?thesis
    using cr resp by (intro exI [of _ row] exI [of _ ?c]) (simp add: confirmation_for_def)
qed

fun recorded_outcome :: "exec_status \<Rightarrow> outcome" where
  "recorded_outcome St_executed = O_EXECUTED"
| "recorded_outcome St_failed = O_FAILED"
| "recorded_outcome St_rejected = O_REJECTED"
| "recorded_outcome St_confirmation_required = O_PENDING"
| "recorded_outcome St_awaiting_approval = O_PENDING"
| "recorded_outcome St_denied = O_DENIED_BY_POLICY"

lemma recorded_status: "out \<in> {O_EXECUTED, O_FAILED, O_REJECTED} \<Longrightarrow> recorded_outcome (status_of_outcome out) = out"
  by auto

lemma request_under_recorded:
  assumes "request_under sv act ctx pol s = (Inr resp, s')"
  shows "\<exists>rows row. db_audit (sy_db s') = db_audit (sy_db s) @ rows @ [row]
    \<and> au_action_type row = action_type act \<and> au_actor_id row = actor_id ctx
    \<and> au_outcome row = outcome_value (recorded_outcome (rs_status resp))
    \<and> (rs_status resp \<in> {St_executed, St_failed, St_rejected} \<longleftrightarrow>
        (\<exists>auth. rows = [auth] \<and> row_for act ctx ALLOW O_AUTHORIZED (policy_version pol) None auth))"
proof -
  have denied: ?thesis
    if run: "seq (record_event sv act ctx k DENY O_DENIED_BY_POLICY v n) (ret (denied_response DENY msg)) s = (Inr resp, s')"
    for k v n msg
  proof -
    from run obtain u where u: "record_event sv act ctx k DENY O_DENIED_BY_POLICY v n s = (Inr u, s')"
        "resp = denied_response DENY msg" by (auto simp: seq_Inr_iff)
    then show ?thesis
      using record_event_effect [OF u(1)] by (auto simp: row_for_def denied_response_def mk_response_def)
  qed
  have confirm: ?thesis if run: "require_confirmation sv act ctx k dec v s = (Inr resp, s')" for k dec v
  proof -
    from run obtain d e risk where tx: "transaction (co_ops sv) (require_confirmation_tx sv act ctx risk dec v) (sy_db s, sy_env s)
        = (Inr resp, (d, e))" "sy_db s' = d"
      by (auto simp: require_confirmation_def in_db_iff transaction_def raise_exc_def split: option.splits)
    from transaction_Inr [OF tx(1)] obtain t where
        t: "require_confirmation_tx sv act ctx risk dec v (sy_db s, sy_env s) = (Inr resp, t)" "d = fst t" by auto
    then show ?thesis using require_confirmation_tx_effect [OF t(1)] tx(2) by (auto simp: row_for_def)
  qed
  have allow: ?thesis if run: "authorize_and_dispatch sv act ctx k ALLOW (policy_version pol) None s = (Inr resp, s')" for k
  proof -
    from run obtain t u where auth: "record_event sv act ctx k ALLOW O_AUTHORIZED (policy_version pol)
        (note_for sv (action_type act) ctx None None) s = (Inr u, t)"
      and disp: "dispatch_and_record sv act ctx ALLOW (policy_version pol) None t = (Inr resp, s')"
      by (auto simp: authorize_and_dispatch_def seq_Inr_iff)
    have "an_confirmation_id (note_for sv (action_type act) ctx None None) = None"
      by (simp add: note_for_def blank_note_def split: prod.splits)
    then obtain arow where arow: "sy_db t = (sy_db s)\<lparr>db_audit := db_audit (sy_db s) @ [arow]\<rparr>"
        "row_for act ctx ALLOW O_AUTHORIZED (policy_version pol) None arow"
      using record_event_effect [OF auth] by auto
    from dispatch_and_record_effect [OF disp] obtain row out where
        "sy_db s' = (sy_db t)\<lparr>db_audit := db_audit (sy_db t) @ [row]\<rparr>"
        "row_for act ctx ALLOW out (policy_version pol) None row" "out \<in> {O_EXECUTED, O_FAILED, O_REJECTED}"
        "rs_status resp = status_of_outcome out" by auto
    then show ?thesis
      using arow recorded_status [of out]
      by (intro exI [of _ "[arow]"] exI [of _ row]) (auto simp: row_for_def)
  qed
  show ?thesis
    using assms denied confirm allow by (auto simp: request_under_def split: if_splits decision.splits)
qed

text \<open>C36. Every answered request is on record: when \<open>request\<close> returns a response, the audit log has grown
  and its last row is for this action type and actor with the outcome the response reports (denied,
  confirmation pending, executed, failed or rejected); an outcome of a dispatch is preceded by the
  \<open>AUTHORIZED\<close> row, and only an outcome of a dispatch is.\<close>
theorem request_is_recorded:
  assumes "request sv act ctx s = (Inr resp, s')"
  shows "\<exists>rows row. db_audit (sy_db s') = db_audit (sy_db s) @ rows @ [row]
    \<and> au_action_type row = action_type act \<and> au_actor_id row = actor_id ctx
    \<and> au_outcome row = outcome_value (recorded_outcome (rs_status resp))
    \<and> (rs_status resp \<in> {St_executed, St_failed, St_rejected} \<longleftrightarrow>
        (\<exists>auth. rows = [auth]
           \<and> row_for act ctx ALLOW O_AUTHORIZED (policy_version (current_policy (sy_db s))) None auth))"
proof -
  from assms obtain pol t where g: "in_db (get_current (co_ops sv)) s = (Inr pol, t)"
      and under: "request_under sv act ctx pol t = (Inr resp, s')"
    by (auto simp: request_def bind_Inr_iff)
  show ?thesis
    using request_under_recorded [OF under] get_current_effect [OF g] by simp
qed

lemma request_is_recorded_witness:
  "\<exists>resp s' row. request small_service add_note (plain_ctx ''alice'') small_state = (Inr resp, s')
     \<and> last (db_audit (sy_db s')) = row \<and> au_outcome row = ''EXECUTED''"
proof -
  obtain resp s' where run: "request small_service add_note (plain_ctx ''alice'') small_state = (Inr resp, s')"
      and "rs_status resp = St_executed" using small_request by blast
  then show ?thesis using request_is_recorded [OF run] by auto
qed

text \<open>Executions are bounded: one dispatch calls \<open>execute\<close> of its provider at most as often as the retry
  policy has attempts (never more than ten), and at most once for an action type that the provider
  declares non-retryable, whatever the provider raises and however the clock behaves; it calls no
  other provider and does not touch the database.\<close>
theorem execute_attempts_bounded:
  assumes "policy_ok (sv_retry_policy sv)" and "run_provider sv p act ctx s = (r, s')"
  shows "\<exists>evs. sy_trace s' = sy_trace s @ evs \<and> sy_db s' = sy_db s
    \<and> (\<forall>ev \<in> set evs. call_for (p_id p) act ctx (db_audit (sy_db s)) ev)
    \<and> length (filter is_execute evs) \<le> nat (max_attempts (sv_retry_policy sv))
    \<and> length (filter is_execute evs) \<le> 10
    \<and> (action_type act \<in> pv_non_retryable (p_impl p) \<longrightarrow> length (filter is_execute evs) \<le> 1)"
proof -
  have pol: "1 \<le> max_attempts (sv_retry_policy sv)" "max_attempts (sv_retry_policy sv) \<le> 10"
    using assms(1) by (auto simp: policy_ok_iff)
  have lim: "nat (max_attempts (retry_policy_for sv p (action_type act))) \<le> nat (max_attempts (sv_retry_policy sv))"
      "action_type act \<in> pv_non_retryable (p_impl p) \<longrightarrow> nat (max_attempts (retry_policy_for sv p (action_type act))) \<le> 1"
    using pol by (auto simp: retry_policy_for_def)
  from assms(2) obtain evs where "sy_db s' = sy_db s" "sy_trace s' = sy_trace s @ evs"
      "length (filter is_execute evs) \<le> nat (max_attempts (retry_policy_for sv p (action_type act)))"
      "list_all (call_for (p_id p) act ctx (db_audit (sy_db s))) evs" by (rule run_provider_calls)
  then show ?thesis
    using lim pol by (intro exI [of _ evs]) (auto simp: list_all_iff)
qed

lemma execute_attempts_bounded_witness:
  "\<exists>r s' evs. run_provider small_service echo_provider add_note (plain_ctx ''alice'') small_state = (r, s')
     \<and> sy_trace s' = evs \<and> length (filter is_execute evs) \<le> 3"
proof -
  obtain r s' where run: "run_provider small_service echo_provider add_note (plain_ctx ''alice'') small_state = (r, s')"
    by fastforce
  have ok: "policy_ok (sv_retry_policy small_service)" by (simp add: default_policy_ok)
  show ?thesis
    using execute_attempts_bounded [OF ok run] run
    by (auto simp: small_state_def default_retry_policy_def)
qed

text \<open>C20. A confirmation releases the action it was asked for and no other: if a request created the
  confirmation \<open>c\<close> for the action \<open>act\<close>, and an action \<open>act'\<close> passes the validation of \<open>c\<close>, then \<open>act'\<close> has the
  same action type and the same parameters up to the order of dictionary keys, provided SHA-256 does
  not collide on the two canonical texts and the text of floats determines them.\<close>
theorem confirmation_binds_action:
  assumes "float_text_ok frepr"
    and "create_confirmation sha frepr cat cfg now uuid token act risk dec version cs = Inr ((c, challenge), cs')"
    and "validate_confirmation sha frepr now' c act' phrase = None"
    and "let x = canonical_json frepr (fingerprint_payload (action_type act') (a_params act') (Some (risk_value risk)));
             y = canonical_json frepr (fingerprint_payload (action_type act) (a_params act) (Some (risk_value risk)))
         in sha x = sha y \<longrightarrow> x = y"
  shows "action_type act' = action_type act \<and> sort_json (JObj (a_params act')) = sort_json (JObj (a_params act))"
proof -
  have "action_fingerprint sha frepr (action_type act') (a_params act') (Some (risk_value risk))
      = action_fingerprint sha frepr (action_type act) (a_params act) (Some (risk_value risk))"
    using validate_confirmation_None [OF assms(3)] create_confirmation_Inr [OF assms(2)] by simp
  from fingerprint_inject [OF assms(1) this assms(4)] show ?thesis by blast
qed

lemma confirmation_binds_action_witness:
  "\<exists>c. create_confirmation (\<lambda>x. x) fraction_text [] \<lparr>confirmation_ttl_seconds = 300, confirmation_ttl_strong_seconds = 120\<rparr>
       ''2024-02-29T23:59:30+00:00'' ''c1'' [] send_note COMMUNICATION CONFIRM 1 [] = Inr ((c, None), [c])
     \<and> validate_confirmation (\<lambda>x. x) fraction_text ''2024-02-29T23:59:30+00:00'' c send_note None = None
     \<and> sort_json (JObj (a_params send_note)) = sort_json (JObj (a_params send_note))"
proof -
  let ?cfg = "\<lparr>confirmation_ttl_seconds = 300, confirmation_ttl_strong_seconds = 120\<rparr>"
  have ttl: "add_seconds ''2024-02-29T23:59:30+00:00'' 300 = Inr ''2024-03-01T00:04:30+00:00''" by code_simp
  have late: "\<not> ''2024-03-01T00:04:30+00:00'' < (''2024-02-29T23:59:30+00:00'' :: string)" by code_simp
  obtain c where c: "create_confirmation (\<lambda>x. x) fraction_text [] ?cfg ''2024-02-29T23:59:30+00:00'' ''c1'' []
        send_note COMMUNICATION CONFIRM 1 [] = Inr ((c, None), [c])"
      and exp: "cf_expires_at c = ''2024-03-01T00:04:30+00:00''"
    by (simp add: create_confirmation_def confirmation_build_def confirmation_create_def Let_def ttl)
  have valid: "validate_confirmation (\<lambda>x. x) fraction_text ''2024-02-29T23:59:30+00:00'' c send_note None = None"
    using create_confirmation_Inr [OF c] by (simp only: validate_confirmation_def exp late if_False) simp
  from confirmation_binds_action [OF fraction_text_ok c valid] c valid show ?thesis by auto
qed

end
