(* ===== verification/Single_Use.thy ===== *)
theory Single_Use
  imports Dispatch_Safety
begin

text \<open>
  The service as a state machine on its tables.  Each transaction of the execution service, the
  sweeper, the operator's secondary approval and the policy service is one step; the steps of any
  number of requests, approvals and background ticks may interleave.  In every reachable state a
  confirmation has authorized at most one dispatch, the table of approvals is well formed, and the
  audit log is an intact chain.
\<close>

section \<open>Steps\<close>

inductive db_step :: "'e service \<Rightarrow> db \<Rightarrow> db \<Rightarrow> bool" for sv :: "'e service" where
  create: "require_confirmation_tx sv act ctx risk dec version (d, e) = (Inr resp, (d', e')) \<Longrightarrow> db_step sv d d'"
| approve: "approve_tx sv cid act ctx challenge cross (d, e) = (Inr r, (d', e')) \<Longrightarrow> db_step sv d d'"
| deny: "deny_tx sv cid ctx (d, e) = (Inr resp, (d', e')) \<Longrightarrow> db_step sv d d'"
| append: "audit_in_session sv act ctx risk dec out version nt (d, e) = (Inr u, (d', e')) \<Longrightarrow>
     (out = O_AUTHORIZED \<longrightarrow> an_confirmation_id nt = None) \<Longrightarrow> db_step sv d d'"
| sweep: "db_step sv d (d\<lparr>db_confirmations := snd (sweep now (db_confirmations d))\<rparr>)"
| secondary: "record_approval_in_session now uuid cid actor status ctx_hash (db_confirmations d) (db_approvals d)
     = Inr (a, as') \<Longrightarrow> db_step sv d (d\<lparr>db_approvals := as'\<rparr>)"
| policy: "create_version_tx sv document changed_by (d, e) = (Inr row, (d', e')) \<Longrightarrow> db_step sv d d'"

definition reachable :: "'e service \<Rightarrow> db \<Rightarrow> bool" where
  "reachable sv d = (db_step sv)\<^sup>*\<^sup>* \<lparr>db_audit = [], db_confirmations = [], db_approvals = [], db_policies = []\<rparr> d"

section \<open>The audit chain\<close>

definition chain_ok :: "'e service \<Rightarrow> db \<Rightarrow> bool" where
  "chain_ok sv d = log_ok (co_sha sv) (co_frepr sv) (co_repo sv) (db_audit d)"

definition chain_kept :: "'e service \<Rightarrow> nat \<Rightarrow> 'e session \<Rightarrow> 'e session \<Rightarrow> bool" where
  "chain_kept sv n s s' = (chain_ok sv (fst s) \<longrightarrow> chain_ok sv (fst s'))"

interpretation chain: graded_relation "chain_kept sv" for sv
  by unfold_locales (auto simp: chain_kept_def)

lemma chain_reach: "chain.reach sv n s s' \<longleftrightarrow> (chain_ok sv (fst s) \<longrightarrow> chain_ok sv (fst s'))"
  by (auto simp: chain.reach_def chain_kept_def)

lemma chain_bind: "chain.bounded sv m n \<Longrightarrow> (\<And>x. chain.bounded sv (f x) n) \<Longrightarrow> chain.bounded sv (bind m f) n"
  using chain.bounded_bind [of sv m n f n] unfolding chain.bounded_def chain_reach by blast

lemma chain_seq: "chain.bounded sv m n \<Longrightarrow> chain.bounded sv k n \<Longrightarrow> chain.bounded sv (seq m k) n"
  unfolding seq_def by (rule chain_bind)

lemma chain_ask: "chain.bounded sv (ask f) n"
  by (rule chain.boundedI) (auto simp: chain_reach)

lemma chain_query: "chain.bounded sv (query f) n"
  by (rule chain.boundedI) (auto simp: chain_reach)

lemma chain_change: "(\<And>d. db_audit (f d) = db_audit d) \<Longrightarrow> chain.bounded sv (change f) n"
  by (rule chain.boundedI) (auto simp: chain_reach chain_ok_def)

lemma audit_in_session_append:
  assumes "audit_in_session sv act ctx risk dec out version nt s = (r, s')"
  shows "fst s' = fst s \<or> (\<exists>now e rows. audit_append (co_sha sv) (co_frepr sv) (co_repo sv) now e (db_audit (fst s)) = Some rows
    \<and> fst s' = (fst s)\<lparr>db_audit := rows\<rparr>)"
  using assms by (fastforce simp: audit_in_session_def bind_def ask_def query_def raise_exc_def change_def audit_record_def
      split: option.splits prod.splits)

lemma chain_audit:
  assumes "repo_configured (co_frepr sv) (co_repo sv)"
  shows "chain.bounded sv (audit_in_session sv act ctx risk dec out version nt) n"
proof (rule chain.boundedI)
  fix s r s'
  assume "audit_in_session sv act ctx risk dec out version nt s = (r, s')"
  from audit_in_session_append [OF this] show "chain.reach sv n s s'"
    using append_log_ok(1) [OF assms] by (auto simp: chain_reach chain_ok_def)
qed

lemmas chain_rules = chain_bind chain_seq chain_ask chain_query chain_change chain.bounded_ret chain.bounded_raise
  chain.bounded_lift_res

lemma chain_resolve:
  assumes "repo_configured (co_frepr sv) (co_repo sv)"
  shows "chain.bounded sv (resolve sv c st act ctx risk dec out nt x) n"
  unfolding resolve_def
  by (cases st) (auto intro!: chain_rules chain_audit [OF assms])

lemma chain_dual_gate:
  assumes "repo_configured (co_frepr sv) (co_repo sv)"
  shows "chain.bounded sv (dual_gate sv c act dctx) n"
proof -
  have settle: "chain.bounded sv (settle_approval res) n" for res
    by (auto simp: settle_approval_def intro!: chain_rules split: sum.splits prod.splits approval_error.splits)
  have primary: "chain.bounded sv (record_primary sv c actor) n" for actor
    by (auto simp: record_primary_def intro!: chain_rules settle)
  show ?thesis
    by (auto simp: dual_gate_def Let_def intro!: chain_rules chain_resolve [OF assms] primary split: option.splits prod.splits)
qed

lemma chain_approve:
  assumes "repo_configured (co_frepr sv) (co_repo sv)"
  shows "chain.bounded sv (approve_tx sv cid act ctx challenge cross) n"
proof -
  have consume: "chain.bounded sv (consume sv c act dctx) n" for c dctx
    by (auto simp: consume_def intro!: chain_rules chain_resolve [OF assms] chain_dual_gate [OF assms] split: option.splits)
  have refuse: "chain.bounded sv (refuse sv c act ctx reason) n" for c reason
    by (auto simp: refuse_def Let_def intro!: chain_resolve [OF assms])
  have found: "chain.bounded sv (approve_found sv c act ctx challenge cross) n" for c
    by (auto simp: approve_found_def intro!: chain_rules chain_resolve [OF assms] refuse consume split: option.splits)
  show ?thesis
    by (auto simp: approve_tx_def intro!: chain_rules chain_audit [OF assms] found split: option.splits)
qed

lemma chain_step:
  assumes cfg: "repo_configured (co_frepr sv) (co_repo sv)" and step: "db_step sv d d'" and ok: "chain_ok sv d"
  shows "chain_ok sv d'"
proof -
  have use: "chain_ok sv d'" if "chain.bounded sv m 0" "m (d, e) = (r, (d', e'))" for m :: "('a session, 'b) comp" and e r e'
    using chain.boundedD [OF that] ok by (simp add: chain_reach)
  from step show ?thesis
  proof cases
    case (create act ctx risk dec version e resp e')
    have "chain.bounded sv (require_confirmation_tx sv act ctx risk dec version) 0"
      by (auto simp: require_confirmation_tx_def bind_confirmation_def Let_def intro!: chain_rules chain_audit [OF cfg])
    then show ?thesis using create by (rule use)
  next
    case (approve cid act ctx challenge cross e r e')
    then show ?thesis using use [OF chain_approve [OF cfg]] by blast
  next
    case (deny cid ctx e resp e')
    have "chain.bounded sv (deny_tx sv cid ctx) 0"
      by (auto simp: deny_tx_def intro!: chain_rules chain_resolve [OF cfg] split: option.splits)
    then show ?thesis using deny by (rule use)
  next
    case (append act ctx risk dec out version nt e u e')
    then show ?thesis using use [OF chain_audit [OF cfg]] by blast
  next
    case (policy document changed_by e row e')
    have "chain.bounded sv (policy_create v document changed_by) 0" for v document
      by (auto simp: policy_create_def Let_def intro!: chain_rules)
    then have "chain.bounded sv (create_version_tx sv document changed_by) 0"
      by (auto simp: create_version_tx_def Let_def intro!: chain_rules chain_audit [OF cfg])
    then show ?thesis using policy by (rule use)
  qed (use ok in \<open>auto simp: chain_ok_def\<close>)
qed

section \<open>Authorizations\<close>

definition authorizes :: "string \<Rightarrow> audit_row \<Rightarrow> bool" where
  "authorizes cid row = (au_outcome row = ''AUTHORIZED'' \<and> au_confirmation_id row = Some cid)"

lemma row_for_authorizes:
  "row_for act ctx dec out version c row \<Longrightarrow> authorizes cid row \<longleftrightarrow> out = O_AUTHORIZED \<and> c = Some cid"
  by (cases out) (auto simp: authorizes_def row_for_def)

text \<open>What one step may do: confirmations keep what they are bound to and never become pending again,
  approvals stay well formed, and if a row authorizes a confirmation, then the confirmation was pending
  before the step and is not pending after it, and the step wrote only that row.\<close>

definition step_ok :: "db \<Rightarrow> db \<Rightarrow> bool" where
  "step_ok d d' =
     (\<exists>rows. db_audit d' = db_audit d @ rows
        \<and> conf_evolves (db_confirmations d) (db_confirmations d')
        \<and> (approvals_inv (db_confirmations d) (db_approvals d) \<longrightarrow>
             approvals_inv (db_confirmations d') (db_approvals d'))
        \<and> (\<forall>row cid. row \<in> set rows \<and> authorizes cid row \<longrightarrow>
             rows = [row] \<and> (\<exists>c c'. confirmation_get (db_confirmations d) cid = Some c \<and> cf_status c = STATUS_PENDING
               \<and> confirmation_get (db_confirmations d') cid = Some c' \<and> cf_status c' \<noteq> STATUS_PENDING)))"

lemma conf_evolves_refl [simp]: "conf_evolves cs cs"
  by (rule conf.evolves_refl) simp

lemma resolve_step:
  assumes c: "confirmation_get (db_confirmations (fst s)) cid = Some c" and st: "st \<noteq> Some STATUS_PENDING"
    and auth: "out = O_AUTHORIZED \<Longrightarrow> cf_status c = STATUS_PENDING \<and> st \<noteq> None \<and> an_confirmation_id nt = Some cid"
    and run: "resolve sv c st act ctx risk dec out nt x s = (Inr y, s')"
  shows "step_ok (fst s) (fst s')"
proof -
  from resolve_effect [OF run] obtain row now where row: "row_for act ctx dec out (cf_policy_version c) (an_confirmation_id nt) row"
    and s': "fst s' = (fst s)\<lparr>db_audit := db_audit (fst s) @ [row],
         db_confirmations := (case st of None \<Rightarrow> db_confirmations (fst s)
           | Some status \<Rightarrow> mark_status now c status (db_confirmations (fst s)))\<rparr>" by blast
  have ev: "conf_evolves (db_confirmations (fst s)) (db_confirmations (fst s'))"
    using s' st mark_status_evolves [OF c] by (auto split: option.splits)
  have "\<exists>c c'. confirmation_get (db_confirmations (fst s)) k = Some c \<and> cf_status c = STATUS_PENDING
      \<and> confirmation_get (db_confirmations (fst s')) k = Some c' \<and> cf_status c' \<noteq> STATUS_PENDING"
    if "authorizes k row" for k
  proof -
    from that row have "out = O_AUTHORIZED" "an_confirmation_id nt = Some k" by (auto simp: row_for_authorizes)
    with auth obtain status where "k = cid" "cf_status c = STATUS_PENDING" "st = Some status" by auto
    then show ?thesis using c s' st mark_status_get [OF c] by auto
  qed
  then show ?thesis
    unfolding step_ok_def using ev approvals_inv_evolves [OF _ ev] s' by (intro exI [of _ "[row]"]) auto
qed

lemma resolve_quiet:
  assumes "resolve sv c st act ctx risk dec out nt x t = (Inr y, s')" and "fst t = d"
    and "confirmation_get (db_confirmations d) cid = Some c" and "st \<noteq> Some STATUS_PENDING" and "out \<noteq> O_AUTHORIZED"
  shows "step_ok d (fst s')"
  unfolding assms(2) [symmetric]
  by (rule resolve_step [OF _ assms(4) _ assms(1), where cid = cid]) (use assms in auto)

lemma step_ok_after_approval:
  assumes "fst t = (fst s)\<lparr>db_approvals := as\<rparr>"
    and "approvals_inv (db_confirmations (fst s)) (db_approvals (fst s)) \<longrightarrow> approvals_inv (db_confirmations (fst s)) as"
    and "step_ok (fst t) d'"
  shows "step_ok (fst s) d'"
  using assms unfolding step_ok_def by auto

lemma step_ok_approval:
  assumes "approvals_inv (db_confirmations d) (db_approvals d) \<longrightarrow> approvals_inv (db_confirmations d) as"
  shows "step_ok d (d\<lparr>db_approvals := as\<rparr>)"
  unfolding step_ok_def using assms by (intro exI [of _ "[]"]) simp

lemma record_primary_inv:
  assumes "record_primary sv c actor s = (Inr x, s')"
  obtains as where "fst s' = (fst s)\<lparr>db_approvals := as\<rparr>"
    "approvals_inv (db_confirmations (fst s)) (db_approvals (fst s)) \<longrightarrow> approvals_inv (db_confirmations (fst s)) as"
  using record_primary_effect [OF assms] record_approval_inv by metis

lemma dual_gate_step:
  assumes c: "confirmation_get (db_confirmations (fst s)) cid = Some c"
    and run: "dual_gate sv c act dctx s = (Inr stop, s')"
  shows "step_ok (fst s) (fst s')
    \<and> (stop = None \<longrightarrow> (\<exists>as. fst s' = (fst s)\<lparr>db_approvals := as\<rparr>
         \<and> (approvals_inv (db_confirmations (fst s)) (db_approvals (fst s)) \<longrightarrow> approvals_inv (db_confirmations (fst s)) as)))"
proof (cases "sv_dual_approval sv")
  case False
  have "stop \<noteq> None" using run False by (auto simp: dual_gate_def Let_def dest!: resolve_effect)
  moreover have "step_ok (fst s) (fst s')"
    using run False by (auto simp: dual_gate_def Let_def intro: resolve_step [OF c])
  ultimately show ?thesis by blast
next
  case True
  from run True obtain rec t where rec: "record_primary sv c (actor_id dctx) s = (Inr rec, t)"
    by (auto simp: dual_gate_def Let_def bind_Inr_iff)
  then obtain as where as: "fst t = (fst s)\<lparr>db_approvals := as\<rparr>"
      "approvals_inv (db_confirmations (fst s)) (db_approvals (fst s)) \<longrightarrow> approvals_inv (db_confirmations (fst s)) as"
    by (rule record_primary_inv)
  have c': "confirmation_get (db_confirmations (fst t)) cid = Some c" using c as(1) by simp
  have "step_ok (fst t) (fst s') \<and> stop \<noteq> None \<or> s' = t"
    using run True rec
    by (auto simp: dual_gate_def Let_def bind_def query_def split: option.splits prod.splits if_splits
        intro: resolve_step [OF c'] dest: resolve_effect)
  then show ?thesis
    using step_ok_after_approval [OF as] step_ok_approval [OF as(2)] as by auto
qed

lemma consume_step:
  assumes c: "confirmation_get (db_confirmations (fst s)) cid = Some c" "cf_status c = STATUS_PENDING"
    and run: "consume sv c act dctx s = (Inr r, s')"
  shows "step_ok (fst s) (fst s')"
proof -
  let ?use = "resolve sv c (Some STATUS_USED) act dctx (Some (cf_risk_level c)) (cf_decision c) O_AUTHORIZED
        (note_for sv (cf_action_type c) dctx (Some (cf_id c)) None)
        (Dispatch dctx (cf_decision c) (cf_policy_version c) (cf_id c))"
  have cid: "an_confirmation_id (note_for sv (cf_action_type c) dctx (Some (cf_id c)) None) = Some cid"
    using conf.get_key [OF c(1)] by (simp add: note_for_def blank_note_def split: prod.splits)
  from run obtain stop t where gate: "(if requires_dual_approval (cf_risk_level c) then dual_gate sv c act dctx else ret None) s
      = (Inr stop, t)" and k: "(case stop of Some r \<Rightarrow> ret r | None \<Rightarrow> ?use) t = (Inr r, s')"
    unfolding consume_def bind_Inr_iff by blast
  have use: "step_ok (fst t) (fst s')"
    if "confirmation_get (db_confirmations (fst t)) cid = Some c" "?use t = (Inr r, s')"
    by (rule resolve_step [OF that(1) _ _ that(2)]) (use c(2) cid in auto)
  show ?thesis
  proof (cases "requires_dual_approval (cf_risk_level c)")
    case False
    then show ?thesis using gate k use c(1) by auto
  next
    case True
    then have "dual_gate sv c act dctx s = (Inr stop, t)" using gate by simp
    note step = dual_gate_step [OF c(1) this]
    show ?thesis
    proof (cases stop)
      case None
      with step obtain as where as: "fst t = (fst s)\<lparr>db_approvals := as\<rparr>"
          "approvals_inv (db_confirmations (fst s)) (db_approvals (fst s)) \<longrightarrow> approvals_inv (db_confirmations (fst s)) as"
        by blast
      then have "step_ok (fst t) (fst s')" using use c(1) k None by simp
      then show ?thesis by (rule step_ok_after_approval [OF as])
    next
      case (Some r')
      then show ?thesis using k step by simp
    qed
  qed
qed

lemma approve_step:
  assumes run: "approve_tx sv cid act ctx challenge cross s = (Inr r, s')"
  shows "step_ok (fst s) (fst s')"
proof (cases "confirmation_get (db_confirmations (fst s)) cid")
  case None
  with run obtain u where "audit_in_session sv act ctx None DENY O_REJECTED 0
      (blank_note\<lparr>an_result := Some ''unknown confirmation''\<rparr>) s = (Inr u, s')"
    by (auto simp: approve_tx_def bind_Inr_iff seq_Inr_iff)
  from audit_in_session_effect [OF this] show ?thesis
    by (auto simp: step_ok_def row_for_authorizes)
next
  case (Some c)
  with run have found: "approve_found sv c act ctx challenge cross s = (Inr r, s')"
    by (auto simp: approve_tx_def bind_Inr_iff)
  have refuse: "step_ok (fst s) (fst s')" if "refuse sv c act ctx reason (fst s, e) = (Inr r, s')" for reason e
    using that Some by (auto simp: refuse_def Let_def split: if_splits intro: resolve_quiet)
  have consume: "step_ok (fst s) (fst s')"
    if "consume sv c act (scope_ctx c ctx) (fst s, e) = (Inr r, s')"
      "validate_confirmation (co_sha sv) (co_frepr sv) now c act challenge = None" for e now
    using consume_step [of "(fst s, e)" cid c, OF _ _ that(1)] Some validate_confirmation_None [OF that(2)] by simp
  show ?thesis
  proof (cases "forbidden sv (cf_action_type c) \<or> forbidden sv (action_type act)
      \<or> (\<not> cross \<and> cf_actor_id c \<noteq> None \<and> cf_actor_id c \<noteq> Some (actor_id ctx))")
    case True
    then show ?thesis
      using found Some by (auto simp: approve_found_def split: if_splits intro: resolve_quiet)
  next
    case False
    then obtain now e where k: "(case validate_confirmation (co_sha sv) (co_frepr sv) now c act challenge of
          Some reason \<Rightarrow> refuse sv c act ctx reason
        | None \<Rightarrow> consume sv c act (scope_ctx c ctx)) (fst s, e) = (Inr r, s')"
      using found by (auto simp: approve_found_def bind_Inr_iff)
    then show ?thesis
      using refuse consume by (cases "validate_confirmation (co_sha sv) (co_frepr sv) now c act challenge") auto
  qed
qed

lemma step_ok_rows:
  assumes "db_audit d' = db_audit d @ rows" and "db_confirmations d' = db_confirmations d" and "db_approvals d' = db_approvals d"
    and "\<forall>row \<in> set rows. \<forall>cid. \<not> authorizes cid row"
  shows "step_ok d d'"
  unfolding step_ok_def using assms by (intro exI [of _ rows]) auto

lemma policy_create_effect:
  "policy_create v doc who s = (Inr row, s') \<Longrightarrow> fst s' = (fst s)\<lparr>db_policies := db_policies (fst s) @ [row]\<rparr>"
  by (auto simp: policy_create_def bind_Inr_iff seq_Inr_iff Let_def split: if_splits)

lemma create_version_tx_effect:
  assumes "create_version_tx sv document changed_by s = (Inr row, s')"
  shows "\<exists>arow act ctx dec v nt. row_for act ctx dec O_EXECUTED v nt arow
    \<and> fst s' = (fst s)\<lparr>db_policies := db_policies (fst s) @ [row], db_audit := db_audit (fst s) @ [arow]\<rparr>"
proof -
  define v where "v = (case policy_current (db_policies (fst s)) of Some r \<Rightarrow> pr_version r + 1 | None \<Rightarrow> 1)"
  from assms obtain t u where create: "policy_create v (document\<lparr>pol_version := v\<rparr>) changed_by s = (Inr row, t)"
    and aud: "audit_in_session sv \<lparr>action_type = ''policy.update'', a_params = []\<rparr> (plain_ctx changed_by)
                  (Some MUTATING) ALLOW O_EXECUTED v
                  (blank_note\<lparr>an_result := Some (''policy updated to version '' @ show_int v),
                              an_capability_domain := Some ''core''\<rparr>) t = (Inr u, s')"
    unfolding create_version_tx_def Let_def v_def by (auto simp: bind_Inr_iff seq_Inr_iff)
  from audit_in_session_effect [OF aud] policy_create_effect [OF create] show ?thesis by fastforce
qed

lemma db_step_ok:
  assumes "db_step sv d d'"
  shows "step_ok d d'"
  using assms
proof cases
  case (create act ctx risk dec version e resp e')
  from require_confirmation_tx_effect [OF create] obtain row c where
      d': "d' = d\<lparr>db_confirmations := db_confirmations d @ [c], db_audit := db_audit d @ [row]\<rparr>"
      and fresh: "cf_id c \<notin> cf_id ` set (db_confirmations d)"
      and row: "row_for act ctx dec O_PENDING version (Some (cf_id c)) row" by auto
  have "confirmation_create c (db_confirmations d) = Some (db_confirmations d @ [c])"
    using fresh by (simp add: confirmation_create_def)
  then have ev: "conf_evolves (db_confirmations d) (db_confirmations d')"
    using d' by (auto intro: conf.evolves_create)
  show ?thesis
    unfolding step_ok_def using ev approvals_inv_evolves [OF _ ev] d' row
    by (intro exI [of _ "[row]"]) (auto simp: row_for_authorizes)
next
  case (approve cid act ctx challenge cross e r e')
  from approve_step [OF approve] show ?thesis by simp
next
  case (deny cid ctx e resp e')
  show ?thesis
  proof (cases "confirmation_get (db_confirmations d) cid")
    case None
    then show ?thesis using deny by (auto simp: deny_tx_def bind_Inr_iff intro: step_ok_rows)
  next
    case (Some c)
    from Some have quiet: "step_ok d d'" if "resolve sv c (Some STATUS_DENIED) act ctx risk dec O_DENIED_BY_USER nt x (d, e) = (Inr resp, (d', e'))"
      for act risk dec nt x using resolve_quiet [OF that] by simp
    show ?thesis
      using deny Some by (auto simp: deny_tx_def bind_Inr_iff split: if_splits intro: step_ok_rows quiet)
  qed
next
  case (append act ctx risk dec out version nt e u e')
  from audit_in_session_effect [OF append(1)] append(2) show ?thesis
    by (auto simp: row_for_authorizes intro!: step_ok_rows)
next
  case (sweep now)
  have ev: "conf_evolves (db_confirmations d) (db_confirmations d')" using sweep sweep_evolves by simp
  show ?thesis
    unfolding step_ok_def using ev approvals_inv_evolves [OF _ ev] sweep by (intro exI [of _ "[]"]) auto
next
  case (secondary now uuid cid actor status ctx_hash a as')
  then show ?thesis using record_approval_inv by (auto intro!: step_ok_approval)
next
  case (policy document changed_by e row e')
  from create_version_tx_effect [OF policy] show ?thesis
    by (auto simp: row_for_authorizes intro!: step_ok_rows)
qed

section \<open>The invariant\<close>

definition auth_count :: "string \<Rightarrow> db \<Rightarrow> nat" where
  "auth_count cid d = length (filter (authorizes cid) (db_audit d))"

definition single_use :: "db \<Rightarrow> bool" where
  "single_use d = (\<forall>cid. auth_count cid d = 0 \<or> (auth_count cid d = 1
     \<and> (\<exists>c. confirmation_get (db_confirmations d) cid = Some c \<and> cf_status c \<noteq> STATUS_PENDING)))"

lemma single_use_step:
  assumes "single_use d" and "step_ok d d'"
  shows "single_use d'"
  unfolding single_use_def
proof
  fix cid
  from assms(2) obtain rows where rows: "db_audit d' = db_audit d @ rows"
      "conf_evolves (db_confirmations d) (db_confirmations d')"
      "\<And>row. row \<in> set rows \<Longrightarrow> authorizes cid row \<Longrightarrow> rows = [row] \<and>
         (\<exists>c c'. confirmation_get (db_confirmations d) cid = Some c \<and> cf_status c = STATUS_PENDING
               \<and> confirmation_get (db_confirmations d') cid = Some c' \<and> cf_status c' \<noteq> STATUS_PENDING)"
    unfolding step_ok_def by blast
  from assms(1) have old: "auth_count cid d = 0 \<or> (auth_count cid d = 1
     \<and> (\<exists>c. confirmation_get (db_confirmations d) cid = Some c \<and> cf_status c \<noteq> STATUS_PENDING))"
    by (simp add: single_use_def)
  show "auth_count cid d' = 0 \<or> (auth_count cid d' = 1
     \<and> (\<exists>c. confirmation_get (db_confirmations d') cid = Some c \<and> cf_status c \<noteq> STATUS_PENDING))"
  proof (cases "\<exists>row \<in> set rows. authorizes cid row")
    case True
    then obtain row where "rows = [row]" "authorizes cid row" and pend:
        "\<exists>c. confirmation_get (db_confirmations d) cid = Some c \<and> cf_status c = STATUS_PENDING"
        "\<exists>c'. confirmation_get (db_confirmations d') cid = Some c' \<and> cf_status c' \<noteq> STATUS_PENDING"
      using rows(3) by blast
    then show ?thesis using old rows(1) by (auto simp: auth_count_def)
  next
    case False
    then have "auth_count cid d' = auth_count cid d" by (auto simp: auth_count_def rows(1) filter_empty_conv)
    then show ?thesis
      using old rows(2) by (auto simp: conf.evolves_def same_binding_def)
  qed
qed



end
