(* ===== verification/Workflow_Graph.thy ===== *)
theory Workflow_Graph
  imports Era_Prelude "HOL-Library.AList"
begin

text \<open>
  The dependency check of \<^verbatim>\<open>era/workflows/definition.py\<close> on its own: the tables of dependents and
  in-degrees that \<open>_validate_dag\<close> builds, and Kahn's algorithm on them.  The theory is over any type
  of step ids.  \<open>None\<close> is a \<open>KeyError\<close>, which the lemmas exclude.

  Kahn's count equals the number of steps exactly when the dependency relation is acyclic.
\<close>

section \<open>The algorithm\<close>

text \<open>The inner loop: \<open>for nxt in edges[node]: indegree[nxt] -= 1\<close>, queueing \<open>nxt\<close> at zero.\<close>

fun relax :: "'a list \<Rightarrow> 'a list \<Rightarrow> ('a \<times> int) list \<Rightarrow> ('a list \<times> ('a \<times> int) list) option" where
  "relax [] q deg = Some (q, deg)"
| "relax (x # xs) q deg = (case map_of deg x of
       None \<Rightarrow> None
     | Some k \<Rightarrow> relax xs (if k - 1 = 0 then q @ [x] else q) (AList.update x (k - 1) deg))"

definition positive :: "('a \<times> int) list \<Rightarrow> nat" where
  "positive deg = length (filter (\<lambda>(_, k). 0 < k) deg)"

lemma positive_update:
  "map_of deg x = Some k \<Longrightarrow>
   positive (AList.update x (k - 1) deg) + (if k = 1 then 1 else 0) = positive deg"
  by (induction deg) (auto simp: positive_def split: if_splits)

lemma relax_measure:
  "relax xs q deg = Some (q', deg') \<Longrightarrow> length q' + positive deg' \<le> length q + positive deg"
proof (induction xs q deg rule: relax.induct)
  case (2 x xs q deg)
  then obtain k where k: "map_of deg x = Some k" by (auto split: option.splits)
  show ?case
    using 2(1) [OF k] 2(2) positive_update [OF k] by (cases "k = 1") (auto simp: k)
qed simp

text \<open>The queue: a step at zero is taken, and counted; the edges are not changed.\<close>

function kahn :: "('a \<times> 'a list) list \<Rightarrow> 'a list \<Rightarrow> ('a \<times> int) list \<Rightarrow> nat \<Rightarrow> nat option" where
  "kahn edges [] deg seen = Some seen"
| "kahn edges (node # queue) deg seen = (case map_of edges node of
       None \<Rightarrow> None
     | Some nexts \<Rightarrow> (case relax nexts queue deg of
         None \<Rightarrow> None
       | Some (queue', deg') \<Rightarrow> kahn edges queue' deg' (seen + 1)))"
  by pat_completeness auto
termination
  by (relation "measure (\<lambda>(edges, queue, deg, seen). length queue + positive deg)")
    (auto dest: relax_measure)

text \<open>The tables of a list of steps with their dependencies; the second component is \<open>None\<close> when a
  dependency is unknown.\<close>

definition add_dependency ::
  "'a \<Rightarrow> 'a \<Rightarrow> ('a \<times> 'a list) list \<times> ('a \<times> int) list \<Rightarrow> ('a \<times> 'a list) list \<times> ('a \<times> int) list" where
  "add_dependency step dep t =
     (AList.map_entry dep (\<lambda>xs. xs @ [step]) (fst t), AList.map_entry step (\<lambda>k. k + 1) (snd t))"

fun add_dependencies ::
  "'a set \<Rightarrow> 'a \<Rightarrow> 'a list \<Rightarrow> ('a \<times> 'a list) list \<times> ('a \<times> int) list
     \<Rightarrow> 'a \<times> 'a + ('a \<times> 'a list) list \<times> ('a \<times> int) list" where
  "add_dependencies known step [] t = Inr t"
| "add_dependencies known step (dep # deps) t =
     (if dep \<notin> known then Inl (step, dep)
      else add_dependencies known step deps (add_dependency step dep t))"

fun dependency_tables ::
  "'a set \<Rightarrow> ('a \<times> 'a list) list \<Rightarrow> ('a \<times> 'a list) list \<times> ('a \<times> int) list
     \<Rightarrow> 'a \<times> 'a + ('a \<times> 'a list) list \<times> ('a \<times> int) list" where
  "dependency_tables known [] t = Inr t"
| "dependency_tables known ((step, deps) # rest) t =
     (case add_dependencies known step deps t of
        Inl e \<Rightarrow> Inl e
      | Inr t' \<Rightarrow> dependency_tables known rest t')"

definition start_queue :: "('a \<times> int) list \<Rightarrow> 'a list" where
  "start_queue deg = map fst (filter (\<lambda>(_, k). k = 0) deg)"

section \<open>The tables\<close>

text \<open>The dependencies as pairs (dependency, step), with repetitions.\<close>

definition dep_pairs :: "('a \<times> 'a list) list \<Rightarrow> ('a \<times> 'a) list" where
  "dep_pairs graph = concat (map (\<lambda>(s, ds). map (\<lambda>d. (d, s)) ds) graph)"

definition out_of :: "('a \<times> 'a) list \<Rightarrow> 'a \<Rightarrow> 'a list" where
  "out_of es u = map snd (filter (\<lambda>p. fst p = u) es)"

definition in_count :: "('a \<times> 'a) list \<Rightarrow> 'a \<Rightarrow> int" where
  "in_count es v = int (length (filter (\<lambda>p. snd p = v) es))"

definition tables_of :: "'a list \<Rightarrow> ('a \<times> 'a) list \<Rightarrow> ('a \<times> 'a list) list \<times> ('a \<times> int) list" where
  "tables_of ids es = (map (\<lambda>i. (i, out_of es i)) ids, map (\<lambda>i. (i, in_count es i)) ids)"

lemma map_entry_map:
  "distinct ids \<Longrightarrow> AList.map_entry d f (map (\<lambda>i. (i, g i)) ids) = map (\<lambda>i. (i, if i = d then f (g i) else g i)) ids"
proof (induction ids)
  case (Cons i ids)
  then show ?case by (cases "i = d") (auto intro!: map_cong)
qed simp

lemma update_map:
  assumes "distinct ids" and "x \<in> set ids"
  shows "AList.update x v (map (\<lambda>i. (i, g i)) ids) = map (\<lambda>i. (i, (g(x := v)) i)) ids"
  using assms
proof (induction ids)
  case (Cons i ids)
  then show ?case by (cases "i = x") (auto intro!: map_cong)
qed simp

lemma map_of_map_id: "i \<in> set ids \<Longrightarrow> map_of (map (\<lambda>i. (i, g i)) ids) i = Some (g i)"
  by (induction ids) auto

lemma add_dependency_tables:
  assumes "distinct ids"
  shows "add_dependency s d (tables_of ids es) = tables_of ids (es @ [(d, s)])"
  using assms by (auto simp: add_dependency_def tables_of_def map_entry_map out_of_def in_count_def)

lemma add_dependencies_known:
  assumes "distinct ids" and "set deps \<subseteq> known"
  shows "add_dependencies known s deps (tables_of ids es) = Inr (tables_of ids (es @ map (\<lambda>d. (d, s)) deps))"
  using assms(2) by (induction deps arbitrary: es) (simp_all add: add_dependency_tables assms(1))

lemma add_dependencies_unknown:
  "\<not> set deps \<subseteq> known \<Longrightarrow> \<exists>d. add_dependencies known s deps t = Inl (s, d) \<and> d \<notin> known"
  by (induction deps arbitrary: t) auto

lemma dependency_tables_known:
  assumes "distinct ids" and "\<And>s ds. (s, ds) \<in> set graph \<Longrightarrow> set ds \<subseteq> known"
  shows "dependency_tables known graph (tables_of ids es) = Inr (tables_of ids (es @ dep_pairs graph))"
  using assms(2)
proof (induction graph arbitrary: es)
  case (Cons g graph)
  obtain s ds where g: "g = (s, ds)" by fastforce
  then have known: "set ds \<subseteq> known" using Cons.prems by auto
  have "set ds' \<subseteq> known" if "(s', ds') \<in> set graph" for s' ds' using Cons.prems that by auto
  note tables = Cons.IH [OF this, where es = "es @ map (\<lambda>d. (d, s)) ds"]
  show ?case
    using tables known
    by (simp add: g add_dependencies_known assms(1) dep_pairs_def)
qed (simp add: dep_pairs_def)

lemma dependency_tables_unknown:
  assumes "(s, ds) \<in> set graph" and "\<not> set ds \<subseteq> known"
  shows "\<exists>e. dependency_tables known graph t = Inl e"
  using assms(1)
proof (induction graph arbitrary: t)
  case (Cons g graph)
  obtain s' ds' where g: "g = (s', ds')" by fastforce
  show ?case
  proof (cases "set ds' \<subseteq> known")
    case True
    then have "(s, ds) \<in> set graph" using Cons.prems assms(2) g by auto
    then show ?thesis using Cons.IH by (auto simp: g split: sum.splits)
  next
    case False
    then show ?thesis using add_dependencies_unknown [OF False, of s' t] by (auto simp: g)
  qed
qed simp

section \<open>The loops\<close>

lemma relax_run:
  assumes "distinct ids" and "set xs \<subseteq> set ids" and "\<And>i. i \<in> set xs \<Longrightarrow> int (count_list xs i) \<le> g i"
  shows "\<exists>new. relax xs q (map (\<lambda>i. (i, g i)) ids)
        = Some (q @ new, map (\<lambda>i. (i, g i - int (count_list xs i))) ids)
      \<and> distinct new \<and> set new = {i \<in> set xs. g i = int (count_list xs i)}"
  using assms(2,3)
proof (induction xs arbitrary: q g)
  case (Cons x xs)
  let ?g = "g(x := g x - 1)"
  let ?q = "if g x - 1 = 0 then q @ [x] else q"
  have x: "x \<in> set ids" and xs: "set xs \<subseteq> set ids" using Cons.prems(1) by auto
  have le: "int (count_list (x # xs) i) \<le> g i" if "i \<in> set (x # xs)" for i by (rule Cons.prems(2) [OF that])
  have "int (count_list xs i) \<le> ?g i" if "i \<in> set xs" for i
    using le [of i] that by (auto split: if_splits)
  from Cons.IH [OF xs this, of ?q] obtain new where
    run: "relax xs ?q (map (\<lambda>i. (i, ?g i)) ids)
        = Some (?q @ new, map (\<lambda>i. (i, ?g i - int (count_list xs i))) ids)"
    and new: "distinct new" "set new = {i \<in> set xs. ?g i = int (count_list xs i)}" by blast
  have eq: "?g i - int (count_list xs i) = g i - int (count_list (x # xs) i)" for i by simp
  have step: "relax (x # xs) q (map (\<lambda>i. (i, g i)) ids)
      = Some (?q @ new, map (\<lambda>i. (i, g i - int (count_list (x # xs) i))) ids)"
    using run unfolding relax.simps map_of_map_id [OF x] option.case update_map [OF assms(1) x] eq .
  have last: "x \<notin> set xs" if "g x = 1"
  proof -
    have "int (count_list xs x) \<le> 0" using le [of x] that by simp
    then show ?thesis by (simp add: count_list_0_iff)
  qed
  have tail: "i \<in> set new \<longleftrightarrow> g i = int (count_list (x # xs) i)" if "i \<in> set xs" for i
    unfolding new(2) using that by (cases "i = x") auto
  have sub: "set new \<subseteq> set xs" using new(2) by blast
  have head: "g x = int (count_list (x # xs) x) \<longleftrightarrow> g x = 1" if "x \<notin> set xs"
    using that by (simp add: count_list_0_iff)
  show ?case
  proof (cases "g x = 1")
    case True
    have "set (x # new) = {i \<in> set (x # xs). g i = int (count_list (x # xs) i)}"
    proof (rule set_eqI)
      fix i
      show "i \<in> set (x # new) \<longleftrightarrow> i \<in> {i \<in> set (x # xs). g i = int (count_list (x # xs) i)}"
        using tail [of i] sub head [OF last [OF True]] True by (cases "i = x"; cases "i \<in> set xs") auto
    qed
    moreover have "distinct (x # new)" using new(1) sub last [OF True] by auto
    ultimately show ?thesis using step True by (intro exI [of _ "x # new"]) simp
  next
    case False
    have "set new = {i \<in> set (x # xs). g i = int (count_list (x # xs) i)}"
    proof (rule set_eqI)
      fix i
      show "i \<in> set new \<longleftrightarrow> i \<in> {i \<in> set (x # xs). g i = int (count_list (x # xs) i)}"
        using tail [of i] sub head False by (cases "i = x"; cases "i \<in> set xs") auto
    qed
    then show ?thesis using step False new(1) by (intro exI [of _ new]) simp
  qed
qed simp

text \<open>What is left of the edges once the steps of \<open>ds\<close> are done.\<close>

definition remaining :: "('a \<times> 'a) list \<Rightarrow> 'a list \<Rightarrow> ('a \<times> 'a) list" where
  "remaining es ds = filter (\<lambda>p. fst p \<notin> set ds) es"

lemma remaining_step:
  "v \<notin> set ds \<Longrightarrow> in_count (remaining es (ds @ [v])) i = in_count (remaining es ds) i - int (count_list (out_of es v) i)"
  by (induction es) (auto simp: in_count_def remaining_def out_of_def)

lemma in_count_0: "in_count es v = 0 \<longleftrightarrow> (\<forall>u. (u, v) \<notin> set es)"
  by (auto simp: in_count_def filter_empty_conv)

lemma in_count_nonneg: "0 \<le> in_count es v"
  by (simp add: in_count_def)

definition kahn_state :: "'a list \<Rightarrow> ('a \<times> 'a) list \<Rightarrow> 'a list \<Rightarrow> 'a list \<Rightarrow> bool" where
  "kahn_state ids es ds q =
     (distinct (ds @ q) \<and> set (ds @ q) = {i \<in> set ids. in_count (remaining es ds) i = 0}
      \<and> (\<forall>A v B. ds = A @ v # B \<longrightarrow> (\<forall>u. (u, v) \<in> set es \<longrightarrow> u \<in> set A)))"

lemma kahn_state_step:
  assumes ids: "distinct ids" and es: "set es \<subseteq> set ids \<times> set ids"
    and st: "kahn_state ids es ds (v # q)"
  obtains q' where "relax (out_of es v) q (map (\<lambda>i. (i, in_count (remaining es ds) i)) ids)
      = Some (q', map (\<lambda>i. (i, in_count (remaining es (ds @ [v])) i)) ids)"
    and "kahn_state ids es (ds @ [v]) q'"
proof -
  let ?g = "in_count (remaining es ds)"
  have v: "v \<notin> set ds" "v \<in> set ids" "?g v = 0" and ds: "distinct (ds @ v # q)"
    and all: "set (ds @ v # q) = {i \<in> set ids. ?g i = 0}"
    and order: "\<And>A w B u. ds = A @ w # B \<Longrightarrow> (u, w) \<in> set es \<Longrightarrow> u \<in> set A"
    using st by (auto simp: kahn_state_def)
  have out: "set (out_of es v) \<subseteq> set ids" using es by (auto simp: out_of_def)
  have le: "int (count_list (out_of es v) i) \<le> ?g i" for i
    using remaining_step [OF v(1), of es i] in_count_nonneg [of "remaining es (ds @ [v])" i] by simp
  from relax_run [OF ids out le, of q] obtain new where
    run: "relax (out_of es v) q (map (\<lambda>i. (i, ?g i)) ids)
        = Some (q @ new, map (\<lambda>i. (i, ?g i - int (count_list (out_of es v) i))) ids)"
    and new: "distinct new" "set new = {i \<in> set (out_of es v). ?g i = int (count_list (out_of es v) i)}"
    by blast
  have fresh: "?g i \<noteq> 0" if "i \<in> set new" for i
  proof
    assume "?g i = 0"
    then have "count_list (out_of es v) i = 0" using le [of i] by simp
    then show False using that new(2) by (simp add: count_list_0_iff)
  qed
  have "distinct ((ds @ [v]) @ q @ new)" using ds new(1) fresh all by fastforce
  moreover have "set ((ds @ [v]) @ q @ new) = {i \<in> set ids. in_count (remaining es (ds @ [v])) i = 0}"
  proof (rule set_eqI)
    fix i
    have "i \<in> set ((ds @ [v]) @ q @ new) \<longleftrightarrow> i \<in> set (ds @ v # q) \<or> i \<in> set new" by auto
    also have "\<dots> \<longleftrightarrow> i \<in> set ids \<and> ?g i = 0 \<or> i \<in> set (out_of es v) \<and> ?g i = int (count_list (out_of es v) i)"
      unfolding all new(2) by blast
    also have "\<dots> \<longleftrightarrow> i \<in> set ids \<and> ?g i - int (count_list (out_of es v) i) = 0"
    proof -
      have "int (count_list (out_of es v) i) = 0 \<longleftrightarrow> i \<notin> set (out_of es v)" by (simp add: count_list_0_iff)
      then show ?thesis using le [of i] out by auto
    qed
    finally show "i \<in> set ((ds @ [v]) @ q @ new) \<longleftrightarrow> i \<in> {i \<in> set ids. in_count (remaining es (ds @ [v])) i = 0}"
      by (simp add: remaining_step [OF v(1)])
  qed
  moreover have "u \<in> set A" if "ds @ [v] = A @ w # B" "(u, w) \<in> set es" for A w B u
  proof (cases "B = []")
    case True
    then have "A = ds" "w = v" using that(1) by auto
    moreover have "u \<in> set ds"
      using v(3) that(2) \<open>w = v\<close> by (auto simp: in_count_0 remaining_def)
    ultimately show ?thesis by simp
  next
    case False
    then have "ds = A @ w # butlast B" using that(1) by (metis butlast.simps(2) butlast_append butlast_snoc list.distinct(1))
    then show ?thesis using order that(2) by blast
  qed
  ultimately have "kahn_state ids es (ds @ [v]) (q @ new)" unfolding kahn_state_def by auto
  then show thesis using that run by (simp add: remaining_step [OF v(1)])
qed

lemma kahn_run:
  assumes ids: "distinct ids" and es: "set es \<subseteq> set ids \<times> set ids" and "kahn_state ids es ds q"
  shows "\<exists>ds'. kahn (map (\<lambda>i. (i, out_of es i)) ids) q (map (\<lambda>i. (i, in_count (remaining es ds) i)) ids) (length ds)
      = Some (length ds') \<and> kahn_state ids es ds' []"
  using assms(3)
proof (induction "length ids - length ds" arbitrary: ds q rule: less_induct)
  case less
  show ?case
  proof (cases q)
    case Nil
    then show ?thesis using less.prems by auto
  next
    case (Cons v q')
    have st: "kahn_state ids es ds (v # q')" using less.prems Cons by simp
    then have v: "v \<in> set ids" and d: "distinct (ds @ v # q')" and sub: "set (ds @ v # q') \<subseteq> set ids"
      by (auto simp: kahn_state_def)
    obtain q2 where run: "relax (out_of es v) q' (map (\<lambda>i. (i, in_count (remaining es ds) i)) ids)
        = Some (q2, map (\<lambda>i. (i, in_count (remaining es (ds @ [v])) i)) ids)"
      and st': "kahn_state ids es (ds @ [v]) q2"
      by (rule kahn_state_step [OF ids es st])
    have "length (ds @ v # q') \<le> length ids"
      using d sub ids by (metis card_mono distinct_card finite_set)
    then have "length ids - length (ds @ [v]) < length ids - length ds" by simp
    from less.hyps [OF this st'] show ?thesis
      by (simp add: Cons map_of_map_id [OF v] run)
  qed
qed

theorem kahn_counts_acyclic:
  assumes ids: "distinct ids" and es: "set es \<subseteq> set ids \<times> set ids"
  shows "\<exists>n. kahn (fst (tables_of ids es)) (start_queue (snd (tables_of ids es))) (snd (tables_of ids es)) 0 = Some n
     \<and> (n = length ids \<longleftrightarrow> acyclic (set es))"
proof -
  have start: "start_queue (snd (tables_of ids es)) = filter (\<lambda>i. in_count es i = 0) ids"
    by (simp add: start_queue_def tables_of_def filter_map o_def)
  have rem: "remaining es [] = es" by (simp add: remaining_def)
  have "kahn_state ids es [] (filter (\<lambda>i. in_count es i = 0) ids)"
    using ids by (auto simp: kahn_state_def rem)
  from kahn_run [OF ids es this] obtain ds where
    run: "kahn (fst (tables_of ids es)) (start_queue (snd (tables_of ids es))) (snd (tables_of ids es)) 0 = Some (length ds)"
    and st: "kahn_state ids es ds []"
    unfolding start rem list.size by (auto simp: tables_of_def)
  have ds: "distinct ds" "set ds = {i \<in> set ids. in_count (remaining es ds) i = 0}"
    and order: "\<And>A v B u. ds = A @ v # B \<Longrightarrow> (u, v) \<in> set es \<Longrightarrow> u \<in> set A"
    using st by (auto simp: kahn_state_def)
  have full: "length ds = length ids \<longleftrightarrow> set ds = set ids"
    using ds ids by (metis (no_types, lifting) card_subset_eq distinct_card finite_set mem_Collect_eq subsetI)
  have "acyclic (set es)" if "set ds = set ids"
  proof (rule acyclic_subset)
    let ?rank = "\<lambda>x. length (takeWhile (\<lambda>y. y \<noteq> x) ds)"
    show "acyclic (measure ?rank)" by (rule wf_acyclic) simp
    show "set es \<subseteq> measure ?rank"
    proof
      fix p assume p: "p \<in> set es"
      obtain u v where uv: "p = (u, v)" by fastforce
      have "v \<in> set ds" using p uv es that by auto
      then obtain A B where A: "ds = A @ v # B" "v \<notin> set A" by (meson split_list_first)
      then have u: "u \<in> set A" using order p uv by blast
      have "takeWhile (\<lambda>y. y \<noteq> v) ds = A" using A by (auto simp: takeWhile_append)
      moreover have "length (takeWhile (\<lambda>y. y \<noteq> u) ds) < length A"
      proof -
        obtain A1 A2 where "A = A1 @ u # A2" "u \<notin> set A1" using u by (meson split_list_first)
        moreover have "takeWhile (\<lambda>y. y \<noteq> u) (A1 @ u # A2 @ v # B) = A1"
          using \<open>u \<notin> set A1\<close> by (auto simp: takeWhile_append)
        ultimately show ?thesis using A by simp
      qed
      ultimately show "p \<in> measure ?rank" by (simp add: uv)
    qed
  qed
  moreover have "set ds = set ids" if "acyclic (set es)"
  proof -
    have wf: "wf (set es)" by (rule finite_acyclic_wf [OF finite_set that])
    have "i \<in> set ds" if "i \<in> set ids" for i
      using wf that
    proof (induction i rule: wf_induct_rule)
      case (less i)
      have "(u, i) \<notin> set (remaining es ds)" for u
        using less.IH [of u] es by (auto simp: remaining_def)
      then have "in_count (remaining es ds) i = 0" by (simp add: in_count_0)
      then show ?case using less.prems ds(2) by auto
    qed
    then show ?thesis using ds(2) by auto
  qed
  ultimately show ?thesis using run full by auto
qed

end
