(* ===== verification/Vault.thy ===== *)
theory Vault
  imports Database "HOL-Library.Product_Lexorder"
begin

text \<open>
  Model of the credential vault: \<^verbatim>\<open>era/security/vault.py\<close> (references, the master key, the use of
  AES-256-GCM), the table of \<^verbatim>\<open>era/models/vault.py\<close> with \<^verbatim>\<open>SQLiteVaultRepo\<close>, and
  \<^verbatim>\<open>era/services/vault_service.py\<close>.

  AES-GCM of the \<open>cryptography\<close> package is a parameter: a pair of functions of which the lemmas
  assume that decryption undoes encryption under the same key, nonce and associated data.  A byte
  string is a \<open>string\<close> whose characters are the bytes.  A \<open>VaultError\<close> is the exception
  \<open>vault_error code\<close>.

  What the vault promises is stated as a map from (domain, name) to the stored value, its owner and
  whether it is active (\<open>vault_view\<close>); the service operates on it as on that map.
\<close>

section \<open>References\<close>

definition VAULT_REF_PREFIX :: string where "VAULT_REF_PREFIX = ''vault:''"
definition MASTER_KEY_LENGTH :: nat where "MASTER_KEY_LENGTH = 32"
definition MAX_VAULT_VALUE_LENGTH :: nat where "MAX_VAULT_VALUE_LENGTH = 16384"
definition ALGORITHM :: string where "ALGORITHM = ''AES-256-GCM''"

definition vault_error :: "string \<Rightarrow> py_exc" where
  "vault_error errcode = OtherExc (''VaultError:'' @ errcode)"

text \<open>The pattern \<open>^[A-Za-z0-9][A-Za-z0-9_\-]{0,63}$\<close>; \<open>$\<close> also matches before a final newline.\<close>

definition part_char :: "char \<Rightarrow> bool" where
  "part_char c = (is_alpha c \<or> is_digit c \<or> c = CHR ''_'' \<or> c = CHR ''-'')"

definition part_body :: "string \<Rightarrow> bool" where
  "part_body s = (case s of [] \<Rightarrow> False
     | c # cs \<Rightarrow> (is_alpha c \<or> is_digit c) \<and> length cs \<le> 63 \<and> list_all part_char cs)"

definition part_re :: "string \<Rightarrow> bool" where
  "part_re s = (part_body s \<or> (s \<noteq> [] \<and> code (last s) = 10 \<and> part_body (butlast s)))"

definition is_vault_ref :: "json \<Rightarrow> bool" where
  "is_vault_ref v = (case v of JStr s \<Rightarrow> starts_with VAULT_REF_PREFIX s | _ \<Rightarrow> False)"

definition parse_vault_ref :: "json \<Rightarrow> (string \<times> string) option" where
  "parse_vault_ref v = (case v of
       JStr ref \<Rightarrow>
         if \<not> is_vault_ref v then None
         else (case partition_on (CHR ''/'') (drop (length VAULT_REF_PREFIX) ref) of
             (domain, sep, name) \<Rightarrow>
               if \<not> sep \<or> domain = [] \<or> name = [] then None
               else if \<not> part_re domain \<or> \<not> part_re name then None
               else Some (domain, name))
     | _ \<Rightarrow> None)"

definition make_vault_ref :: "string \<Rightarrow> string \<Rightarrow> string" where
  "make_vault_ref domain name = VAULT_REF_PREFIX @ domain @ ''/'' @ name"

definition validate_vault_part :: "string \<Rightarrow> (py_exc, string) result" where
  "validate_vault_part part = (if part_re part then Inr part else Inl (vault_error ''validation''))"

section \<open>The master key\<close>

text \<open>\<open>bytes.fromhex\<close>: pairs of hexadecimal digits, with ASCII blanks between the pairs.\<close>

definition ascii_space :: "char \<Rightarrow> bool" where
  "ascii_space c = (code c \<in> {9, 10, 11, 12, 13, 32})"

definition hex_value :: "char \<Rightarrow> nat option" where
  "hex_value c =
     (let n = code c in if 48 \<le> n \<and> n \<le> 57 then Some (n - 48)
      else if 97 \<le> n \<and> n \<le> 102 then Some (n - 87)
      else if 65 \<le> n \<and> n \<le> 70 then Some (n - 55) else None)"

fun from_hex :: "string \<Rightarrow> string option" where
  "from_hex [] = Some []"
| "from_hex (c # cs) =
     (if ascii_space c then from_hex cs
      else case cs of
        [] \<Rightarrow> None
      | d # ds \<Rightarrow> (case (hex_value c, hex_value d) of
            (Some h, Some l) \<Rightarrow> map_option (Cons (char_of (16 * h + l))) (from_hex ds)
          | _ \<Rightarrow> None))"

text \<open>\<open>base64.b64decode(text, validate=True)\<close> with the standard alphabet; \<open>None\<close> is \<open>binascii.Error\<close>.\<close>

definition std_b64_val :: "char \<Rightarrow> nat option" where
  "std_b64_val c = (if c = CHR ''-'' \<or> c = CHR ''_'' then None else b64_val c)"

definition b64decode_std :: "string \<Rightarrow> string option" where
  "b64decode_std s =
     (let body = takeWhile (\<lambda>c. c \<noteq> CHR ''='') s;
          pad = dropWhile (\<lambda>c. c \<noteq> CHR ''='') s;
          digits = map std_b64_val body
      in if None \<in> set digits \<or> \<not> list_all (\<lambda>c. c = CHR ''='') pad
            \<or> length pad \<noteq> (4 - length body mod 4) mod 4
         then None else decode_digits (map the digits))"

definition parse_master_key :: "string option \<Rightarrow> string option" where
  "parse_master_key raw = (case raw of None \<Rightarrow> None | Some r \<Rightarrow>
     let s = strip r in
     if length s = 2 * MASTER_KEY_LENGTH then
       (case from_hex s of
          None \<Rightarrow> None
        | Some key \<Rightarrow> if length key = MASTER_KEY_LENGTH then Some key else None)
     else if length s = 44 then
       (case b64decode_std s of
          None \<Rightarrow> None
        | Some key \<Rightarrow> if length key = MASTER_KEY_LENGTH then Some key else None)
     else None)"

section \<open>Encryption\<close>

text \<open>\<open>AESGCM(key).encrypt(nonce, data, aad)\<close> and \<open>AESGCM(key).decrypt(nonce, data, aad)\<close>, where
  \<open>None\<close> is \<open>InvalidTag\<close>.\<close>

record aead =
  ae_enc :: "string \<Rightarrow> string \<Rightarrow> string \<Rightarrow> string \<Rightarrow> string"
  ae_dec :: "string \<Rightarrow> string \<Rightarrow> string \<Rightarrow> string \<Rightarrow> string option"

text \<open>UTF-8 on the code points below 256; bytes that stand for other code points count as
  undecodable.\<close>

fun utf8 :: "string \<Rightarrow> string" where
  "utf8 [] = []"
| "utf8 (c # cs) = (if code c < 128 then c # utf8 cs
     else char_of (192 + code c div 64) # char_of (128 + code c mod 64) # utf8 cs)"

fun utf8_decode :: "string \<Rightarrow> string option" where
  "utf8_decode [] = Some []"
| "utf8_decode (b # bs) =
     (if code b < 128 then map_option (Cons b) (utf8_decode bs)
      else if code b = 194 \<or> code b = 195 then
        (case bs of [] \<Rightarrow> None | d # ds \<Rightarrow>
           if 128 \<le> code d \<and> code d < 192
           then map_option (Cons (char_of ((code b - 192) * 64 + (code d - 128)))) (utf8_decode ds)
           else None)
      else None)"

definition aad :: "string \<Rightarrow> string \<Rightarrow> string" where
  "aad domain name = utf8 (''era-vault/v1/'' @ domain @ ''/'' @ name)"

definition vault_encrypt ::
  "aead \<Rightarrow> string \<Rightarrow> string \<Rightarrow> string \<Rightarrow> string \<Rightarrow> string \<Rightarrow> string" where
  "vault_encrypt ae nonce plaintext key domain name = ae_enc ae key nonce (utf8 plaintext) (aad domain name)"

definition vault_decrypt ::
  "aead \<Rightarrow> string \<Rightarrow> string \<Rightarrow> string \<Rightarrow> string \<Rightarrow> string \<Rightarrow> (py_exc, string) result" where
  "vault_decrypt ae ciphertext nonce key domain name =
     (case ae_dec ae key nonce ciphertext (aad domain name) of
        None \<Rightarrow> Inl (vault_error ''tampered'')
      | Some p \<Rightarrow> (case utf8_decode p of None \<Rightarrow> Inl (vault_error ''tampered'') | Some v \<Rightarrow> Inr v))"

section \<open>The table\<close>

record vault_secret =
  vs_id :: string
  vs_domain :: string
  vs_name :: string
  vs_owner_user_id :: string
  vs_algorithm :: string
  vs_ciphertext :: string
  vs_nonce :: string
  vs_value_length :: nat
  vs_revision :: int
  vs_created_at :: string
  vs_updated_at :: string
  vs_revoked_at :: "string option"

definition vault_get :: "vault_secret list \<Rightarrow> string \<Rightarrow> string \<Rightarrow> vault_secret option" where
  "vault_get t domain name = find (\<lambda>r. vs_domain r = domain \<and> vs_name r = name) t"

definition vault_get_by_id :: "vault_secret list \<Rightarrow> string \<Rightarrow> vault_secret option" where
  "vault_get_by_id t i = find (\<lambda>r. vs_id r = i) t"

text \<open>\<open>create\<close> violates the primary key or \<open>uq_vault_domain_name\<close> when it finds such a row.\<close>

definition vault_create :: "vault_secret \<Rightarrow> vault_secret list \<Rightarrow> vault_secret list option" where
  "vault_create r t =
     (if vault_get_by_id t (vs_id r) \<noteq> None \<or> vault_get t (vs_domain r) (vs_name r) \<noteq> None
      then None else Some (t @ [r]))"

definition vault_update :: "vault_secret \<Rightarrow> vault_secret list \<Rightarrow> vault_secret list" where
  "vault_update r t = map (\<lambda>x. if vs_id x = vs_id r then r else x) t"

definition vault_list :: "vault_secret list \<Rightarrow> string option \<Rightarrow> vault_secret list" where
  "vault_list t domain =
     sort_key (\<lambda>r. (vs_domain r, vs_name r))
       (filter (\<lambda>r. case domain of None \<Rightarrow> True | Some d \<Rightarrow> vs_domain r = d) t)"

section \<open>The service\<close>

text \<open>The service works on the vault table in transactions of its own and writes to the audit log
  in others, so its state is the table beside the session of the remaining tables.\<close>

type_synonym 'e vsession = "vault_secret list \<times> 'e session"

record 'e vault_service = "'e core" +
  va_aead :: aead
  va_token_bytes :: "'e \<Rightarrow> string \<times> 'e"
  va_master_key :: "string option"

definition on_db :: "('e session, 'a) comp \<Rightarrow> ('e vsession, 'a) comp" where
  "on_db m s = (case m (snd s) of (r, s') \<Rightarrow> (r, (fst s, s')))"

definition vquery :: "(vault_secret list \<Rightarrow> 'a) \<Rightarrow> ('e vsession, 'a) comp" where
  "vquery f s = (Inr (f (fst s)), s)"

definition vchange :: "(vault_secret list \<Rightarrow> vault_secret list) \<Rightarrow> ('e vsession, unit) comp" where
  "vchange f s = (Inr (), (f (fst s), snd s))"

definition vault_tx :: "'e env_ops \<Rightarrow> ('e vsession, 'a) comp \<Rightarrow> ('e vsession, 'a) comp" where
  "vault_tx ops body s = (case body s of
       (Inl e, s') \<Rightarrow> (Inl e, (fst s, snd s'))
     | (Inr x, (t, d, e)) \<Rightarrow> (case op_commit ops e of
         (True, e') \<Rightarrow> (Inr x, (t, d, e'))
       | (False, e') \<Rightarrow> (Inl (OtherExc ''OperationalError''), (fst s, d, e'))))"

abbreviation vask :: "('e \<Rightarrow> 'a \<times> 'e) \<Rightarrow> ('e vsession, 'a) comp" where
  "vask f \<equiv> on_db (ask f)"

definition SYSTEM_ACTOR :: string where "SYSTEM_ACTOR = ''vault-system''"

definition vault_enabled :: "('e, 'z) vault_service_scheme \<Rightarrow> bool" where
  "vault_enabled va = (va_master_key va \<noteq> None)"

definition require_enabled :: "('e, 'z) vault_service_scheme \<Rightarrow> ('e vsession, string) comp" where
  "require_enabled va = (case va_master_key va of
       None \<Rightarrow> raise_exc (vault_error ''disabled'')
     | Some key \<Rightarrow> ret key)"

definition vault_policy_version :: "('e, 'z) vault_service_scheme \<Rightarrow> ('e session, int) comp" where
  "vault_policy_version va = bind (get_current (co_ops va)) (\<lambda>p.
     ret (case p of Some pol \<Rightarrow> pol_version pol | None \<Rightarrow> 0))"

definition vault_audit ::
  "('e, 'z) vault_service_scheme \<Rightarrow> string \<Rightarrow> string \<Rightarrow> string \<Rightarrow> string \<Rightarrow> outcome \<Rightarrow> string option
     \<Rightarrow> ('e vsession, unit) comp" where
  "vault_audit va vop domain name actor out errcode = on_db (transaction (co_ops va)
     (bind (vault_policy_version va) (\<lambda>version.
        audit_in_session va
          \<lparr>action_type = vop,
           a_params = redact_params {} [(''domain'', JStr domain), (''name'', JStr name)]\<rparr>
          (plain_ctx actor)
          (Some (if vop = ''vault.resolve'' then SENSITIVE else MUTATING)) ALLOW out version
          (blank_note\<lparr>an_error_code := errcode, an_capability_domain := Some domain\<rparr>))))"


text \<open>The body of the storing transaction: a new row, or the existing row rotated in place.\<close>

definition new_secret ::
  "('e, 'z) vault_service_scheme \<Rightarrow> string \<Rightarrow> string \<Rightarrow> string \<Rightarrow> string \<Rightarrow> string \<Rightarrow> string
     \<Rightarrow> ('e vsession, vault_secret \<times> string) comp" where
  "new_secret va domain name owner ct nonce value =
     bind (vask (op_uuid (co_ops va))) (\<lambda>uuid.
     bind (vask (op_utcnow (co_ops va))) (\<lambda>created.
     bind (vask (op_utcnow (co_ops va))) (\<lambda>updated.
       let secret = \<lparr>vs_id = uuid, vs_domain = domain, vs_name = name, vs_owner_user_id = owner,
             vs_algorithm = ALGORITHM, vs_ciphertext = ct, vs_nonce = nonce,
             vs_value_length = length value, vs_revision = 1, vs_created_at = created,
             vs_updated_at = updated, vs_revoked_at = None\<rparr>
       in bind (vquery (vault_create secret)) (\<lambda>res. case res of
            None \<Rightarrow> raise_exc (OtherExc ''IntegrityError'')
          | Some t \<Rightarrow> seq (vchange (\<lambda>_. t)) (ret (secret, ''vault.store''))))))"

definition rotate_secret ::
  "('e, 'z) vault_service_scheme \<Rightarrow> vault_secret \<Rightarrow> string option \<Rightarrow> string \<Rightarrow> string \<Rightarrow> string
     \<Rightarrow> ('e vsession, vault_secret \<times> string) comp" where
  "rotate_secret va existing explicit_owner ct nonce value =
     bind (vask (op_utcnow (co_ops va))) (\<lambda>now.
       let secret = existing\<lparr>vs_ciphertext := ct, vs_nonce := nonce,
             vs_owner_user_id := (case explicit_owner of Some ow \<Rightarrow> ow | None \<Rightarrow> vs_owner_user_id existing),
             vs_value_length := length value,
             vs_revision := (if vs_revision existing = 0 then 1 else vs_revision existing) + 1,
             vs_revoked_at := None, vs_updated_at := now\<rparr>
       in seq (vchange (vault_update secret)) (ret (secret, ''vault.rotate'')))"

text \<open>\<open>owner_user_id or actor_id\<close>.\<close>

definition effective_owner :: "string option \<Rightarrow> string \<Rightarrow> string" where
  "effective_owner owner actor = (case owner of Some ow \<Rightarrow> if ow = [] then actor else ow | None \<Rightarrow> actor)"

definition store_checks :: "string \<Rightarrow> string \<Rightarrow> string \<Rightarrow> string \<Rightarrow> (py_exc, unit) result" where
  "store_checks domain name value owner =
     (if \<not> part_re domain \<or> \<not> part_re name \<or> owner = [] \<or> value = [] \<or> MAX_VAULT_VALUE_LENGTH < length value
      then Inl (vault_error ''validation'') else Inr ())"

definition store_tx ::
  "('e, 'z) vault_service_scheme \<Rightarrow> string \<Rightarrow> string \<Rightarrow> string \<Rightarrow> string \<Rightarrow> string option \<Rightarrow> string \<Rightarrow> string
     \<Rightarrow> ('e vsession, vault_secret \<times> string) comp" where
  "store_tx va domain name value actor owner ct nonce = vault_tx (co_ops va)
     (bind (vquery (\<lambda>t. vault_get t domain name)) (\<lambda>existing. case existing of
        None \<Rightarrow> new_secret va domain name (effective_owner owner actor) ct nonce value
      | Some r \<Rightarrow> rotate_secret va r (if owner = None then None else Some (effective_owner owner actor))
                    ct nonce value))"

definition store_or_rotate_secret ::
  "('e, 'z) vault_service_scheme \<Rightarrow> string \<Rightarrow> string \<Rightarrow> string \<Rightarrow> string \<Rightarrow> string option
     \<Rightarrow> ('e vsession, vault_secret) comp" where
  "store_or_rotate_secret va domain name value actor owner =
     seq (lift_res (store_checks domain name value (effective_owner owner actor)))
     (bind (require_enabled va) (\<lambda>key.
      bind (vask (va_token_bytes va)) (\<lambda>nonce.
      bind (store_tx va domain name value actor owner
              (vault_encrypt (va_aead va) nonce value key domain name) nonce) (\<lambda>(secret, vop).
      seq (vault_audit va vop domain name actor O_EXECUTED None) (ret secret)))))"

definition revoke_tx :: "('e, 'z) vault_service_scheme \<Rightarrow> string \<Rightarrow> string \<Rightarrow> ('e vsession, vault_secret) comp" where
  "revoke_tx va domain name = vault_tx (co_ops va)
     (bind (vquery (\<lambda>t. vault_get t domain name)) (\<lambda>found. case found of
        None \<Rightarrow> raise_exc (vault_error ''not_found'')
      | Some r \<Rightarrow>
          if vs_revoked_at r = None
          then bind (vask (op_utcnow (co_ops va))) (\<lambda>now.
                 let r' = r\<lparr>vs_revoked_at := Some now\<rparr>
                 in seq (vchange (vault_update r')) (ret r'))
          else ret r))"

definition revoke_secret ::
  "('e, 'z) vault_service_scheme \<Rightarrow> string \<Rightarrow> string \<Rightarrow> string \<Rightarrow> ('e vsession, vault_secret) comp" where
  "revoke_secret va domain name actor =
     seq (lift_res (validate_vault_part domain))
     (seq (lift_res (validate_vault_part name))
     (seq (require_enabled va)
     (bind (revoke_tx va domain name) (\<lambda>secret.
      seq (vault_audit va ''vault.revoke'' domain name actor O_EXECUTED None) (ret secret)))))"

definition get_secret ::
  "('e, 'z) vault_service_scheme \<Rightarrow> string \<Rightarrow> string \<Rightarrow> ('e vsession, vault_secret option) comp" where
  "get_secret va domain name =
     seq (lift_res (validate_vault_part domain))
     (seq (lift_res (validate_vault_part name))
      (vault_tx (co_ops va) (vquery (\<lambda>t. vault_get t domain name))))"

definition list_secrets ::
  "('e, 'z) vault_service_scheme \<Rightarrow> string option \<Rightarrow> ('e vsession, vault_secret list) comp" where
  "list_secrets va domain =
     seq (case domain of None \<Rightarrow> ret () | Some d \<Rightarrow> seq (lift_res (validate_vault_part d)) (ret ()))
      (vault_tx (co_ops va) (vquery (\<lambda>t. vault_list t domain)))"

text \<open>A refused resolution is recorded before it is raised.\<close>

definition refuse_resolve ::
  "('e, 'z) vault_service_scheme \<Rightarrow> string \<Rightarrow> string \<Rightarrow> string \<Rightarrow> string \<Rightarrow> string \<Rightarrow> ('e vsession, string) comp" where
  "refuse_resolve va domain name actor audit_code errcode =
     seq (vault_audit va ''vault.resolve'' domain name actor O_FAILED (Some audit_code))
       (raise_exc (vault_error errcode))"

definition resolve_tx ::
  "('e, 'z) vault_service_scheme \<Rightarrow> string \<Rightarrow> string \<Rightarrow> string \<Rightarrow> string \<Rightarrow> bool \<Rightarrow> ('e vsession, string) comp" where
  "resolve_tx va key domain name actor require_owner = vault_tx (co_ops va)
     (bind (vquery (\<lambda>t. vault_get t domain name)) (\<lambda>found. case found of
        None \<Rightarrow> refuse_resolve va domain name actor ''UNKNOWN'' ''unknown''
      | Some r \<Rightarrow>
          if require_owner \<and> vs_owner_user_id r \<noteq> actor
          then refuse_resolve va domain name actor ''AUTH'' ''auth''
          else if vs_revoked_at r \<noteq> None
          then refuse_resolve va domain name actor ''REVOKED'' ''revoked''
          else (case vault_decrypt (va_aead va) (vs_ciphertext r) (vs_nonce r) key domain name of
              Inl e \<Rightarrow> seq (vault_audit va ''vault.resolve'' domain name actor O_FAILED (Some ''TAMPERED''))
                         (raise_exc e)
            | Inr v \<Rightarrow> ret v)))"

definition resolve_ref ::
  "('e, 'z) vault_service_scheme \<Rightarrow> json \<Rightarrow> string \<Rightarrow> bool \<Rightarrow> ('e vsession, string) comp" where
  "resolve_ref va ref actor require_owner =
     (if \<not> is_vault_ref ref then raise_exc (vault_error ''validation'')
      else case parse_vault_ref ref of
        None \<Rightarrow> raise_exc (vault_error ''validation'')
      | Some (domain, name) \<Rightarrow>
          bind (require_enabled va) (\<lambda>key.
          bind (resolve_tx va key domain name actor require_owner) (\<lambda>v.
          seq (vault_audit va ''vault.resolve'' domain name actor O_EXECUTED None) (ret v))))"

text \<open>\<open>VaultRefResolver\<close>: the service it is attached to, if any.\<close>

definition attach :: "'v \<Rightarrow> 'v option \<Rightarrow> 'v option" where
  "attach va _ = Some va"

definition resolver_resolve_ref ::
  "'e vault_service option \<Rightarrow> json \<Rightarrow> string \<Rightarrow> bool \<Rightarrow> ('e vsession, string) comp" where
  "resolver_resolve_ref attached ref actor require_owner = (case attached of
       None \<Rightarrow> raise_exc (vault_error ''disabled'')
     | Some va \<Rightarrow> resolve_ref va ref actor require_owner)"

section \<open>References and keys\<close>

lemma part_body_chars: "part_body s \<Longrightarrow> c \<in> set s \<Longrightarrow> part_char c"
  by (auto simp: part_body_def part_char_def list_all_iff split: list.splits)

lemma part_re_no_slash: "part_re s \<Longrightarrow> CHR ''/'' \<notin> set s"
proof -
  have no: "CHR ''/'' \<notin> set t" if "part_body t" for t
    using part_body_chars [OF that, of "CHR ''/''"] by (auto simp: part_char_def is_alpha_def is_digit_def code_def)
  assume "part_re s"
  then consider "part_body s" | "s \<noteq> []" "code (last s) = 10" "part_body (butlast s)"
    by (auto simp: part_re_def)
  then show ?thesis
  proof cases
    case 2
    have "last s \<noteq> CHR ''/''" using 2(2) by (auto simp: code_def)
    moreover have "set s = insert (last s) (set (butlast s))"
      using 2(1) by (metis append_butlast_last_id list.simps(15) rotate1.simps(2) set_rotate1)
    ultimately show ?thesis using no [OF 2(3)] by auto
  qed (rule no)
qed

lemma part_re_nonempty: "part_re s \<Longrightarrow> s \<noteq> []"
  by (auto simp: part_re_def part_body_def)

lemma partition_on_mid: "d \<notin> set a \<Longrightarrow> partition_on d (a @ d # b) = (a, True, b)"
proof -
  assume d: "d \<notin> set a"
  then have "takeWhile (\<lambda>c. c \<noteq> d) (a @ d # b) = a" "dropWhile (\<lambda>c. c \<noteq> d) (a @ d # b) = d # b"
    by (auto simp: takeWhile_append dropWhile_append)
  then show ?thesis by (simp add: partition_on_def)
qed

lemma parse_make_vault_ref:
  assumes "part_re d" and "part_re n"
  shows "parse_vault_ref (JStr (make_vault_ref d n)) = Some (d, n)"
  using assms part_re_no_slash [OF assms(1)] part_re_nonempty [OF assms(1)] part_re_nonempty [OF assms(2)]
  by (simp add: parse_vault_ref_def make_vault_ref_def is_vault_ref_def VAULT_REF_PREFIX_def starts_with_def
      partition_on_mid)

lemma partition_on_eq: "partition_on d s = (a, True, b) \<Longrightarrow> s = a @ d # b"
  by (auto simp: partition_on_def Let_def dropWhile_eq_Cons_conv split: list.splits)

lemma parse_vault_ref_Some:
  assumes "parse_vault_ref v = Some (d, n)"
  shows "v = JStr (make_vault_ref d n)" and "part_re d" and "part_re n"
proof -
  from assms obtain ref where v: "v = JStr ref" and pre: "starts_with VAULT_REF_PREFIX ref"
    and parts: "partition_on (CHR ''/'') (drop (length VAULT_REF_PREFIX) ref) = (d, True, n)"
    and ok: "part_re d" "part_re n"
    by (auto simp: parse_vault_ref_def is_vault_ref_def split: json.splits if_splits prod.splits)
  have "ref = VAULT_REF_PREFIX @ drop (length VAULT_REF_PREFIX) ref"
    using pre by (metis starts_with_def append_take_drop_id)
  then show "v = JStr (make_vault_ref d n)" using v partition_on_eq [OF parts] by (simp add: make_vault_ref_def)
  show "part_re d" and "part_re n" using ok by simp_all
qed


lemma code_char_of: "n < 256 \<Longrightarrow> code (char_of n) = n"
  by (simp add: code_def)

lemma two_byte_lead:
  assumes "\<not> n < 128" and "n < (256 :: nat)"
  shows "n div 64 = 2 \<or> n div 64 = 3"
  using assms div_le_mono [of 128 n 64] less_mult_imp_div_less [of n 4 64] by linarith

lemma utf8_round_trip: "utf8_decode (utf8 s) = Some s"
proof (induction s)
  case (Cons c cs)
  show ?case
  proof (cases "code c < 128")
    case False
    note lead = two_byte_lead [OF False code_less]
    have "code c mod 64 < 64" by simp
    then have "code (char_of (192 + code c div 64)) = 192 + code c div 64"
        "code (char_of (128 + code c mod 64)) = 128 + code c mod 64"
      using lead by (intro code_char_of; linarith)+
    moreover have "(code c div 64) * 64 + code c mod 64 = code c" by (rule div_mult_mod_eq)
    ultimately show ?thesis using False Cons lead by auto
  qed (simp add: Cons)
qed simp

lemma utf8_append: "utf8 (s @ t) = utf8 s @ utf8 t"
  by (induction s) auto

lemma utf8_inj: "utf8 s = utf8 t \<Longrightarrow> s = t"
  using utf8_round_trip by (metis option.inject)

text \<open>Two names never share associated data: the separator cannot occur in a domain.\<close>

lemma aad_inj:
  assumes "part_re d" and "part_re d'" and "aad d n = aad d' n'"
  shows "d = d' \<and> n = n'"
proof -
  have "''era-vault/v1/'' @ d @ ''/'' @ n = ''era-vault/v1/'' @ d' @ ''/'' @ n'"
    by (rule utf8_inj) (use assms(3) in \<open>simp add: aad_def\<close>)
  then have "d @ CHR ''/'' # n = d' @ CHR ''/'' # n'" by simp
  then have "partition_on (CHR ''/'') (d @ CHR ''/'' # n) = partition_on (CHR ''/'') (d' @ CHR ''/'' # n')" by simp
  then show ?thesis
    by (simp add: partition_on_mid part_re_no_slash [OF assms(1)] part_re_no_slash [OF assms(2)])
qed

lemma parse_master_key_length: "parse_master_key raw = Some key \<Longrightarrow> length key = 32"
  by (auto simp: parse_master_key_def MASTER_KEY_LENGTH_def Let_def split: option.splits if_splits)

section \<open>The table\<close>

definition vault_table_ok :: "vault_secret list \<Rightarrow> bool" where
  "vault_table_ok t = (distinct (map vs_id t) \<and> distinct (map (\<lambda>r. (vs_domain r, vs_name r)) t)
     \<and> (\<forall>r \<in> set t. 1 \<le> vs_revision r))"

lemma vault_get_Some:
  "vault_get t d n = Some r \<Longrightarrow> r \<in> set t \<and> vs_domain r = d \<and> vs_name r = n"
  by (auto simp: vault_get_def find_Some_iff)

lemma vault_get_None: "vault_get t d n = None \<longleftrightarrow> (d, n) \<notin> (\<lambda>r. (vs_domain r, vs_name r)) ` set t"
  by (auto simp: vault_get_def find_None_iff)

lemma vault_create_get:
  assumes "vault_create r t = Some t'"
  shows "vault_get t' d n = (if d = vs_domain r \<and> n = vs_name r then Some r else vault_get t d n)"
    and "vault_table_ok t \<Longrightarrow> 1 \<le> vs_revision r \<Longrightarrow> vault_table_ok t'"
proof -
  from assms have t': "t' = t @ [r]" and new: "vault_get t (vs_domain r) (vs_name r) = None"
    and id: "vault_get_by_id t (vs_id r) = None"
    by (auto simp: vault_create_def split: if_splits)
  show "vault_get t' d n = (if d = vs_domain r \<and> n = vs_name r then Some r else vault_get t d n)"
    using new by (auto simp: t' vault_get_def find_app split: option.splits)
  show "vault_table_ok t'" if "vault_table_ok t" "1 \<le> vs_revision r"
    using that new id by (auto simp: vault_table_ok_def t' vault_get_None vault_get_by_id_def find_None_iff)
qed

lemma vault_update_keys:
  assumes "vault_table_ok t" and "r0 \<in> set t" and "vs_id r = vs_id r0"
    and "vs_domain r = vs_domain r0" and "vs_name r = vs_name r0"
  shows "map vs_id (vault_update r t) = map vs_id t"
    and "map (\<lambda>r. (vs_domain r, vs_name r)) (vault_update r t) = map (\<lambda>r. (vs_domain r, vs_name r)) t"
proof -
  have "x = r0" if "x \<in> set t" "vs_id x = vs_id r" for x
    using assms(1-3) that by (auto simp: vault_table_ok_def distinct_map inj_on_def)
  then show "map vs_id (vault_update r t) = map vs_id t"
      "map (\<lambda>r. (vs_domain r, vs_name r)) (vault_update r t) = map (\<lambda>r. (vs_domain r, vs_name r)) t"
    using assms(4,5) by (auto simp: vault_update_def)
qed

lemma vault_update_get:
  assumes "vault_table_ok t" and "vault_get t d0 n0 = Some r0" and "vs_id r = vs_id r0"
    and "vs_domain r = d0" and "vs_name r = n0" and "1 \<le> vs_revision r"
  shows "vault_get (vault_update r t) d n = (if d = d0 \<and> n = n0 then Some r else vault_get t d n)"
    and "vault_table_ok (vault_update r t)"
proof -
  have r0: "r0 \<in> set t" "vs_domain r0 = d0" "vs_name r0 = n0" using vault_get_Some [OF assms(2)] by auto
  have same: "x = r0" if "x \<in> set t" "vs_id x = vs_id r" for x
    using assms(1,3) r0(1) that by (auto simp: vault_table_ok_def distinct_map inj_on_def)
  have only: "x = r0" if "x \<in> set t" "vs_domain x = d0" "vs_name x = n0" for x
    using assms(1) r0 that by (auto simp: vault_table_ok_def distinct_map inj_on_def)
  show "vault_table_ok (vault_update r t)"
    using vault_update_keys [OF assms(1) r0(1) assms(3)] assms(1,4,5,6) r0(2,3)
    by (auto simp: vault_table_ok_def) (auto simp: vault_update_def)
  have "vault_get (map (\<lambda>x. if vs_id x = vs_id r then r else x) xs) d n
      = (if d = d0 \<and> n = n0 \<and> r0 \<in> set xs then Some r else vault_get xs d n)" if "set xs \<subseteq> set t" for xs
    using that
  proof (induction xs)
    case (Cons x xs)
    have x: "x \<in> set t" using Cons.prems by simp
    show ?case
    proof (cases "x = r0")
      case True
      then show ?thesis using Cons assms(3-5) r0 by (auto simp: vault_get_def)
    next
      case False
      then have "vs_id x \<noteq> vs_id r" "\<not> (vs_domain x = d0 \<and> vs_name x = n0)"
        using same [OF x] only [OF x] by auto
      then show ?thesis using Cons False by (auto simp: vault_get_def)
    qed
  qed (simp add: vault_get_def)
  from this [OF subset_refl] show "vault_get (vault_update r t) d n = (if d = d0 \<and> n = n0 then Some r else vault_get t d n)"
    using r0(1) by (simp add: vault_update_def)
qed


section \<open>The vault as a map\<close>

record vault_entry =
  ve_value :: "string option"     \<comment> \<open>\<open>None\<close> when the ciphertext does not authenticate\<close>
  ve_owner :: string
  ve_revision :: int
  ve_active :: bool

type_synonym vault_map = "string \<times> string \<Rightarrow> vault_entry option"

definition entry_of :: "aead \<Rightarrow> string \<Rightarrow> vault_secret \<Rightarrow> vault_entry" where
  "entry_of ae key r =
     \<lparr>ve_value = (case vault_decrypt ae (vs_ciphertext r) (vs_nonce r) key (vs_domain r) (vs_name r) of
          Inl _ \<Rightarrow> None | Inr v \<Rightarrow> Some v),
      ve_owner = vs_owner_user_id r, ve_revision = vs_revision r, ve_active = (vs_revoked_at r = None)\<rparr>"

definition vault_view :: "aead \<Rightarrow> string \<Rightarrow> vault_secret list \<Rightarrow> vault_map" where
  "vault_view ae key t = (\<lambda>(d, n). map_option (entry_of ae key) (vault_get t d n))"

definition spec_store :: "string \<Rightarrow> string \<Rightarrow> string option \<Rightarrow> vault_entry option \<Rightarrow> vault_entry" where
  "spec_store value actor owner old = (case old of
       None \<Rightarrow> \<lparr>ve_value = Some value, ve_owner = effective_owner owner actor, ve_revision = 1, ve_active = True\<rparr>
     | Some e \<Rightarrow> \<lparr>ve_value = Some value,
         ve_owner = (if owner = None then ve_owner e else effective_owner owner actor),
         ve_revision = ve_revision e + 1, ve_active = True\<rparr>)"

definition spec_resolve :: "vault_map \<Rightarrow> json \<Rightarrow> string \<Rightarrow> bool \<Rightarrow> (string, string) result" where
  "spec_resolve m ref actor require_owner = (case parse_vault_ref ref of
       None \<Rightarrow> Inl ''validation''
     | Some k \<Rightarrow> (case m k of
         None \<Rightarrow> Inl ''unknown''
       | Some e \<Rightarrow>
           if require_owner \<and> ve_owner e \<noteq> actor then Inl ''auth''
           else if \<not> ve_active e then Inl ''revoked''
           else (case ve_value e of None \<Rightarrow> Inl ''tampered'' | Some v \<Rightarrow> Inr v)))"

text \<open>The failures of the database and of the audit signer that an operation passes on.\<close>

definition storage_exc :: "py_exc \<Rightarrow> bool" where
  "storage_exc e =
     (e \<in> {OtherExc ''OperationalError'', OtherExc ''SigningError'', OtherExc ''IntegrityError''})"

definition storage_failure :: "(py_exc, 'a) result \<Rightarrow> bool" where
  "storage_failure r = (case r of Inr _ \<Rightarrow> False | Inl e \<Rightarrow> storage_exc e)"

lemma storage_failure_simps [simp]:
  "storage_failure (Inr x) = False" "storage_failure (Inl e) = storage_exc e"
  "storage_exc (OtherExc ''OperationalError'')" "storage_exc (OtherExc ''SigningError'')"
  "storage_exc (OtherExc ''IntegrityError'')"
  by (simp_all add: storage_failure_def storage_exc_def)

lemma on_db_fst: "on_db m s = (r, s') \<Longrightarrow> fst s' = fst s"
  by (auto simp: on_db_def split: prod.splits)

lemma vquery_iff [simp]: "vquery f s = (r, s') \<longleftrightarrow> r = Inr (f (fst s)) \<and> s' = s"
  by (auto simp: vquery_def)

lemma vchange_iff [simp]: "vchange f s = (r, s') \<longleftrightarrow> r = Inr () \<and> s' = (f (fst s), snd s)"
  by (auto simp: vchange_def)

lemma vask_Inr: "vask f s = (r, s') \<Longrightarrow> \<exists>x. r = Inr x"
  by (auto simp: on_db_def ask_def split: prod.splits)

lemma transaction_cases:
  assumes "transaction ops body s = (r, s')"
  obtains s'' where "body s = (r, s'')" | "r = Inl (OtherExc ''OperationalError'')"
  using assms by (auto simp: transaction_def split: prod.splits sum.splits bool.splits)

lemma vault_tx_cases:
  assumes "vault_tx ops body s = (r, s')"
  obtains x s'' where "r = Inr x" "body s = (Inr x, s'')" "fst s' = fst s''"
    | e s'' where "r = Inl e" "body s = (Inl e, s'')" "fst s' = fst s"
    | "r = Inl (OtherExc ''OperationalError'')" "fst s' = fst s"
  using assms by (auto simp: vault_tx_def split: prod.splits sum.splits bool.splits)

lemma get_current_failure: "get_current ops s = (Inl e, s') \<Longrightarrow> e = OtherExc ''OperationalError''"
  by (auto simp: get_current_def elim!: transaction_cases)

lemma audit_in_session_failure: "audit_in_session co act ctx risk dec out v nt s = (Inl e, s') \<Longrightarrow> e = OtherExc ''SigningError''"
  by (auto simp: audit_in_session_def bind_Inl_iff split: option.splits)

lemma vault_audit_effect:
  assumes "vault_audit va vop d n actor out errcode s = (r, s')"
  shows "fst s' = fst s" and "r = Inr () \<or> storage_failure r"
proof -
  show "fst s' = fst s" using assms unfolding vault_audit_def by (rule on_db_fst)
  obtain t where "transaction (co_ops va) (bind (vault_policy_version va) (\<lambda>version.
        audit_in_session va
          \<lparr>action_type = vop, a_params = redact_params {} [(''domain'', JStr d), (''name'', JStr n)]\<rparr>
          (plain_ctx actor) (Some (if vop = ''vault.resolve'' then SENSITIVE else MUTATING)) ALLOW out version
          (blank_note\<lparr>an_error_code := errcode, an_capability_domain := Some d\<rparr>))) (snd s) = (r, t)"
    using assms unfolding vault_audit_def on_db_def by (auto split: prod.splits)
  then show "r = Inr () \<or> storage_failure r"
  proof (cases rule: transaction_cases)
    case (1 s'')
    show ?thesis
    proof (cases r)
      case (Inl e)
      with 1 have "e \<in> {OtherExc ''OperationalError'', OtherExc ''SigningError''}"
        by (auto simp: bind_Inl_iff vault_policy_version_def dest: get_current_failure audit_in_session_failure)
      then show ?thesis using Inl by auto
    qed simp
  qed simp
qed


lemma vault_view_update:
  assumes "\<And>d' n'. vault_get t' d' n' = (if d' = d \<and> n' = n then Some r else vault_get t d' n')"
  shows "vault_view ae key t' = (vault_view ae key t)((d, n) \<mapsto> entry_of ae key r)"
  by (rule ext) (auto simp: vault_view_def assms split: if_splits)

lemma new_secret_cases:
  assumes "new_secret va d n ow ct nonce value s = (r, s')"
  obtains row where "r = Inr (row, ''vault.store'')" "vault_create row (fst s) = Some (fst s')"
      "vs_domain row = d" "vs_name row = n" "vs_owner_user_id row = ow" "vs_ciphertext row = ct"
      "vs_nonce row = nonce" "vs_revision row = 1" "vs_revoked_at row = None"
    | "storage_failure r"
proof -
  obtain uuid s1 where u: "vask (op_uuid (co_ops va)) s = (Inr uuid, s1)"
    using vask_Inr [of "op_uuid (co_ops va)" s] by (metis surj_pair)
  obtain created s2 where c: "vask (op_utcnow (co_ops va)) s1 = (Inr created, s2)"
    using vask_Inr [of "op_utcnow (co_ops va)" s1] by (metis surj_pair)
  obtain updated s3 where v: "vask (op_utcnow (co_ops va)) s2 = (Inr updated, s3)"
    using vask_Inr [of "op_utcnow (co_ops va)" s2] by (metis surj_pair)
  have t: "fst s3 = fst s" using on_db_fst [OF u] on_db_fst [OF c] on_db_fst [OF v] by simp
  show thesis
    using assms that
    by (auto simp: new_secret_def bind_def u c v vquery_def t Let_def seq_def
        raise_exc_def vchange_def ret_def split: option.splits)
qed

lemma rotate_secret_cases:
  assumes "rotate_secret va old ow ct nonce value s = (r, s')"
  obtains row where "r = Inr (row, ''vault.rotate'')" "fst s' = vault_update row (fst s)"
      "vs_id row = vs_id old" "vs_domain row = vs_domain old" "vs_name row = vs_name old"
      "vs_owner_user_id row = (case ow of Some x \<Rightarrow> x | None \<Rightarrow> vs_owner_user_id old)"
      "vs_ciphertext row = ct" "vs_nonce row = nonce"
      "vs_revision row = (if vs_revision old = 0 then 1 else vs_revision old) + 1" "vs_revoked_at row = None"
proof -
  obtain now s1 where c: "vask (op_utcnow (co_ops va)) s = (Inr now, s1)"
    using vask_Inr [of "op_utcnow (co_ops va)" s] by (metis surj_pair)
  show thesis
    using assms that on_db_fst [OF c]
    by (auto simp: rotate_secret_def bind_def c Let_def seq_def vchange_def ret_def)
qed

lemma entry_of_encrypted:
  assumes "\<And>k n p a. ae_dec ae k n (ae_enc ae k n p a) a = Some p"
    and "vs_ciphertext r = vault_encrypt ae nonce value key (vs_domain r) (vs_name r)" and "vs_nonce r = nonce"
  shows "ve_value (entry_of ae key r) = Some value"
  using assms(2,3) by (simp add: entry_of_def vault_decrypt_def vault_encrypt_def assms(1) utf8_round_trip)

text \<open>What the storing transaction leaves: the map with the entry stored, or the table as it was.\<close>

lemma store_tx_view:
  assumes gcm: "\<And>k n p a. ae_dec (va_aead va) k n (ae_enc (va_aead va) k n p a) a = Some p"
    and ok: "vault_table_ok (fst s)"
    and run: "store_tx va d n value actor owner (vault_encrypt (va_aead va) nonce value key d n) nonce s = (r, s')"
  shows "vault_table_ok (fst s')
    \<and> ((\<exists>x. r = Inr x) \<and> vault_view (va_aead va) key (fst s') = (vault_view (va_aead va) key (fst s))
          ((d, n) \<mapsto> spec_store value actor owner (vault_view (va_aead va) key (fst s) (d, n)))
       \<or> storage_failure r \<and> fst s' = fst s)"
proof -
  let ?view = "vault_view (va_aead va) key"
  let ?ct = "vault_encrypt (va_aead va) nonce value key d n"
  have body: "(\<exists>x. r = Inr x) \<and> vault_table_ok (fst t)
      \<and> ?view (fst t) = (?view (fst s))((d, n) \<mapsto> spec_store value actor owner (?view (fst s) (d, n)))
      \<or> storage_failure r"
    if case_run: "(case vault_get (fst s) d n of
          None \<Rightarrow> new_secret va d n (effective_owner owner actor) ?ct nonce value
        | Some old \<Rightarrow> rotate_secret va old (if owner = None then None else Some (effective_owner owner actor))
            ?ct nonce value) s = (r, t)" for r t
  proof (cases "vault_get (fst s) d n")
    case None
    with case_run have "new_secret va d n (effective_owner owner actor) ?ct nonce value s = (r, t)" by simp
    then show ?thesis
    proof (cases rule: new_secret_cases)
      case (1 row)
      have "entry_of (va_aead va) key row = spec_store value actor owner (?view (fst s) (d, n))"
        using entry_of_encrypted [OF gcm, of row] 1 None
        by (auto simp: spec_store_def vault_view_def entry_of_def)
      moreover have "?view (fst t) = (?view (fst s))((d, n) \<mapsto> entry_of (va_aead va) key row)"
        by (rule vault_view_update) (use vault_create_get(1) [OF 1(2)] 1 in simp)
      ultimately show ?thesis using vault_create_get(2) [OF 1(2) ok] 1 by simp
    qed simp
  next
    case (Some old)
    with case_run have rot: "rotate_secret va old (if owner = None then None else Some (effective_owner owner actor))
        ?ct nonce value s = (r, t)" by simp
    have old: "vs_domain old = d" "vs_name old = n" "1 \<le> vs_revision old"
      using vault_get_Some [OF Some] ok by (auto simp: vault_table_ok_def)
    from rot show ?thesis
    proof (cases rule: rotate_secret_cases)
      case (1 row)
      have "entry_of (va_aead va) key row = spec_store value actor owner (?view (fst s) (d, n))"
        using entry_of_encrypted [OF gcm, of row] 1 Some old
        by (auto simp: spec_store_def vault_view_def entry_of_def)
      moreover have "?view (fst t) = (?view (fst s))((d, n) \<mapsto> entry_of (va_aead va) key row)"
        by (rule vault_view_update) (use vault_update_get(1) [OF ok Some, of row] 1 old in simp)
      ultimately show ?thesis using vault_update_get(2) [OF ok Some, of row] 1 old by simp
    qed
  qed
  from run show ?thesis
    unfolding store_tx_def
  proof (cases rule: vault_tx_cases)
    case (1 x s'')
    then show ?thesis using body [of "Inr x" s''] by (auto simp: bind_def vquery_def)
  next
    case (2 e s'')
    then show ?thesis using body [of "Inl e" s''] ok by (auto simp: bind_def vquery_def)
  next
    case 3
    then show ?thesis using ok by simp
  qed
qed

lemma store_view:
  assumes gcm: "\<And>k n p a. ae_dec (va_aead va) k n (ae_enc (va_aead va) k n p a) a = Some p"
    and key: "va_master_key va = Some key" and ok: "vault_table_ok (fst s)"
    and run: "store_or_rotate_secret va d n value actor owner s = (r, s')"
  shows "vault_table_ok (fst s')
    \<and> (if store_checks d n value (effective_owner owner actor) \<noteq> Inr ()
       then r = Inl (vault_error ''validation'') \<and> fst s' = fst s
       else (is_ok r \<or> storage_failure r)
         \<and> vault_view (va_aead va) key (fst s') = (vault_view (va_aead va) key (fst s))
             ((d, n) \<mapsto> spec_store value actor owner (vault_view (va_aead va) key (fst s) (d, n)))
         \<or> storage_failure r \<and> fst s' = fst s)"
proof (cases "store_checks d n value (effective_owner owner actor)")
  case (Inl e)
  then have "e = vault_error ''validation''" by (auto simp: store_checks_def split: if_splits)
  then show ?thesis using run Inl ok by (auto simp: store_or_rotate_secret_def seq_def bind_def lift_res_def)
next
  case (Inr u)
  obtain nonce s1 where nonce: "vask (va_token_bytes va) s = (Inr nonce, s1)"
    using vask_Inr [of "va_token_bytes va" s] by (metis surj_pair)
  obtain q s2 where tx: "store_tx va d n value actor owner (vault_encrypt (va_aead va) nonce value key d n) nonce s1 = (q, s2)"
    by (metis surj_pair)
  have s1: "fst s1 = fst s" by (rule on_db_fst [OF nonce])
  note view = store_tx_view [OF gcm _ tx]
  have body: "(r, s') = bind (\<lambda>_. (q, s2)) (\<lambda>(secret, vop).
      seq (vault_audit va vop d n actor O_EXECUTED None) (ret secret)) s1"
    using run Inr unfolding store_or_rotate_secret_def
    by (simp add: seq_def bind_def lift_res_def require_enabled_def key ret_def nonce tx)
  show ?thesis
  proof (cases q)
    case (Inl e)
    then show ?thesis using view s1 body ok Inr by (auto simp: bind_def)
  next
    case q: (Inr x)
    obtain secret vop where x: "x = (secret, vop)" by fastforce
    obtain a s3 where au: "vault_audit va vop d n actor O_EXECUTED None s2 = (a, s3)"
      by (metis surj_pair)
    have "fst s' = fst s2" "is_ok r \<or> storage_failure r"
      using body q x au vault_audit_effect [OF au]
      by (auto simp: seq_def bind_def ret_def split: sum.splits)
    then show ?thesis using view s1 ok Inr q by auto
  qed
qed


lemma entry_of_revoked: "entry_of ae key (r\<lparr>vs_revoked_at := Some now\<rparr>) = (entry_of ae key r)\<lparr>ve_active := False\<rparr>"
  by (simp add: entry_of_def)

lemma revoke_tx_view:
  assumes ok: "vault_table_ok (fst s)" and run: "revoke_tx va d n s = (r, s')"
  shows "vault_table_ok (fst s')
    \<and> (case vault_view ae key (fst s) (d, n) of
         None \<Rightarrow> (r = Inl (vault_error ''not_found'') \<or> storage_failure r) \<and> fst s' = fst s
       | Some e \<Rightarrow> is_ok r \<and> vault_view ae key (fst s')
             = (vault_view ae key (fst s))((d, n) \<mapsto> e\<lparr>ve_active := False\<rparr>)
           \<or> storage_failure r \<and> fst s' = fst s)"
proof -
  let ?view = "vault_view ae key"
  have body: "vault_table_ok (fst t) \<and> (case vault_get (fst s) d n of
        None \<Rightarrow> r = Inl (vault_error ''not_found'')
      | Some r0 \<Rightarrow> is_ok r \<and> ?view (fst t) = (?view (fst s))((d, n) \<mapsto> (entry_of ae key r0)\<lparr>ve_active := False\<rparr>))"
    if run: "(case vault_get (fst s) d n of
          None \<Rightarrow> raise_exc (vault_error ''not_found'')
        | Some r \<Rightarrow> if vs_revoked_at r = None
            then bind (vask (op_utcnow (co_ops va))) (\<lambda>now. let r' = r\<lparr>vs_revoked_at := Some now\<rparr>
                 in seq (vchange (vault_update r')) (ret r'))
            else ret r) s = (r, t)" for r t
  proof (cases "vault_get (fst s) d n")
    case None
    then show ?thesis using run ok by auto
  next
    case (Some r0)
    have r0: "vs_domain r0 = d" "vs_name r0 = n" "1 \<le> vs_revision r0"
      using vault_get_Some [OF Some] ok by (auto simp: vault_table_ok_def)
    show ?thesis
    proof (cases "vs_revoked_at r0")
      case None
      obtain now s1 where c: "vask (op_utcnow (co_ops va)) s = (Inr now, s1)"
        using vask_Inr [of "op_utcnow (co_ops va)" s] by (metis surj_pair)
      let ?r' = "r0\<lparr>vs_revoked_at := Some now\<rparr>"
      have res: "r = Inr ?r'" "fst t = vault_update ?r' (fst s)"
        using run Some None on_db_fst [OF c] by (auto simp: bind_def seq_def c Let_def vchange_def ret_def)
      have "?view (fst t) = (?view (fst s))((d, n) \<mapsto> entry_of ae key ?r')"
        by (rule vault_view_update) (use vault_update_get(1) [OF ok Some, of ?r'] res r0 in simp)
      then show ?thesis
        using vault_update_get(2) [OF ok Some, of ?r'] res r0 Some by (simp add: entry_of_revoked)
    next
      case (Some now)
      then have "entry_of ae key r0 = (entry_of ae key r0)\<lparr>ve_active := False\<rparr>" by (simp add: entry_of_def)
      moreover have "?view (fst s) = (?view (fst s))((d, n) \<mapsto> entry_of ae key r0)"
        using \<open>vault_get (fst s) d n = Some r0\<close> by (auto simp: vault_view_def)
      ultimately show ?thesis using run Some \<open>vault_get (fst s) d n = Some r0\<close> ok by auto
    qed
  qed
  from run show ?thesis
    unfolding revoke_tx_def
  proof (cases rule: vault_tx_cases)
    case (1 x s'')
    then show ?thesis using body [of "Inr x" s''] by (auto simp: bind_def vquery_def vault_view_def split: option.splits)
  next
    case (2 e s'')
    then show ?thesis using body [of "Inl e" s''] ok by (auto simp: bind_def vquery_def vault_view_def split: option.splits)
  next
    case 3
    then show ?thesis using ok by (simp split: option.splits)
  qed
qed

lemma revoke_view:
  assumes key: "va_master_key va = Some key" and ok: "vault_table_ok (fst s)"
    and parts: "part_re d" "part_re n"
    and run: "revoke_secret va d n actor s = (r, s')"
  shows "vault_table_ok (fst s')
    \<and> (case vault_view ae key (fst s) (d, n) of
         None \<Rightarrow> (r = Inl (vault_error ''not_found'') \<or> storage_failure r) \<and> fst s' = fst s
       | Some e \<Rightarrow> (is_ok r \<or> storage_failure r) \<and> vault_view ae key (fst s')
             = (vault_view ae key (fst s))((d, n) \<mapsto> e\<lparr>ve_active := False\<rparr>)
           \<or> storage_failure r \<and> fst s' = fst s)"
proof -
  obtain q s2 where tx: "revoke_tx va d n s = (q, s2)" by (metis surj_pair)
  note view = revoke_tx_view [OF ok tx, of ae key]
  have body: "(r, s') = bind (\<lambda>_. (q, s2)) (\<lambda>secret.
      seq (vault_audit va ''vault.revoke'' d n actor O_EXECUTED None) (ret secret)) s"
    using run unfolding revoke_secret_def
    by (simp add: seq_def bind_def lift_res_def validate_vault_part_def parts require_enabled_def key ret_def tx)
  show ?thesis
  proof (cases q)
    case (Inl e)
    then show ?thesis using view body by (auto simp: bind_def split: option.splits)
  next
    case q: (Inr x)
    obtain a s3 where au: "vault_audit va ''vault.revoke'' d n actor O_EXECUTED None s2 = (a, s3)"
      by (metis surj_pair)
    have "fst s' = fst s2" "is_ok r \<or> storage_failure r"
      using body q au vault_audit_effect [OF au] by (auto simp: seq_def bind_def ret_def split: sum.splits)
    then show ?thesis using view q by (auto split: option.splits)
  qed
qed

lemma refuse_resolve_result:
  assumes "refuse_resolve va d n actor c errcode s = (r, s')"
  shows "r = Inl (vault_error errcode) \<or> storage_failure r"
proof -
  obtain a s3 where au: "vault_audit va ''vault.resolve'' d n actor O_FAILED (Some c) s = (a, s3)"
    by (metis surj_pair)
  show ?thesis
    using assms vault_audit_effect [OF au] by (auto simp: refuse_resolve_def seq_def bind_def au raise_exc_def split: sum.splits)
qed

lemma vault_decrypt_error: "vault_decrypt ae ct nonce key d n = Inl e \<Longrightarrow> e = vault_error ''tampered''"
  by (auto simp: vault_decrypt_def split: option.splits)

lemma audit_keeps_table:
  assumes "bind (vault_audit va vop d n actor out c) f s = (r, s')" and "\<And>x t. fst (snd (f x t)) = fst t"
  shows "fst s' = fst s"
proof -
  obtain a s1 where au: "vault_audit va vop d n actor out c s = (a, s1)" by (metis surj_pair)
  show ?thesis
    using assms(1) assms(2) [of "()" s1] vault_audit_effect(1) [OF au]
    by (auto simp: bind_def au split: sum.splits)
qed

lemma resolve_tx_result:
  assumes "resolve_tx va key d n actor ro s = (r, s')"
  shows "fst s' = fst s"
    and "r = (case vault_view (va_aead va) key (fst s) (d, n) of
          None \<Rightarrow> Inl (vault_error ''unknown'')
        | Some e \<Rightarrow> if ro \<and> ve_owner e \<noteq> actor then Inl (vault_error ''auth'')
            else if \<not> ve_active e then Inl (vault_error ''revoked'')
            else (case ve_value e of None \<Rightarrow> Inl (vault_error ''tampered'') | Some v \<Rightarrow> Inr v))
        \<or> storage_failure r"
proof -
  let ?body = "(case vault_get (fst s) d n of
        None \<Rightarrow> refuse_resolve va d n actor ''UNKNOWN'' ''unknown''
      | Some r \<Rightarrow>
          if ro \<and> vs_owner_user_id r \<noteq> actor then refuse_resolve va d n actor ''AUTH'' ''auth''
          else if vs_revoked_at r \<noteq> None then refuse_resolve va d n actor ''REVOKED'' ''revoked''
          else (case vault_decrypt (va_aead va) (vs_ciphertext r) (vs_nonce r) key d n of
              Inl e \<Rightarrow> seq (vault_audit va ''vault.resolve'' d n actor O_FAILED (Some ''TAMPERED'')) (raise_exc e)
            | Inr v \<Rightarrow> ret v))"
  let ?spec = "case vault_view (va_aead va) key (fst s) (d, n) of
          None \<Rightarrow> Inl (vault_error ''unknown'')
        | Some e \<Rightarrow> if ro \<and> ve_owner e \<noteq> actor then Inl (vault_error ''auth'')
            else if \<not> ve_active e then Inl (vault_error ''revoked'')
            else (case ve_value e of None \<Rightarrow> Inl (vault_error ''tampered'') | Some v \<Rightarrow> Inr v)"
  have body: "(r = ?spec \<or> storage_failure r) \<and> fst t = fst s" if "?body s = (r, t)" for r t
  proof (cases "vault_get (fst s) d n")
    case None
    with that have run: "refuse_resolve va d n actor ''UNKNOWN'' ''unknown'' s = (r, t)" by simp
    then have "fst t = fst s" unfolding refuse_resolve_def seq_def by (rule audit_keeps_table) (simp add: raise_exc_def)
    then show ?thesis using refuse_resolve_result [OF run] None by (simp add: vault_view_def)
  next
    case (Some x)
    have x: "vs_domain x = d" "vs_name x = n" using vault_get_Some [OF Some] by auto
    have view: "vault_view (va_aead va) key (fst s) (d, n) = Some (entry_of (va_aead va) key x)"
      by (simp add: vault_view_def Some)
    consider (auth) "ro \<and> vs_owner_user_id x \<noteq> actor"
      | (revoked) "\<not> (ro \<and> vs_owner_user_id x \<noteq> actor)" "vs_revoked_at x \<noteq> None"
      | (live) "\<not> (ro \<and> vs_owner_user_id x \<noteq> actor)" "vs_revoked_at x = None" by blast
    then show ?thesis
    proof cases
      case auth
      with that Some have run: "refuse_resolve va d n actor ''AUTH'' ''auth'' s = (r, t)" by simp
      then have "fst t = fst s" unfolding refuse_resolve_def seq_def by (rule audit_keeps_table) (simp add: raise_exc_def)
      then show ?thesis using refuse_resolve_result [OF run] auth view by (simp add: entry_of_def)
    next
      case revoked
      with that Some have run: "refuse_resolve va d n actor ''REVOKED'' ''revoked'' s = (r, t)" by auto
      then have "fst t = fst s" unfolding refuse_resolve_def seq_def by (rule audit_keeps_table) (simp add: raise_exc_def)
      then show ?thesis using refuse_resolve_result [OF run] revoked view by (auto simp: entry_of_def)
    next
      case live
      show ?thesis
      proof (cases "vault_decrypt (va_aead va) (vs_ciphertext x) (vs_nonce x) key d n")
        case (Inl e)
        with that Some live have run: "refuse_resolve va d n actor ''TAMPERED'' ''tampered'' s = (r, t)"
          using vault_decrypt_error [OF Inl] by (auto simp: refuse_resolve_def)
        then have "fst t = fst s" unfolding refuse_resolve_def seq_def by (rule audit_keeps_table) (simp add: raise_exc_def)
        then show ?thesis using refuse_resolve_result [OF run] live view Inl x by (auto simp: entry_of_def)
      next
        case (Inr v)
        with that Some live show ?thesis using view x by (auto simp: entry_of_def)
      qed
    qed
  qed
  have "fst s' = fst s \<and> (r = ?spec \<or> storage_failure r)"
    using assms unfolding resolve_tx_def
  proof (cases rule: vault_tx_cases)
    case (1 x s'')
    then show ?thesis using body [of "Inr x" s''] by (auto simp: bind_def vquery_def)
  next
    case (2 e s'')
    then show ?thesis using body [of "Inl e" s''] by (auto simp: bind_def vquery_def)
  next
    case 3
    then show ?thesis by simp
  qed
  then show "fst s' = fst s" and "r = ?spec \<or> storage_failure r" by auto
qed

lemma resolve_view:
  assumes key: "va_master_key va = Some key"
    and run: "resolve_ref va ref actor ro s = (r, s')"
  shows "fst s' = fst s
    \<and> (r = map_sum vault_error id (spec_resolve (vault_view (va_aead va) key (fst s)) ref actor ro)
       \<or> storage_failure r)"
proof (cases "parse_vault_ref ref")
  case None
  then show ?thesis using run by (auto simp: resolve_ref_def spec_resolve_def split: if_splits)
next
  case (Some k)
  obtain d n where k: "k = (d, n)" by fastforce
  have ref: "is_vault_ref ref"
    using Some by (auto simp: parse_vault_ref_def split: json.splits if_splits)
  obtain q s2 where tx: "resolve_tx va key d n actor ro s = (q, s2)" by (metis surj_pair)
  have body: "(r, s') = bind (\<lambda>_. (q, s2)) (\<lambda>v.
      seq (vault_audit va ''vault.resolve'' d n actor O_EXECUTED None) (ret v)) s"
    using run ref Some k by (simp add: resolve_ref_def bind_def require_enabled_def key ret_def tx)
  note res = resolve_tx_result [OF tx]
  have spec: "map_sum vault_error id (spec_resolve (vault_view (va_aead va) key (fst s)) ref actor ro)
      = (case vault_view (va_aead va) key (fst s) (d, n) of
          None \<Rightarrow> Inl (vault_error ''unknown'')
        | Some e \<Rightarrow> if ro \<and> ve_owner e \<noteq> actor then Inl (vault_error ''auth'')
            else if \<not> ve_active e then Inl (vault_error ''revoked'')
            else (case ve_value e of None \<Rightarrow> Inl (vault_error ''tampered'') | Some v \<Rightarrow> Inr v))"
    by (simp add: spec_resolve_def Some k split: option.splits)
  show ?thesis
  proof (cases q)
    case (Inl e)
    then show ?thesis using res body unfolding spec by (auto simp: bind_def)
  next
    case q: (Inr v)
    obtain a s3 where au: "vault_audit va ''vault.resolve'' d n actor O_EXECUTED None s2 = (a, s3)"
      by (metis surj_pair)
    have "fst s' = fst s2" "r = q \<or> storage_failure r"
      using body q au vault_audit_effect [OF au] by (auto simp: seq_def bind_def ret_def split: sum.splits)
    then show ?thesis using res q unfolding spec by auto
  qed
qed


lemma disabled_vault:
  assumes "va_master_key va = None"
  shows "fst (store_or_rotate_secret va d n value actor owner s)
      \<in> {Inl (vault_error ''validation''), Inl (vault_error ''disabled'')}"
    and "fst (resolve_ref va ref actor ro s) \<in> {Inl (vault_error ''validation''), Inl (vault_error ''disabled'')}"
  using assms
  by (auto simp: store_or_rotate_secret_def resolve_ref_def store_checks_def seq_def bind_def lift_res_def
      require_enabled_def raise_exc_def split: option.splits)

text \<open>C15. The vault is the map it promises.  With AES-GCM undoing its own encryption, on a table with
  unique keys: storing is refused on invalid input, and otherwise either binds (domain, name) to the
  value, with the owner and revision the rules give and active again, or fails in the storage layer and
  changes nothing, or fails in the audit after the row is committed; revoking only deactivates an
  existing entry; resolving changes no row and returns exactly what the map gives: the value of an active
  entry (of the actor, when the owner is required), and the error of the first rule broken
  otherwise, storage failures apart.\<close>
theorem vault_refines_map:
  assumes "\<forall>k n p a. ae_dec (va_aead va) k n (ae_enc (va_aead va) k n p a) a = Some p"
    and "va_master_key va = Some key" and "vault_table_ok (fst s)"
  shows "(let m = vault_view (va_aead va) key (fst s);
           (r, s') = store_or_rotate_secret va d n value actor owner s in
         vault_table_ok (fst s')
         \<and> (if store_checks d n value (effective_owner owner actor) \<noteq> Inr ()
            then r = Inl (vault_error ''validation'') \<and> fst s' = fst s
            else (is_ok r \<or> storage_failure r)
                \<and> vault_view (va_aead va) key (fst s') = m((d, n) \<mapsto> spec_store value actor owner (m (d, n)))
              \<or> storage_failure r \<and> fst s' = fst s))
    \<and> (let m = vault_view (va_aead va) key (fst s);
           (r, s') = revoke_secret va d n actor s in
         part_re d \<longrightarrow> part_re n \<longrightarrow> vault_table_ok (fst s')
         \<and> (case m (d, n) of
              None \<Rightarrow> (r = Inl (vault_error ''not_found'') \<or> storage_failure r) \<and> fst s' = fst s
            | Some e \<Rightarrow> (is_ok r \<or> storage_failure r)
                \<and> vault_view (va_aead va) key (fst s') = m((d, n) \<mapsto> e\<lparr>ve_active := False\<rparr>)
              \<or> storage_failure r \<and> fst s' = fst s))
    \<and> (let m = vault_view (va_aead va) key (fst s);
           (r, s') = resolve_ref va ref actor require_owner s in
         fst s' = fst s
         \<and> (r = map_sum vault_error id (spec_resolve m ref actor require_owner) \<or> storage_failure r))"
proof -
  have gcm: "\<And>k n p a. ae_dec (va_aead va) k n (ae_enc (va_aead va) k n p a) a = Some p"
    using assms(1) by blast
  obtain r1 s1 where 1: "store_or_rotate_secret va d n value actor owner s = (r1, s1)" by (metis surj_pair)
  obtain r2 s2 where 2: "revoke_secret va d n actor s = (r2, s2)" by (metis surj_pair)
  obtain r3 s3 where 3: "resolve_ref va ref actor require_owner s = (r3, s3)" by (metis surj_pair)
  show ?thesis
    using store_view [OF gcm assms(2,3) 1] revoke_view [OF assms(2,3) _ _ 2, of "va_aead va"]
      resolve_view [OF assms(2) 3]
    unfolding Let_def 1 2 3 by simp
qed

definition demo_vault :: "unit vault_service" where
  "demo_vault =
     \<lparr>co_sha = (\<lambda>x. x), co_frepr = (\<lambda>_. ''1.5''), co_repo = \<lparr>repo_genesis = ''0'', repo_signer = None\<rparr>,
      co_catalog = [], co_app_version = ''1'',
      co_conf = \<lparr>confirmation_ttl_seconds = 300, confirmation_ttl_strong_seconds = 120\<rparr>,
      co_ops = \<lparr>op_utcnow = (\<lambda>e. (''2024'', e)), op_monotonic = (\<lambda>e. (0, e)), op_sleep = (\<lambda>_ e. e),
        op_uuid = (\<lambda>e. (''u'', e)), op_token = (\<lambda>e. (''t'', e)), op_commit = (\<lambda>e. (True, e)),
        op_overrun = (\<lambda>e. (False, e))\<rparr>,
      va_aead = \<lparr>ae_enc = (\<lambda>k n p a. k @ n @ a @ p),
        ae_dec = (\<lambda>k n c a. if starts_with (k @ n @ a) c then Some (drop (length (k @ n @ a)) c) else None)\<rparr>,
      va_token_bytes = (\<lambda>e. (''n'', e)), va_master_key = Some ''k''\<rparr>"

definition demo_secret :: vault_secret where
  "demo_secret = \<lparr>vs_id = ''1'', vs_domain = ''m'', vs_name = ''p'', vs_owner_user_id = ''bob'',
     vs_algorithm = ALGORITHM, vs_ciphertext = vault_encrypt (va_aead demo_vault) ''1'' ''s'' ''k'' ''m'' ''p'',
     vs_nonce = ''1'', vs_value_length = 1, vs_revision = 1, vs_created_at = ''2023'', vs_updated_at = ''2023'',
     vs_revoked_at = None\<rparr>"

definition empty_db :: db where
  "empty_db = \<lparr>db_audit = [], db_confirmations = [], db_approvals = [], db_policies = []\<rparr>"

lemma demo_vault_facts:
  "spec_resolve (vault_view (va_aead demo_vault) ''k'' (fst ([demo_secret], empty_db, ()))) (JStr ''vault:m/p'')
     ''bob'' True = Inr ''s''"
  "vault_view (va_aead demo_vault) ''k'' (fst ([demo_secret], empty_db, ())) (''w'', ''a'') = None"
  "store_checks ''w'' ''a'' ''x'' (effective_owner (Some ''eve'') ''bob'') = Inr ()"
proof -
  have "parse_vault_ref (JStr ''vault:m/p'') = Some (''m'', ''p'')" by code_simp
  moreover have "vault_decrypt (va_aead demo_vault) (vs_ciphertext demo_secret) (vs_nonce demo_secret) ''k'' ''m'' ''p'' = Inr ''s''"
    by (simp add: vault_decrypt_def vault_encrypt_def demo_secret_def demo_vault_def starts_with_def utf8_round_trip
        del: utf8.simps utf8_decode.simps)
  ultimately show "spec_resolve (vault_view (va_aead demo_vault) ''k'' (fst ([demo_secret], empty_db, ())))
      (JStr ''vault:m/p'') ''bob'' True = Inr ''s''"
    by (simp add: spec_resolve_def vault_view_def vault_get_def entry_of_def demo_secret_def)
  show "vault_view (va_aead demo_vault) ''k'' (fst ([demo_secret], empty_db, ())) (''w'', ''a'') = None"
    by (simp add: vault_view_def vault_get_def demo_secret_def)
  have "part_re ''w''" "part_re ''a''" by code_simp+
  then show "store_checks ''w'' ''a'' ''x'' (effective_owner (Some ''eve'') ''bob'') = Inr ()"
    by (simp add: store_checks_def effective_owner_def MAX_VAULT_VALUE_LENGTH_def)
qed

lemma vault_refines_map_witness:
  "(let (r, s') = resolve_ref demo_vault (JStr ''vault:m/p'') ''bob'' True ([demo_secret], empty_db, ()) in
      fst s' = [demo_secret] \<and> (r = Inr ''s'' \<or> storage_failure r))
   \<and> (let (r, s') = store_or_rotate_secret demo_vault ''w'' ''a'' ''x'' ''bob'' (Some ''eve'') ([demo_secret], empty_db, ()) in
      storage_failure r \<and> fst s' = [demo_secret] \<or> vault_view (va_aead demo_vault) ''k'' (fst s') (''w'', ''a'')
        = Some \<lparr>ve_value = Some ''x'', ve_owner = ''eve'', ve_revision = 1, ve_active = True\<rparr>)"
proof -
  let ?s = "([demo_secret], empty_db, ())"
  have gcm: "\<forall>k n p a. ae_dec (va_aead demo_vault) k n (ae_enc (va_aead demo_vault) k n p a) a = Some p"
    by (simp add: demo_vault_def starts_with_def)
  have key: "va_master_key demo_vault = Some ''k''" by (simp add: demo_vault_def)
  have ok: "vault_table_ok (fst ?s)" by (simp add: vault_table_ok_def demo_secret_def)
  note facts = demo_vault_facts
  obtain r1 s1 where 1: "store_or_rotate_secret demo_vault ''w'' ''a'' ''x'' ''bob'' (Some ''eve'') ?s = (r1, s1)"
    by (metis surj_pair)
  obtain r2 s2 where 2: "resolve_ref demo_vault (JStr ''vault:m/p'') ''bob'' True ?s = (r2, s2)"
    by (metis surj_pair)
  note both = vault_refines_map [OF gcm key ok, of "''w''" "''a''" "''x''" "''bob''" "Some ''eve''"
      "JStr ''vault:m/p''" True, unfolded Let_def 1 2 facts]
  from both have "fst s2 = fst ?s \<and> (r2 = map_sum vault_error id (Inr ''s'') \<or> storage_failure r2)" by blast
  moreover from both have "storage_failure r1 \<and> fst s1 = fst ?s
    \<or> vault_view (va_aead demo_vault) ''k'' (fst s1) (''w'', ''a'') = Some (spec_store ''x'' ''bob'' (Some ''eve'') None)"
    by auto
  ultimately show ?thesis unfolding Let_def 1 2 by (simp add: spec_store_def effective_owner_def)
qed

end
