(* ===== verification/Workflow_Definition.thy ===== *)
theory Workflow_Definition
  imports Workflow_Graph Catalog Vault
begin

text \<open>
  Model of \<^verbatim>\<open>era/workflows/definition.py\<close>: the strict schema of a workflow, its validation when it
  is registered, and the rendering of \<open>{{name}}\<close> placeholders.

  A record is a model object after pydantic has read its fields; the \<open>model_validator\<close> of a class is
  its \<open>validate\<close> function here, with the bounds that pydantic's \<open>Field\<close> declares.  Every \<open>_fail\<close> is a
  constructor of \<open>wf_error\<close>; the \<open>path\<close> that only enters messages is left out.
\<close>

section \<open>Data\<close>

text \<open>A message of \<open>_fail\<close>, without its fixed wording, and the ids and names it quotes.\<close>

datatype wf_error =
    Fail string "string list"
  | SchemaFails string validation_error
  | NotValidated string validation_error
  | PyKeyError
  | PyIntTooLongError

abbreviation "BadConditionKind \<equiv> Fail ''condition.kind'' []"
abbreviation "BadConditionOp \<equiv> Fail ''condition.op'' []"
abbreviation "ConditionNeedsStep \<equiv> Fail ''condition requires step_id'' []"
abbreviation "ConditionNeedsOp \<equiv> Fail ''condition requires op'' []"
abbreviation "ConditionNotScalar \<equiv> Fail ''condition value must be a scalar'' []"
abbreviation "UrlNeedsString \<equiv> Fail ''url_contains requires a string'' []"
abbreviation "UrlTooLong \<equiv> Fail ''url_contains too long'' []"
abbreviation "BlockTooSmall \<equiv> Fail ''parallel block too small'' []"
abbreviation "BlockDuplicates \<equiv> Fail ''parallel block duplicates'' []"
abbreviation "BlockBadId a \<equiv> Fail ''parallel block invalid id'' [a]"
abbreviation "BadConcurrency \<equiv> Fail ''max_concurrency'' []"
abbreviation "StepBadId \<equiv> Fail ''step id'' []"
abbreviation "NotWorkflowAction a b \<equiv> Fail ''non-workflow action'' [a, b]"
abbreviation "BadOnDenied \<equiv> Fail ''on_denied'' []"
abbreviation "BadExpectKind \<equiv> Fail ''expect.kind'' []"
abbreviation "BadTargetIndex \<equiv> Fail ''target.index'' []"
abbreviation "TooManyDependencies \<equiv> Fail ''too many dependencies'' []"
abbreviation "SelfDependency a \<equiv> Fail ''depends on itself'' [a]"
abbreviation "BadDependency a b \<equiv> Fail ''invalid dependency'' [a, b]"
abbreviation "SelfCondition a \<equiv> Fail ''condition references itself'' [a]"
abbreviation "BadWorkflowName \<equiv> Fail ''workflow name'' []"
abbreviation "BadVersion \<equiv> Fail ''workflow version'' []"
abbreviation "NoSteps \<equiv> Fail ''no steps'' []"
abbreviation "DuplicateStep a \<equiv> Fail ''duplicate step id'' [a]"
abbreviation "BlockUnknownStep a \<equiv> Fail ''parallel block unknown step'' [a]"
abbreviation "StepInTwoBlocks a \<equiv> Fail ''more than one parallel block'' [a]"
abbreviation "NoWorkflowParams \<equiv> Fail ''no workflow params'' []"
abbreviation "UnresolvedPlaceholder \<equiv> Fail ''unresolved placeholder'' []"
abbreviation "ParamNotSupplied a \<equiv> Fail ''param not supplied'' [a]"
abbreviation "ParamIsNone a \<equiv> Fail ''param is None'' [a]"
abbreviation "ParamNotScalar a \<equiv> Fail ''param is not a scalar'' [a]"
abbreviation "TargetAndField a b \<equiv> Fail ''target and field'' [a, b]"
abbreviation "UnknownDependency a b \<equiv> Fail ''unknown dependency'' [a, b]"
abbreviation "FanOut a \<equiv> Fail ''unbounded fan-out'' [a]"
abbreviation "DependencyCycle \<equiv> Fail ''cycle'' []"
abbreviation "BlockUnknownDependency a \<equiv> Fail ''parallel block unknown dependency'' [a]"
abbreviation "SiblingDependency a \<equiv> Fail ''sibling dependency'' [a]"
abbreviation "SiblingCondition a \<equiv> Fail ''sibling condition'' [a]"
abbreviation "TooManySteps \<equiv> Fail ''too many steps'' []"
abbreviation "TooManyChars \<equiv> Fail ''too many characters'' []"
abbreviation "UnknownAction a b \<equiv> Fail ''unknown action'' [a, b]"
abbreviation "PasswordWithoutRef a \<equiv> Fail ''password without value_ref'' [a]"
abbreviation "FillWithoutTarget a \<equiv> Fail ''fill without target'' [a]"
abbreviation "BadValueRef a \<equiv> Fail ''bad value_ref'' [a]"
abbreviation "TextAndRef a \<equiv> Fail ''text and value_ref'' [a]"
abbreviation "AlreadyRegistered a \<equiv> Fail ''already registered'' [a]"

definition ALLOWED_STEP_ACTIONS :: "string set" where
  "ALLOWED_STEP_ACTIONS =
     {''browser.navigate'', ''browser.screenshot'', ''browser.extract_dom'', ''browser.click'',
      ''browser.fill'', ''browser.submit'', ''browser.inspect'', ''browser.tabs'',
      ''browser.activate_tab'', ''browser.download'', ''browser.upload''}"

definition MUTATING_STEP_ACTIONS :: "string set" where
  "MUTATING_STEP_ACTIONS =
     {''browser.click'', ''browser.fill'', ''browser.submit'', ''browser.download'', ''browser.upload''}"

definition DEFAULT_MAX_WORKFLOW_STEPS :: nat where "DEFAULT_MAX_WORKFLOW_STEPS = 50"
definition DEFAULT_MAX_WORKFLOW_PARAM_CHARS :: nat where "DEFAULT_MAX_WORKFLOW_PARAM_CHARS = 16384"

definition SYNTHETIC_REF :: string where "SYNTHETIC_REF = ''er_'' @ replicate 40 (CHR ''w'')"
definition SYNTH_PLACEHOLDER :: string where "SYNTH_PLACEHOLDER = ''wf-param''"

definition EXPECT_KINDS :: "string set" where
  "EXPECT_KINDS = {''navigation'', ''tab_opened'', ''element_detached''}"

definition ALLOWED_CONDITION_KINDS :: "string set" where
  "ALLOWED_CONDITION_KINDS = {''step_result'', ''url_contains'', ''element_present''}"

definition CONDITION_OPS :: "string set" where "CONDITION_OPS = {''=='', ''!=''}"

record wf_target =
  tg_role :: "string option"
  tg_name :: "string option"
  tg_tag :: "string option"
  tg_input_type :: "string option"
  tg_frame_id :: "string option"
  tg_index :: "int option"

record wf_expect =
  ex_kind :: string
  ex_url_contains :: "string option"

record wf_condition =
  cn_kind :: string
  cn_step_id :: "string option"
  cn_op :: "string option"
  cn_value :: json

record wf_block =
  pb_steps :: "string list"
  pb_depends_on :: "string list"
  pb_max_concurrency :: int

record wf_step =
  st_id :: string
  st_action :: string
  st_params :: params
  st_target :: "wf_target option"
  st_expect :: "wf_expect option"
  st_on_denied :: string
  st_description :: "string option"
  st_outputs :: "(string \<times> string) list"
  st_depends_on :: "string list"
  st_condition :: "wf_condition option"

record wf_def =
  wd_name :: string
  wd_version :: int
  wd_description :: "string option"
  wd_params_schema :: params
  wd_steps :: "wf_step list"
  wd_parallel :: "wf_block list"

section \<open>The validators of the models\<close>

text \<open>The pattern \<open>^[A-Za-z0-9_][A-Za-z0-9_\-]{0,63}$\<close>; \<open>$\<close> also matches before a final newline.\<close>

definition identifier_body :: "string \<Rightarrow> bool" where
  "identifier_body s = (case s of [] \<Rightarrow> False
     | c # cs \<Rightarrow> (is_alpha c \<or> is_digit c \<or> c = CHR ''_'') \<and> length cs \<le> 63 \<and> list_all part_char cs)"

definition identifier_re :: "string \<Rightarrow> bool" where
  "identifier_re s = (identifier_body s \<or> (s \<noteq> [] \<and> code (last s) = 10 \<and> identifier_body (butlast s)))"

text \<open>\<open>WorkflowTarget.matches\<close>: every field given must be equal in the element.\<close>

definition field_matches :: "string option \<Rightarrow> params \<Rightarrow> string \<Rightarrow> bool" where
  "field_matches f element k = (case f of None \<Rightarrow> True | Some s \<Rightarrow> get_param element k = JStr s)"

definition target_matches :: "wf_target \<Rightarrow> params \<Rightarrow> bool" where
  "target_matches t element =
     (field_matches (tg_role t) element ''role'' \<and> field_matches (tg_name t) element ''name''
      \<and> field_matches (tg_tag t) element ''tag'' \<and> field_matches (tg_input_type t) element ''input_type''
      \<and> field_matches (tg_frame_id t) element ''frame_id'')"

definition is_scalar :: "json \<Rightarrow> bool" where
  "is_scalar v = (case v of JList _ \<Rightarrow> False | JObj _ \<Rightarrow> False | _ \<Rightarrow> True)"

definition no_text :: "string option \<Rightarrow> bool" where
  "no_text s = (s = None \<or> s = Some [])"

definition op_ok :: "string option \<Rightarrow> bool" where
  "op_ok s = (case s of None \<Rightarrow> False | Some x \<Rightarrow> x \<in> CONDITION_OPS)"

definition validate_condition :: "wf_condition \<Rightarrow> (wf_error, unit) result" where
  "validate_condition c =
     (if cn_kind c \<notin> ALLOWED_CONDITION_KINDS then Inl BadConditionKind
      else if cn_op c \<noteq> None \<and> \<not> op_ok (cn_op c) then Inl BadConditionOp
      else if cn_kind c = ''step_result'' then
        (if no_text (cn_step_id c) then Inl ConditionNeedsStep
         else if \<not> op_ok (cn_op c) then Inl ConditionNeedsOp
         else if \<not> is_scalar (cn_value c) then Inl ConditionNotScalar
         else Inr ())
      else if cn_kind c = ''url_contains'' then
        (case cn_value c of
           JStr s \<Rightarrow> if s = [] then Inl UrlNeedsString else if 1000 < length s then Inl UrlTooLong else Inr ()
         | _ \<Rightarrow> Inl UrlNeedsString)
      else if no_text (cn_step_id c) then Inl ConditionNeedsStep
      else Inr ())"

definition validate_block :: "wf_block \<Rightarrow> (wf_error, unit) result" where
  "validate_block b =
     (if pb_max_concurrency b < 1 \<or> 8 < pb_max_concurrency b then Inl BadConcurrency
      else if length (pb_steps b) < 2 then Inl BlockTooSmall
      else if \<not> distinct (pb_steps b) then Inl BlockDuplicates
      else check_all (\<lambda>sid. if identifier_re sid then Inr () else Inl (BlockBadId sid))
             (pb_steps b @ pb_depends_on b))"

definition validate_step :: "wf_step \<Rightarrow> (wf_error, unit) result" where
  "validate_step s =
     (if \<not> identifier_re (st_id s) then Inl StepBadId
      else if st_action s \<notin> ALLOWED_STEP_ACTIONS then Inl (NotWorkflowAction (st_id s) (st_action s))
      else if st_on_denied s \<noteq> ''stop'' \<and> st_on_denied s \<noteq> ''skip'' then Inl BadOnDenied
      else if (case st_expect s of None \<Rightarrow> False | Some e \<Rightarrow> ex_kind e \<notin> EXPECT_KINDS) then Inl BadExpectKind
      else if (case st_target s of None \<Rightarrow> False
               | Some t \<Rightarrow> (case tg_index t of None \<Rightarrow> False | Some i \<Rightarrow> i < 0)) then Inl BadTargetIndex
      else if 8 < length (st_depends_on s) then Inl TooManyDependencies
      else if st_id s \<in> set (st_depends_on s) then Inl (SelfDependency (st_id s))
      else case check_all (\<lambda>d. if identifier_re d then Inr () else Inl (BadDependency (st_id s) d))
                  (st_depends_on s) of
        Inl e \<Rightarrow> Inl e
      | Inr _ \<Rightarrow>
          if (case st_condition s of None \<Rightarrow> False | Some c \<Rightarrow> cn_step_id c = Some (st_id s))
          then Inl (SelfCondition (st_id s)) else Inr ())"

fun no_duplicates :: "string set \<Rightarrow> wf_step list \<Rightarrow> (wf_error, string set) result" where
  "no_duplicates ids [] = Inr ids"
| "no_duplicates ids (s # ss) =
     (if st_id s \<in> ids then Inl (DuplicateStep (st_id s)) else no_duplicates (insert (st_id s) ids) ss)"

fun members_ok :: "string set \<Rightarrow> string set \<Rightarrow> string list \<Rightarrow> (wf_error, string set) result" where
  "members_ok ids seen [] = Inr seen"
| "members_ok ids seen (sid # sids) =
     (if sid \<notin> ids then Inl (BlockUnknownStep sid)
      else if sid \<in> seen then Inl (StepInTwoBlocks sid)
      else members_ok ids (insert sid seen) sids)"

definition validate_shape :: "wf_def \<Rightarrow> (wf_error, unit) result" where
  "validate_shape d =
     (if \<not> identifier_re (wd_name d) then Inl BadWorkflowName
      else if wd_version d < 1 then Inl BadVersion
      else if wd_steps d = [] then Inl NoSteps
      else case no_duplicates {} (wd_steps d) of
        Inl e \<Rightarrow> Inl e
      | Inr ids \<Rightarrow> map_sum id (\<lambda>_. ()) (members_ok ids {} (concat (map pb_steps (wd_parallel d)))))"

text \<open>The construction of a whole definition: the parts are read, and validated, before the whole.\<close>

definition construct_step :: "wf_step \<Rightarrow> (wf_error, unit) result" where
  "construct_step s = (case (case st_condition s of None \<Rightarrow> Inr () | Some c \<Rightarrow> validate_condition c) of
       Inl e \<Rightarrow> Inl e | Inr _ \<Rightarrow> validate_step s)"

definition construct :: "wf_def \<Rightarrow> (wf_error, wf_def) result" where
  "construct d = (case check_all construct_step (wd_steps d) of
       Inl e \<Rightarrow> Inl e
     | Inr _ \<Rightarrow> (case check_all validate_block (wd_parallel d) of
         Inl e \<Rightarrow> Inl e
       | Inr _ \<Rightarrow> map_sum id (\<lambda>_. d) (validate_shape d)))"

section \<open>Placeholders\<close>

text \<open>The pattern \<open>\{\{\s*([A-Za-z0-9_\-]+)\s*\}\}\<close> at a position: the captured name and the rest.  The
  classes of the pattern are disjoint, so there is one way to match.\<close>

definition name_char :: "char \<Rightarrow> bool" where
  "name_char c = part_char c"

definition placeholder_at :: "string \<Rightarrow> (string \<times> string) option" where
  "placeholder_at s =
     (if starts_with ''{{'' s then
        let body = dropWhile is_space (drop 2 s);
            name = takeWhile name_char body;
            rest = dropWhile is_space (dropWhile name_char body)
        in if name \<noteq> [] \<and> starts_with ''}}'' rest then Some (name, drop 2 rest) else None
      else None)"

fun has_placeholder :: "string \<Rightarrow> bool" where
  "has_placeholder [] = False"
| "has_placeholder (c # cs) = (placeholder_at (c # cs) \<noteq> None \<or> has_placeholder cs)"

lemma length_dropWhile: "length (dropWhile P xs) \<le> length xs"
  by (induction xs) auto

lemma placeholder_at_length: "placeholder_at s = Some (name, rest) \<Longrightarrow> length rest < length s"
proof -
  assume a: "placeholder_at s = Some (name, rest)"
  let ?body = "dropWhile is_space (drop 2 s)"
  let ?rest = "dropWhile is_space (dropWhile name_char ?body)"
  from a have s: "starts_with ''{{'' s" and rest: "rest = drop 2 ?rest"
    by (auto simp: placeholder_at_def Let_def split: if_splits)
  have "2 \<le> length s" using s by (auto simp: starts_with_iff)
  moreover have "length ?rest \<le> length s - 2"
    using length_dropWhile [of is_space "dropWhile name_char ?body"] length_dropWhile [of name_char ?body]
      length_dropWhile [of is_space "drop 2 s"] by simp
  ultimately show ?thesis by (simp add: rest)
qed

text \<open>\<open>_PLACEHOLDER_RE.sub(f, s)\<close>, where \<open>f\<close> may raise.\<close>

function (sequential) sub_placeholders ::
  "(string \<Rightarrow> (wf_error, string) result) \<Rightarrow> string \<Rightarrow> (wf_error, string) result" where
  "sub_placeholders f [] = Inr []"
| "sub_placeholders f (c # cs) = (case placeholder_at (c # cs) of
       Some (name, rest) \<Rightarrow> (case f name of
           Inl e \<Rightarrow> Inl e
         | Inr t \<Rightarrow> map_sum id (\<lambda>r. t @ r) (sub_placeholders f rest))
     | None \<Rightarrow> map_sum id (Cons c) (sub_placeholders f cs))"
  by pat_completeness auto
termination
  by (relation "measure (\<lambda>(f, s). length s)") (auto dest: placeholder_at_length)

definition str_of :: "(pyfloat \<Rightarrow> string) \<Rightarrow> json \<Rightarrow> (wf_error, string) result" where
  "str_of frepr v = (case v of
       JStr s \<Rightarrow> Inr s
     | JBool b \<Rightarrow> Inr (if b then ''True'' else ''False'')
     | JInt i \<Rightarrow> if is_ok (int_len i) then Inr (show_int i) else Inl PyIntTooLongError
     | JFloat f \<Rightarrow> Inr (frepr f)
     | _ \<Rightarrow> Inr [])"

definition lookup :: "(pyfloat \<Rightarrow> string) \<Rightarrow> params \<Rightarrow> string \<Rightarrow> (wf_error, string) result" where
  "lookup frepr ps name =
     (if \<not> has_key ps name then Inl (ParamNotSupplied name)
      else case get_param ps name of
        JNull \<Rightarrow> Inl (ParamIsNone name)
      | JList _ \<Rightarrow> Inl (ParamNotScalar name)
      | JObj _ \<Rightarrow> Inl (ParamNotScalar name)
      | v \<Rightarrow> str_of frepr v)"

definition render_text ::
  "(pyfloat \<Rightarrow> string) \<Rightarrow> bool \<Rightarrow> params \<Rightarrow> string \<Rightarrow> (wf_error, string) result" where
  "render_text frepr lax ps s =
     (if \<not> has_placeholder s then Inr s
      else if lax then sub_placeholders (\<lambda>_. Inr SYNTH_PLACEHOLDER) s
      else if ps = [] then Inl NoWorkflowParams
      else case sub_placeholders (lookup frepr ps) s of
        Inl e \<Rightarrow> Inl e
      | Inr t \<Rightarrow> if contains ''{{'' t \<or> contains ''}}'' t then Inl UnresolvedPlaceholder else Inr t)"

text \<open>\<open>_render\<close>; no params and empty params are the same to it.\<close>

fun render :: "(pyfloat \<Rightarrow> string) \<Rightarrow> bool \<Rightarrow> params \<Rightarrow> json \<Rightarrow> (wf_error, json) result" where
  "render frepr lax ps (JStr s) = map_sum id JStr (render_text frepr lax ps s)"
| "render frepr lax ps (JObj kvs) =
     map_sum id JObj (try_map (\<lambda>(k, v). map_sum id (Pair k) (render frepr lax ps v)) kvs)"
| "render frepr lax ps (JList xs) = map_sum id JList (try_map (render frepr lax ps) xs)"
| "render frepr lax ps v = Inr v"

definition render_params ::
  "(pyfloat \<Rightarrow> string) \<Rightarrow> bool \<Rightarrow> params \<Rightarrow> params \<Rightarrow> (wf_error, params) result" where
  "render_params frepr lax ps kvs = try_map (\<lambda>(k, v). map_sum id (Pair k) (render frepr lax ps v)) kvs"

definition render_workflow_params ::
  "(pyfloat \<Rightarrow> string) \<Rightarrow> wf_step \<Rightarrow> params \<Rightarrow> bool \<Rightarrow> (wf_error, params) result" where
  "render_workflow_params frepr s ps lax = render_params frepr lax ps (st_params s)"

definition opt_str :: "string option \<Rightarrow> json" where
  "opt_str v = (case v of None \<Rightarrow> JNull | Some s \<Rightarrow> JStr s)"

definition expect_json :: "wf_expect \<Rightarrow> params" where
  "expect_json e = [(''kind'', JStr (ex_kind e)), (''url_contains'', opt_str (ex_url_contains e))]"

definition render_step_expect ::
  "(pyfloat \<Rightarrow> string) \<Rightarrow> wf_step \<Rightarrow> params \<Rightarrow> bool \<Rightarrow> (wf_error, params option) result" where
  "render_step_expect frepr s ps lax = (case st_expect s of
       None \<Rightarrow> Inr None
     | Some e \<Rightarrow> map_sum id Some (render_params frepr lax ps (expect_json e)))"


section \<open>Validation at registration\<close>

text \<open>\<open>_is_vault_or_placeholder\<close>: any well-formed reference, of whatever domain, or one placeholder.\<close>

definition is_vault_or_placeholder :: "json \<Rightarrow> bool" where
  "is_vault_or_placeholder v = (case v of
       JStr s \<Rightarrow>
         if strip s = [] then False
         else if parse_vault_ref v \<noteq> None then True
         else (case placeholder_at (strip s) of Some (_, rest) \<Rightarrow> rest = [] | None \<Rightarrow> False)
     | _ \<Rightarrow> False)"

definition inject_target :: "wf_step \<Rightarrow> params \<Rightarrow> (wf_error, params) result" where
  "inject_target s rendered = (case st_target s of
       None \<Rightarrow> Inr rendered
     | Some _ \<Rightarrow>
         if has_key rendered ''element_ref'' then Inl (TargetAndField (st_id s) ''element_ref'')
         else if has_key rendered ''selector'' then Inl (TargetAndField (st_id s) ''selector'')
         else Inr (AList.update ''element_ref'' (JStr SYNTHETIC_REF) rendered))"

definition total :: "(wf_error, nat list) result \<Rightarrow> (wf_error, nat) result" where
  "total r = map_sum id sum_list r"

fun approx_chars :: "(pyfloat \<Rightarrow> string) \<Rightarrow> json \<Rightarrow> (wf_error, nat) result" where
  "approx_chars frepr (JStr s) = Inr (length s)"
| "approx_chars frepr (JObj kvs) = total (try_map (\<lambda>(k, v). approx_chars frepr v) kvs)"
| "approx_chars frepr (JList xs) = total (try_map (approx_chars frepr) xs)"
| "approx_chars frepr JNull = Inr 4"
| "approx_chars frepr v = map_sum id length (str_of frepr v)"

definition char_budget :: "(pyfloat \<Rightarrow> string) \<Rightarrow> wf_step list \<Rightarrow> (wf_error, nat) result" where
  "char_budget frepr steps = total (try_map (\<lambda>s. approx_chars frepr (JObj (st_params s))) steps)"

text \<open>\<open>_step_ids\<close>.\<close>

definition step_ids :: "wf_def \<Rightarrow> (string \<times> wf_step) list" where
  "step_ids d = fold (\<lambda>s. AList.update (st_id s) s) (wd_steps d) []"

definition validate_dag :: "wf_def \<Rightarrow> (wf_error, unit) result" where
  "validate_dag d =
     (let ids = map fst (step_ids d)
      in if length ids \<noteq> length (wd_steps d) then Inl (DuplicateStep [])
         else case dependency_tables (set ids) (map (\<lambda>s. (st_id s, st_depends_on s)) (wd_steps d))
                     (map (\<lambda>i. (i, [])) ids, map (\<lambda>i. (i, 0)) ids) of
           Inl (s, dep) \<Rightarrow> Inl (UnknownDependency s dep)
         | Inr (edges, indegree) \<Rightarrow>
             (case check_all (\<lambda>(sid, deps). if 8 < length deps then Inl (FanOut sid) else Inr ()) edges of
                Inl e \<Rightarrow> Inl e
              | Inr _ \<Rightarrow>
                  (case kahn edges (start_queue indegree) indegree 0 of
                     None \<Rightarrow> Inl PyKeyError
                   | Some seen \<Rightarrow> if seen \<noteq> length ids then Inl DependencyCycle else Inr ())))"

text \<open>\<open>_validate_parallel\<close>: first the blocks, which fill the table from a step to its block.\<close>

fun place_members :: "wf_block \<Rightarrow> string list \<Rightarrow> (string \<times> wf_block) list
    \<Rightarrow> (wf_error, (string \<times> wf_block) list) result" where
  "place_members b [] t = Inr t"
| "place_members b (sid # sids) t =
     (if map_of t sid \<noteq> None then Inl (StepInTwoBlocks sid) else place_members b sids (AList.update sid b t))"

fun place_blocks :: "string set \<Rightarrow> wf_block list \<Rightarrow> (string \<times> wf_block) list
    \<Rightarrow> (wf_error, (string \<times> wf_block) list) result" where
  "place_blocks ids [] t = Inr t"
| "place_blocks ids (b # bs) t = (case place_members b (pb_steps b) t of
       Inl e \<Rightarrow> Inl e
     | Inr t' \<Rightarrow>
         (case check_all (\<lambda>dep. if dep \<in> ids then Inr () else Inl (BlockUnknownDependency dep)) (pb_depends_on b) of
            Inl e \<Rightarrow> Inl e
          | Inr _ \<Rightarrow> place_blocks ids bs t'))"

definition check_member :: "(string \<times> wf_step) list \<Rightarrow> string \<times> wf_block \<Rightarrow> (wf_error, unit) result" where
  "check_member by_id m = (case m of (sid, b) \<Rightarrow> (case map_of by_id sid of
       None \<Rightarrow> Inl PyKeyError
     | Some s \<Rightarrow>
         if \<exists>dep \<in> set (st_depends_on s @ pb_depends_on b). dep \<in> set (pb_steps b)
         then Inl (SiblingDependency sid)
         else (case st_condition s of
             None \<Rightarrow> Inr ()
           | Some c \<Rightarrow> (case cn_step_id c of
               None \<Rightarrow> Inr ()
             | Some t \<Rightarrow> if t \<in> set (pb_steps b) then Inl (SiblingCondition sid) else Inr ()))))"

definition validate_parallel :: "wf_def \<Rightarrow> (wf_error, unit) result" where
  "validate_parallel d = (case place_blocks (fst ` set (step_ids d)) (wd_parallel d) [] of
       Inl e \<Rightarrow> Inl e
     | Inr t \<Rightarrow> check_all (check_member (step_ids d)) t)"

text \<open>The secret rule for \<open>browser.fill\<close>.\<close>

definition check_fill :: "wf_step \<Rightarrow> (wf_error, unit) result" where
  "check_fill s =
     (if st_action s \<noteq> ''browser.fill'' then Inr ()
      else if (case st_target s of Some t \<Rightarrow> tg_input_type t = Some ''password'' | None \<Rightarrow> False)
           \<and> \<not> has_key (st_params s) ''value_ref'' then Inl (PasswordWithoutRef (st_id s))
      else if st_target s = None \<and> \<not> has_key (st_params s) ''value_ref'' then Inl (FillWithoutTarget (st_id s))
      else if has_key (st_params s) ''value_ref'' \<and> \<not> is_vault_or_placeholder (get_param (st_params s) ''value_ref'')
      then Inl (BadValueRef (st_id s))
      else if has_key (st_params s) ''text'' \<and> has_key (st_params s) ''value_ref'' then Inl (TextAndRef (st_id s))
      else Inr ())"

text \<open>\<open>ValidationError_\<close> and every other exception both become a refusal.\<close>

definition refusal :: "string \<Rightarrow> validation_error \<Rightarrow> wf_error" where
  "refusal sid e = (if e \<in> {PyTypeError, PyIntTooLong} then NotValidated sid e else SchemaFails sid e)"

definition check_step_params :: "(pyfloat \<Rightarrow> string) \<Rightarrow> action_spec \<Rightarrow> wf_step \<Rightarrow> (wf_error, unit) result" where
  "check_step_params frepr spec s = (case render_workflow_params frepr s [] True of
       Inl e \<Rightarrow> Inl e
     | Inr rendered \<Rightarrow> (case inject_target s rendered of
         Inl e \<Rightarrow> Inl e
       | Inr effective \<Rightarrow> (case validate_params frepr effective None None of
           Inl e \<Rightarrow> Inl (refusal (st_id s) e)
         | Inr _ \<Rightarrow> (case as_param_schema spec of
             None \<Rightarrow> Inr ()
           | Some sch \<Rightarrow> (case validate_param_schema effective (Some sch) of
               Inl e \<Rightarrow> Inl (refusal (st_id s) e)
             | Inr _ \<Rightarrow> Inr ())))))"

definition check_registered_step ::
  "(pyfloat \<Rightarrow> string) \<Rightarrow> catalog \<Rightarrow> wf_step \<Rightarrow> (wf_error, unit) result" where
  "check_registered_step frepr cat s = (case catalog_get cat (st_action s) of
       None \<Rightarrow> Inl (UnknownAction (st_id s) (st_action s))
     | Some spec \<Rightarrow>
         if st_action s \<notin> ALLOWED_STEP_ACTIONS then Inl (NotWorkflowAction (st_id s) (st_action s))
         else (case check_fill s of
             Inl e \<Rightarrow> Inl e
           | Inr _ \<Rightarrow> check_step_params frepr spec s))"

fun check_steps ::
  "(pyfloat \<Rightarrow> string) \<Rightarrow> catalog \<Rightarrow> string set \<Rightarrow> wf_step list \<Rightarrow> (wf_error, unit) result" where
  "check_steps frepr cat seen [] = Inr ()"
| "check_steps frepr cat seen (s # ss) =
     (if st_id s \<in> seen then Inl (DuplicateStep (st_id s))
      else case check_registered_step frepr cat s of
        Inl e \<Rightarrow> Inl e
      | Inr _ \<Rightarrow> check_steps frepr cat (insert (st_id s) seen) ss)"

definition validate_workflow_definition ::
  "(pyfloat \<Rightarrow> string) \<Rightarrow> catalog \<Rightarrow> nat \<Rightarrow> nat \<Rightarrow> wf_def \<Rightarrow> (wf_error, wf_def) result" where
  "validate_workflow_definition frepr cat max_steps max_param_chars d =
     (if max_steps < length (wd_steps d) then Inl TooManySteps
      else case char_budget frepr (wd_steps d) of
        Inl e \<Rightarrow> Inl e
      | Inr n \<Rightarrow>
          if max_param_chars < n then Inl TooManyChars
          else (case check_steps frepr cat {} (wd_steps d) of
              Inl e \<Rightarrow> Inl e
            | Inr _ \<Rightarrow> (case validate_dag d of
                Inl e \<Rightarrow> Inl e
              | Inr _ \<Rightarrow> map_sum id (\<lambda>_. d) (validate_parallel d))))"

section \<open>Redaction, errors, risk\<close>

definition is_vault_value :: "json \<Rightarrow> bool" where
  "is_vault_value v = (parse_vault_ref v \<noteq> None)"

fun redact_run :: "json \<Rightarrow> json" where
  "redact_run (JObj kvs) = JObj (map (\<lambda>(k, v). (k,
       if is_vault_value v then v
       else if is_secret_key k {} then JStr REDACTED
       else redact_run v)) kvs)"
| "redact_run (JList xs) = JList (map redact_run xs)"
| "redact_run v = v"

definition redact_run_params :: "params \<Rightarrow> json" where
  "redact_run_params ps = redact_run (JObj ps)"

text \<open>\<open>model_dump(mode="json")\<close> of a definition.\<close>

definition opt_json :: "('a \<Rightarrow> json) \<Rightarrow> 'a option \<Rightarrow> json" where
  "opt_json f x = (case x of None \<Rightarrow> JNull | Some y \<Rightarrow> f y)"

definition target_json :: "wf_target \<Rightarrow> json" where
  "target_json t = JObj [(''role'', opt_str (tg_role t)), (''name'', opt_str (tg_name t)),
     (''tag'', opt_str (tg_tag t)), (''input_type'', opt_str (tg_input_type t)),
     (''frame_id'', opt_str (tg_frame_id t)), (''index'', opt_json JInt (tg_index t))]"

definition condition_json :: "wf_condition \<Rightarrow> json" where
  "condition_json c = JObj [(''kind'', JStr (cn_kind c)), (''step_id'', opt_str (cn_step_id c)),
     (''op'', opt_str (cn_op c)), (''value'', cn_value c)]"

definition block_json :: "wf_block \<Rightarrow> json" where
  "block_json b = JObj [(''steps'', JList (map JStr (pb_steps b))),
     (''depends_on'', JList (map JStr (pb_depends_on b))), (''max_concurrency'', JInt (pb_max_concurrency b))]"

definition step_json :: "wf_step \<Rightarrow> json" where
  "step_json s = JObj [(''id'', JStr (st_id s)), (''action'', JStr (st_action s)), (''params'', JObj (st_params s)),
     (''target'', opt_json target_json (st_target s)),
     (''expect'', opt_json (\<lambda>e. JObj (expect_json e)) (st_expect s)), (''on_denied'', JStr (st_on_denied s)),
     (''description'', opt_str (st_description s)),
     (''outputs'', JObj (map (\<lambda>(k, v). (k, JStr v)) (st_outputs s))),
     (''depends_on'', JList (map JStr (st_depends_on s))),
     (''condition'', opt_json condition_json (st_condition s))]"

definition definition_json :: "wf_def \<Rightarrow> json" where
  "definition_json d = JObj [(''name'', JStr (wd_name d)), (''version'', JInt (wd_version d)),
     (''description'', opt_str (wd_description d)), (''params_schema'', JObj (wd_params_schema d)),
     (''steps'', JList (map step_json (wd_steps d))), (''parallel'', JList (map block_json (wd_parallel d)))]"

definition redact_definition :: "wf_def \<Rightarrow> json" where
  "redact_definition d = redact {} (definition_json d)"

definition make_run_error :: "string \<Rightarrow> string \<Rightarrow> tool_error" where
  "make_run_error message errcode = mk_tool_error message (Some ''workflow'')
     (Code (case error_code_of errcode of Some c \<Rightarrow> c | None \<Rightarrow> E_PROVIDER_ERROR))"

definition is_mutating :: "wf_def \<Rightarrow> bool" where
  "is_mutating d = (\<exists>s \<in> set (wd_steps d). st_action s \<in> MUTATING_STEP_ACTIONS)"


section \<open>The dependency graph\<close>

definition step_deps :: "wf_def \<Rightarrow> (string \<times> string list) list" where
  "step_deps d = map (\<lambda>s. (st_id s, st_depends_on s)) (wd_steps d)"

text \<open>The dependencies of a definition as pairs (dependency, dependent).\<close>

definition dependencies :: "wf_def \<Rightarrow> (string \<times> string) list" where
  "dependencies d = dep_pairs (step_deps d)"

lemma fold_update_fresh:
  assumes "distinct (map f xs)" and "f ` set xs \<inter> fst ` set t = {}"
  shows "fold (\<lambda>s. AList.update (f s) s) xs t = t @ map (\<lambda>s. (f s, s)) xs"
  using assms
proof (induction xs arbitrary: t)
  case (Cons x xs)
  have "AList.update (f x) x t = t @ [(f x, x)]"
    using Cons.prems by (intro update_append_fresh) auto
  then show ?case using Cons.IH [of "t @ [(f x, x)]"] Cons.prems by auto
qed simp

lemma fold_update_keys:
  "fst ` set (fold (\<lambda>s. AList.update (f s) s) xs t) = fst ` set t \<union> f ` set xs"
  by (induction xs arbitrary: t) (auto simp: dom_update)

lemma fold_update_distinct:
  "distinct (map fst t) \<Longrightarrow> distinct (map fst (fold (\<lambda>s. AList.update (f s) s) xs t))"
  by (induction xs arbitrary: t) (auto intro: distinct_update)

lemma step_ids_keys: "fst ` set (step_ids d) = st_id ` set (wd_steps d)"
  by (simp add: step_ids_def fold_update_keys)

lemma step_ids_distinct: "distinct (map fst (step_ids d))"
  unfolding step_ids_def by (rule fold_update_distinct) simp

lemma step_ids_eq:
  "distinct (map st_id (wd_steps d)) \<Longrightarrow> step_ids d = map (\<lambda>s. (st_id s, s)) (wd_steps d)"
  unfolding step_ids_def by (subst fold_update_fresh) auto

lemma step_ids_length: "length (step_ids d) = length (wd_steps d) \<longleftrightarrow> distinct (map st_id (wd_steps d))"
proof -
  have "length (step_ids d) = card (st_id ` set (wd_steps d))"
    using distinct_card [OF step_ids_distinct [of d]] by (simp add: step_ids_keys)
  then show ?thesis by (metis card_distinct distinct_card length_map list.set_map)
qed

lemma dep_pairs_in:
  "(u, v) \<in> set (dep_pairs g) \<longleftrightarrow> (\<exists>ds. (v, ds) \<in> set g \<and> u \<in> set ds)"
  by (auto simp: dep_pairs_def)

lemma validate_dag_core:
  "validate_dag d = Inr () \<longleftrightarrow>
     distinct (map st_id (wd_steps d))
     \<and> (\<forall>s \<in> set (wd_steps d). set (st_depends_on s) \<subseteq> st_id ` set (wd_steps d))
     \<and> (\<forall>i \<in> st_id ` set (wd_steps d). length (out_of (dependencies d) i) \<le> 8)
     \<and> acyclic (set (dependencies d))"
  and validate_dag_no_key_error: "validate_dag d \<noteq> Inl PyKeyError"
proof -
  let ?ids = "map fst (step_ids d)"
  let ?steps = "wd_steps d"
  have "(validate_dag d = Inr () \<longleftrightarrow>
     distinct (map st_id ?steps)
     \<and> (\<forall>s \<in> set ?steps. set (st_depends_on s) \<subseteq> st_id ` set ?steps)
     \<and> (\<forall>i \<in> st_id ` set ?steps. length (out_of (dependencies d) i) \<le> 8)
     \<and> acyclic (set (dependencies d))) \<and> validate_dag d \<noteq> Inl PyKeyError"
  proof (cases "distinct (map st_id ?steps)")
    case False
    then show ?thesis by (simp add: validate_dag_def step_ids_length)
  next
    case distinct: True
    have ids: "?ids = map st_id ?steps" by (simp add: step_ids_eq [OF distinct] o_def)
    have init: "(map (\<lambda>i. (i, [])) ?ids, map (\<lambda>i. (i, 0)) ?ids) = tables_of ?ids ([] :: (string \<times> string) list)"
      by (simp add: tables_of_def out_of_def in_count_def)
    have len: "\<not> length ?ids \<noteq> length ?steps" by (simp add: ids)
    show ?thesis
    proof (cases "\<forall>s \<in> set ?steps. set (st_depends_on s) \<subseteq> set ?ids")
      case False
      then obtain s where "s \<in> set ?steps" and unknown: "\<not> set (st_depends_on s) \<subseteq> set ?ids" by blast
      then have "(st_id s, st_depends_on s) \<in> set (step_deps d)" by (simp add: step_deps_def)
      from dependency_tables_unknown [OF this unknown] obtain e where
        "dependency_tables (set ?ids) (step_deps d) (tables_of ?ids []) = Inl e" by blast
      then have "validate_dag d = Inl (UnknownDependency (fst e) (snd e))"
        using len unfolding validate_dag_def Let_def init step_deps_def by (simp add: case_prod_beta)
      then show ?thesis using False by (simp add: ids)
    next
      case known: True
      have tables: "dependency_tables (set ?ids) (step_deps d) (tables_of ?ids []) = Inr (tables_of ?ids (dependencies d))"
        using dependency_tables_known [of ?ids "step_deps d" "set ?ids" "[]"] distinct known
        by (auto simp: ids step_deps_def dependencies_def)
      have sub: "set (dependencies d) \<subseteq> set ?ids \<times> set ?ids"
        using known by (fastforce simp: dependencies_def dep_pairs_in step_deps_def ids)
      have dids: "distinct ?ids" using distinct by (simp add: ids)
      from kahn_counts_acyclic [OF dids sub] obtain n where
        kahn: "kahn (fst (tables_of ?ids (dependencies d))) (start_queue (snd (tables_of ?ids (dependencies d))))
            (snd (tables_of ?ids (dependencies d))) 0 = Some n"
        and n: "n = length ?ids \<longleftrightarrow> acyclic (set (dependencies d))" by blast
      let ?fan = "check_all (\<lambda>(sid, deps). if 8 < length deps then Inl (FanOut sid) else Inr ())
          (fst (tables_of ?ids (dependencies d)))"
      have run: "validate_dag d = (case ?fan of Inl e \<Rightarrow> Inl e
          | Inr _ \<Rightarrow> if n \<noteq> length ?ids then Inl DependencyCycle else Inr ())"
        unfolding validate_dag_def Let_def init step_deps_def [symmetric] tables
        using len kahn by (cases ?fan) (simp_all add: case_prod_beta)
      have fan: "?fan = Inr () \<longleftrightarrow> (\<forall>i \<in> set ?ids. length (out_of (dependencies d) i) \<le> 8)"
        by (auto simp: check_all_ok_iff tables_of_def split: if_splits)
      have "?fan \<noteq> Inl PyKeyError"
        by (auto dest!: check_all_err split: if_splits prod.splits)
      then show ?thesis
        using fan n distinct known unfolding run by (cases ?fan) (auto simp: ids)
    qed
  qed
  then show "validate_dag d = Inr () \<longleftrightarrow>
     distinct (map st_id ?steps)
     \<and> (\<forall>s \<in> set ?steps. set (st_depends_on s) \<subseteq> st_id ` set ?steps)
     \<and> (\<forall>i \<in> st_id ` set ?steps. length (out_of (dependencies d) i) \<le> 8)
     \<and> acyclic (set (dependencies d))" and "validate_dag d \<noteq> Inl PyKeyError" by blast+
qed


section \<open>Rendering\<close>

lemma has_placeholder_braces: "has_placeholder t \<Longrightarrow> contains ''{{'' t"
  by (induction t) (auto simp: placeholder_at_def split: if_splits)

lemma render_text_final: "render_text frepr False ps s = Inr t \<Longrightarrow> \<not> has_placeholder t"
  using has_placeholder_braces [of t] by (auto simp: render_text_def split: if_splits sum.splits)

lemma try_map_fixed: "(\<And>x. x \<in> set xs \<Longrightarrow> f x = Inr x) \<Longrightarrow> try_map f xs = Inr xs"
  by (induction xs) auto

lemma list_all2_right: "list_all2 P xs ys \<Longrightarrow> y \<in> set ys \<Longrightarrow> \<exists>x \<in> set xs. P x y"
  by (induction rule: list_all2_induct) auto

lemma map_sum_Inr_iff: "map_sum id f r = Inr y \<longleftrightarrow> (\<exists>x. r = Inr x \<and> y = f x)"
  by (cases r) auto

text \<open>A rendered value has no placeholder left, so it renders to itself under any params.\<close>

lemma render_final:
  "render frepr False ps v = Inr w \<Longrightarrow> render frepr' lax ps' w = Inr w
     \<and> (\<forall>t. JStr t \<in> set (subvalues w) \<longrightarrow> \<not> has_placeholder t)"
proof (induction frepr "False" ps v arbitrary: w rule: render.induct)
  case (1 frepr ps s)
  then obtain t where t: "w = JStr t" "render_text frepr False ps s = Inr t" by (auto simp: map_sum_Inr_iff)
  then show ?case using render_text_final [OF t(2)] by (simp add: render_text_def)
next
  case (2 frepr ps kvs)
  then obtain kws where w: "w = JObj kws"
    and all: "list_all2 (\<lambda>p q. (case p of (k, v) \<Rightarrow> map_sum id (Pair k) (render frepr False ps v)) = Inr q) kvs kws"
    by (auto simp: map_sum_Inr_iff try_map_Inr_iff)
  have each: "render frepr' lax ps' x = Inr x \<and> (\<forall>t. JStr t \<in> set (subvalues x) \<longrightarrow> \<not> has_placeholder t)"
    if kx: "(k, x) \<in> set kws" for k x
  proof -
    obtain p where p: "p \<in> set kvs" "(case p of (k, v) \<Rightarrow> map_sum id (Pair k) (render frepr False ps v)) = Inr (k, x)"
      using list_all2_right [OF all kx] by blast
    obtain k' v where kv: "p = (k', v)" by fastforce
    with p have "render frepr False ps v = Inr x" by (auto simp: map_sum_Inr_iff)
    then show ?thesis using 2(1) [OF p(1) kv [symmetric]] by blast
  qed
  then have "try_map (\<lambda>(k, v). map_sum id (Pair k) (render frepr' lax ps' v)) kws = Inr kws"
    by (intro try_map_fixed) (auto simp: map_sum_Inr_iff)
  then show ?case using each by (auto simp: w)
next
  case (3 frepr ps xs)
  then obtain ys where w: "w = JList ys" and all: "list_all2 (\<lambda>x y. render frepr False ps x = Inr y) xs ys"
    by (auto simp: map_sum_Inr_iff try_map_Inr_iff)
  have each: "render frepr' lax ps' y = Inr y \<and> (\<forall>t. JStr t \<in> set (subvalues y) \<longrightarrow> \<not> has_placeholder t)"
    if "y \<in> set ys" for y
    using list_all2_right [OF all that] 3(1) by blast
  then have "try_map (render frepr' lax ps') ys = Inr ys" by (intro try_map_fixed) auto
  then show ?case using each by (auto simp: w)
qed simp_all

lemma render_params_obj: "render frepr lax ps (JObj kvs) = map_sum id JObj (render_params frepr lax ps kvs)"
  by (simp add: render_params_def)

lemma lookup_scalar:
  "lookup frepr ps name = Inr t \<Longrightarrow> \<exists>v. map_of ps name = Some v \<and> is_scalar v \<and> v \<noteq> JNull \<and> str_of frepr v = Inr t"
  by (auto simp: lookup_def get_param_def is_scalar_def has_key_def simp del: has_key_iff
      split: if_splits json.splits option.splits)

section \<open>Accepted definitions\<close>

lemma check_steps_all:
  "check_steps frepr cat seen ss = Inr () \<longleftrightarrow>
     distinct (map st_id ss) \<and> st_id ` set ss \<inter> seen = {} \<and> (\<forall>s \<in> set ss. check_registered_step frepr cat s = Inr ())"
  by (induction frepr cat seen ss rule: check_steps.induct) (auto split: sum.splits)

lemma validate_workflow_Inr:
  "validate_workflow_definition frepr cat ms mc d = Inr d' \<longleftrightarrow>
     d' = d \<and> length (wd_steps d) \<le> ms \<and> (\<exists>n \<le> mc. char_budget frepr (wd_steps d) = Inr n)
     \<and> distinct (map st_id (wd_steps d)) \<and> (\<forall>s \<in> set (wd_steps d). check_registered_step frepr cat s = Inr ())
     \<and> validate_dag d = Inr () \<and> validate_parallel d = Inr ()"
  using check_steps_all [of frepr cat "{}" "wd_steps d"]
  by (auto simp: validate_workflow_definition_def map_sum_Inr_iff not_less split: sum.splits if_splits)

lemma render_params_keys: "render_params frepr lax ps kvs = Inr kws \<Longrightarrow> map fst kws = map fst kvs"
proof (induction kvs arbitrary: kws)
  case (Cons p kvs)
  then show ?case by (cases p) (auto simp: render_params_def map_sum_Inr_iff split: sum.splits)
qed (simp add: render_params_def)

lemma has_key_same: "map fst kws = map fst kvs \<Longrightarrow> has_key kws k = has_key kvs k"
  unfolding has_key_iff by (metis list.set_map)

lemma check_fill_ok:
  "check_fill s = Inr () \<longleftrightarrow> st_action s \<noteq> ''browser.fill''
     \<or> (has_key (st_params s) ''value_ref'' \<and> is_vault_or_placeholder (get_param (st_params s) ''value_ref'')
          \<and> \<not> has_key (st_params s) ''text'')
     \<or> (\<not> has_key (st_params s) ''value_ref'' \<and> (\<exists>t. st_target s = Some t \<and> tg_input_type t \<noteq> Some ''password''))"
  unfolding check_fill_def by (cases "st_target s") (auto simp del: has_key_iff)

lemma check_registered_step_ok:
  assumes "check_registered_step frepr cat s = Inr ()"
  shows "st_action s \<in> ALLOWED_STEP_ACTIONS" and "catalog_get cat (st_action s) \<noteq> None" and "check_fill s = Inr ()"
    and "st_target s \<noteq> None \<Longrightarrow> \<not> has_key (st_params s) ''element_ref'' \<and> \<not> has_key (st_params s) ''selector''"
proof -
  obtain spec where spec: "catalog_get cat (st_action s) = Some spec" "st_action s \<in> ALLOWED_STEP_ACTIONS"
      "check_fill s = Inr ()" "check_step_params frepr spec s = Inr ()"
    using assms by (auto simp: check_registered_step_def split: option.splits if_splits sum.splits)
  then show "st_action s \<in> ALLOWED_STEP_ACTIONS" "catalog_get cat (st_action s) \<noteq> None" "check_fill s = Inr ()"
    by simp_all
  obtain rendered effective where r: "render_workflow_params frepr s [] True = Inr rendered"
    and e: "inject_target s rendered = Inr effective"
    using spec(4) by (auto simp: check_step_params_def split: sum.splits)
  note same = has_key_same [OF render_params_keys [OF r [unfolded render_workflow_params_def]]]
  show "\<not> has_key (st_params s) ''element_ref'' \<and> \<not> has_key (st_params s) ''selector''" if "st_target s \<noteq> None"
    using e that unfolding inject_target_def same by (auto simp del: has_key_iff split: option.splits if_splits)
qed


section \<open>Properties\<close>

definition plain_step :: "string \<Rightarrow> string \<Rightarrow> params \<Rightarrow> wf_step" where
  "plain_step sid act ps = \<lparr>st_id = sid, st_action = act, st_params = ps, st_target = None, st_expect = None,
     st_on_denied = ''stop'', st_description = None, st_outputs = [], st_depends_on = [], st_condition = None\<rparr>"

definition no_target :: wf_target where
  "no_target = \<lparr>tg_role = None, tg_name = None, tg_tag = None, tg_input_type = None, tg_frame_id = None,
     tg_index = None\<rparr>"

lemma vault_or_placeholder_str: "is_vault_or_placeholder v \<Longrightarrow> \<exists>ref. v = JStr ref"
  by (cases v) (simp_all add: is_vault_or_placeholder_def)

definition demo_workflow :: wf_def where
  "demo_workflow = \<lparr>wd_name = ''w'', wd_version = 1, wd_description = None, wd_params_schema = [],
     wd_steps = [(plain_step ''b'' ''browser.fill'' [(''value_ref'', JStr ''{{p}}'')])
                   \<lparr>st_depends_on := [''a''], st_target := Some (no_target\<lparr>tg_input_type := Some ''password''\<rparr>)\<rparr>,
                 plain_step ''a'' ''browser.tabs'' []],
     wd_parallel = []\<rparr>"

definition demo_browser_catalog :: catalog where
  "demo_browser_catalog =
     [(''browser.fill'', \<lparr>as_action_type = ''browser.fill'', as_risk = MUTATING, as_domain = ''browser'',
         as_secret_fields = {}, as_param_schema = None\<rparr>),
      (''browser.tabs'', \<lparr>as_action_type = ''browser.tabs'', as_risk = SAFE, as_domain = ''browser'',
         as_secret_fields = {}, as_param_schema = None\<rparr>)]"

lemma demo_workflow_valid:
  "validate_workflow_definition (\<lambda>_. []) demo_browser_catalog 50 100 demo_workflow = Inr demo_workflow"
proof -
  have "char_budget (\<lambda>_. []) (wd_steps demo_workflow) = Inr 5" "check_fill (hd (wd_steps demo_workflow)) = Inr ()"
      "render_text (\<lambda>_. []) True [] ''{{p}}'' = Inr ''wf-param''"
      "validate_dag demo_workflow = Inr ()" "validate_parallel demo_workflow = Inr ()"
    by code_simp+
  moreover have "check_step_params (\<lambda>_. []) (snd (hd demo_browser_catalog)) (hd (wd_steps demo_workflow)) = Inr ()"
    using \<open>render_text (\<lambda>_. []) True [] ''{{p}}'' = Inr ''wf-param''\<close>
    by (simp add: check_step_params_def render_workflow_params_def render_params_def inject_target_def demo_workflow_def
        plain_step_def validate_params_def string_limit_for_def MAX_STR_LEN_def MAX_PARAMS_def MAX_PARAM_KEY_LEN_def
        SYNTHETIC_REF_def demo_browser_catalog_def)
  ultimately show ?thesis
    unfolding validate_workflow_Inr
    by (auto simp: demo_workflow_def plain_step_def check_registered_step_def demo_browser_catalog_def catalog_get_def
        ALLOWED_STEP_ACTIONS_def check_fill_def check_step_params_def render_workflow_params_def render_params_def
        inject_target_def validate_params_def)
qed

lemma demo_workflow_cycle:
  "validate_dag (demo_workflow\<lparr>wd_steps := [(plain_step ''a'' ''browser.tabs'' [])\<lparr>st_depends_on := [''b'']\<rparr>,
     (plain_step ''b'' ''browser.tabs'' [])\<lparr>st_depends_on := [''a'']\<rparr>]\<rparr>) = Inl DependencyCycle"
  by code_simp

text \<open>C18. The graph check decides acyclicity: \<open>_validate_dag\<close> accepts a definition exactly when the step ids are
  distinct, every dependency is a step, no step has more than eight dependents and the dependency
  relation has no cycle; and it never fails with a \<open>KeyError\<close>.\<close>
theorem validate_dag_decides_acyclic:
  "(validate_dag d = Inr () \<longleftrightarrow>
     distinct (map st_id (wd_steps d))
     \<and> (\<forall>s \<in> set (wd_steps d). set (st_depends_on s) \<subseteq> st_id ` set (wd_steps d))
     \<and> (\<forall>i \<in> st_id ` set (wd_steps d). length (out_of (dependencies d) i) \<le> 8)
     \<and> acyclic (set (dependencies d)))
   \<and> validate_dag d \<noteq> Inl PyKeyError"
  using validate_dag_core validate_dag_no_key_error by blast

lemma validate_dag_decides_acyclic_witness: "acyclic (set (dependencies demo_workflow))"
proof -
  have "validate_dag demo_workflow = Inr ()" by code_simp
  then show ?thesis using validate_dag_decides_acyclic [of demo_workflow] by blast
qed





text \<open>The comment above \<open>_is_vault_or_placeholder\<close> asks for a \<open>vault:browser\<close> reference; the code takes a
  reference of any domain.\<close>

lemma foreign_vault_domain_accepted: "is_vault_or_placeholder (JStr ''vault:email/imap'')"
  by code_simp

text \<open>What is stored of the params of a run: vault references stay, anything else under a secret key goes.\<close>

lemma redact_run_secret:
  "(k, v) \<in> set (bindings (redact_run w)) \<Longrightarrow> is_secret_key k {} \<Longrightarrow> v = JStr REDACTED \<or> is_vault_value v"
proof (induction w rule: redact_run.induct)
  case (1 kvs)
  then obtain k' v' where kv: "(k', v') \<in> set kvs"
    and cases: "k = k' \<and> v = (if is_vault_value v' then v' else if is_secret_key k' {} then JStr REDACTED else redact_run v')
      \<or> (k, v) \<in> set (bindings (if is_vault_value v' then v' else if is_secret_key k' {} then JStr REDACTED else redact_run v'))"
    by fastforce
  have leaf: "bindings u = []" if "is_vault_value u" for u
    using that by (auto simp: is_vault_value_def parse_vault_ref_def split: json.splits)
  from cases show ?case
  proof
    assume "(k, v) \<in> set (bindings (if is_vault_value v' then v' else if is_secret_key k' {} then JStr REDACTED else redact_run v'))"
    then have "(k, v) \<in> set (bindings (redact_run v'))" "\<not> is_vault_value v'" "\<not> is_secret_key k' {}"
      using leaf by (auto split: if_splits)
    then show ?thesis using 1(1) [OF kv refl] 1(3) by blast
  qed (use 1(3) in auto)
next
  case (2 xs)
  then show ?case by auto
qed simp_all

end
