(* ===== verification/Workflow_Catalog.thy ===== *)
theory Workflow_Catalog
  imports Workflow_Definition
begin

text \<open>
  Model of \<^verbatim>\<open>era/workflows/catalog.py\<close>, the registry of validated workflows, and of the workflows of
  \<^verbatim>\<open>era/workflows/reference.py\<close> that a new catalog is filled with.
\<close>

section \<open>The catalog\<close>

record wf_catalog =
  wc_max_steps :: nat
  wc_definitions :: "(string \<times> wf_def) list"

definition new_catalog :: "nat \<Rightarrow> wf_catalog" where
  "new_catalog max_steps = \<lparr>wc_max_steps = max_steps, wc_definitions = []\<rparr>"

definition checksum :: "(string \<Rightarrow> string) \<Rightarrow> (pyfloat \<Rightarrow> string) \<Rightarrow> wf_def \<Rightarrow> string" where
  "checksum sha frepr d = sha (canonical_json frepr (definition_json d))"

definition wf_register ::
  "(string \<Rightarrow> string) \<Rightarrow> (pyfloat \<Rightarrow> string) \<Rightarrow> catalog \<Rightarrow> nat option \<Rightarrow> wf_def \<Rightarrow> wf_catalog
     \<Rightarrow> (wf_error, wf_def) result \<times> wf_catalog" where
  "wf_register sha frepr cat max_steps d wc =
     (let step_cap = (case max_steps of Some n \<Rightarrow> n | None \<Rightarrow> wc_max_steps wc)
      in case validate_workflow_definition frepr cat step_cap DEFAULT_MAX_WORKFLOW_PARAM_CHARS d of
        Inl e \<Rightarrow> (Inl e, wc)
      | Inr _ \<Rightarrow>
          if (case map_of (wc_definitions wc) (wd_name d) of
                None \<Rightarrow> False
              | Some existing \<Rightarrow> checksum sha frepr existing \<noteq> checksum sha frepr d)
          then (Inl (AlreadyRegistered (wd_name d)), wc)
          else (Inr d, wc\<lparr>wc_definitions := AList.update (wd_name d) d (wc_definitions wc)\<rparr>))"

definition wf_get :: "wf_catalog \<Rightarrow> string \<Rightarrow> wf_def option" where
  "wf_get wc name = map_of (wc_definitions wc) name"

definition wf_contains :: "wf_catalog \<Rightarrow> string \<Rightarrow> bool" where
  "wf_contains wc name = (map_of (wc_definitions wc) name \<noteq> None)"

definition wf_names :: "wf_catalog \<Rightarrow> string list" where
  "wf_names wc = sort (map fst (wc_definitions wc))"

definition wf_list :: "wf_catalog \<Rightarrow> wf_def list" where
  "wf_list wc = map (\<lambda>n. the (map_of (wc_definitions wc) n)) (wf_names wc)"

section \<open>The reference workflows\<close>

definition string_type :: json where "string_type = JObj [(''type'', JStr ''string'')]"

definition object_schema :: "string list \<Rightarrow> string list \<Rightarrow> params" where
  "object_schema props required = [(''type'', JStr ''object''),
     (''properties'', JObj (map (\<lambda>p. (p, string_type)) props)),
     (''required'', JList (map JStr required))]"

definition described :: "string \<Rightarrow> wf_step \<Rightarrow> wf_step" where
  "described text s = s\<lparr>st_description := Some text\<rparr>"

definition nav_step :: wf_step where
  "nav_step = plain_step ''nav'' ''browser.navigate'' [(''url'', JStr ''{{url}}'')]"

definition navigation_expect :: wf_expect where
  "navigation_expect = \<lparr>ex_kind = ''navigation'', ex_url_contains = Some ''{{expected_url_contains}}''\<rparr>"

definition textbox :: "string option \<Rightarrow> string \<Rightarrow> wf_target" where
  "textbox name input_type = no_target\<lparr>tg_role := Some ''textbox'', tg_name := name, tg_input_type := Some input_type\<rparr>"

definition LOGIN_WORKFLOW :: wf_def where
  "LOGIN_WORKFLOW = \<lparr>wd_name = ''login'', wd_version = 1,
     wd_description = Some (''Sign into a public web app: navigate, fill credentials from the vault, '' @
       ''submit with a navigation post-condition, then verify the landing page.''),
     wd_params_schema = object_schema [''url'', ''username_vault'', ''password_vault'', ''expected_url_contains'']
       [''url'', ''username_vault'', ''password_vault''],
     wd_steps =
       [described ''navigate to the login URL'' nav_step,
        described ''fill the username from the vault''
          ((plain_step ''fill_user'' ''browser.fill'' [(''value_ref'', JStr ''{{username_vault}}'')])
             \<lparr>st_target := Some (textbox (Some ''Username'') ''text'')\<rparr>),
        described ''fill the password from the vault''
          ((plain_step ''fill_pass'' ''browser.fill'' [(''value_ref'', JStr ''{{password_vault}}'')])
             \<lparr>st_target := Some (textbox (Some ''Password'') ''password'')\<rparr>),
        described ''submit the login form and require a navigation post-condition''
          ((plain_step ''submit'' ''browser.submit'' [])
             \<lparr>st_target := Some (no_target\<lparr>tg_role := Some ''button'', tg_name := Some ''Submit'',
                 tg_tag := Some ''button''\<rparr>),
              st_expect := Some navigation_expect\<rparr>),
        described ''verify a deterministic post-condition on the landing page''
          ((plain_step ''verify'' ''browser.extract_dom'' [(''max_chars'', JInt 2000)])
             \<lparr>st_outputs := [(''landing_text'', ''text'')]\<rparr>)],
     wd_parallel = []\<rparr>"

definition SEARCH_EXTRACT_WORKFLOW :: wf_def where
  "SEARCH_EXTRACT_WORKFLOW = \<lparr>wd_name = ''search_and_extract'', wd_version = 1,
     wd_description = Some (''Open a search page, type a non-secret query into a declared text field, '' @
       ''submit, and extract the results page as bounded markdown.''),
     wd_params_schema = object_schema [''url'', ''query'', ''expected_url_contains''] [''url'', ''query''],
     wd_steps =
       [nav_step,
        described ''fill a non-secret query into the search field''
          ((plain_step ''fill_query'' ''browser.fill'' [(''text'', JStr ''{{query}}'')])
             \<lparr>st_target := Some (textbox None ''text'')\<rparr>),
        (plain_step ''submit'' ''browser.submit'' [])
          \<lparr>st_target := Some (no_target\<lparr>tg_role := Some ''button''\<rparr>), st_expect := Some navigation_expect\<rparr>,
        (plain_step ''extract'' ''browser.extract_dom'' [(''max_chars'', JInt 5000)])
          \<lparr>st_outputs := [(''markdown'', ''markdown'')]\<rparr>],
     wd_parallel = []\<rparr>"

definition DOWNLOAD_WORKFLOW :: wf_def where
  "DOWNLOAD_WORKFLOW = \<lparr>wd_name = ''download_report'', wd_version = 1,
     wd_description = Some (''Open a page containing a download link and save the artifact to the '' @
       ''workspace under a workflow-supplied path (workspace-confined, size-bound).''),
     wd_params_schema = object_schema [''url'', ''path''] [''url'', ''path''],
     wd_steps =
       [nav_step,
        described ''download the artifact from a link on the page''
          ((plain_step ''grab'' ''browser.download'' [(''path'', JStr ''{{path}}'')])
             \<lparr>st_target := Some (no_target\<lparr>tg_role := Some ''link''\<rparr>)\<rparr>)],
     wd_parallel = []\<rparr>"

definition REFERENCE_WORKFLOWS :: "wf_def list" where
  "REFERENCE_WORKFLOWS = [LOGIN_WORKFLOW, SEARCH_EXTRACT_WORKFLOW, DOWNLOAD_WORKFLOW]"

text \<open>The exception of a registration ends the construction.\<close>

fun register_all ::
  "(string \<Rightarrow> string) \<Rightarrow> (pyfloat \<Rightarrow> string) \<Rightarrow> catalog \<Rightarrow> wf_def list \<Rightarrow> wf_catalog \<Rightarrow> (wf_error, wf_catalog) result" where
  "register_all sha frepr cat [] wc = Inr wc"
| "register_all sha frepr cat (d # ds) wc = (case wf_register sha frepr cat None d wc of
       (Inl e, _) \<Rightarrow> Inl e
     | (Inr _, wc') \<Rightarrow> register_all sha frepr cat ds wc')"

definition build_default_catalog ::
  "(string \<Rightarrow> string) \<Rightarrow> (pyfloat \<Rightarrow> string) \<Rightarrow> catalog \<Rightarrow> (wf_error, wf_catalog) result" where
  "build_default_catalog sha frepr cat =
     register_all sha frepr cat REFERENCE_WORKFLOWS (new_catalog DEFAULT_MAX_WORKFLOW_STEPS)"

section \<open>The reference workflows are accepted\<close>

lemma reference_workflows_construct: "list_all (\<lambda>d. is_ok (construct d)) REFERENCE_WORKFLOWS"
  by code_simp

lemma reference_graphs: "d \<in> set REFERENCE_WORKFLOWS \<Longrightarrow> validate_dag d = Inr () \<and> validate_parallel d = Inr ()"
proof -
  have "list_all (\<lambda>d. validate_dag d = Inr () \<and> validate_parallel d = Inr ()) REFERENCE_WORKFLOWS" by code_simp
  then show "d \<in> set REFERENCE_WORKFLOWS \<Longrightarrow> validate_dag d = Inr () \<and> validate_parallel d = Inr ()"
    by (simp add: list_all_iff)
qed


lemma step_accepted:
  assumes "catalog_get ACTION_CATALOG (st_action s) = Some (mk_spec (st_action s) risk domain secrets)"
    and "st_action s \<in> ALLOWED_STEP_ACTIONS" and "check_fill s = Inr ()"
    and "render_params frepr True [] (st_params s) = Inr rendered" and "inject_target s rendered = Inr effective"
    and "validate_params frepr effective None None = Inr effective"
    and "validate_param_schema effective (map_of ACTION_PARAM_SCHEMAS (st_action s)) = Inr effective"
  shows "check_registered_step frepr ACTION_CATALOG s = Inr ()"
  using assms by (auto simp: check_registered_step_def check_step_params_def render_workflow_params_def mk_spec_def
      split: option.splits)

lemma placeholders:
  "render_text frepr True [] ''{{url}}'' = Inr ''wf-param''"
  "render_text frepr True [] ''{{username_vault}}'' = Inr ''wf-param''"
  "render_text frepr True [] ''{{password_vault}}'' = Inr ''wf-param''"
  "render_text frepr True [] ''{{query}}'' = Inr ''wf-param''"
  "render_text frepr True [] ''{{path}}'' = Inr ''wf-param''"
proof -
  have lax: "render_text frepr True [] t = render_text (\<lambda>_. []) True [] t" for t by (simp add: render_text_def)
  show "render_text frepr True [] ''{{url}}'' = Inr ''wf-param''"
    "render_text frepr True [] ''{{username_vault}}'' = Inr ''wf-param''"
    "render_text frepr True [] ''{{password_vault}}'' = Inr ''wf-param''"
    "render_text frepr True [] ''{{query}}'' = Inr ''wf-param''"
    "render_text frepr True [] ''{{path}}'' = Inr ''wf-param''"
    unfolding lax by code_simp+
qed

lemma browser_specs:
  "catalog_get ACTION_CATALOG ''browser.navigate'' = Some (mk_spec ''browser.navigate'' SENSITIVE ''browser'' [])"
  "catalog_get ACTION_CATALOG ''browser.submit'' = Some (mk_spec ''browser.submit'' MUTATING ''browser'' [])"
  "catalog_get ACTION_CATALOG ''browser.extract_dom'' = Some (mk_spec ''browser.extract_dom'' SAFE ''browser'' [])"
  "catalog_get ACTION_CATALOG ''browser.download'' = Some (mk_spec ''browser.download'' MUTATING ''browser'' [])"
  unfolding catalog_get_iff by (simp_all add: SPECS_def, simp_all add: mk_spec_def)

definition synth :: "string \<times> json" where "synth = (''element_ref'', JStr SYNTHETIC_REF)"

lemma browser_shapes_accept:
  "validate_param_schema [(''url'', JStr ''wf-param'')] (map_of ACTION_PARAM_SCHEMAS ''browser.navigate'')
     = Inr [(''url'', JStr ''wf-param'')]"
  "validate_param_schema [(''value_ref'', JStr ''wf-param''), synth] (map_of ACTION_PARAM_SCHEMAS ''browser.fill'')
     = Inr [(''value_ref'', JStr ''wf-param''), synth]"
  "validate_param_schema [(''text'', JStr ''wf-param''), synth] (map_of ACTION_PARAM_SCHEMAS ''browser.fill'')
     = Inr [(''text'', JStr ''wf-param''), synth]"
  "validate_param_schema [synth] (map_of ACTION_PARAM_SCHEMAS ''browser.submit'') = Inr [synth]"
  "validate_param_schema [(''max_chars'', JInt 2000)] (map_of ACTION_PARAM_SCHEMAS ''browser.extract_dom'')
     = Inr [(''max_chars'', JInt 2000)]"
  "validate_param_schema [(''max_chars'', JInt 5000)] (map_of ACTION_PARAM_SCHEMAS ''browser.extract_dom'')
     = Inr [(''max_chars'', JInt 5000)]"
  "validate_param_schema [(''path'', JStr ''wf-param''), synth] (map_of ACTION_PARAM_SCHEMAS ''browser.download'')
     = Inr [(''path'', JStr ''wf-param''), synth]"
  by code_simp+


lemma synth_value: "snd synth = JStr SYNTHETIC_REF" "fst synth = ''element_ref''" "length SYNTHETIC_REF = 43"
  by (simp_all add: synth_def SYNTHETIC_REF_def)

lemma digits: "length (show_nat 2000) = 4" "length (show_nat 5000) = 4"
  by (simp_all add: show_nat.simps [of 2000] show_nat.simps [of 200] show_nat.simps [of 20] show_nat.simps [of 2]
      show_nat.simps [of 5000] show_nat.simps [of 500] show_nat.simps [of 50] show_nat.simps [of 5])

lemma browser_params_accept:
  "validate_params frepr [(''url'', JStr ''wf-param'')] None None = Inr [(''url'', JStr ''wf-param'')]"
  "validate_params frepr [(''value_ref'', JStr ''wf-param''), synth] None None = Inr [(''value_ref'', JStr ''wf-param''), synth]"
  "validate_params frepr [(''text'', JStr ''wf-param''), synth] None None = Inr [(''text'', JStr ''wf-param''), synth]"
  "validate_params frepr [synth] None None = Inr [synth]"
  "validate_params frepr [(''path'', JStr ''wf-param''), synth] None None = Inr [(''path'', JStr ''wf-param''), synth]"
  "validate_params frepr [(''max_chars'', JInt 2000)] None None = Inr [(''max_chars'', JInt 2000)]"
  "validate_params frepr [(''max_chars'', JInt 5000)] None None = Inr [(''max_chars'', JInt 5000)]"
proof -
  show "validate_params frepr [(''url'', JStr ''wf-param'')] None None = Inr [(''url'', JStr ''wf-param'')]"
    "validate_params frepr [(''value_ref'', JStr ''wf-param''), synth] None None = Inr [(''value_ref'', JStr ''wf-param''), synth]"
    "validate_params frepr [(''text'', JStr ''wf-param''), synth] None None = Inr [(''text'', JStr ''wf-param''), synth]"
    "validate_params frepr [synth] None None = Inr [synth]"
    "validate_params frepr [(''path'', JStr ''wf-param''), synth] None None = Inr [(''path'', JStr ''wf-param''), synth]"
    "validate_params frepr [(''max_chars'', JInt 2000)] None None = Inr [(''max_chars'', JInt 2000)]"
    "validate_params frepr [(''max_chars'', JInt 5000)] None None = Inr [(''max_chars'', JInt 5000)]"
    unfolding validate_params_iff
    by (simp_all add: tree_ok_simps string_limit_for_def MAX_STR_LEN_def MAX_PARAMS_def MAX_PARAM_KEY_LEN_def
        synth_value digits case_prod_beta)
qed

lemma reference_refs:
  "is_vault_or_placeholder (JStr ''{{username_vault}}'')" "is_vault_or_placeholder (JStr ''{{password_vault}}'')"
  by code_simp+

lemma nav_accepted:
  assumes "st_action s = ''browser.navigate''" and "st_params s = [(''url'', JStr ''{{url}}'')]" and "st_target s = None"
  shows "check_registered_step frepr ACTION_CATALOG s = Inr ()"
  by (rule step_accepted [where rendered = "[(''url'', JStr ''wf-param'')]" and effective = "[(''url'', JStr ''wf-param'')]",
        of _ SENSITIVE "''browser''" "[]"])
    (simp_all add: assms ALLOWED_STEP_ACTIONS_def check_fill_def render_params_def placeholders inject_target_def
      browser_specs browser_params_accept browser_shapes_accept)

lemma fill_ref_accepted:
  assumes "st_action s = ''browser.fill''" and "st_params s = [(''value_ref'', JStr t)]" and "st_target s \<noteq> None"
    and "is_vault_or_placeholder (JStr t)" and "render_text frepr True [] t = Inr ''wf-param''"
  shows "check_registered_step frepr ACTION_CATALOG s = Inr ()"
  by (rule step_accepted [where rendered = "[(''value_ref'', JStr ''wf-param'')]"
        and effective = "[(''value_ref'', JStr ''wf-param''), synth]", of _ MUTATING "''browser''" "[''text'']"])
    (use assms in \<open>auto simp: ALLOWED_STEP_ACTIONS_def check_fill_def render_params_def inject_target_def get_param_def
      fill_in_catalog browser_params_accept browser_shapes_accept synth_def [symmetric]\<close>)

lemma fill_text_accepted:
  assumes "st_action s = ''browser.fill''" and "st_params s = [(''text'', JStr t)]" and "st_target s = Some g"
    and "tg_input_type g = Some ''text''" and "render_text frepr True [] t = Inr ''wf-param''"
  shows "check_registered_step frepr ACTION_CATALOG s = Inr ()"
  by (rule step_accepted [where rendered = "[(''text'', JStr ''wf-param'')]"
        and effective = "[(''text'', JStr ''wf-param''), synth]", of _ MUTATING "''browser''" "[''text'']"])
    (use assms in \<open>auto simp: ALLOWED_STEP_ACTIONS_def check_fill_def render_params_def inject_target_def
      fill_in_catalog browser_params_accept browser_shapes_accept synth_def [symmetric]\<close>)

lemma submit_accepted:
  assumes "st_action s = ''browser.submit''" and "st_params s = []" and "st_target s \<noteq> None"
  shows "check_registered_step frepr ACTION_CATALOG s = Inr ()"
  by (rule step_accepted [where rendered = "[]" and effective = "[synth]", of _ MUTATING "''browser''" "[]"])
    (use assms in \<open>auto simp: ALLOWED_STEP_ACTIONS_def check_fill_def render_params_def inject_target_def
      browser_specs browser_params_accept browser_shapes_accept synth_def [symmetric]\<close>)

lemma extract_accepted:
  assumes "st_action s = ''browser.extract_dom''" and "st_params s = [(''max_chars'', JInt n)]" and "st_target s = None"
    and "n = 2000 \<or> n = 5000"
  shows "check_registered_step frepr ACTION_CATALOG s = Inr ()"
  by (rule step_accepted [where rendered = "[(''max_chars'', JInt n)]" and effective = "[(''max_chars'', JInt n)]",
        of _ SAFE "''browser''" "[]"])
    (use assms in \<open>auto simp: ALLOWED_STEP_ACTIONS_def check_fill_def render_params_def inject_target_def
      browser_specs browser_params_accept browser_shapes_accept\<close>)

lemma download_accepted:
  assumes "st_action s = ''browser.download''" and "st_params s = [(''path'', JStr ''{{path}}'')]" and "st_target s \<noteq> None"
  shows "check_registered_step frepr ACTION_CATALOG s = Inr ()"
  by (rule step_accepted [where rendered = "[(''path'', JStr ''wf-param'')]"
        and effective = "[(''path'', JStr ''wf-param''), synth]", of _ MUTATING "''browser''" "[]"])
    (use assms in \<open>auto simp: ALLOWED_STEP_ACTIONS_def check_fill_def render_params_def placeholders inject_target_def
      browser_specs browser_params_accept browser_shapes_accept synth_def [symmetric]\<close>)

lemma reference_steps:
  assumes "d \<in> set REFERENCE_WORKFLOWS" and "s \<in> set (wd_steps d)"
  shows "check_registered_step frepr ACTION_CATALOG s = Inr ()"
proof -
  have "list_all (\<lambda>s. check_registered_step frepr ACTION_CATALOG s = Inr ())
      (concat (map wd_steps REFERENCE_WORKFLOWS))"
    by (simp add: REFERENCE_WORKFLOWS_def LOGIN_WORKFLOW_def SEARCH_EXTRACT_WORKFLOW_def DOWNLOAD_WORKFLOW_def
        described_def nav_step_def textbox_def no_target_def plain_step_def
        nav_accepted fill_ref_accepted fill_text_accepted submit_accepted extract_accepted download_accepted
        reference_refs placeholders)
  then show ?thesis using assms by (auto simp: list_all_iff)
qed

lemma reference_budget:
  "d \<in> set REFERENCE_WORKFLOWS \<Longrightarrow> \<exists>n \<le> 16384. char_budget frepr (wd_steps d) = Inr n"
proof -
  have int: "map_sum id length (str_of frepr (JInt 2000)) = Inr 4" "map_sum id length (str_of frepr (JInt 5000)) = Inr 4"
    by (simp_all add: str_of_def int_len_def show_int_def digits)
  have "char_budget frepr (wd_steps LOGIN_WORKFLOW) = Inr 47"
      "char_budget frepr (wd_steps SEARCH_EXTRACT_WORKFLOW) = Inr 20"
      "char_budget frepr (wd_steps DOWNLOAD_WORKFLOW) = Inr 15"
    by (simp_all add: LOGIN_WORKFLOW_def SEARCH_EXTRACT_WORKFLOW_def DOWNLOAD_WORKFLOW_def char_budget_def
        described_def nav_step_def plain_step_def total_def int)
  moreover assume "d \<in> set REFERENCE_WORKFLOWS"
  then have "d = LOGIN_WORKFLOW \<or> d = SEARCH_EXTRACT_WORKFLOW \<or> d = DOWNLOAD_WORKFLOW"
    by (simp add: REFERENCE_WORKFLOWS_def)
  ultimately obtain n where "char_budget frepr (wd_steps d) = Inr n" "n = 47 \<or> n = 20 \<or> n = 15" by blast
  then show ?thesis by (intro exI [of _ n]) auto
qed


lemma reference_workflows_valid:
  assumes "d \<in> set REFERENCE_WORKFLOWS"
  shows "validate_workflow_definition frepr ACTION_CATALOG 50 16384 d = Inr d"
proof -
  have "length (wd_steps d) \<le> 50" "distinct (map st_id (wd_steps d))"
    using assms by (auto simp: REFERENCE_WORKFLOWS_def LOGIN_WORKFLOW_def SEARCH_EXTRACT_WORKFLOW_def
        DOWNLOAD_WORKFLOW_def described_def nav_step_def plain_step_def)
  then show ?thesis
    unfolding validate_workflow_Inr using assms reference_budget reference_graphs reference_steps by blast
qed

section \<open>What the catalog holds\<close>

text \<open>Every registered definition passed the validation, under the name it is stored with.\<close>

definition catalog_ok :: "(pyfloat \<Rightarrow> string) \<Rightarrow> catalog \<Rightarrow> wf_catalog \<Rightarrow> bool" where
  "catalog_ok frepr cat wc = (distinct (map fst (wc_definitions wc))
     \<and> (\<forall>(n, d) \<in> set (wc_definitions wc). wd_name d = n
          \<and> (\<exists>m. validate_workflow_definition frepr cat m 16384 d = Inr d)))"

lemma new_catalog_ok: "catalog_ok frepr cat (new_catalog m)"
  by (simp add: catalog_ok_def new_catalog_def)

lemma catalog_ok_get:
  "catalog_ok frepr cat wc \<Longrightarrow> wf_get wc n = Some d \<Longrightarrow>
     wd_name d = n \<and> (\<exists>m. validate_workflow_definition frepr cat m 16384 d = Inr d)"
  by (auto simp: catalog_ok_def wf_get_def dest: map_of_SomeD)

lemma catalog_okI:
  assumes "distinct (map fst (wc_definitions wc))"
    and "\<And>n d. wf_get wc n = Some d \<Longrightarrow> wd_name d = n \<and> (\<exists>m. validate_workflow_definition frepr cat m 16384 d = Inr d)"
  shows "catalog_ok frepr cat wc"
  using assms by (auto simp: catalog_ok_def wf_get_def)

lemma wf_register_cases:
  assumes "wf_register sha frepr cat ms d wc = (r, wc')"
  obtains e where "r = Inl e" "wc' = wc"
    | m where "r = Inr d" "validate_workflow_definition frepr cat m 16384 d = Inr d"
        "wc' = wc\<lparr>wc_definitions := AList.update (wd_name d) d (wc_definitions wc)\<rparr>"
        "\<And>ex. wf_get wc (wd_name d) = Some ex \<Longrightarrow> checksum sha frepr ex = checksum sha frepr d"
proof -
  let ?cap = "case ms of Some n \<Rightarrow> n | None \<Rightarrow> wc_max_steps wc"
  show thesis
  proof (cases "validate_workflow_definition frepr cat ?cap DEFAULT_MAX_WORKFLOW_PARAM_CHARS d")
    case (Inl e)
    then have "r = Inl e" "wc' = wc" using assms by (simp_all add: wf_register_def Let_def)
    then show thesis by (rule that(1))
  next
    case (Inr d')
    then have "validate_workflow_definition frepr cat ?cap 16384 d = Inr d"
      by (simp add: validate_workflow_Inr DEFAULT_MAX_WORKFLOW_PARAM_CHARS_def)
    then show thesis
      using assms that Inr by (auto simp: wf_register_def Let_def wf_get_def split: option.splits if_splits)
  qed
qed

lemma wf_register_ok:
  assumes ok: "catalog_ok frepr cat wc" and run: "wf_register sha frepr cat ms d wc = (r, wc')"
  shows "catalog_ok frepr cat wc'"
  using run
proof (cases rule: wf_register_cases)
  case (2 m)
  show ?thesis
  proof (rule catalog_okI)
    show "distinct (map fst (wc_definitions wc'))"
      using ok 2(3) by (simp add: catalog_ok_def distinct_update)
    show "wd_name d' = n \<and> (\<exists>m. validate_workflow_definition frepr cat m 16384 d' = Inr d')"
      if "wf_get wc' n = Some d'" for n d'
      using that 2 catalog_ok_get [OF ok, of n d'] by (auto simp: wf_get_def update_conv' split: if_splits)
  qed
qed (use ok in simp)

text \<open>The workflow catalog only ever holds validated definitions: registration keeps the invariant
  that every stored definition passed the validation and is stored under its own name; a refused
  registration changes nothing; and, with a collision-free hash, a name that is bound keeps a
  definition of the same content, so a resumed run cannot meet another workflow under its name.\<close>
theorem catalog_holds_validated_definitions:
  assumes "catalog_ok frepr cat wc" and "wf_register sha frepr cat max_steps d wc = (r, wc')"
    and "\<forall>x y. sha x = sha y \<longrightarrow> x = y"
  shows "catalog_ok frepr cat wc'
    \<and> (\<forall>e. r = Inl e \<longrightarrow> wc' = wc)
    \<and> (\<forall>n def. wf_get wc' n = Some def \<longrightarrow> wd_name def = n \<and> acyclic (set (dependencies def)))
    \<and> (\<forall>n def. wf_get wc n = Some def \<longrightarrow> (\<exists>def'. wf_get wc' n = Some def'
         \<and> canonical_json frepr (definition_json def') = canonical_json frepr (definition_json def)))"
proof -
  have ok: "catalog_ok frepr cat wc'" by (rule wf_register_ok [OF assms(1,2)])
  have "wd_name def = n \<and> acyclic (set (dependencies def))" if "wf_get wc' n = Some def" for n "def"
    using catalog_ok_get [OF ok that] validate_dag_core [of "def"] by (auto simp: validate_workflow_Inr)
  moreover have "(\<forall>e. r = Inl e \<longrightarrow> wc' = wc) \<and> (\<forall>n def. wf_get wc n = Some def \<longrightarrow> (\<exists>def'. wf_get wc' n = Some def'
         \<and> canonical_json frepr (definition_json def') = canonical_json frepr (definition_json def)))"
    using assms(2)
  proof (cases rule: wf_register_cases)
    case (2 m)
    then show ?thesis using assms(3) by (auto simp: wf_get_def update_conv' checksum_def)
  qed auto
  ultimately show ?thesis using ok by blast
qed

lemma catalog_holds_validated_definitions_witness:
  "catalog_ok (\<lambda>_. []) ACTION_CATALOG
     (snd (wf_register (\<lambda>x. x) (\<lambda>_. []) ACTION_CATALOG None DOWNLOAD_WORKFLOW (new_catalog 50)))
   \<and> wf_get (snd (wf_register (\<lambda>x. x) (\<lambda>_. []) ACTION_CATALOG None DOWNLOAD_WORKFLOW (new_catalog 50))) ''download_report''
     = Some DOWNLOAD_WORKFLOW"
proof -
  have "validate_workflow_definition (\<lambda>_. []) ACTION_CATALOG 50 16384 DOWNLOAD_WORKFLOW = Inr DOWNLOAD_WORKFLOW"
    by (rule reference_workflows_valid) (simp add: REFERENCE_WORKFLOWS_def)
  then have run: "wf_register (\<lambda>x. x) (\<lambda>_. []) ACTION_CATALOG None DOWNLOAD_WORKFLOW (new_catalog 50)
      = (Inr DOWNLOAD_WORKFLOW, \<lparr>wc_max_steps = 50, wc_definitions = [(''download_report'', DOWNLOAD_WORKFLOW)]\<rparr>)"
    by (simp add: wf_register_def new_catalog_def DEFAULT_MAX_WORKFLOW_PARAM_CHARS_def)
      (simp add: DOWNLOAD_WORKFLOW_def)
  from catalog_holds_validated_definitions [OF new_catalog_ok this] show ?thesis
    by (simp add: run wf_get_def)
qed

lemma default_catalog_built:
  "\<exists>wc. build_default_catalog sha frepr ACTION_CATALOG = Inr wc
     \<and> wf_names wc = [''download_report'', ''login'', ''search_and_extract'']"
proof -
  have valid: "validate_workflow_definition frepr ACTION_CATALOG 50 16384 LOGIN_WORKFLOW = Inr LOGIN_WORKFLOW"
      "validate_workflow_definition frepr ACTION_CATALOG 50 16384 SEARCH_EXTRACT_WORKFLOW = Inr SEARCH_EXTRACT_WORKFLOW"
      "validate_workflow_definition frepr ACTION_CATALOG 50 16384 DOWNLOAD_WORKFLOW = Inr DOWNLOAD_WORKFLOW"
    by (intro reference_workflows_valid, simp add: REFERENCE_WORKFLOWS_def)+
  have names: "wd_name LOGIN_WORKFLOW = ''login''" "wd_name SEARCH_EXTRACT_WORKFLOW = ''search_and_extract''"
      "wd_name DOWNLOAD_WORKFLOW = ''download_report''"
    by (simp_all add: LOGIN_WORKFLOW_def SEARCH_EXTRACT_WORKFLOW_def DOWNLOAD_WORKFLOW_def)
  have "sort [''login'', ''search_and_extract'', ''download_report''] = [''download_report'', ''login'', ''search_and_extract'']"
    by code_simp
  then show ?thesis
    by (simp add: build_default_catalog_def REFERENCE_WORKFLOWS_def new_catalog_def wf_register_def valid names
        DEFAULT_MAX_WORKFLOW_STEPS_def DEFAULT_MAX_WORKFLOW_PARAM_CHARS_def wf_names_def)
qed

end
