(* ===== verification/Idempotency.thy ===== *)
theory Idempotency
  imports Execution
begin

text \<open>
  Model of \<^verbatim>\<open>era/services/idempotency.py\<close> with \<^verbatim>\<open>SQLiteIdempotencyRepo\<close> and the row of
  \<^verbatim>\<open>era/models/idempotency.py\<close>: replay-safe execution under a client key.

  \<open>idem_run\<close> is the service's \<open>run\<close> for one caller: it takes the table of records beside a world
  \<open>'w\<close> in which the dispatch happens.  \<open>idem_step\<close> is the interleaving of any number of callers and
  processes, one transaction at a time, with the clock; it uses the same decisions.
\<close>

section \<open>Records\<close>

datatype idem_status = PROCESSING | COMPLETED

record idem_record =
  ir_id :: string
  ir_actor_id :: string
  ir_key_hash :: string
  ir_request_hash :: string
  ir_status :: idem_status
  ir_response :: "response option"
  ir_created_at :: string
  ir_updated_at :: string
  ir_expires_at :: string

definition request_fingerprint ::
  "(string \<Rightarrow> string) \<Rightarrow> (pyfloat \<Rightarrow> string) \<Rightarrow> string \<Rightarrow> params \<Rightarrow> string" where
  "request_fingerprint sha frepr a ps =
     sha (canonical_json frepr (JObj [(''action_type'', JStr a), (''params'', JObj ps)]))"

definition key_fingerprint :: "(string \<Rightarrow> string) \<Rightarrow> (pyfloat \<Rightarrow> string) \<Rightarrow> string \<Rightarrow> string \<Rightarrow> string" where
  "key_fingerprint sha frepr actor key =
     sha (canonical_json frepr (JObj [(''actor_id'', JStr actor), (''key'', JStr key)]))"

text \<open>The stored response: the one-time challenge is stripped.\<close>

definition response_payload :: "response \<Rightarrow> response" where
  "response_payload r = r\<lparr>rs_challenge := None\<rparr>"

definition idem_get :: "idem_record list \<Rightarrow> string \<Rightarrow> string \<Rightarrow> idem_record option" where
  "idem_get t actor kh = find (\<lambda>r. ir_actor_id r = actor \<and> ir_key_hash r = kh) t"

definition idem_by_id :: "idem_record list \<Rightarrow> string \<Rightarrow> idem_record option" where
  "idem_by_id t i = find (\<lambda>r. ir_id r = i) t"

text \<open>\<open>None\<close> is \<open>IntegrityError\<close>: the primary key, or \<open>uq_idempotency_actor_key\<close>.\<close>

definition idem_create :: "idem_record \<Rightarrow> idem_record list \<Rightarrow> idem_record list option" where
  "idem_create r t =
     (if idem_by_id t (ir_id r) \<noteq> None \<or> idem_get t (ir_actor_id r) (ir_key_hash r) \<noteq> None
      then None else Some (t @ [r]))"

definition idem_update :: "idem_record \<Rightarrow> idem_record list \<Rightarrow> idem_record list" where
  "idem_update r t = map (\<lambda>x. if ir_id x = ir_id r then r else x) t"

text \<open>Deleting a row that is gone already matches no row.\<close>

definition idem_delete :: "string \<Rightarrow> idem_record list \<Rightarrow> idem_record list" where
  "idem_delete i t = filter (\<lambda>x. ir_id x \<noteq> i) t"

definition complete_row :: "string \<Rightarrow> string \<Rightarrow> response \<Rightarrow> idem_record list \<Rightarrow> idem_record list" where
  "complete_row now i resp t = (case idem_by_id t i of
       None \<Rightarrow> t
     | Some r \<Rightarrow> idem_update (r\<lparr>ir_status := COMPLETED, ir_response := Some (response_payload resp),
                                  ir_updated_at := now\<rparr>) t)"

section \<open>Decisions on an existing record\<close>

definition is_expired :: "string \<Rightarrow> idem_record \<Rightarrow> bool" where
  "is_expired now r = (ir_expires_at r < now)"

definition stale_after :: "int \<Rightarrow> idem_record \<Rightarrow> (py_exc, string) result" where
  "stale_after processing_ttl r = (case add_seconds (ir_created_at r) processing_ttl of
       Inl e \<Rightarrow> Inl (OtherExc (cron_exc_name e))
     | Inr t \<Rightarrow> Inr t)"

definition resolve_completed :: "idem_record \<Rightarrow> string \<Rightarrow> (py_exc, response) result" where
  "resolve_completed r request_hash =
     (if ir_request_hash r \<noteq> request_hash then Inl (OtherExc ''IdempotencyConflict'')
      else case ir_response r of
        None \<Rightarrow> Inl (OtherExc ''ValidationError'')
      | Some resp \<Rightarrow> Inr resp)"

text \<open>What \<open>run\<close> does next: go on to claim the key, drop the record first, or end.\<close>

datatype verdict = Proceed | DropRecord string | Finish "(py_exc, response) result"

text \<open>A processing record: abandoned, or in progress.\<close>

definition judge_processing :: "int \<Rightarrow> string \<Rightarrow> idem_record \<Rightarrow> verdict" where
  "judge_processing processing_ttl now r = (case stale_after processing_ttl r of
       Inl e \<Rightarrow> Finish (Inl e)
     | Inr t \<Rightarrow> if t < now then DropRecord (ir_id r) else Finish (Inl (OtherExc ''IdempotencyInProgress'')))"

text \<open>The record found before the claim; \<open>now\<close> is read for the expiry, \<open>now'\<close> for the staleness.\<close>

definition judge_existing ::
  "int \<Rightarrow> string \<Rightarrow> string \<Rightarrow> string \<Rightarrow> idem_record option \<Rightarrow> verdict" where
  "judge_existing processing_ttl now now' request_hash ex = (case ex of
       None \<Rightarrow> Proceed
     | Some r \<Rightarrow>
         if is_expired now r then DropRecord (ir_id r)
         else if ir_status r = COMPLETED then Finish (resolve_completed r request_hash)
         else judge_processing processing_ttl now' r)"

text \<open>The record of the caller that won the race for the key.  When it is gone again, \<open>record.status\<close> fails.\<close>

definition judge_winner :: "int \<Rightarrow> string \<Rightarrow> string \<Rightarrow> idem_record option \<Rightarrow> verdict" where
  "judge_winner processing_ttl now request_hash ex = (case ex of
       None \<Rightarrow> Finish (Inl (OtherExc ''AttributeError''))
     | Some r \<Rightarrow>
         if ir_status r = COMPLETED then Finish (resolve_completed r request_hash)
         else judge_processing processing_ttl now r)"

section \<open>The service\<close>

record 'w idem_service =
  is_sha :: "string \<Rightarrow> string"
  is_frepr :: "pyfloat \<Rightarrow> string"
  is_utcnow :: "'w \<Rightarrow> string \<times> 'w"
  is_uuid :: "'w \<Rightarrow> string \<times> 'w"
  is_commit :: "'w \<Rightarrow> bool \<times> 'w"
  is_ttl :: int
  is_processing_ttl :: int

type_synonym 'w idem_state = "idem_record list \<times> 'w"

definition in_world :: "('w, 'a) comp \<Rightarrow> ('w idem_state, 'a) comp" where
  "in_world m s = (case m (snd s) of (r, w) \<Rightarrow> (r, (fst s, w)))"

definition iask :: "('w \<Rightarrow> 'a \<times> 'w) \<Rightarrow> ('w idem_state, 'a) comp" where
  "iask f s = (case f (snd s) of (x, w) \<Rightarrow> (Inr x, (fst s, w)))"

text \<open>A transaction whose body maps the table to a value and a table; \<open>None\<close> is an integrity error,
  which aborts before the commit.\<close>

definition itx ::
  "('w \<Rightarrow> bool \<times> 'w) \<Rightarrow> (idem_record list \<Rightarrow> ('a \<times> idem_record list) option) \<Rightarrow> ('w idem_state, 'a option) comp" where
  "itx commit body s = (case body (fst s) of
       None \<Rightarrow> (Inr None, s)
     | Some (x, t) \<Rightarrow> (case commit (snd s) of
         (True, w) \<Rightarrow> (Inr (Some x), (t, w))
       | (False, w) \<Rightarrow> (Inl (OtherExc ''OperationalError''), (fst s, w))))"

definition lookup_record ::
  "('w, 'z) idem_service_scheme \<Rightarrow> string \<Rightarrow> string \<Rightarrow> ('w idem_state, idem_record option) comp" where
  "lookup_record sv actor kh =
     bind (itx (is_commit sv) (\<lambda>t. Some (idem_get t actor kh, t))) (\<lambda>r. ret (case r of None \<Rightarrow> None | Some x \<Rightarrow> x))"

definition delete_record :: "('w, 'z) idem_service_scheme \<Rightarrow> string \<Rightarrow> ('w idem_state, unit) comp" where
  "delete_record sv i = seq (itx (is_commit sv) (\<lambda>t. Some ((), idem_delete i t))) (ret ())"

definition new_record ::
  "('w, 'z) idem_service_scheme \<Rightarrow> string \<Rightarrow> string \<Rightarrow> string \<Rightarrow> ('w idem_state, idem_record) comp" where
  "new_record sv actor kh rh =
     bind (iask (is_uuid sv)) (\<lambda>i. bind (iask (is_utcnow sv)) (\<lambda>now.
       case add_seconds now (is_ttl sv) of
         Inl e \<Rightarrow> raise_exc (OtherExc (cron_exc_name e))
       | Inr expires \<Rightarrow>
           bind (iask (is_utcnow sv)) (\<lambda>created. bind (iask (is_utcnow sv)) (\<lambda>updated.
             ret \<lparr>ir_id = i, ir_actor_id = actor, ir_key_hash = kh, ir_request_hash = rh,
                  ir_status = PROCESSING, ir_response = None, ir_created_at = created,
                  ir_updated_at = updated, ir_expires_at = expires\<rparr>))))"

text \<open>\<open>_begin\<close>: \<open>Inl\<close> is the record just created, \<open>Inr\<close> the record of another caller.\<close>

definition begin_record ::
  "('w, 'z) idem_service_scheme \<Rightarrow> string \<Rightarrow> string \<Rightarrow> string
     \<Rightarrow> ('w idem_state, idem_record + idem_record option) comp" where
  "begin_record sv actor kh rh =
     bind (new_record sv actor kh rh) (\<lambda>r.
     bind (itx (is_commit sv) (\<lambda>t. map_option (Pair ()) (idem_create r t))) (\<lambda>made.
       case made of
         Some _ \<Rightarrow> ret (Inl r)
       | None \<Rightarrow> bind (lookup_record sv actor kh) (\<lambda>ex. ret (Inr ex))))"

definition complete_record :: "('w, 'z) idem_service_scheme \<Rightarrow> string \<Rightarrow> response \<Rightarrow> ('w idem_state, unit) comp" where
  "complete_record sv i resp =
     (\<lambda>s. case idem_by_id (fst s) i of
         None \<Rightarrow> seq (itx (is_commit sv) (\<lambda>t. Some ((), t))) (ret ()) s
       | Some _ \<Rightarrow> bind (iask (is_utcnow sv)) (\<lambda>now.
           seq (itx (is_commit sv) (\<lambda>t. Some ((), complete_row now i resp t))) (ret ())) s)"

definition dispatch_recorded ::
  "('w, 'z) idem_service_scheme \<Rightarrow> string \<Rightarrow> ('w, response) comp \<Rightarrow> ('w idem_state, response) comp" where
  "dispatch_recorded sv i dispatch s = (case in_world dispatch s of
       (Inl e, s') \<Rightarrow> seq (delete_record sv i) (raise_exc e) s'
     | (Inr resp, s') \<Rightarrow> seq (complete_record sv i resp) (ret resp) s')"

text \<open>The clock is read for the expiry, and again for the staleness of a processing record.\<close>

definition judge_lookup ::
  "('w, 'z) idem_service_scheme \<Rightarrow> string \<Rightarrow> idem_record option \<Rightarrow> ('w idem_state, verdict) comp" where
  "judge_lookup sv rh ex = (case ex of
       None \<Rightarrow> ret Proceed
     | Some r \<Rightarrow> bind (iask (is_utcnow sv)) (\<lambda>now.
         if is_expired now r \<or> ir_status r = COMPLETED then ret (judge_existing (is_processing_ttl sv) now now rh ex)
         else bind (iask (is_utcnow sv)) (\<lambda>now'. ret (judge_existing (is_processing_ttl sv) now now' rh ex))))"

definition judge_race ::
  "('w, 'z) idem_service_scheme \<Rightarrow> string \<Rightarrow> idem_record option \<Rightarrow> ('w idem_state, verdict) comp" where
  "judge_race sv rh ex = (case ex of
       None \<Rightarrow> ret (judge_winner (is_processing_ttl sv) [] rh ex)
     | Some r \<Rightarrow>
         if ir_status r = COMPLETED then ret (judge_winner (is_processing_ttl sv) [] rh ex)
         else bind (iask (is_utcnow sv)) (\<lambda>now. ret (judge_winner (is_processing_ttl sv) now rh ex)))"

definition second_attempt ::
  "('w, 'z) idem_service_scheme \<Rightarrow> string \<Rightarrow> string \<Rightarrow> string \<Rightarrow> ('w, response) comp \<Rightarrow> ('w idem_state, response) comp" where
  "second_attempt sv actor kh rh dispatch =
     bind (begin_record sv actor kh rh) (\<lambda>b. case b of
         Inl r \<Rightarrow> dispatch_recorded sv (ir_id r) dispatch
       | Inr _ \<Rightarrow> raise_exc (OtherExc ''IdempotencyInProgress''))"

definition first_attempt ::
  "('w, 'z) idem_service_scheme \<Rightarrow> string \<Rightarrow> string \<Rightarrow> string \<Rightarrow> ('w, response) comp \<Rightarrow> ('w idem_state, response) comp" where
  "first_attempt sv actor kh rh dispatch =
     bind (begin_record sv actor kh rh) (\<lambda>b. case b of
         Inl r \<Rightarrow> dispatch_recorded sv (ir_id r) dispatch
       | Inr ex \<Rightarrow> bind (judge_race sv rh ex) (\<lambda>v. case v of
           Finish res \<Rightarrow> lift_res res
         | DropRecord i \<Rightarrow> seq (delete_record sv i) (second_attempt sv actor kh rh dispatch)
         | Proceed \<Rightarrow> second_attempt sv actor kh rh dispatch))"

definition idem_run ::
  "('w, 'z) idem_service_scheme \<Rightarrow> string \<Rightarrow> string \<Rightarrow> string \<Rightarrow> ('w, response) comp \<Rightarrow> ('w idem_state, response) comp" where
  "idem_run sv actor key rh dispatch =
     (let kh = key_fingerprint (is_sha sv) (is_frepr sv) actor key in
      bind (lookup_record sv actor kh) (\<lambda>ex.
      bind (judge_lookup sv rh ex) (\<lambda>v. case v of
          Finish res \<Rightarrow> lift_res res
        | DropRecord i \<Rightarrow> seq (delete_record sv i) (first_attempt sv actor kh rh dispatch)
        | Proceed \<Rightarrow> first_attempt sv actor kh rh dispatch)))"


section \<open>The table\<close>

definition idem_table_ok :: "idem_record list \<Rightarrow> bool" where
  "idem_table_ok t = (distinct (map ir_id t) \<and> distinct (map (\<lambda>r. (ir_actor_id r, ir_key_hash r)) t))"

lemma idem_by_id_None: "idem_by_id t i = None \<longleftrightarrow> i \<notin> ir_id ` set t"
  by (auto simp: idem_by_id_def find_None_iff)

lemma idem_by_id_update:
  "idem_by_id (idem_update r t) i = (if i = ir_id r \<and> idem_by_id t i \<noteq> None then Some r else idem_by_id t i)"
  unfolding idem_by_id_def idem_update_def by (induction t) auto

interpretation idem: keyed_table ir_id idem_by_id idem_create idem_update
proof
  show "ir_id r = i" if "idem_by_id t i = Some r" for t i r
    using that by (auto simp: idem_by_id_def find_Some_iff)
  show "idem_by_id t (ir_id r) = None" if "idem_create r t = Some t'" for r t t'
    using that by (auto simp: idem_create_def split: if_splits)
  show "idem_by_id t' i = (if i = ir_id r then Some r else idem_by_id t i)" if "idem_create r t = Some t'" for r t t' i
    using that by (auto simp: idem_create_def idem_by_id_def find_app split: if_splits option.splits)
  show "idem_by_id (idem_update r t) i = (if i = ir_id r \<and> idem_by_id t i \<noteq> None then Some r else idem_by_id t i)" for r t i
    by (rule idem_by_id_update)
qed

lemma idem_get_Some: "idem_get t a k = Some r \<Longrightarrow> r \<in> set t \<and> ir_actor_id r = a \<and> ir_key_hash r = k"
  by (auto simp: idem_get_def find_Some_iff)

lemma idem_get_None: "idem_get t a k = None \<longleftrightarrow> (a, k) \<notin> (\<lambda>r. (ir_actor_id r, ir_key_hash r)) ` set t"
  by (auto simp: idem_get_def find_None_iff)

lemma idem_unique:
  assumes "idem_table_ok t" and "r \<in> set t" and "r' \<in> set t"
  shows "ir_id r = ir_id r' \<Longrightarrow> r = r'" and "ir_actor_id r = ir_actor_id r' \<Longrightarrow> ir_key_hash r = ir_key_hash r' \<Longrightarrow> r = r'"
  using assms by (auto simp: idem_table_ok_def distinct_map inj_on_def)

lemma idem_create_rows:
  assumes "idem_create r t = Some t'"
  shows "set t' = insert r (set t)" and "idem_table_ok t \<Longrightarrow> idem_table_ok t'"
  using assms by (auto simp: idem_create_def idem_table_ok_def idem_by_id_None idem_get_None split: if_splits)

lemma idem_delete_rows:
  "set (idem_delete i t) = {r \<in> set t. ir_id r \<noteq> i}" "idem_table_ok t \<Longrightarrow> idem_table_ok (idem_delete i t)"
  by (auto simp: idem_delete_def idem_table_ok_def distinct_map_filter)

definition completed :: "string \<Rightarrow> response \<Rightarrow> idem_record \<Rightarrow> idem_record" where
  "completed now resp r = r\<lparr>ir_status := COMPLETED, ir_response := Some (response_payload resp), ir_updated_at := now\<rparr>"

lemma completed_sel [simp]:
  "ir_id (completed now resp r) = ir_id r" "ir_actor_id (completed now resp r) = ir_actor_id r"
  "ir_key_hash (completed now resp r) = ir_key_hash r" "ir_request_hash (completed now resp r) = ir_request_hash r"
  "ir_expires_at (completed now resp r) = ir_expires_at r" "ir_status (completed now resp r) = COMPLETED"
  "ir_response (completed now resp r) = Some (response_payload resp)"
  by (simp_all add: completed_def)

lemma complete_row_rows:
  assumes ok: "idem_table_ok t" and r: "r \<in> set t"
  shows "complete_row now (ir_id r) resp t = map (\<lambda>x. if ir_id x = ir_id r then completed now resp r else x) t"
    and "set (complete_row now (ir_id r) resp t) = insert (completed now resp r) (set t - {r})"
    and "idem_table_ok (complete_row now (ir_id r) resp t)"
proof -
  have same: "x = r" if "x \<in> set t" "ir_id x = ir_id r" for x
    using idem_unique(1) [OF ok that(1) r that(2)] .
  have "idem_by_id t (ir_id r) \<noteq> None" using r by (auto simp: idem_by_id_None)
  then obtain x where "idem_by_id t (ir_id r) = Some x" by auto
  moreover from this have "x \<in> set t" "ir_id x = ir_id r" by (auto simp: idem_by_id_def find_Some_iff)
  ultimately have "idem_by_id t (ir_id r) = Some r" using same by auto
  then show rows: "complete_row now (ir_id r) resp t = map (\<lambda>x. if ir_id x = ir_id r then completed now resp r else x) t"
    by (simp add: complete_row_def idem_update_def completed_def)
  show "set (complete_row now (ir_id r) resp t) = insert (completed now resp r) (set t - {r})"
    unfolding rows using r same by auto
  have "map ir_id (complete_row now (ir_id r) resp t) = map ir_id t"
      "map (\<lambda>x. (ir_actor_id x, ir_key_hash x)) (complete_row now (ir_id r) resp t) = map (\<lambda>x. (ir_actor_id x, ir_key_hash x)) t"
    unfolding rows using same by auto
  then show "idem_table_ok (complete_row now (ir_id r) resp t)"
    using ok by (simp add: idem_table_ok_def)
qed

section \<open>Any number of callers\<close>

text \<open>Where a caller stands between two transactions of \<open>run\<close>: \<open>first\<close> tells whether a lost race may
  still be judged.  The client is in flight from the commit of its claim to the commit of its
  result.\<close>

datatype phase =
    Idle
  | Drop string bool string string string
  | Claim bool string string string
  | Raced string string string
  | InFlight idem_record

definition next_phase :: "verdict \<Rightarrow> bool \<Rightarrow> string \<Rightarrow> string \<Rightarrow> string \<Rightarrow> phase" where
  "next_phase v first actor kh rh = (case v of
       Proceed \<Rightarrow> Claim first actor kh rh
     | DropRecord i \<Rightarrow> Drop i first actor kh rh
     | Finish _ \<Rightarrow> Idle)"

record idem_machine =
  im_table :: "idem_record list"
  im_now :: datetime
  im_phase :: "nat \<Rightarrow> phase"
  im_finished :: "idem_record list"      \<comment> \<open>the claims whose dispatch returned\<close>
  im_used :: "string set"                \<comment> \<open>identifiers drawn so far\<close>

definition stamp :: "idem_machine \<Rightarrow> string" where
  "stamp m = iso_of (im_now m)"

definition goto :: "nat \<Rightarrow> phase \<Rightarrow> idem_machine \<Rightarrow> idem_machine" where
  "goto c p m = m\<lparr>im_phase := (im_phase m)(c := p)\<rparr>"

definition claim_of :: "int \<Rightarrow> idem_machine \<Rightarrow> string \<Rightarrow> string \<Rightarrow> string \<Rightarrow> string \<Rightarrow> idem_record \<Rightarrow> bool" where
  "claim_of ttl m i actor kh rh r =
     (i \<notin> im_used m \<and> (\<exists>expires. add_seconds (stamp m) ttl = Inr expires
        \<and> r = \<lparr>ir_id = i, ir_actor_id = actor, ir_key_hash = kh, ir_request_hash = rh, ir_status = PROCESSING,
               ir_response = None, ir_created_at = stamp m, ir_updated_at = stamp m, ir_expires_at = expires\<rparr>))"

text \<open>A record that no caller may regard as abandoned at this time.\<close>

definition live :: "int \<Rightarrow> string \<Rightarrow> idem_record \<Rightarrow> bool" where
  "live pttl now r = (\<not> is_expired now r \<and> (\<forall>t. stale_after pttl r = Inr t \<longrightarrow> \<not> t < now))"

text \<open>Time passes only while every dispatch in flight is within the processing time and the key's life;
  a crash may end a caller anywhere.\<close>

inductive idem_step :: "int \<Rightarrow> int \<Rightarrow> idem_machine \<Rightarrow> idem_machine \<Rightarrow> bool" for ttl pttl :: int where
  look: "im_phase m c = Idle \<Longrightarrow>
     v = judge_existing pttl (stamp m) (stamp m) rh (idem_get (im_table m) actor kh) \<Longrightarrow>
     idem_step ttl pttl m (goto c (next_phase v True actor kh rh) m)"
| drop: "im_phase m c = Drop i first actor kh rh \<Longrightarrow>
     idem_step ttl pttl m (goto c (Claim first actor kh rh) (m\<lparr>im_table := idem_delete i (im_table m)\<rparr>))"
| claim: "im_phase m c = Claim first actor kh rh \<Longrightarrow> claim_of ttl m i actor kh rh r \<Longrightarrow>
     idem_create r (im_table m) = Some t \<Longrightarrow>
     idem_step ttl pttl m (goto c (InFlight r) (m\<lparr>im_table := t, im_used := insert i (im_used m)\<rparr>))"
| lose: "im_phase m c = Claim first actor kh rh \<Longrightarrow> claim_of ttl m i actor kh rh r \<Longrightarrow>
     idem_create r (im_table m) = None \<Longrightarrow>
     idem_step ttl pttl m (goto c (if first then Raced actor kh rh else Idle) m)"
| race: "im_phase m c = Raced actor kh rh \<Longrightarrow>
     v = judge_winner pttl (stamp m) rh (idem_get (im_table m) actor kh) \<Longrightarrow>
     idem_step ttl pttl m (goto c (next_phase v False actor kh rh) m)"
| finish: "im_phase m c = InFlight r \<Longrightarrow>
     idem_step ttl pttl m (goto c Idle (m\<lparr>im_table := complete_row (stamp m) (ir_id r) resp (im_table m),
                                          im_finished := r # im_finished m\<rparr>))"
| fail: "im_phase m c = InFlight r \<Longrightarrow>
     idem_step ttl pttl m (goto c Idle (m\<lparr>im_table := idem_delete (ir_id r) (im_table m)\<rparr>))"
| crash: "idem_step ttl pttl m (goto c Idle m)"
| tick: "valid_dt now \<Longrightarrow> stamp m \<le> iso_of now \<Longrightarrow>
     (\<And>c r. im_phase m c = InFlight r \<Longrightarrow> live pttl (iso_of now) r) \<Longrightarrow>
     idem_step ttl pttl m (m\<lparr>im_now := now\<rparr>)"

definition start_machine :: "datetime \<Rightarrow> idem_machine" where
  "start_machine now = \<lparr>im_table = [], im_now = now, im_phase = (\<lambda>_. Idle), im_finished = [], im_used = {}\<rparr>"

section \<open>The invariant\<close>

definition in_flight :: "idem_machine \<Rightarrow> nat \<Rightarrow> idem_record \<Rightarrow> bool" where
  "in_flight m c r = (im_phase m c = InFlight r)"

definition gone :: "idem_machine \<Rightarrow> string \<Rightarrow> bool" where
  "gone m i = ((\<forall>c r. in_flight m c r \<longrightarrow> ir_id r \<noteq> i)
     \<and> (\<forall>f \<in> set (im_finished m). ir_id f = i \<longrightarrow> is_expired (stamp m) f))"

definition kept :: "idem_machine \<Rightarrow> idem_record \<Rightarrow> bool" where
  "kept m f = (\<exists>r \<in> set (im_table m). ir_id r = ir_id f \<and> ir_actor_id r = ir_actor_id f
     \<and> ir_key_hash r = ir_key_hash f \<and> ir_expires_at r = ir_expires_at f \<and> ir_status r = COMPLETED)"

definition idem_inv :: "int \<Rightarrow> idem_machine \<Rightarrow> bool" where
  "idem_inv pttl m =
     (valid_dt (im_now m) \<and> idem_table_ok (im_table m)
      \<and> (\<forall>r \<in> set (im_table m). ir_id r \<in> im_used m)
      \<and> (\<forall>c r. in_flight m c r \<longrightarrow> r \<in> set (im_table m) \<and> ir_status r = PROCESSING \<and> live pttl (stamp m) r)
      \<and> (\<forall>c c' r r'. in_flight m c r \<longrightarrow> in_flight m c' r' \<longrightarrow> ir_id r = ir_id r' \<longrightarrow> c = c')
      \<and> (\<forall>c i first actor kh rh. im_phase m c = Drop i first actor kh rh \<longrightarrow> i \<in> im_used m \<and> gone m i)
      \<and> (\<forall>f \<in> set (im_finished m). ir_id f \<in> im_used m \<and> (is_expired (stamp m) f \<or> kept m f)
            \<and> (\<forall>c r. in_flight m c r \<longrightarrow> ir_id r \<noteq> ir_id f)))"

lemma idem_invI:
  assumes "valid_dt (im_now m)" and "idem_table_ok (im_table m)"
    and "\<And>r. r \<in> set (im_table m) \<Longrightarrow> ir_id r \<in> im_used m"
    and "\<And>c r. in_flight m c r \<Longrightarrow> r \<in> set (im_table m) \<and> ir_status r = PROCESSING \<and> live pttl (stamp m) r"
    and "\<And>c c' r r'. in_flight m c r \<Longrightarrow> in_flight m c' r' \<Longrightarrow> ir_id r = ir_id r' \<Longrightarrow> c = c'"
    and "\<And>c i first actor kh rh. im_phase m c = Drop i first actor kh rh \<Longrightarrow> i \<in> im_used m \<and> gone m i"
    and "\<And>f. f \<in> set (im_finished m) \<Longrightarrow> ir_id f \<in> im_used m \<and> (is_expired (stamp m) f \<or> kept m f)
            \<and> (\<forall>c r. in_flight m c r \<longrightarrow> ir_id r \<noteq> ir_id f)"
  shows "idem_inv pttl m"
  using assms unfolding idem_inv_def by blast

lemma idem_invD:
  assumes "idem_inv pttl m"
  shows "valid_dt (im_now m)" and "idem_table_ok (im_table m)"
    and "r \<in> set (im_table m) \<Longrightarrow> ir_id r \<in> im_used m"
    and "in_flight m c r \<Longrightarrow> r \<in> set (im_table m) \<and> ir_status r = PROCESSING \<and> live pttl (stamp m) r"
    and "in_flight m c r \<Longrightarrow> in_flight m c' r' \<Longrightarrow> ir_id r = ir_id r' \<Longrightarrow> c = c'"
    and "im_phase m c = Drop i first actor kh rh \<Longrightarrow> i \<in> im_used m \<and> gone m i"
    and "f \<in> set (im_finished m) \<Longrightarrow> ir_id f \<in> im_used m \<and> (is_expired (stamp m) f \<or> kept m f)
            \<and> (\<forall>c r. in_flight m c r \<longrightarrow> ir_id r \<noteq> ir_id f)"
  using assms unfolding idem_inv_def by blast+

lemma goto_sel [simp]:
  "im_table (goto c p m) = im_table m" "im_now (goto c p m) = im_now m" "im_finished (goto c p m) = im_finished m"
  "im_used (goto c p m) = im_used m" "stamp (goto c p m) = stamp m"
  "im_phase (goto c p m) = (im_phase m)(c := p)"
  by (simp_all add: goto_def stamp_def)

lemma stamp_upd [simp]:
  "stamp (m\<lparr>im_table := t\<rparr>) = stamp m" "stamp (m\<lparr>im_finished := fs\<rparr>) = stamp m" "stamp (m\<lparr>im_used := u\<rparr>) = stamp m"
  "stamp (m\<lparr>im_now := n\<rparr>) = iso_of n"
  by (simp_all add: stamp_def)

lemma in_flight_goto: "in_flight (goto c p m) c' r \<longleftrightarrow> (if c' = c then p = InFlight r else in_flight m c' r)"
  by (simp add: in_flight_def)

lemma in_flight_upd [simp]:
  "in_flight (m\<lparr>im_table := t\<rparr>) c r = in_flight m c r" "in_flight (m\<lparr>im_finished := fs\<rparr>) c r = in_flight m c r"
  "in_flight (m\<lparr>im_used := u\<rparr>) c r = in_flight m c r" "in_flight (m\<lparr>im_now := n\<rparr>) c r = in_flight m c r"
  by (simp_all add: in_flight_def)

lemma not_before_start:
  assumes "valid_dt dt" and "0 \<le> s" and "add_seconds (iso_of dt) s = Inr t"
  shows "\<not> t < iso_of dt"
proof -
  obtain dt' where "t = iso_of dt'" "valid_dt dt'" "micros dt' = micros dt + s * 1000000"
    by (rule add_seconds_correct [OF assms(1,3)])
  then show ?thesis using iso_less_iff [of dt' dt] assms(1,2) by auto
qed

text \<open>A record that a caller drops is nobody's claim and no result within its life.\<close>

lemma dropped_is_gone:
  assumes inv: "idem_inv pttl m" and r: "r \<in> set (im_table m)"
    and why: "is_expired (stamp m) r \<or> (ir_status r \<noteq> COMPLETED \<and> (\<exists>t. stale_after pttl r = Inr t \<and> t < stamp m))"
  shows "ir_id r \<in> im_used m \<and> gone m (ir_id r)"
proof -
  note ok = idem_invD(2) [OF inv]
  have "ir_id r' \<noteq> ir_id r" if "in_flight m c r'" for c r'
  proof
    assume eq: "ir_id r' = ir_id r"
    note fl = idem_invD(4) [OF inv that]
    then have "r' = r" using idem_unique(1) [OF ok _ r eq] by blast
    then show False using fl why by (auto simp: live_def)
  qed
  moreover have "is_expired (stamp m) f" if f: "f \<in> set (im_finished m)" "ir_id f = ir_id r" for f
  proof (rule ccontr)
    assume "\<not> is_expired (stamp m) f"
    then obtain x where x: "x \<in> set (im_table m)" "ir_id x = ir_id f" "ir_expires_at x = ir_expires_at f" "ir_status x = COMPLETED"
      using idem_invD(7) [OF inv f(1)] by (auto simp: kept_def)
    then have "x = r" using idem_unique(1) [OF ok x(1) r] f(2) by simp
    then show False using x why \<open>\<not> is_expired (stamp m) f\<close> by (auto simp: is_expired_def)
  qed
  ultimately show ?thesis using idem_invD(3) [OF inv r] unfolding gone_def by blast
qed

lemma judge_existing_drops:
  "judge_existing pttl now now rh ex = DropRecord i \<Longrightarrow>
     \<exists>r. ex = Some r \<and> i = ir_id r \<and> (is_expired now r \<or> (ir_status r \<noteq> COMPLETED \<and> (\<exists>t. stale_after pttl r = Inr t \<and> t < now)))"
  by (auto simp: judge_existing_def judge_processing_def split: option.splits if_splits sum.splits)

lemma judge_winner_drops:
  "judge_winner pttl now rh ex = DropRecord i \<Longrightarrow>
     \<exists>r. ex = Some r \<and> i = ir_id r \<and> ir_status r \<noteq> COMPLETED \<and> (\<exists>t. stale_after pttl r = Inr t \<and> t < now)"
  by (auto simp: judge_winner_def judge_processing_def split: option.splits if_splits sum.splits)


text \<open>A caller that moves to a phase that is neither in flight nor a wrong drop keeps the invariant.\<close>

lemma idem_inv_goto:
  assumes inv: "idem_inv pttl m" and quiet: "\<And>r. p \<noteq> InFlight r"
    and drops: "\<And>i first actor kh rh. p = Drop i first actor kh rh \<Longrightarrow> i \<in> im_used m \<and> gone m i"
  shows "idem_inv pttl (goto c p m)"
proof -
  have fl: "in_flight m c' r" if "in_flight (goto c p m) c' r" for c' r
    using that quiet by (auto simp: in_flight_goto split: if_splits)
  have gone: "gone (goto c p m) i" if "gone m i" for i
    using that fl unfolding gone_def by simp blast
  show ?thesis
  proof (rule idem_invI)
    show "i \<in> im_used (goto c p m) \<and> gone (goto c p m) i"
      if "im_phase (goto c p m) c' = Drop i first actor kh rh" for c' i first actor kh rh
    proof -
      have "i \<in> im_used m \<and> gone m i"
        using that drops [of i first actor kh rh] idem_invD(6) [OF inv, of c' i first actor kh rh]
        by (simp split: if_splits)
      then show ?thesis using gone by simp
    qed
    show "ir_id f \<in> im_used (goto c p m) \<and> (is_expired (stamp (goto c p m)) f \<or> kept (goto c p m) f)
        \<and> (\<forall>c' r. in_flight (goto c p m) c' r \<longrightarrow> ir_id r \<noteq> ir_id f)" if "f \<in> set (im_finished (goto c p m))" for f
      using idem_invD(7) [OF inv, of f] that fl by (simp add: kept_def) blast
    show "r \<in> set (im_table (goto c p m)) \<and> ir_status r = PROCESSING \<and> live pttl (stamp (goto c p m)) r"
      if "in_flight (goto c p m) c' r" for c' r
      using idem_invD(4) [OF inv fl [OF that]] by simp
    show "c1 = c2" if "in_flight (goto c p m) c1 r" "in_flight (goto c p m) c2 r'" "ir_id r = ir_id r'" for c1 c2 r r'
      by (rule idem_invD(5) [OF inv fl [OF that(1)] fl [OF that(2)] that(3)])
  qed (use idem_invD(1-3) [OF inv] in simp_all)
qed

lemma idem_inv_delete:
  assumes inv: "idem_inv pttl m" and gone: "gone m i"
  shows "idem_inv pttl (m\<lparr>im_table := idem_delete i (im_table m)\<rparr>)"
proof (rule idem_invI)
  show "ir_id f \<in> im_used (m\<lparr>im_table := idem_delete i (im_table m)\<rparr>)
      \<and> (is_expired (stamp (m\<lparr>im_table := idem_delete i (im_table m)\<rparr>)) f \<or> kept (m\<lparr>im_table := idem_delete i (im_table m)\<rparr>) f)
      \<and> (\<forall>c r. in_flight (m\<lparr>im_table := idem_delete i (im_table m)\<rparr>) c r \<longrightarrow> ir_id r \<noteq> ir_id f)"
    if "f \<in> set (im_finished (m\<lparr>im_table := idem_delete i (im_table m)\<rparr>))" for f
    using idem_invD(7) [OF inv, of f] that gone by (auto simp: kept_def gone_def idem_delete_rows(1))
  show "j \<in> im_used (m\<lparr>im_table := idem_delete i (im_table m)\<rparr>) \<and> gone (m\<lparr>im_table := idem_delete i (im_table m)\<rparr>) j"
    if "im_phase (m\<lparr>im_table := idem_delete i (im_table m)\<rparr>) c = Drop j first actor kh rh" for c j first actor kh rh
    using idem_invD(6) [OF inv] that by (auto simp: gone_def)
qed (use idem_invD(1-5) [OF inv] gone in \<open>auto simp: idem_delete_rows gone_def\<close>)

lemma idem_inv_claim:
  assumes inv: "idem_inv pttl m" and ttl: "0 \<le> ttl" "0 \<le> pttl" and r: "claim_of ttl m i actor kh rh r"
    and t: "idem_create r (im_table m) = Some t"
  shows "idem_inv pttl (goto c (InFlight r) (m\<lparr>im_table := t, im_used := insert i (im_used m)\<rparr>))"
proof -
  let ?m = "goto c (InFlight r) (m\<lparr>im_table := t, im_used := insert i (im_used m)\<rparr>)"
  have i: "i \<notin> im_used m" "ir_id r = i" "ir_status r = PROCESSING"
    and times: "ir_created_at r = stamp m" "add_seconds (stamp m) ttl = Inr (ir_expires_at r)"
    using r by (auto simp: claim_of_def)
  note start = not_before_start [OF idem_invD(1) [OF inv], folded stamp_def]
  have live: "live pttl (stamp m) r"
    using start [OF ttl(1) times(2)] start [OF ttl(2)]
    by (auto simp: live_def is_expired_def stale_after_def times(1) split: sum.splits)
  have fl: "in_flight ?m c' x \<longleftrightarrow> (if c' = c then x = r else in_flight m c' x)" for c' x
    by (auto simp: in_flight_goto)
  have used: "ir_id x \<in> im_used m" if "in_flight m c' x" for c' x
    using idem_invD(4) [OF inv that] idem_invD(3) [OF inv] by blast
  have rows: "set t = insert r (set (im_table m))" "idem_table_ok t"
    using idem_create_rows [OF t] idem_invD(2) [OF inv] by auto
  show ?thesis
  proof (rule idem_invI)
    show "x \<in> set (im_table ?m) \<and> ir_status x = PROCESSING \<and> live pttl (stamp ?m) x" if "in_flight ?m c' x" for c' x
    proof (cases "c' = c")
      case True
      then have "x = r" using that by (simp add: fl)
      then show ?thesis using live i(3) rows(1) by simp
    next
      case False
      then have "in_flight m c' x" using that by (simp add: fl)
      from idem_invD(4) [OF inv this] show ?thesis using rows(1) by simp
    qed
    show "c1 = c2" if "in_flight ?m c1 x" "in_flight ?m c2 y" "ir_id x = ir_id y" for c1 c2 x y
    proof -
      have one: "in_flight m c' z \<or> (c' = c \<and> ir_id z = i)" if "in_flight ?m c' z" for c' z
        using that i(2) unfolding fl by (cases "c' = c") simp_all
      show ?thesis
        using one [OF that(1)] one [OF that(2)] used [of c1 x] used [of c2 y] that(3) i(1)
          idem_invD(5) [OF inv _ _ that(3), of c1 c2] by metis
    qed
    show "j \<in> im_used ?m \<and> gone ?m j" if "im_phase ?m c' = Drop j first actor' kh' rh'" for c' j first actor' kh' rh'
    proof -
      have "im_phase m c' = Drop j first actor' kh' rh'" using that by (auto split: if_splits)
      then have "j \<in> im_used m" "gone m j" using idem_invD(6) [OF inv] by blast+
      moreover have "ir_id x \<noteq> j" if "in_flight ?m c2 x" for c2 x
      proof (cases "c2 = c")
        case True
        then show ?thesis using that calculation(1) i(1,2) by (auto simp: fl)
      next
        case False
        then show ?thesis using that calculation(2) by (simp add: fl gone_def)
      qed
      ultimately show ?thesis by (simp add: gone_def)
    qed
    show "ir_id f \<in> im_used ?m \<and> (is_expired (stamp ?m) f \<or> kept ?m f) \<and> (\<forall>c' x. in_flight ?m c' x \<longrightarrow> ir_id x \<noteq> ir_id f)"
      if "f \<in> set (im_finished ?m)" for f
    proof -
      have f: "ir_id f \<in> im_used m" "is_expired (stamp m) f \<or> kept m f" "\<forall>c' x. in_flight m c' x \<longrightarrow> ir_id x \<noteq> ir_id f"
        using idem_invD(7) [OF inv, of f] that by simp_all
      have "kept ?m f" if "kept m f" using that rows(1) by (simp add: kept_def)
      moreover have "ir_id x \<noteq> ir_id f" if "in_flight ?m c2 x" for c2 x
        using that f i(1,2) by (cases "c2 = c") (auto simp: fl)
      ultimately show ?thesis using f by auto
    qed
    show "ir_id x \<in> im_used ?m" if "x \<in> set (im_table ?m)" for x
      using that rows i idem_invD(3) [OF inv] by auto
  qed (use idem_invD(1) [OF inv] rows in auto)
qed

lemma idem_inv_finish:
  assumes inv: "idem_inv pttl m" and r: "in_flight m c r"
  shows "idem_inv pttl (goto c Idle (m\<lparr>im_table := complete_row (stamp m) (ir_id r) resp (im_table m),
      im_finished := r # im_finished m\<rparr>))"
proof -
  let ?t = "complete_row (stamp m) (ir_id r) resp (im_table m)"
  let ?m = "goto c Idle (m\<lparr>im_table := ?t, im_finished := r # im_finished m\<rparr>)"
  note ok = idem_invD(2) [OF inv]
  note mem = idem_invD(4) [OF inv r]
  note rows = complete_row_rows(2,3) [OF ok conjunct1 [OF mem], of "stamp m" resp]
  have fl: "in_flight ?m c' x \<longleftrightarrow> c' \<noteq> c \<and> in_flight m c' x" for c' x
    by (auto simp: in_flight_goto)
  have other: "ir_id x \<noteq> ir_id r \<and> x \<in> set ?t" if "in_flight m c' x" "c' \<noteq> c" for c' x
    using idem_invD(5) [OF inv that(1) r] that(2) idem_invD(4) [OF inv that(1)] rows(1) by auto
  have keep: "kept ?m f" if "kept m f" for f
    using that mem rows(1) by (auto simp: kept_def)
  show ?thesis
  proof (rule idem_invI)
    show "ir_id x \<in> im_used ?m" if "x \<in> set (im_table ?m)" for x
      using that rows(1) idem_invD(3) [OF inv] mem by auto
    show "x \<in> set (im_table ?m) \<and> ir_status x = PROCESSING \<and> live pttl (stamp ?m) x" if "in_flight ?m c' x" for c' x
      using that other idem_invD(4) [OF inv, of c' x] by (auto simp: fl)
    show "c1 = c2" if "in_flight ?m c1 x" "in_flight ?m c2 y" "ir_id x = ir_id y" for c1 c2 x y
      using that idem_invD(5) [OF inv, of c1 x c2 y] by (auto simp: fl)
    show "j \<in> im_used ?m \<and> gone ?m j" if "im_phase ?m c' = Drop j first actor kh rh" for c' j first actor kh rh
    proof -
      have "im_phase m c' = Drop j first actor kh rh" using that by (auto split: if_splits)
      then have "j \<in> im_used m" "gone m j" using idem_invD(6) [OF inv] by blast+
      then show ?thesis using r by (auto simp: gone_def fl)
    qed
    show "ir_id f \<in> im_used ?m \<and> (is_expired (stamp ?m) f \<or> kept ?m f) \<and> (\<forall>c' x. in_flight ?m c' x \<longrightarrow> ir_id x \<noteq> ir_id f)"
      if "f \<in> set (im_finished ?m)" for f
    proof (cases "f = r")
      case True
      have "completed (stamp m) resp r \<in> set (im_table ?m)" using rows(1) by simp
      then have "kept ?m r" unfolding kept_def by (rule bexI [rotated]) (simp add: completed_def)
      moreover have "ir_id r \<in> im_used ?m" using mem idem_invD(3) [OF inv] by simp
      moreover have "\<forall>c' x. in_flight ?m c' x \<longrightarrow> ir_id x \<noteq> ir_id r" using other unfolding fl by blast
      ultimately show ?thesis unfolding True by blast
    next
      case False
      then have "f \<in> set (im_finished m)" using that by simp
      from idem_invD(7) [OF inv this] keep show ?thesis unfolding fl by simp blast
    qed
  qed (use idem_invD(1) [OF inv] rows(2) in auto)
qed

lemma idem_inv_fail:
  assumes inv: "idem_inv pttl m" and r: "in_flight m c r"
  shows "idem_inv pttl (goto c Idle (m\<lparr>im_table := idem_delete (ir_id r) (im_table m)\<rparr>))"
proof -
  have inv': "idem_inv pttl (goto c Idle m)" by (rule idem_inv_goto [OF inv]) auto
  have "gone (goto c Idle m) (ir_id r)"
    unfolding gone_def in_flight_goto using idem_invD(5) [OF inv r] idem_invD(7) [OF inv] r
    by (metis goto_sel(3) phase.distinct(7))
  from idem_inv_delete [OF inv' this]
  have "idem_inv pttl ((goto c Idle m)\<lparr>im_table := idem_delete (ir_id r) (im_table m)\<rparr>)" unfolding goto_sel .
  then show ?thesis unfolding goto_def by (cases m) simp
qed

lemma idem_inv_step:
  assumes "0 \<le> ttl" and "0 \<le> pttl" and "idem_step ttl pttl m m'" and "idem_inv pttl m"
  shows "idem_inv pttl m'"
  using assms(3)
proof cases
  case (look c v rh actor kh)
  have "i \<in> im_used m \<and> gone m i" if "v = DropRecord i" for i
    using judge_existing_drops [of pttl "stamp m" rh "idem_get (im_table m) actor kh" i] look(3) that
      dropped_is_gone [OF assms(4)] by (auto dest!: idem_get_Some)
  then show ?thesis
    unfolding look(1) by (intro idem_inv_goto [OF assms(4)]) (auto simp: next_phase_def split: verdict.splits)
next
  case (drop c i first actor kh rh)
  have "gone m i" using idem_invD(6) [OF assms(4) drop(2)] by blast
  from idem_inv_goto [OF idem_inv_delete [OF assms(4) this], of "Claim first actor kh rh" c] show ?thesis
    unfolding drop(1) by simp
next
  case (claim c first actor kh rh i r t)
  then show ?thesis using idem_inv_claim [OF assms(4) assms(1,2)] by blast
next
  case (lose c first actor kh rh i r)
  show ?thesis unfolding lose(1) by (rule idem_inv_goto [OF assms(4)]) (auto split: if_splits)
next
  case (race c actor kh rh v)
  have "i \<in> im_used m \<and> gone m i" if "v = DropRecord i" for i
    using judge_winner_drops [of pttl "stamp m" rh "idem_get (im_table m) actor kh" i] race(3) that
      dropped_is_gone [OF assms(4)] by (auto dest!: idem_get_Some)
  then show ?thesis
    unfolding race(1) by (intro idem_inv_goto [OF assms(4)]) (auto simp: next_phase_def split: verdict.splits)
next
  case (finish c r resp)
  then show ?thesis using idem_inv_finish [OF assms(4)] by (simp add: in_flight_def)
next
  case (fail c r)
  then show ?thesis using idem_inv_fail [OF assms(4)] by (simp add: in_flight_def)
next
  case (crash c)
  show ?thesis unfolding crash by (rule idem_inv_goto [OF assms(4)]) auto
next
  case (tick now)
  have old: "is_expired (stamp m) f \<Longrightarrow> is_expired (iso_of now) f" for f
    using tick(3) by (auto simp: is_expired_def)
  show ?thesis
    unfolding tick(1)
  proof (rule idem_invI)
    show "ir_id f \<in> im_used (m\<lparr>im_now := now\<rparr>) \<and> (is_expired (stamp (m\<lparr>im_now := now\<rparr>)) f \<or> kept (m\<lparr>im_now := now\<rparr>) f)
        \<and> (\<forall>c r. in_flight (m\<lparr>im_now := now\<rparr>) c r \<longrightarrow> ir_id r \<noteq> ir_id f)" if "f \<in> set (im_finished (m\<lparr>im_now := now\<rparr>))" for f
      using idem_invD(7) [OF assms(4), of f] that old by (auto simp: kept_def)
    show "i \<in> im_used (m\<lparr>im_now := now\<rparr>) \<and> gone (m\<lparr>im_now := now\<rparr>) i"
      if "im_phase (m\<lparr>im_now := now\<rparr>) c = Drop i first actor kh rh" for c i first actor kh rh
      using idem_invD(6) [OF assms(4), of c i] that old by (auto simp: gone_def)
    show "r \<in> set (im_table (m\<lparr>im_now := now\<rparr>)) \<and> ir_status r = PROCESSING \<and> live pttl (stamp (m\<lparr>im_now := now\<rparr>)) r"
      if "in_flight (m\<lparr>im_now := now\<rparr>) c r" for c r
      using idem_invD(4) [OF assms(4), of c r] tick(4) [of c r] that by (simp add: in_flight_def)
  qed (use idem_invD(1,2,3,5) [OF assms(4)] tick(2) in auto)
qed

lemma idem_inv_reachable:
  assumes "0 \<le> ttl" and "0 \<le> pttl" and "valid_dt now" and "(idem_step ttl pttl)\<^sup>*\<^sup>* (start_machine now) m"
  shows "idem_inv pttl m"
  using assms(4)
proof (induction rule: rtranclp_induct)
  case base
  show ?case by (rule idem_invI) (use assms(3) in \<open>auto simp: start_machine_def in_flight_def idem_table_ok_def\<close>)
next
  case (step m m')
  then show ?case using idem_inv_step [OF assms(1,2)] by blast
qed


section \<open>Single flight\<close>

text \<open>C7. Under any interleaving of callers, processes, crashes and the clock, an idempotency key of an actor
  has at most one dispatch at a time, and none while an earlier dispatch of the same key that returned is
  within its life: a second dispatch needs the first one's record to have expired.\<close>

theorem one_dispatch_per_key:
  assumes "0 \<le> ttl" and "0 \<le> pttl" and "valid_dt now"
    and "(idem_step ttl pttl)\<^sup>*\<^sup>* (start_machine now) m" and "im_phase m c = InFlight r"
  shows "(\<forall>c' r'. im_phase m c' = InFlight r' \<and> ir_actor_id r' = ir_actor_id r \<and> ir_key_hash r' = ir_key_hash r
            \<longrightarrow> c' = c)
       \<and> (\<forall>f \<in> set (im_finished m). ir_actor_id f = ir_actor_id r \<and> ir_key_hash f = ir_key_hash r
            \<longrightarrow> is_expired (stamp m) f)"
proof -
  have inv: "idem_inv pttl m" by (rule idem_inv_reachable [OF assms(1-4)])
  note ok = idem_invD(2) [OF inv]
  have r: "in_flight m c r" using assms(5) by (simp add: in_flight_def)
  note row = idem_invD(4) [OF inv r]
  have "c' = c" if "im_phase m c' = InFlight r'" "ir_actor_id r' = ir_actor_id r" "ir_key_hash r' = ir_key_hash r" for c' r'
  proof -
    have r': "in_flight m c' r'" using that(1) by (simp add: in_flight_def)
    have "r' = r" using idem_unique(2) [OF ok] idem_invD(4) [OF inv r'] row that(2,3) by blast
    then show ?thesis using idem_invD(5) [OF inv r' r] by simp
  qed
  moreover have "is_expired (stamp m) f"
    if f: "f \<in> set (im_finished m)" "ir_actor_id f = ir_actor_id r" "ir_key_hash f = ir_key_hash r" for f
  proof (rule ccontr)
    assume "\<not> is_expired (stamp m) f"
    then obtain x where "x \<in> set (im_table m)" "ir_actor_id x = ir_actor_id r" "ir_key_hash x = ir_key_hash r"
        "ir_status x = COMPLETED"
      using idem_invD(7) [OF inv f(1)] f(2,3) by (auto simp: kept_def)
    then have "x = r" using idem_unique(2) [OF ok] row by blast
    then show False using row \<open>ir_status x = COMPLETED\<close> by simp
  qed
  ultimately show ?thesis by blast
qed

section \<open>Replay\<close>

definition recorded :: "string \<Rightarrow> string \<Rightarrow> string \<Rightarrow> response \<Rightarrow> idem_record list \<Rightarrow> bool" where
  "recorded actor kh rh resp t = (\<exists>r. idem_get t actor kh = Some r \<and> ir_status r = COMPLETED
     \<and> ir_request_hash r = rh \<and> ir_response r = Some (response_payload resp))"

text \<open>What every stored response is: its challenge stripped.\<close>

definition stripped :: "idem_record list \<Rightarrow> bool" where
  "stripped t = (\<forall>r \<in> set t. \<forall>x. ir_response r = Some x \<longrightarrow> response_payload x = x)"

lemma response_payload_twice [simp]: "response_payload (response_payload r) = response_payload r"
  by (simp add: response_payload_def)

lemma itx_Inr: "itx commit body s = (Inr x, s') \<Longrightarrow>
    (x = None \<and> body (fst s) = None \<and> s' = s) \<or> (\<exists>y. x = Some y \<and> body (fst s) = Some (y, fst s'))"
  by (auto simp: itx_def split: option.splits prod.splits bool.splits)

lemma lookup_record_Inr: "lookup_record sv actor kh s = (Inr x, s') \<Longrightarrow> x = idem_get (fst s) actor kh \<and> fst s' = fst s"
  unfolding lookup_record_def bind_Inr_iff by (fastforce dest: itx_Inr)

lemma delete_record_Inr: "delete_record sv i s = (Inr x, s') \<Longrightarrow> fst s' = idem_delete i (fst s)"
  unfolding delete_record_def seq_Inr_iff by (fastforce dest: itx_Inr)

lemma drop_then: "seq (delete_record sv i) k s = (Inr y, s') \<Longrightarrow> \<exists>s3. fst s3 = idem_delete i (fst s) \<and> k s3 = (Inr y, s')"
  unfolding seq_Inr_iff using delete_record_Inr by blast

lemma iask_Inr: "iask f s = (Inr x, s') \<Longrightarrow> fst s' = fst s"
  by (auto simp: iask_def split: prod.splits)

lemma new_record_Inr:
  "new_record sv actor kh rh s = (Inr r, s') \<Longrightarrow> fst s' = fst s \<and> ir_actor_id r = actor \<and> ir_key_hash r = kh
     \<and> ir_request_hash r = rh \<and> ir_response r = None"
proof -
  assume "new_record sv actor kh rh s = (Inr r, s')"
  then obtain i s1 now s2 where 1: "iask (is_uuid sv) s = (Inr i, s1)" "iask (is_utcnow sv) s1 = (Inr now, s2)"
      and rest: "(case add_seconds now (is_ttl sv) of
         Inl e \<Rightarrow> raise_exc (OtherExc (cron_exc_name e))
       | Inr expires \<Rightarrow>
           bind (iask (is_utcnow sv)) (\<lambda>created. bind (iask (is_utcnow sv)) (\<lambda>updated.
             ret \<lparr>ir_id = i, ir_actor_id = actor, ir_key_hash = kh, ir_request_hash = rh,
                  ir_status = PROCESSING, ir_response = None, ir_created_at = created,
                  ir_updated_at = updated, ir_expires_at = expires\<rparr>))) s2 = (Inr r, s')"
    unfolding new_record_def bind_Inr_iff by blast
  show ?thesis
    using rest iask_Inr [OF 1(1)] iask_Inr [OF 1(2)]
    by (cases "add_seconds now (is_ttl sv)") (auto simp: bind_Inr_iff dest!: iask_Inr)
qed

lemma stripped_simps:
  "stripped t \<Longrightarrow> stripped (idem_delete i t)" "stripped t \<Longrightarrow> ir_response r = None \<Longrightarrow> idem_create r t = Some t' \<Longrightarrow> stripped t'"
  by (auto simp: stripped_def idem_delete_rows idem_create_rows(1))

lemma begin_record_Inr:
  assumes "begin_record sv actor kh rh s = (Inr b, s')" and "idem_table_ok (fst s)" and "stripped (fst s)"
  shows "idem_table_ok (fst s') \<and> stripped (fst s') \<and> (case b of
      Inl r \<Rightarrow> r \<in> set (fst s') \<and> ir_actor_id r = actor \<and> ir_key_hash r = kh \<and> ir_request_hash r = rh
    | Inr ex \<Rightarrow> ex = idem_get (fst s') actor kh)"
proof -
  obtain r s1 made s2 where 1: "new_record sv actor kh rh s = (Inr r, s1)"
      and 2: "itx (is_commit sv) (\<lambda>t. map_option (Pair ()) (idem_create r t)) s1 = (Inr made, s2)"
      and 3: "(case made of Some _ \<Rightarrow> ret (Inl r)
       | None \<Rightarrow> bind (lookup_record sv actor kh) (\<lambda>ex. ret (Inr ex))) s2 = (Inr b, s')"
    using assms(1) unfolding begin_record_def bind_Inr_iff by blast
  note r = new_record_Inr [OF 1]
  show ?thesis
  proof (cases made)
    case None
    then obtain ex where "lookup_record sv actor kh s2 = (Inr ex, s')" "b = Inr ex"
      using 3 by (auto simp: bind_Inr_iff)
    moreover have "s2 = s1" using itx_Inr [OF 2] None by auto
    ultimately show ?thesis using lookup_record_Inr r assms by fastforce
  next
    case (Some u)
    then have "b = Inl r" "s' = s2" using 3 by auto
    moreover have t: "idem_create r (fst s) = Some (fst s2)" using itx_Inr [OF 2] Some r by auto
    ultimately show ?thesis using idem_create_rows [OF t] stripped_simps(2) [OF assms(3) _ t] r assms(2) by simp
  qed
qed

lemma complete_record_Inr:
  assumes "complete_record sv (ir_id r) resp s = (Inr x, s')" and ok: "idem_table_ok (fst s)" and r: "r \<in> set (fst s)"
  shows "recorded (ir_actor_id r) (ir_key_hash r) (ir_request_hash r) resp (fst s')"
proof -
  have "idem_by_id (fst s) (ir_id r) \<noteq> None" using r by (auto simp: idem_by_id_None)
  then obtain now where t: "fst s' = complete_row now (ir_id r) resp (fst s)"
    using assms(1) unfolding complete_record_def
    by (fastforce simp: bind_Inr_iff seq_Inr_iff dest: itx_Inr iask_Inr)
  let ?c = "completed now resp r"
  note rows = complete_row_rows(2,3) [OF ok r, of now resp, folded t]
  have c: "?c \<in> set (fst s')" using rows(1) by simp
  then have "idem_get (fst s') (ir_actor_id r) (ir_key_hash r) \<noteq> None"
    by (auto simp: idem_get_None image_iff intro!: bexI [of _ ?c])
  then obtain y where y: "idem_get (fst s') (ir_actor_id r) (ir_key_hash r) = Some y" by auto
  then have "y = ?c" using idem_unique(2) [OF rows(2) _ c] idem_get_Some [OF y] by simp
  then show ?thesis using y by (simp add: recorded_def)
qed

lemma dispatch_recorded_Inr:
  assumes "dispatch_recorded sv (ir_id r) dispatch s = (Inr resp, s')" and "idem_table_ok (fst s)" and "r \<in> set (fst s)"
  shows "recorded (ir_actor_id r) (ir_key_hash r) (ir_request_hash r) resp (fst s')"
proof -
  obtain s1 where "in_world dispatch s = (Inr resp, s1)" and 2: "complete_record sv (ir_id r) resp s1 = (Inr (), s')"
    using assms(1) unfolding dispatch_recorded_def
    by (auto simp: seq_Inr_iff split: prod.splits sum.splits)
  then have "fst s1 = fst s" by (auto simp: in_world_def split: prod.splits)
  then show ?thesis using complete_record_Inr [OF 2] assms(2,3) by simp
qed

lemma begun_dispatch:
  assumes "begin_record sv actor kh rh s = (Inr (Inl r), s1)" and "dispatch_recorded sv (ir_id r) dispatch s1 = (Inr resp, s')"
    and "idem_table_ok (fst s)" and "stripped (fst s)"
  shows "recorded actor kh rh resp (fst s')"
  using begin_record_Inr [OF assms(1,3,4)] dispatch_recorded_Inr [OF assms(2)] by auto

lemma completed_is_recorded:
  assumes "idem_get t actor kh = Some r" and "ir_status r = COMPLETED" and "resolve_completed r rh = Inr resp" and "stripped t"
  shows "recorded actor kh rh resp t"
proof -
  have "ir_request_hash r = rh" "ir_response r = Some resp"
    using assms(3) by (auto simp: resolve_completed_def split: if_splits option.splits)
  moreover have "response_payload resp = resp"
    using assms(4) idem_get_Some [OF assms(1)] calculation(2) by (auto simp: stripped_def)
  ultimately show ?thesis using assms(1,2) by (simp add: recorded_def)
qed

lemma judge_processing_not_ok: "judge_processing pttl now r \<noteq> Finish (Inr x)"
  by (auto simp: judge_processing_def split: sum.splits)

lemma judged_recorded:
  assumes "judge_existing pttl now now' rh (idem_get t actor kh) = Finish (Inr resp)
      \<or> judge_winner pttl now rh (idem_get t actor kh) = Finish (Inr resp)" and "stripped t"
  shows "recorded actor kh rh resp t"
proof -
  obtain r where r: "idem_get t actor kh = Some r"
    using assms(1) by (auto simp: judge_existing_def judge_winner_def split: option.splits)
  then have "ir_status r = COMPLETED" "resolve_completed r rh = Inr resp"
    using assms(1) judge_processing_not_ok by (auto simp: judge_existing_def judge_winner_def split: if_splits)
  then show ?thesis by (rule completed_is_recorded [OF r _ _ assms(2)])
qed

lemma judge_lookup_Inr:
  assumes "judge_lookup sv rh ex s = (Inr v, s')"
  shows "fst s' = fst s \<and> (\<exists>now now'. v = judge_existing (is_processing_ttl sv) now now' rh ex)"
proof (cases ex)
  case None
  then show ?thesis using assms by (simp add: judge_lookup_def judge_existing_def)
next
  case (Some r)
  then show ?thesis
    using assms by (auto simp: judge_lookup_def bind_Inr_iff dest!: iask_Inr split: if_splits)
qed

lemma judge_race_Inr:
  assumes "judge_race sv rh ex s = (Inr v, s')"
  shows "fst s' = fst s \<and> (\<exists>now. v = judge_winner (is_processing_ttl sv) now rh ex)"
  using assms by (cases ex) (auto simp: judge_race_def bind_Inr_iff dest!: iask_Inr split: if_splits)

lemma second_attempt_Inr:
  assumes "second_attempt sv actor kh rh dispatch s = (Inr resp, s')" and "idem_table_ok (fst s)" and "stripped (fst s)"
  shows "recorded actor kh rh resp (fst s')"
proof -
  obtain b s1 where 1: "begin_record sv actor kh rh s = (Inr b, s1)"
      and 2: "(case b of Inl r \<Rightarrow> dispatch_recorded sv (ir_id r) dispatch
       | Inr _ \<Rightarrow> raise_exc (OtherExc ''IdempotencyInProgress'')) s1 = (Inr resp, s')"
    using assms(1) unfolding second_attempt_def bind_Inr_iff by blast
  obtain r where "b = Inl r" using 2 by (cases b) auto
  then show ?thesis using begun_dispatch [OF _ _ assms(2,3)] 1 2 by simp
qed

lemma first_attempt_Inr:
  assumes "first_attempt sv actor kh rh dispatch s = (Inr resp, s')" and ok: "idem_table_ok (fst s)" "stripped (fst s)"
  shows "recorded actor kh rh resp (fst s')"
proof -
  obtain b s1 where 1: "begin_record sv actor kh rh s = (Inr b, s1)"
      and 2: "(case b of
         Inl r \<Rightarrow> dispatch_recorded sv (ir_id r) dispatch
       | Inr ex \<Rightarrow> bind (judge_race sv rh ex) (\<lambda>v. case v of
           Finish res \<Rightarrow> lift_res res
         | DropRecord i \<Rightarrow> seq (delete_record sv i) (second_attempt sv actor kh rh dispatch)
         | Proceed \<Rightarrow> second_attempt sv actor kh rh dispatch)) s1 = (Inr resp, s')"
    using assms(1) unfolding first_attempt_def bind_Inr_iff by blast
  note b = begin_record_Inr [OF 1 ok]
  show ?thesis
  proof (cases b)
    case (Inl r)
    then show ?thesis using begun_dispatch [OF _ _ ok] 1 2 by simp
  next
    case (Inr ex)
    then obtain v s2 where 3: "judge_race sv rh ex s1 = (Inr v, s2)"
        and 4: "(case v of Finish res \<Rightarrow> lift_res res
         | DropRecord i \<Rightarrow> seq (delete_record sv i) (second_attempt sv actor kh rh dispatch)
         | Proceed \<Rightarrow> second_attempt sv actor kh rh dispatch) s2 = (Inr resp, s')"
      using 2 by (auto simp: bind_Inr_iff)
    have s2: "idem_table_ok (fst s2)" "stripped (fst s2)" "ex = idem_get (fst s2) actor kh"
      using b judge_race_Inr [OF 3] Inr by auto
    show ?thesis
    proof (cases v)
      case Proceed
      then show ?thesis using second_attempt_Inr [OF _ s2(1,2)] 4 by simp
    next
      case (DropRecord i)
      have "seq (delete_record sv i) (second_attempt sv actor kh rh dispatch) s2 = (Inr resp, s')"
        using 4 DropRecord by simp
      from drop_then [OF this]
      obtain s3 where "fst s3 = idem_delete i (fst s2)" "second_attempt sv actor kh rh dispatch s3 = (Inr resp, s')"
        by blast
      then show ?thesis using second_attempt_Inr [of sv actor kh rh dispatch s3 resp s']
          idem_delete_rows(2) [OF s2(1)] stripped_simps(1) [OF s2(2)] by simp
    next
      case (Finish res)
      then have "v = Finish (Inr resp)" "s' = s2" using 4 by simp_all
      then show ?thesis
        using judge_race_Inr [OF 3] judged_recorded [OF _ s2(2)] s2(3) by metis
    qed
  qed
qed

lemma run_recorded:
  assumes "idem_run sv actor key rh dispatch s = (Inr resp, s')" and ok: "idem_table_ok (fst s)" "stripped (fst s)"
  shows "recorded actor (key_fingerprint (is_sha sv) (is_frepr sv) actor key) rh resp (fst s')"
proof -
  let ?kh = "key_fingerprint (is_sha sv) (is_frepr sv) actor key"
  obtain ex s1 v s2 where 1: "lookup_record sv actor ?kh s = (Inr ex, s1)" and 2: "judge_lookup sv rh ex s1 = (Inr v, s2)"
      and 3: "(case v of Finish res \<Rightarrow> lift_res res
        | DropRecord i \<Rightarrow> seq (delete_record sv i) (first_attempt sv actor ?kh rh dispatch)
        | Proceed \<Rightarrow> first_attempt sv actor ?kh rh dispatch) s2 = (Inr resp, s')"
    using assms(1) unfolding idem_run_def Let_def bind_Inr_iff by blast
  have s2: "idem_table_ok (fst s2)" "stripped (fst s2)" "ex = idem_get (fst s2) actor ?kh"
    using lookup_record_Inr [OF 1] judge_lookup_Inr [OF 2] ok by auto
  show ?thesis
  proof (cases v)
    case Proceed
    then show ?thesis using first_attempt_Inr [OF _ s2(1,2)] 3 by simp
  next
    case (DropRecord i)
    have "seq (delete_record sv i) (first_attempt sv actor ?kh rh dispatch) s2 = (Inr resp, s')" using 3 DropRecord by simp
    from drop_then [OF this] obtain s3 where "fst s3 = idem_delete i (fst s2)" "first_attempt sv actor ?kh rh dispatch s3 = (Inr resp, s')"
      by blast
    then show ?thesis using first_attempt_Inr [of sv actor ?kh rh dispatch s3 resp s']
        idem_delete_rows(2) [OF s2(1)] stripped_simps(1) [OF s2(2)] by simp
  next
    case (Finish res)
    then have "v = Finish (Inr resp)" "s' = s2" using 3 by simp_all
    then show ?thesis using judge_lookup_Inr [OF 2] judged_recorded [OF _ s2(2)] s2(3) by metis
  qed
qed

text \<open>A recorded, unexpired key is answered from the table.\<close>

lemma run_replays:
  assumes get: "idem_get t actor (key_fingerprint (is_sha sv) (is_frepr sv) actor key) = Some r"
    and "ir_status r = COMPLETED" and "is_commit sv w = (True, w1)" and "is_utcnow sv w1 = (now, w2)" and "\<not> is_expired now r"
  shows "idem_run sv actor key rh dispatch (t, w) = (resolve_completed r rh, (t, w2))"
proof -
  have "lookup_record sv actor (key_fingerprint (is_sha sv) (is_frepr sv) actor key) (t, w) = (Inr (Some r), (t, w1))"
    using assms(3) get by (simp add: lookup_record_def itx_def bind_def ret_def)
  moreover have "judge_lookup sv rh (Some r) (t, w1) = (Inr (Finish (resolve_completed r rh)), (t, w2))"
    using assms(2,4,5) by (simp add: judge_lookup_def judge_existing_def bind_def iask_def ret_def)
  ultimately show ?thesis by (simp add: idem_run_def Let_def bind_def lift_res_def)
qed



section \<open>The properties at concrete inputs\<close>

definition demo_claim :: idem_record where
  "demo_claim = \<lparr>ir_id = ''i'', ir_actor_id = ''ada'', ir_key_hash = ''kh'', ir_request_hash = ''rh'', ir_status = PROCESSING,
     ir_response = None, ir_created_at = iso_of whole_second, ir_updated_at = iso_of whole_second,
     ir_expires_at = (case add_seconds (iso_of whole_second) 60 of Inl _ \<Rightarrow> [] | Inr t \<Rightarrow> t)\<rparr>"

definition demo_machine :: idem_machine where
  "demo_machine = goto 1 (InFlight demo_claim) (start_machine whole_second)\<lparr>im_table := [demo_claim], im_used := {''i''}\<rparr>"

lemma demo_machine_reachable: "(idem_step 60 30)\<^sup>*\<^sup>* (start_machine whole_second) demo_machine"
proof -
  let ?m = "start_machine whole_second" and ?p = "Claim True ''ada'' ''kh'' ''rh''"
  have ok: "is_ok (add_seconds (iso_of whole_second) 60)" by code_simp
  have "idem_step 60 30 ?m (goto 1 (next_phase Proceed True ''ada'' ''kh'' ''rh'') ?m)"
    by (rule idem_step.look) (simp_all add: start_machine_def idem_get_def judge_existing_def)
  moreover have "idem_step 60 30 (goto 1 ?p ?m)
      (goto 1 (InFlight demo_claim) ((goto 1 ?p ?m)\<lparr>im_table := [demo_claim], im_used := insert ''i'' (im_used (goto 1 ?p ?m))\<rparr>))"
    by (rule idem_step.claim [of _ 1 True "''ada''" "''kh''" "''rh''" 60 "''i''" demo_claim])
      (use ok in \<open>auto simp: start_machine_def claim_of_def demo_claim_def idem_create_def idem_by_id_def idem_get_def stamp_def goto_def elim: is_okE\<close>)
  moreover have "goto 1 (InFlight demo_claim) ((goto 1 ?p ?m)\<lparr>im_table := [demo_claim], im_used := insert ''i'' (im_used (goto 1 ?p ?m))\<rparr>)
      = demo_machine"
    by (simp add: demo_machine_def goto_def start_machine_def)
  ultimately show ?thesis by (simp add: next_phase_def)
qed

lemma one_dispatch_per_key_witness:
  "{c. im_phase demo_machine c = InFlight demo_claim} = {1}"
proof -
  have "valid_dt whole_second" by code_simp
  moreover have "im_phase demo_machine 1 = InFlight demo_claim" by (simp add: demo_machine_def goto_def)
  ultimately show ?thesis
    using one_dispatch_per_key [OF _ _ _ demo_machine_reachable, of 1 demo_claim] by auto
qed

definition demo_idem :: "unit idem_service" where
  "demo_idem = \<lparr>is_sha = (\<lambda>x. x), is_frepr = (\<lambda>_. []), is_utcnow = Pair (iso_of whole_second),
     is_uuid = Pair ''i'', is_commit = Pair True, is_ttl = 60, is_processing_ttl = 30\<rparr>"

definition demo_response :: response where
  "demo_response = (mk_response St_denied DENY)\<lparr>rs_challenge := Some ''c''\<rparr>"


end
