(* ===== verification/Workflow_Rows.thy ===== *)
theory Workflow_Rows
  imports Workflow_Catalog Idempotency
begin

text \<open>
  The durable rows of a workflow run (\<^verbatim>\<open>era/models/workflow.py\<close>) and the decisions that
  \<^verbatim>\<open>era/services/workflow_service.py\<close> takes on them without touching the store: which steps are ready,
  which of them form the next batch, whether a condition holds, what of a result is kept as receipt,
  which element a target descriptor means, and whether a post-condition holds.
\<close>

section \<open>Rows\<close>

datatype wf_status =
  W_pending | W_running | W_waiting | W_completed | W_failed | W_ambiguous | W_cancelled
  | W_skipped | W_skipped_conditional

definition terminal_step :: "wf_status \<Rightarrow> bool" where
  "terminal_step st = (st \<in> {W_completed, W_failed, W_ambiguous, W_cancelled, W_skipped, W_skipped_conditional})"

text \<open>What a dependency must have reached before a step may start.\<close>

definition dep_settled :: "wf_status \<Rightarrow> bool" where
  "dep_settled st = (st \<in> {W_completed, W_skipped, W_skipped_conditional})"

record run_row =
  wr_id :: string
  wr_workflow :: string
  wr_version :: int
  wr_actor :: string
  wr_scope :: "string option"
  wr_status :: wf_status
  wr_current :: nat
  wr_error :: "string option"
  wr_token :: string
  wr_resume_token :: string
  wr_checksum :: string
  wr_definition :: json
  wr_params :: json
  wr_created :: string
  wr_updated :: string
  wr_template :: "string option"
  wr_template_version :: "int option"
  wr_template_checksum :: "string option"
  wr_started :: "string option"
  wr_finished :: "string option"
  wr_source :: "string option"
  wr_cap :: int
  wr_governance :: "string option"
  wr_scheduled :: bool
  wr_schedule :: "string option"

text \<open>A step row.  Its primary key is drawn to identify the row; in the model a row is identified by its
  run and its index.  \<open>parallel_index\<close> is always the index.\<close>

record step_row =
  sr_step_id :: string
  sr_index :: nat
  sr_action :: string
  sr_params :: json
  sr_status :: wf_status
  sr_attempt :: nat
  sr_confirmation :: "string option"
  sr_receipt :: "json option"
  sr_error_code :: "string option"
  sr_error :: "string option"
  sr_started :: "string option"
  sr_finished :: "string option"
  sr_depends :: "string list"
  sr_condition :: "json option"
  sr_group :: "string option"

text \<open>\<open>{s.step_index: s for s in rows}\<close>, where an index occurs once.\<close>

definition row_at :: "step_row list \<Rightarrow> nat \<Rightarrow> step_row option" where
  "row_at rows i = find (\<lambda>r. sr_index r = i) rows"

definition status_at :: "step_row list \<Rightarrow> nat \<Rightarrow> wf_status" where
  "status_at rows i = (case row_at rows i of None \<Rightarrow> W_pending | Some r \<Rightarrow> sr_status r)"

definition by_id :: "wf_def \<Rightarrow> string \<Rightarrow> nat option" where
  "by_id d sid = map_of (rev (zip (map st_id (wd_steps d)) [0..<length (wd_steps d)])) sid"

section \<open>Which steps run next\<close>

definition deps_ok :: "wf_def \<Rightarrow> step_row list \<Rightarrow> wf_step \<Rightarrow> bool" where
  "deps_ok d rows s = list_all (\<lambda>dep. case by_id d dep of
       None \<Rightarrow> False | Some i \<Rightarrow> dep_settled (status_at rows i)) (st_depends_on s)"

definition ready_indices :: "wf_def \<Rightarrow> step_row list \<Rightarrow> nat list" where
  "ready_indices d rows = filter (\<lambda>i.
     \<not> (terminal_step (status_at rows i) \<or> status_at rows i = W_running \<or> status_at rows i = W_waiting)
     \<and> deps_ok d rows (wd_steps d ! i)) [0..<length (wd_steps d)]"

definition all_terminal :: "wf_def \<Rightarrow> step_row list \<Rightarrow> bool" where
  "all_terminal d rows = list_all (\<lambda>i. case row_at rows i of
       None \<Rightarrow> False | Some r \<Rightarrow> terminal_step (sr_status r)) [0..<length (wd_steps d)]"

text \<open>The slice \<open>xs[:n]\<close>.\<close>

definition py_take :: "int \<Rightarrow> 'a list \<Rightarrow> 'a list" where
  "py_take n xs = take (if 0 \<le> n then nat n else length xs - nat (- n)) xs"

definition block_members :: "wf_def \<Rightarrow> nat list \<Rightarrow> wf_block \<Rightarrow> nat list" where
  "block_members d ready b = filter (\<lambda>i. st_id (wd_steps d ! i) \<in> set (pb_steps b)) ready"

fun first_group :: "int \<Rightarrow> wf_def \<Rightarrow> nat list \<Rightarrow> wf_block list \<Rightarrow> nat list option" where
  "first_group max_pending d ready [] = None"
| "first_group max_pending d ready (b # bs) =
     (if pb_max_concurrency b \<le> 1 then first_group max_pending d ready bs
      else if 1 < length (block_members d ready b)
      then Some (py_take (min (pb_max_concurrency b) max_pending) (block_members d ready b))
      else first_group max_pending d ready bs)"

definition choose_batch :: "int \<Rightarrow> wf_def \<Rightarrow> nat list \<Rightarrow> nat list" where
  "choose_batch max_pending d ready =
     (if ready = [] then [] else case first_group max_pending d ready (wd_parallel d) of
        Some g \<Rightarrow> g | None \<Rightarrow> [Min (set ready)])"

definition parallel_group :: "wf_def option \<Rightarrow> wf_step \<Rightarrow> string option" where
  "parallel_group d s = (case d of None \<Rightarrow> None
     | Some d \<Rightarrow> (case find (\<lambda>b. st_id s \<in> set (pb_steps b)) (wd_parallel d) of
         None \<Rightarrow> None
       | Some b \<Rightarrow> (case pb_steps b of g # _ \<Rightarrow> if g = [] then None else Some g | [] \<Rightarrow> None)))"

definition max_parallel_cap :: "wf_def \<Rightarrow> int" where
  "max_parallel_cap d = (if wd_parallel d = [] then 1 else Max (set (map pb_max_concurrency (wd_parallel d))))"

section \<open>Conditions\<close>

definition is_value :: "json \<Rightarrow> bool" where
  "is_value v = (case v of JBool _ \<Rightarrow> True | JInt _ \<Rightarrow> True | JFloat _ \<Rightarrow> True | JStr _ \<Rightarrow> True | _ \<Rightarrow> False)"

definition result_value :: "json \<Rightarrow> json" where
  "result_value receipt = (case receipt of
       JObj kvs \<Rightarrow>
         if has_key kvs ''result'' then get_param kvs ''result''
         else if has_key kvs ''value'' then get_param kvs ''value''
         else if has_key kvs ''url'' then get_param kvs ''url''
         else if has_key kvs ''status'' then get_param kvs ''status''
         else (case filter is_value (map snd kvs) of [] \<Rightarrow> JNull | v # _ \<Rightarrow> v)
     | v \<Rightarrow> v)"

definition observed_url :: "step_row \<Rightarrow> string option" where
  "observed_url r = (if sr_status r \<noteq> W_completed then None else case sr_receipt r of
       Some (JObj kvs) \<Rightarrow> (case get_param kvs ''url'' of JStr u \<Rightarrow> if u = [] then None else Some u | _ \<Rightarrow> None)
     | _ \<Rightarrow> None)"

definition recent_observation_url :: "step_row list \<Rightarrow> string option" where
  "recent_observation_url rows =
     (case filter (\<lambda>r. observed_url r \<noteq> None) (rev (sort_key sr_index rows)) of
        [] \<Rightarrow> None | r # _ \<Rightarrow> observed_url r)"

text \<open>\<open>None\<close> is an unknown outcome, on which the step runs.  A validated \<open>url_contains\<close> condition holds a
  string.\<close>

definition evaluate_condition :: "wf_def \<Rightarrow> step_row list \<Rightarrow> wf_step \<Rightarrow> bool option" where
  "evaluate_condition d rows s = (case st_condition s of
       None \<Rightarrow> None
     | Some c \<Rightarrow>
         let dep = (case cn_step_id c of None \<Rightarrow> None | Some sid \<Rightarrow> if sid = [] then None else by_id d sid);
             dep_row = (case dep of None \<Rightarrow> None | Some i \<Rightarrow> row_at rows i)
         in if cn_kind c = ''step_result'' then
              (case dep_row of None \<Rightarrow> None | Some r \<Rightarrow> (case sr_receipt r of
                 None \<Rightarrow> None
               | Some receipt \<Rightarrow> Some (if cn_op c = Some ''!='' then \<not> py_eq (result_value receipt) (cn_value c)
                                     else py_eq (result_value receipt) (cn_value c))))
            else if cn_kind c = ''url_contains'' then
              (case recent_observation_url rows of
                 None \<Rightarrow> None
               | Some u \<Rightarrow> (case cn_value c of JStr v \<Rightarrow> Some (contains v u) | _ \<Rightarrow> None))
            else if cn_kind c = ''element_present'' then
              (case dep of None \<Rightarrow> None | Some _ \<Rightarrow> Some (case dep_row of
                 Some r \<Rightarrow> (case sr_receipt r of Some (JObj kvs) \<Rightarrow> get_param kvs ''elements_present'' \<noteq> JNull | _ \<Rightarrow> False)
               | None \<Rightarrow> False))
            else None)"

section \<open>Receipts\<close>

definition hidden_key :: "string \<Rightarrow> bool" where
  "hidden_key k = (k \<in> {''element_ref'', ''snapshot_id''} \<or> map lower_char k = ''ref'' \<or> is_secret_key k {})"

fun sanitize_value :: "json \<Rightarrow> json" where
  "sanitize_value (JObj kvs) =
     JObj (concat (map (\<lambda>(k, v). if hidden_key k then [] else [(k, sanitize_value v)]) kvs))"
| "sanitize_value (JList xs) = JList (map (\<lambda>x. case x of JObj _ \<Rightarrow> sanitize_value x | _ \<Rightarrow> x) xs)"
| "sanitize_value v = v"

definition sanitize_receipt :: "json \<Rightarrow> json" where
  "sanitize_receipt v = (case v of JObj _ \<Rightarrow> sanitize_value v | _ \<Rightarrow> JObj [])"

definition capture_outputs :: "json \<Rightarrow> (string \<times> string) list \<Rightarrow> json" where
  "capture_outputs receipt outs =
     JObj (fold (\<lambda>(k, source) safe. AList.update k (sanitize_receipt (get_param safe source)) safe) outs
       (case receipt of JObj kvs \<Rightarrow> kvs | _ \<Rightarrow> []))"

section \<open>Targets and post-conditions\<close>

text \<open>What ends a step inside its \<open>try\<close>: a definition error, a service error, any other exception.\<close>

datatype step_exc = DefErr wf_error | SvcErr string | PyErr py_exc

text \<open>\<open>for e in elements\<close>: the items of the iteration.\<close>

definition items_of :: "json \<Rightarrow> (step_exc, json list) result" where
  "items_of v = (case v of
       JList xs \<Rightarrow> Inr xs
     | JStr s \<Rightarrow> Inr (map (\<lambda>c. JStr [c]) s)
     | JObj kvs \<Rightarrow> Inr (map (\<lambda>(k, _). JStr k) kvs)
     | _ \<Rightarrow> Inl (PyErr (OtherExc ''TypeError'')))"

definition no_fields :: "wf_target \<Rightarrow> bool" where
  "no_fields t = (tg_role t = None \<and> tg_name t = None \<and> tg_tag t = None \<and> tg_input_type t = None \<and> tg_frame_id t = None)"

definition matches_item :: "wf_target \<Rightarrow> json \<Rightarrow> (step_exc, bool) result" where
  "matches_item t x = (case x of
       JObj kvs \<Rightarrow> Inr (target_matches t kvs)
     | _ \<Rightarrow> if no_fields t then Inr True else Inl (PyErr (OtherExc ''AttributeError'')))"

fun matching :: "wf_target \<Rightarrow> json list \<Rightarrow> (step_exc, json list) result" where
  "matching t [] = Inr []"
| "matching t (x # xs) = (case matches_item t x of
       Inl e \<Rightarrow> Inl e
     | Inr b \<Rightarrow> (case matching t xs of Inl e \<Rightarrow> Inl e | Inr ys \<Rightarrow> Inr (if b then x # ys else ys)))"

definition elements_of :: "params \<Rightarrow> json" where
  "elements_of data = (if has_key data ''elements'' then get_param data ''elements'' else JList [])"

definition chosen_ref :: "json \<Rightarrow> (step_exc, string) result" where
  "chosen_ref x = (case x of
       JObj kvs \<Rightarrow> (case get_param kvs ''element_ref'' of
           JStr r \<Rightarrow> if r = [] then Inl (SvcErr ''fresh element reference is missing'') else Inr r
         | _ \<Rightarrow> Inl (SvcErr ''fresh element reference is missing''))
     | _ \<Rightarrow> Inl (PyErr (OtherExc ''AttributeError'')))"

text \<open>The element that a target descriptor means on the page just inspected.\<close>

definition choose_element :: "wf_target \<Rightarrow> params \<Rightarrow> (step_exc, string) result" where
  "choose_element t data = (case items_of (elements_of data) of
       Inl e \<Rightarrow> Inl e
     | Inr xs \<Rightarrow> (case matching t xs of
         Inl e \<Rightarrow> Inl e
       | Inr ms \<Rightarrow>
           if ms = [] then Inl (SvcErr ''no element matches the step's target descriptor (re-inspect)'')
           else (case tg_index t of
             None \<Rightarrow> if 1 < length ms then Inl (SvcErr ''target descriptor matched multiple elements (ambiguous)'')
                     else chosen_ref (hd ms)
           | Some i \<Rightarrow>
               if int (length ms) \<le> i
               then Inl (SvcErr ''target descriptor matched fewer elements than the requested index'')
               else chosen_ref (ms ! nat i))))"

text \<open>\<open>int(x)\<close>, where \<open>None\<close> is an exception.\<close>

definition int_of_json :: "json \<Rightarrow> int option" where
  "int_of_json v = (case v of
       JBool b \<Rightarrow> Some (if b then 1 else 0)
     | JInt i \<Rightarrow> Some i
     | JFloat (Fin q) \<Rightarrow> Some (if 0 \<le> q then \<lfloor>q\<rfloor> else \<lceil>q\<rceil>)
     | JStr s \<Rightarrow> py_int s
     | _ \<Rightarrow> None)"

text \<open>A post-condition against a fresh inspection; \<open>str\<close> is Python's \<open>str\<close> on values that are not strings.
  An exception counts as failure.\<close>

definition post_condition :: "(json \<Rightarrow> string) \<Rightarrow> wf_step \<Rightarrow> params \<Rightarrow> params \<Rightarrow> bool" where
  "post_condition str s expect data =
     (let url = (if has_key data ''url'' then (case get_param data ''url'' of JStr u \<Rightarrow> u | v \<Rightarrow> str v) else []);
          target = (case get_param expect ''url_contains'' of JStr u \<Rightarrow> u | _ \<Rightarrow> [])
      in case (if has_key data ''tab_count'' then int_of_json (get_param data ''tab_count'') else Some 0) of
           None \<Rightarrow> False
         | Some tabs \<Rightarrow>
             if get_param expect ''kind'' = JStr ''navigation'' then target \<noteq> [] \<and> contains target url
             else if get_param expect ''kind'' = JStr ''tab_opened'' then 2 \<le> tabs
             else if get_param expect ''kind'' = JStr ''element_detached'' then
               (case st_target s of
                  None \<Rightarrow> True
                | Some t \<Rightarrow> (case items_of (elements_of data) of Inl _ \<Rightarrow> False
                    | Inr xs \<Rightarrow> matching t xs = Inr []))
             else False)"

text \<open>The last outcome that ends a dispatch, among the audit entries of a confirmation.\<close>

definition dispatch_outcome :: "outcome list \<Rightarrow> outcome option" where
  "dispatch_outcome outs =
     (case filter (\<lambda>x. x \<in> {O_EXECUTED, O_FAILED, O_REJECTED, O_DENIED_BY_USER, O_DENIED_BY_POLICY}) outs of
        [] \<Rightarrow> None | xs \<Rightarrow> Some (last xs))"


section \<open>Facts\<close>

text \<open>A value without a hidden key in any dictionary that is reached through dictionaries and lists of
  dictionaries.\<close>

fun clean :: "json \<Rightarrow> bool" where
  "clean (JObj kvs) = list_all (\<lambda>(k, v). \<not> hidden_key k \<and> clean v) kvs"
| "clean (JList xs) = list_all (\<lambda>x. case x of JObj _ \<Rightarrow> clean x | _ \<Rightarrow> True) xs"
| "clean v = True"

lemma clean_sanitize_value: "clean (sanitize_value v)"
proof (induction v rule: sanitize_value.induct)
  case (1 kvs)
  then show ?case by (auto simp: list_all_iff split: if_splits)
next
  case (2 xs)
  have "case y of JObj _ \<Rightarrow> clean y | _ \<Rightarrow> True"
    if "x \<in> set xs" "y = (case x of JObj _ \<Rightarrow> sanitize_value x | _ \<Rightarrow> x)" for x y
    using that(2) 2 [OF that(1)] by (cases x) (simp_all del: sanitize_value.simps clean.simps, simp)
  then show ?case by (auto simp: list_all_iff)
qed auto

lemma clean_sanitize_receipt: "clean (sanitize_receipt v)"
  unfolding sanitize_receipt_def using clean_sanitize_value by (cases v) (simp_all del: sanitize_value.simps)

lemma clean_bindings: "clean (JObj kvs) \<longleftrightarrow> (\<forall>(k, v) \<in> set kvs. \<not> hidden_key k \<and> clean v)"
  by (auto simp: list_all_iff)

lemma clean_update:
  "clean (JObj kvs) \<Longrightarrow> \<not> hidden_key k \<Longrightarrow> clean v \<Longrightarrow> clean (JObj (AList.update k v kvs))"
  by (induction kvs) auto



text \<open>An output that names a scalar of the result is stored as an empty dictionary.\<close>

lemma captured_scalar_is_lost:
  "capture_outputs (sanitize_receipt (JObj [(''url'', JStr ''https://x'')])) [(''landed'', ''url'')]
     = JObj [(''url'', JStr ''https://x''), (''landed'', JObj [])]"
  by code_simp

lemma row_at_Some: "row_at rows i = Some r \<Longrightarrow> r \<in> set rows \<and> sr_index r = i"
  by (auto simp: row_at_def find_Some_iff)

lemma by_id_Some: "by_id d sid = Some i \<Longrightarrow> i < length (wd_steps d) \<and> st_id (wd_steps d ! i) = sid"
  by (auto simp: by_id_def dest!: map_of_SomeD simp: set_zip)

lemma ready_index:
  "i \<in> set (ready_indices d rows) \<longleftrightarrow> i < length (wd_steps d) \<and> status_at rows i = W_pending \<and> deps_ok d rows (wd_steps d ! i)"
  by (cases "status_at rows i") (auto simp: ready_indices_def terminal_step_def)

lemma distinct_ready: "distinct (ready_indices d rows)"
  by (simp add: ready_indices_def)

lemma py_take_subset: "set (py_take n xs) \<subseteq> set xs" and py_take_distinct: "distinct xs \<Longrightarrow> distinct (py_take n xs)"
  by (auto simp: py_take_def dest: in_set_takeD)

lemma first_group_ex:
  "first_group m d ready bs = Some g \<Longrightarrow> \<exists>b \<in> set bs. 1 < pb_max_concurrency b
     \<and> g = py_take (min (pb_max_concurrency b) m) (block_members d ready b) \<and> 1 < length (block_members d ready b)"
  by (induction bs) (auto split: if_splits)

lemma first_group_Some:
  assumes "first_group m d ready bs = Some g"
  obtains b where "b \<in> set bs" "1 < pb_max_concurrency b" "g = py_take (min (pb_max_concurrency b) m) (block_members d ready b)"
      "1 < length (block_members d ready b)"
  using first_group_ex [OF assms] by blast

text \<open>A batch is made of ready steps, none twice; with a bound of at least one it is not empty and no larger
  than the bound.\<close>

lemma choose_batch_subset: "set (choose_batch m d ready) \<subseteq> set ready"
proof (cases "first_group m d ready (wd_parallel d)")
  case None
  then show ?thesis by (auto simp: choose_batch_def)
next
  case (Some g)
  then obtain b where "g = py_take (min (pb_max_concurrency b) m) (block_members d ready b)" by (rule first_group_Some)
  then have "set g \<subseteq> set ready"
    using py_take_subset [of _ "block_members d ready b"] by (fastforce simp: block_members_def)
  then show ?thesis using Some by (simp add: choose_batch_def)
qed

lemma choose_batch_distinct:
  assumes "distinct ready"
  shows "distinct (choose_batch m d ready)"
proof (cases "first_group m d ready (wd_parallel d)")
  case None
  then show ?thesis by (simp add: choose_batch_def)
next
  case (Some g)
  then obtain b where "g = py_take (min (pb_max_concurrency b) m) (block_members d ready b)" by (rule first_group_Some)
  then have "distinct g" using assms by (simp add: py_take_distinct block_members_def)
  then show ?thesis using Some by (simp add: choose_batch_def)
qed

lemma choose_batch_size:
  assumes "1 \<le> m" and "ready \<noteq> []"
  shows "choose_batch m d ready \<noteq> [] \<and> int (length (choose_batch m d ready)) \<le> m"
proof (cases "first_group m d ready (wd_parallel d)")
  case None
  then show ?thesis using assms by (simp add: choose_batch_def)
next
  case (Some g)
  then obtain b where b: "1 < pb_max_concurrency b" "g = py_take (min (pb_max_concurrency b) m) (block_members d ready b)"
      "1 < length (block_members d ready b)" by (rule first_group_Some)
  have "0 < nat (min (pb_max_concurrency b) m)" using b(1) assms(1) by simp
  then have "g \<noteq> []" "int (length g) \<le> m"
    using b assms(1) by (auto simp: py_take_def min_def)
  then show ?thesis using Some assms(2) by (simp add: choose_batch_def)
qed

text \<open>With the default bound of one pending confirmation no two steps ever run side by side.\<close>

lemma default_bound_is_sequential: "ready \<noteq> [] \<Longrightarrow> length (choose_batch 1 d ready) = 1"
  using choose_batch_size [of 1 ready d] by (cases "choose_batch 1 d ready") auto

end
