(* ===== verification/Workflow_Governance.thy ===== *)
theory Workflow_Governance
  imports Confirmation
begin

text \<open>
  Model of the governance counters of workflow runs: \<^verbatim>\<open>WorkflowGovernanceService\<close> of
  \<^verbatim>\<open>era/services/workflow_ops_service.py\<close> over the \<^verbatim>\<open>bump\<close> of the governance repository in
  \<^verbatim>\<open>era/repositories/sqlite.py\<close>.  A function that returns \<open>Inl\<close> leaves the table as it was: the
  session that raises is rolled back.  The time of a counter's last change, which nothing reads, is
  left out.
\<close>

section \<open>Counters\<close>

record gov_counter =
  gc_id :: string
  gc_kind :: string
  gc_scope :: string
  gc_count :: int

text \<open>\<open>None\<close> as a cap is \<open>2 ** 31 - 1\<close>.\<close>

definition effective_cap :: "int option \<Rightarrow> int" where
  "effective_cap cap = (case cap of None \<Rightarrow> 2 ^ 31 - 1 | Some c \<Rightarrow> c)"

definition counter_get :: "gov_counter list \<Rightarrow> string \<times> string \<Rightarrow> gov_counter option" where
  "counter_get t key = find (\<lambda>r. (gc_kind r, gc_scope r) = key) t"

definition counter_id :: "string \<Rightarrow> string \<Rightarrow> string" where
  "counter_id kind scope = take 64 (kind @ '':'' @ scope)"

definition counter_add :: "string \<Rightarrow> string \<Rightarrow> int \<Rightarrow> gov_counter list \<Rightarrow> gov_counter list" where
  "counter_add kind scope delta t =
     map (\<lambda>r. if gc_kind r = kind \<and> gc_scope r = scope then r\<lparr>gc_count := gc_count r + delta\<rparr> else r) t"

text \<open>The conditional update, and the insert that follows when it matched no row.  The insert does
  nothing on a conflict of kind and scope; a conflict of the truncated primary key alone is an
  integrity error.  The insert does not look at the cap.\<close>

definition bump ::
  "string \<Rightarrow> string \<Rightarrow> int \<Rightarrow> int option \<Rightarrow> gov_counter list \<Rightarrow> (py_exc, (int \<times> bool) \<times> gov_counter list) result" where
  "bump kind scope delta cap t = (case counter_get t (kind, scope) of
       Some r \<Rightarrow>
         if gc_count r + delta \<le> effective_cap cap
         then Inr ((gc_count r + delta, True), counter_add kind scope delta t)
         else Inr ((gc_count r, False), t)
     | None \<Rightarrow>
         if counter_id kind scope \<in> gc_id ` set t then Inl (OtherExc ''IntegrityError'')
         else Inr ((delta, True),
           t @ [\<lparr>gc_id = counter_id kind scope, gc_kind = kind, gc_scope = scope, gc_count = delta\<rparr>]))"

section \<open>The service\<close>

record gov_settings =
  gs_max_actor :: int
  gs_max_workflow :: int
  gs_max_window :: int
  gs_window :: int
  gs_max_steps :: int
  gs_max_cost :: int

text \<open>A \<open>WorkflowGovernanceError\<close> with its message and code, or a failure of the storage.\<close>

datatype gov_exc = GovError string string | GovStorage py_exc

text \<open>\<open>getattr(exc, "code", "BUDGET_EXCEEDED")\<close>; the storage's integrity error carries a code of its own.\<close>

definition gov_code :: "gov_exc \<Rightarrow> string" where
  "gov_code e = (case e of GovError _ c \<Rightarrow> c
     | GovStorage x \<Rightarrow> if x = OtherExc ''IntegrityError'' then ''gkpj'' else ''BUDGET_EXCEEDED'')"

definition claim ::
  "string \<Rightarrow> string \<Rightarrow> int \<Rightarrow> string \<Rightarrow> string \<Rightarrow> gov_counter list \<Rightarrow> (gov_exc, gov_counter list) result" where
  "claim kind scope cap msg c t = (case bump kind scope 1 (Some cap) t of
       Inl e \<Rightarrow> Inl (GovStorage e)
     | Inr ((_, ok), t') \<Rightarrow> if ok then Inr t' else Inl (GovError msg c))"

definition and_then :: "('e, 'a) result \<Rightarrow> ('a \<Rightarrow> ('e, 'b) result) \<Rightarrow> ('e, 'b) result" where
  "and_then r f = (case r of Inl e \<Rightarrow> Inl e | Inr x \<Rightarrow> f x)"

lemma and_then_Inr: "and_then r f = Inr y \<longleftrightarrow> (\<exists>x. r = Inr x \<and> f x = Inr y)"
  by (auto simp: and_then_def split: sum.splits)

definition window_start :: "gov_settings \<Rightarrow> rat \<Rightarrow> int" where
  "window_start gs now = (let w = max (gs_window gs) 1 in \<lfloor>now / of_int w\<rfloor> * w)"

definition rate_scope :: "gov_settings \<Rightarrow> rat \<Rightarrow> string \<Rightarrow> string" where
  "rate_scope gs now workflow = workflow @ '':'' @ show_int (window_start gs now)"

definition claim_start ::
  "gov_settings \<Rightarrow> rat \<Rightarrow> string \<Rightarrow> string \<Rightarrow> gov_counter list \<Rightarrow> (gov_exc, gov_counter list) result" where
  "claim_start gs now actor workflow t =
     and_then (claim ''concurrency.actor'' actor (gs_max_actor gs)
                 ''concurrent-run cap exceeded for actor'' ''CONCURRENCY_EXCEEDED'' t) (\<lambda>t1.
     and_then (claim ''concurrency.workflow'' workflow (gs_max_workflow gs)
                 ''concurrent-run cap exceeded for workflow'' ''CONCURRENCY_EXCEEDED'' t1) (\<lambda>t2.
     claim ''rate'' (rate_scope gs now workflow) (gs_max_window gs)
                 ''per-window run rate exceeded for workflow'' ''RATE_LIMIT_EXCEEDED'' t2))"

definition release_start :: "string \<Rightarrow> string \<Rightarrow> gov_counter list \<Rightarrow> (py_exc, gov_counter list) result" where
  "release_start actor workflow t =
     and_then (bump ''concurrency.actor'' actor (- 1) None t) (\<lambda>(_, t1).
     and_then (bump ''concurrency.workflow'' workflow (- 1) None t1) (\<lambda>(_, t2). Inr t2))"

definition claim_step_budget :: "gov_settings \<Rightarrow> string \<Rightarrow> gov_counter list \<Rightarrow> (gov_exc, gov_counter list) result" where
  "claim_step_budget gs rid t =
     (case bump ''steps'' (''run:'' @ rid) 1 (Some (gs_max_steps gs)) t of
        Inl e \<Rightarrow> Inl (GovStorage e)
      | Inr ((n, ok), t1) \<Rightarrow>
          if \<not> ok \<or> gs_max_steps gs < n then Inl (GovError ''step budget exceeded for run'' ''BUDGET_EXCEEDED'')
          else claim ''cost'' (''run:'' @ rid) (gs_max_cost gs) ''cost/quota budget exceeded for run'' ''BUDGET_EXCEEDED'' t1)"

section \<open>The counters as a function\<close>

definition count_of :: "gov_counter list \<Rightarrow> string \<times> string \<Rightarrow> int" where
  "count_of t key = (case counter_get t key of None \<Rightarrow> 0 | Some r \<Rightarrow> gc_count r)"

lemma counter_get_add:
  "counter_get (counter_add kind scope delta t) key
     = (if key = (kind, scope) then map_option (\<lambda>r. r\<lparr>gc_count := gc_count r + delta\<rparr>) (counter_get t key)
        else counter_get t key)"
  unfolding counter_get_def counter_add_def by (induction t) auto

lemma counter_get_append:
  "counter_get (t @ [r]) key
     = (case counter_get t key of None \<Rightarrow> if (gc_kind r, gc_scope r) = key then Some r else None | Some x \<Rightarrow> Some x)"
  unfolding counter_get_def by (induction t) auto

text \<open>A bump that is admitted adds to its counter and to no other; one that is not changes nothing.\<close>

lemma bump_counts:
  assumes "bump kind scope delta cap t = Inr ((n, ok), t')"
  shows "count_of t' = (if ok then (count_of t)((kind, scope) := n) else count_of t)"
    and "n = count_of t (kind, scope) + (if ok then delta else 0)"
    and "ok \<Longrightarrow> n \<le> effective_cap cap \<or> (counter_get t (kind, scope) = None \<and> n = delta)"
    and "\<not> ok \<Longrightarrow> effective_cap cap < count_of t (kind, scope) + delta"
  using assms
  by (auto simp: bump_def count_of_def counter_get_add counter_get_append fun_eq_iff split: option.splits if_splits)

lemma claim_counts:
  assumes "claim kind scope cap msg c t = Inr t'"
  shows "count_of t' = (count_of t)((kind, scope) := count_of t (kind, scope) + 1)"
    and "count_of t' (kind, scope) \<le> max cap 1"
proof -
  obtain n where b: "bump kind scope 1 (Some cap) t = Inr ((n, True), t')"
    using assms by (auto simp: claim_def split: sum.splits prod.splits if_splits)
  have n: "n = count_of t (kind, scope) + 1" using bump_counts(2) [OF b] by simp
  show eq: "count_of t' = (count_of t)((kind, scope) := count_of t (kind, scope) + 1)"
    using bump_counts(1) [OF b] n by simp
  show "count_of t' (kind, scope) \<le> max cap 1"
    using bump_counts(3) [OF b] n by (auto simp: eq effective_cap_def)
qed


definition demo_gov :: gov_settings where
  "demo_gov = \<lparr>gs_max_actor = 2, gs_max_workflow = 2, gs_max_window = 10, gs_window = 60, gs_max_steps = 3, gs_max_cost = 10\<rparr>"


text \<open>A release has no floor: it takes a counter below zero, which then admits more than its cap.\<close>

lemma release_below_zero:
  "\<exists>t. release_start ''ada'' ''w'' [] = Inr t \<and> count_of t (''concurrency.actor'', ''ada'') = - 1"
  by (simp add: release_start_def and_then_def bump_def counter_get_def count_of_def counter_id_def)

text \<open>The primary key is cut after 64 characters: two workflows whose names agree that far cannot both
  have a counter, so the second can never start.\<close>

lemma truncated_counter_ids_collide:
  assumes "take 64 (''concurrency.workflow:'' @ w) = take 64 (''concurrency.workflow:'' @ w')" and "w \<noteq> w'"
  shows "\<exists>t. claim_start demo_gov 0 ''ada'' w [] = Inr t
     \<and> claim_start demo_gov 0 ''bob'' w' t = Inl (GovStorage (OtherExc ''IntegrityError''))"
  using assms
  by (simp add: claim_start_def and_then_def claim_def bump_def counter_get_def counter_id_def rate_scope_def effective_cap_def)

end
