(* ===== verification/Workflow_Engine.thy ===== *)
theory Workflow_Engine
  imports Workflow_Rows Workflow_Governance
begin

text \<open>
  Model of the engine of \<^verbatim>\<open>era/services/workflow_service.py\<close>: runs of workflows over durable rows.

  The state holds the catalog, the rows of the runs, the rows of their steps, the governance counters and
  a world \<open>'w\<close>.  The execution service, the confirmations, the audit entries and the templates are
  operations on the world, as are the clocks.  The engine's \<open>run\<close> object is the stored row: each change of
  its attributes is followed by the write that stores it.  A dispatch may raise; an exception for which
  \<open>en_fatal\<close> holds is not an \<open>Exception\<close> and ends the engine where it stands, as the end of the process does.
  The members of a parallel batch run one after another.  The storage itself does not fail here.
\<close>

section \<open>The state\<close>

text \<open>The template service, which is not modelled.  \<open>tp_get\<close> yields \<open>None\<close> when the template is missing or its
  reading raises; what it raises is the error of a stored definition that is no longer one.\<close>

record 'w templates =
  tp_get :: "string \<Rightarrow> int \<Rightarrow> ('w, wf_def option) comp"
  tp_instantiate :: "string \<Rightarrow> int option \<Rightarrow> ('w, wf_def) comp"

record 'w engine =
  en_sha :: "string \<Rightarrow> string"
  en_frepr :: "pyfloat \<Rightarrow> string"
  en_utcnow :: "'w \<Rightarrow> string \<times> 'w"
  en_uuid :: "'w \<Rightarrow> string \<times> 'w"
  en_monotonic :: "'w \<Rightarrow> rat \<times> 'w"
  en_timestamp :: "'w \<Rightarrow> rat \<times> 'w"
  en_request :: "action \<Rightarrow> exec_ctx \<Rightarrow> ('w, response) comp"
  en_confirmation :: "string \<Rightarrow> ('w, confirmation option) comp"
  en_outcomes :: "string \<Rightarrow> ('w, outcome list) comp"
  en_templates :: "'w templates option"
  en_actions :: catalog
  en_str :: "json \<Rightarrow> string"
  en_text :: "step_exc \<Rightarrow> string"
  en_fatal :: "py_exc \<Rightarrow> bool"
  en_max_steps :: nat
  en_max_wallclock :: rat
  en_max_pending :: int
  en_governance :: "gov_settings option"

record 'w wf_store =
  ws_catalog :: wf_catalog
  ws_runs :: "run_row list"
  ws_steps :: "string \<Rightarrow> step_row list"
  ws_counters :: "gov_counter list"
  ws_world :: 'w

type_synonym ('w, 'a) flow = "('w wf_store, 'a) comp"

definition get_s :: "('w wf_store \<Rightarrow> 'a) \<Rightarrow> ('w, 'a) flow" where
  "get_s f s = (Inr (f s), s)"

definition put_s :: "('w wf_store \<Rightarrow> 'w wf_store) \<Rightarrow> ('w, unit) flow" where
  "put_s f s = (Inr (), f s)"

definition ask_w :: "('w \<Rightarrow> 'a \<times> 'w) \<Rightarrow> ('w, 'a) flow" where
  "ask_w f s = (case f (ws_world s) of (x, w) \<Rightarrow> (Inr x, s\<lparr>ws_world := w\<rparr>))"

definition outside :: "('w, 'a) comp \<Rightarrow> ('w, 'a) flow" where
  "outside m s = (case m (ws_world s) of (r, w) \<Rightarrow> (r, s\<lparr>ws_world := w\<rparr>))"

section \<open>Runs and steps in the store\<close>

definition run_get :: "run_row list \<Rightarrow> string \<Rightarrow> run_row option" where
  "run_get t i = find (\<lambda>r. wr_id r = i) t"

definition run_by_token :: "run_row list \<Rightarrow> string \<Rightarrow> string \<Rightarrow> run_row option" where
  "run_by_token t actor token = find (\<lambda>r. wr_actor r = actor \<and> wr_token r = token) t"

definition run_create :: "run_row \<Rightarrow> run_row list \<Rightarrow> run_row list option" where
  "run_create r t =
     (if run_get t (wr_id r) \<noteq> None \<or> run_by_token t (wr_actor r) (wr_token r) \<noteq> None then None else Some (t @ [r]))"

definition run_update :: "run_row \<Rightarrow> run_row list \<Rightarrow> run_row list" where
  "run_update r t = map (\<lambda>x. if wr_id x = wr_id r then r else x) t"

definition change_run :: "string \<Rightarrow> (run_row \<Rightarrow> run_row) \<Rightarrow> ('w, unit) flow" where
  "change_run rid f = put_s (\<lambda>s. case run_get (ws_runs s) rid of
       None \<Rightarrow> s | Some r \<Rightarrow> s\<lparr>ws_runs := run_update (f r) (ws_runs s)\<rparr>)"

definition change_row :: "nat \<Rightarrow> (step_row \<Rightarrow> step_row) \<Rightarrow> step_row list \<Rightarrow> step_row list" where
  "change_row i f rows = map (\<lambda>r. if sr_index r = i then f r else r) rows"

definition change_step :: "string \<Rightarrow> nat \<Rightarrow> (step_row \<Rightarrow> step_row) \<Rightarrow> ('w, unit) flow" where
  "change_step rid i f = put_s (\<lambda>s. s\<lparr>ws_steps := (ws_steps s)(rid := change_row i f (ws_steps s rid))\<rparr>)"

definition list_steps :: "string \<Rightarrow> ('w, step_row list) flow" where
  "list_steps rid = get_s (\<lambda>s. ws_steps s rid)"

definition load_run :: "string \<Rightarrow> ('w, run_row) flow" where
  "load_run rid = bind (get_s (\<lambda>s. run_get (ws_runs s) rid)) (\<lambda>r. case r of
       None \<Rightarrow> raise_exc (OtherExc ''WorkflowNotFound'') | Some run \<Rightarrow> ret run)"

definition load_owned :: "string \<Rightarrow> string \<Rightarrow> ('w, run_row) flow" where
  "load_owned rid actor = bind (load_run rid) (\<lambda>run.
       if wr_actor run \<noteq> actor then raise_exc (OtherExc ''WorkflowStateError'') else ret run)"

definition release_governance :: "('w, 'z) engine_scheme \<Rightarrow> string \<Rightarrow> ('w, unit) flow" where
  "release_governance en rid = (if en_governance en = None then ret () else
     put_s (\<lambda>s. case run_get (ws_runs s) rid of
         None \<Rightarrow> s
       | Some run \<Rightarrow> (case release_start (wr_actor run) (wr_workflow run) (ws_counters s) of
           Inl _ \<Rightarrow> s | Inr t \<Rightarrow> s\<lparr>ws_counters := t\<rparr>)))"

text \<open>A run ends with a status, an error and a governance code.\<close>

definition end_run ::
  "('w, 'z) engine_scheme \<Rightarrow> string \<Rightarrow> wf_status \<Rightarrow> string \<Rightarrow> (string option \<Rightarrow> string option) \<Rightarrow> ('w, unit) flow" where
  "end_run en rid st msg ecode =
     bind (ask_w (en_utcnow en)) (\<lambda>t1. bind (ask_w (en_utcnow en)) (\<lambda>t2.
       seq (change_run rid (\<lambda>r. r\<lparr>wr_status := st, wr_error := Some msg, wr_governance := ecode (wr_governance r),
                                  wr_finished := Some t1, wr_updated := t2\<rparr>))
           (release_governance en rid)))"

definition set_run_failed :: "('w, 'z) engine_scheme \<Rightarrow> string \<Rightarrow> string \<Rightarrow> ('w, unit) flow" where
  "set_run_failed en rid msg = end_run en rid W_failed msg id"

definition set_run_budget_failed :: "('w, 'z) engine_scheme \<Rightarrow> string \<Rightarrow> string \<Rightarrow> ('w, unit) flow" where
  "set_run_budget_failed en rid msg = end_run en rid W_failed msg (\<lambda>_. Some ''BUDGET_EXCEEDED'')"

definition touch_run :: "('w, 'z) engine_scheme \<Rightarrow> string \<Rightarrow> (run_row \<Rightarrow> run_row) \<Rightarrow> ('w, unit) flow" where
  "touch_run en rid f = bind (ask_w (en_utcnow en)) (\<lambda>t. change_run rid (\<lambda>r. (f r)\<lparr>wr_updated := t\<rparr>))"

definition set_current :: "('w, 'z) engine_scheme \<Rightarrow> string \<Rightarrow> nat \<Rightarrow> ('w, unit) flow" where
  "set_current en rid i = touch_run en rid (\<lambda>r. r\<lparr>wr_current := i\<rparr>)"

definition AMBIGUOUS_ERROR :: string where
  "AMBIGUOUS_ERROR = ''a step has an unknown outcome; operator resolution required''"

definition set_ambiguous :: "('w, 'z) engine_scheme \<Rightarrow> string \<Rightarrow> ('w, unit) flow" where
  "set_ambiguous en rid = touch_run en rid (\<lambda>r. r\<lparr>wr_status := W_ambiguous, wr_error := Some AMBIGUOUS_ERROR\<rparr>)"

definition mark_step ::
  "('w, 'z) engine_scheme \<Rightarrow> string \<Rightarrow> nat \<Rightarrow> wf_status \<Rightarrow> json option \<Rightarrow> string option \<Rightarrow> string option \<Rightarrow> ('w, unit) flow" where
  "mark_step en rid i st receipt ecode msg = bind (ask_w (en_utcnow en)) (\<lambda>t.
     change_step rid i (\<lambda>r. r\<lparr>sr_status := st, sr_receipt := receipt, sr_error_code := ecode, sr_error := msg,
                              sr_finished := Some t\<rparr>))"

section \<open>Definitions of runs\<close>

abbreviation truthy :: "string option \<Rightarrow> bool" where
  "truthy x \<equiv> x \<noteq> None \<and> x \<noteq> Some []"

definition definition_for_run :: "('w, 'z) engine_scheme \<Rightarrow> run_row \<Rightarrow> ('w, wf_def option) flow" where
  "definition_for_run en run = (case (wr_template run, en_templates en) of
       (Some name, Some tp) \<Rightarrow>
         if name = [] then get_s (\<lambda>s. wf_get (ws_catalog s) (wr_workflow run))
         else bind (outside (tp_get tp name
                     (case wr_template_version run of Some v \<Rightarrow> if v = 0 then 1 else v | None \<Rightarrow> 1))) (\<lambda>d.
           ret (case d of None \<Rightarrow> None
                | Some d \<Rightarrow> if checksum (en_sha en) (en_frepr en) d \<noteq> wr_checksum run then None else Some d))
     | _ \<Rightarrow> get_s (\<lambda>s. wf_get (ws_catalog s) (wr_workflow run)))"

definition step_def_for :: "('w, 'z) engine_scheme \<Rightarrow> run_row \<Rightarrow> nat \<Rightarrow> ('w, wf_step option) flow" where
  "step_def_for en run i = bind (definition_for_run en run) (\<lambda>d. ret (case d of
       None \<Rightarrow> None | Some d \<Rightarrow> if i < length (wd_steps d) then Some (wd_steps d ! i) else None))"

section \<open>Executing a step\<close>

definition run_params :: "run_row \<Rightarrow> params" where
  "run_params run = (case wr_params run of JObj kvs \<Rightarrow> kvs | _ \<Rightarrow> [])"

definition new_row :: "wf_step \<Rightarrow> nat \<Rightarrow> step_row" where
  "new_row s i = \<lparr>sr_step_id = st_id s, sr_index = i, sr_action = st_action s, sr_params = redact {} (JObj (st_params s)),
     sr_status = W_pending, sr_attempt = 0, sr_confirmation = None, sr_receipt = None, sr_error_code = None,
     sr_error = None, sr_started = None, sr_finished = None, sr_depends = [], sr_condition = None, sr_group = None\<rparr>"

definition ensure_row :: "string \<Rightarrow> wf_step \<Rightarrow> nat \<Rightarrow> ('w, unit) flow" where
  "ensure_row rid s i = put_s (\<lambda>st. if row_at (ws_steps st rid) i = None
     then st\<lparr>ws_steps := (ws_steps st)(rid := ws_steps st rid @ [new_row s i])\<rparr> else st)"

definition begin_row :: "string \<Rightarrow> wf_def option \<Rightarrow> wf_step \<Rightarrow> step_row \<Rightarrow> step_row" where
  "begin_row now catalog_def s r = r\<lparr>sr_status := W_running, sr_attempt := sr_attempt r + 1, sr_started := Some now,
     sr_finished := None, sr_depends := st_depends_on s,
     sr_condition := (case st_condition s of None \<Rightarrow> sr_condition r | Some c \<Rightarrow> Some (condition_json c)),
     sr_group := parallel_group catalog_def s\<rparr>"

definition open_step :: "('w, 'z) engine_scheme \<Rightarrow> run_row \<Rightarrow> wf_step \<Rightarrow> nat \<Rightarrow> ('w, unit) flow" where
  "open_step en run s i =
     seq (ensure_row (wr_id run) s i) (bind (ask_w (en_utcnow en)) (\<lambda>now.
       bind (get_s (\<lambda>st. wf_get (ws_catalog st) (wr_workflow run))) (\<lambda>cd.
         change_step (wr_id run) i (begin_row now cd s))))"

text \<open>\<open>None\<close>: the unit of budget is claimed, or no governance is configured.\<close>

definition claim_budget :: "('w, 'z) engine_scheme \<Rightarrow> string \<Rightarrow> ('w, string option) flow" where
  "claim_budget en rid s = (case en_governance en of
       None \<Rightarrow> (Inr None, s)
     | Some gs \<Rightarrow> (case claim_step_budget gs rid (ws_counters s) of
         Inl (GovError msg _) \<Rightarrow> (Inr (Some msg), s)
       | Inl (GovStorage x) \<Rightarrow> (Inr (Some (en_text en (PyErr x))), s)
       | Inr t \<Rightarrow> (Inr None, s\<lparr>ws_counters := t\<rparr>)))"

definition guarded_request ::
  "('w, 'z) engine_scheme \<Rightarrow> action \<Rightarrow> exec_ctx \<Rightarrow> ('w, (step_exc, response) result) flow" where
  "guarded_request en act ctx s = (case outside (en_request en act ctx) s of
       (Inl e, s') \<Rightarrow> if en_fatal en e then (Inl e, s') else (Inr (Inl (PyErr e)), s')
     | (Inr r, s') \<Rightarrow> (Inr (Inr r), s'))"

definition inspect_action :: action where
  "inspect_action = \<lparr>action_type = ''browser.inspect'', a_params = []\<rparr>"

definition acquire_target ::
  "('w, 'z) engine_scheme \<Rightarrow> wf_target \<Rightarrow> exec_ctx \<Rightarrow> ('w, (step_exc, string) result) flow" where
  "acquire_target en t ctx = bind (guarded_request en inspect_action ctx) (\<lambda>r. ret (case r of
       Inl e \<Rightarrow> Inl e
     | Inr resp \<Rightarrow> (case rs_result resp of
         Some res \<Rightarrow> if rs_status resp = St_executed \<and> ar_success res then choose_element t (ar_data res)
                     else Inl (SvcErr ''could not inspect the page to acquire a fresh element reference'')
       | None \<Rightarrow> Inl (SvcErr ''could not inspect the page to acquire a fresh element reference''))))"

definition with_target ::
  "('w, 'z) engine_scheme \<Rightarrow> wf_step \<Rightarrow> exec_ctx \<Rightarrow> params \<Rightarrow> ('w, (step_exc, params) result) flow" where
  "with_target en s ctx rendered = (case st_target s of
       None \<Rightarrow> ret (Inr rendered)
     | Some t \<Rightarrow> bind (acquire_target en t ctx) (\<lambda>r. ret (map_sum id (\<lambda>ref.
         AList.update ''element_ref'' (JStr ref) rendered) r)))"

definition with_expect :: "('w, 'z) engine_scheme \<Rightarrow> run_row \<Rightarrow> wf_step \<Rightarrow> params \<Rightarrow> (step_exc, params) result" where
  "with_expect en run s rendered = (case render_step_expect (en_frepr en) s (run_params run) False of
       Inl e \<Rightarrow> Inl (DefErr e)
     | Inr None \<Rightarrow> Inr rendered
     | Inr (Some ex) \<Rightarrow> Inr (AList.update ''expect'' (JObj ex) rendered))"

definition dispatch_step ::
  "('w, 'z) engine_scheme \<Rightarrow> run_row \<Rightarrow> wf_step \<Rightarrow> exec_ctx \<Rightarrow> ('w, (step_exc, response) result) flow" where
  "dispatch_step en run s ctx = (case render_workflow_params (en_frepr en) s (run_params run) False of
       Inl e \<Rightarrow> ret (Inl (DefErr e))
     | Inr rendered \<Rightarrow> bind (with_target en s ctx rendered) (\<lambda>r. case r of
         Inl e \<Rightarrow> ret (Inl e)
       | Inr rendered' \<Rightarrow> (case with_expect en run s rendered' of
           Inl e \<Rightarrow> ret (Inl e)
         | Inr ps \<Rightarrow> guarded_request en \<lparr>action_type = st_action s, a_params = ps\<rparr> ctx)))"

text \<open>What is written on the row when the dispatch has ended.\<close>

datatype step_mark =
    Mark wf_status "json option" "string option" "string option"
  | Hold "string option"

definition SIDE_EFFECT_UNKNOWN :: string where
  "SIDE_EFFECT_UNKNOWN = error_value E_SIDE_EFFECT_UNKNOWN"

definition response_mark :: "wf_step \<Rightarrow> response \<Rightarrow> step_mark" where
  "response_mark s resp =
     (if rs_status resp = St_executed then
        (let receipt = (case rs_result resp of Some res \<Rightarrow> sanitize_receipt (JObj (ar_data res)) | None \<Rightarrow> JObj [])
         in Mark W_completed (Some (if st_outputs s = [] then receipt else capture_outputs receipt (st_outputs s))) None None)
      else if rs_status resp = St_confirmation_required then Hold (rs_confirmation_id resp)
      else if rs_status resp = St_denied then
        (if st_on_denied s = ''skip'' then Mark W_skipped None None (Some ''step denied and skipped'')
         else Mark W_failed None None (Some ''step denied by policy''))
      else if rs_error_code resp = Some SIDE_EFFECT_UNKNOWN then
        Mark W_ambiguous None (Some SIDE_EFFECT_UNKNOWN) (Some ''step outcome is unknown (SIDE_EFFECT_UNKNOWN)'')
      else Mark W_failed None
        (if truthy (rs_error_code resp) then rs_error_code resp else Some (error_value E_PROVIDER_ERROR))
        (if truthy (rs_message resp) then rs_message resp else Some ''workflow step failed''))"

definition exception_code :: "step_exc \<Rightarrow> error_code" where
  "exception_code e = (case e of
       DefErr x \<Rightarrow> if x \<in> {PyKeyError, PyIntTooLongError} then E_INTERNAL else E_VALIDATION
     | SvcErr _ \<Rightarrow> E_VALIDATION
     | PyErr _ \<Rightarrow> E_INTERNAL)"

text \<open>The wording of exceptions other than the engine's own is \<open>en_text\<close>.\<close>

definition exception_message :: "('w, 'z) engine_scheme \<Rightarrow> step_exc \<Rightarrow> string" where
  "exception_message en e = (case e of
       SvcErr msg \<Rightarrow> msg
     | _ \<Rightarrow> if exception_code e = E_INTERNAL then ''workflow engine error: '' @ en_text en e else en_text en e)"

definition outcome_mark :: "('w, 'z) engine_scheme \<Rightarrow> wf_step \<Rightarrow> (step_exc, response) result \<Rightarrow> step_mark" where
  "outcome_mark en s r = (case r of
       Inr resp \<Rightarrow> response_mark s resp
     | Inl e \<Rightarrow> Mark W_failed None (Some (error_value (exception_code e)))
         (Some (exception_message en e)))"

definition apply_mark :: "('w, 'z) engine_scheme \<Rightarrow> string \<Rightarrow> nat \<Rightarrow> step_mark \<Rightarrow> ('w, unit) flow" where
  "apply_mark en rid i m = (case m of
       Mark st receipt ecode msg \<Rightarrow> mark_step en rid i st receipt ecode msg
     | Hold cid \<Rightarrow> change_step rid i (\<lambda>r. r\<lparr>sr_status := W_waiting, sr_confirmation := cid\<rparr>))"

definition execute_step ::
  "('w, 'z) engine_scheme \<Rightarrow> run_row \<Rightarrow> wf_step \<Rightarrow> nat \<Rightarrow> exec_ctx \<Rightarrow> ('w, unit) flow" where
  "execute_step en run s i ctx =
     seq (open_step en run s i) (bind (claim_budget en (wr_id run)) (\<lambda>b. case b of
         Some msg \<Rightarrow> seq (set_run_budget_failed en (wr_id run) msg)
                       (mark_step en (wr_id run) i W_failed None (Some ''BUDGET_EXCEEDED'') (Some msg))
       | None \<Rightarrow> bind (dispatch_step en run s ctx) (\<lambda>r. apply_mark en (wr_id run) i (outcome_mark en s r))))"


section \<open>Steps that wait for a confirmation\<close>

datatype wait_outcome = Next | StillWaiting | DeniedSkip | DeniedStop | WaitFailed

definition fail_wait :: "('w, 'z) engine_scheme \<Rightarrow> string \<Rightarrow> string \<Rightarrow> ('w, wait_outcome) flow" where
  "fail_wait en rid msg = seq (set_run_failed en rid msg) (ret WaitFailed)"

definition revalidate ::
  "('w, 'z) engine_scheme \<Rightarrow> run_row \<Rightarrow> nat \<Rightarrow> exec_ctx \<Rightarrow> ('w, bool) flow" where
  "revalidate en run i ctx = bind (step_def_for en run i) (\<lambda>sd. case sd of
       None \<Rightarrow> ret True
     | Some s \<Rightarrow> if st_expect s = None then ret True else
         (case render_step_expect (en_frepr en) s (run_params run) False of
            Inl _ \<Rightarrow> ret False
          | Inr ex \<Rightarrow> bind (guarded_request en inspect_action ctx) (\<lambda>r. ret (case r of
              Inl _ \<Rightarrow> False
            | Inr resp \<Rightarrow> (case rs_result resp of
                None \<Rightarrow> False
              | Some res \<Rightarrow> rs_status resp = St_executed
                  \<and> post_condition (en_str en) s (case ex of None \<Rightarrow> [] | Some ps \<Rightarrow> ps) (ar_data res))))))"

definition approved_receipt :: "string \<Rightarrow> json" where
  "approved_receipt cid = JObj [(''approved'', JBool True), (''executed_once'', JBool True), (''confirmation_id'', JStr cid)]"

definition approved_step ::
  "('w, 'z) engine_scheme \<Rightarrow> run_row \<Rightarrow> nat \<Rightarrow> string \<Rightarrow> exec_ctx \<Rightarrow> ('w, wait_outcome) flow" where
  "approved_step en run i cid ctx =
     bind (outside (en_outcomes en cid)) (\<lambda>outs. case dispatch_outcome outs of
         None \<Rightarrow> fail_wait en (wr_id run) ''approved step has no recorded dispatch outcome''
       | Some out \<Rightarrow>
           if out \<noteq> O_EXECUTED
           then fail_wait en (wr_id run) (''approved step dispatch did not succeed (outcome='' @ outcome_value out @ '')'')
           else bind (revalidate en run i ctx) (\<lambda>ok.
             if \<not> ok then fail_wait en (wr_id run) ''approved step failed post-condition revalidation''
             else bind (ask_w (en_utcnow en)) (\<lambda>t. seq
               (change_step (wr_id run) i (\<lambda>r. r\<lparr>sr_status := W_completed, sr_receipt := Some (approved_receipt cid),
                                                sr_finished := Some t\<rparr>))
               (ret Next))))"

definition denied_step :: "('w, 'z) engine_scheme \<Rightarrow> run_row \<Rightarrow> nat \<Rightarrow> ('w, wait_outcome) flow" where
  "denied_step en run i = bind (step_def_for en run i) (\<lambda>sd.
     if (case sd of None \<Rightarrow> False | Some s \<Rightarrow> st_on_denied s = ''skip'')
     then bind (ask_w (en_utcnow en)) (\<lambda>t. seq
       (change_step (wr_id run) i (\<lambda>r. r\<lparr>sr_status := W_skipped, sr_error := Some ''confirmation denied; step skipped'',
                                        sr_finished := Some t\<rparr>))
       (ret DeniedSkip))
     else ret DeniedStop)"

definition handle_waiting ::
  "('w, 'z) engine_scheme \<Rightarrow> run_row \<Rightarrow> step_row \<Rightarrow> exec_ctx \<Rightarrow> ('w, wait_outcome) flow" where
  "handle_waiting en run row ctx = (case sr_confirmation row of
       None \<Rightarrow> fail_wait en (wr_id run) ''waiting step has no confirmation record''
     | Some cid \<Rightarrow>
         if cid = [] then fail_wait en (wr_id run) ''waiting step has no confirmation record''
         else bind (outside (en_confirmation en cid)) (\<lambda>c. case c of
             None \<Rightarrow> fail_wait en (wr_id run) ''confirmation record is missing''
           | Some c \<Rightarrow> (case cf_status c of
               STATUS_PENDING \<Rightarrow> ret StillWaiting
             | STATUS_USED \<Rightarrow> approved_step en run (sr_index row) cid ctx
             | STATUS_DENIED \<Rightarrow> denied_step en run (sr_index row)
             | STATUS_EXPIRED \<Rightarrow> fail_wait en (wr_id run) ''confirmation expired'')))"

text \<open>The waiting rows in turn: \<open>None\<close> when one of them ends the engine, else whether any of them moved.\<close>

fun reconcile ::
  "('w, 'z) engine_scheme \<Rightarrow> run_row \<Rightarrow> exec_ctx \<Rightarrow> bool \<Rightarrow> step_row list \<Rightarrow> ('w, bool option) flow" where
  "reconcile en run ctx changed [] = ret (Some changed)"
| "reconcile en run ctx changed (row # rows) = bind (handle_waiting en run row ctx) (\<lambda>res. case res of
       Next \<Rightarrow> reconcile en run ctx True rows
     | DeniedSkip \<Rightarrow> reconcile en run ctx True rows
     | StillWaiting \<Rightarrow> reconcile en run ctx changed rows
     | WaitFailed \<Rightarrow> ret None
     | DeniedStop \<Rightarrow> ret None)"

section \<open>The engine\<close>

definition error_or_default :: "string option \<Rightarrow> string" where
  "error_or_default e = (case e of Some (c # cs) \<Rightarrow> c # cs | _ \<Rightarrow> ''workflow step failed'')"

text \<open>Is the run settled by its rows?\<close>

definition refresh_run_status :: "('w, 'z) engine_scheme \<Rightarrow> string \<Rightarrow> step_row list \<Rightarrow> ('w, bool) flow" where
  "refresh_run_status en rid rows =
     (let failed = filter (\<lambda>r. sr_status r = W_failed \<and> truthy (sr_error_code r)) rows
      in if \<exists>r \<in> set rows. sr_status r = W_ambiguous then seq (set_ambiguous en rid) (ret True)
         else if failed \<noteq> [] \<and> \<not> (\<exists>r \<in> set rows. sr_status r = W_pending)
         then seq (end_run en rid W_failed (error_or_default (sr_error (hd failed))) id) (ret True)
         else ret False)"

definition next_index :: "step_row list \<Rightarrow> nat" where
  "next_index rows = (case filter (\<lambda>i. sr_status (rows ! i) \<in> {W_pending, W_running}) [0..<length rows] of
       [] \<Rightarrow> length rows | i # _ \<Rightarrow> i)"

text \<open>After a single step: does the engine return?\<close>

definition classify :: "('w, 'z) engine_scheme \<Rightarrow> string \<Rightarrow> nat \<Rightarrow> ('w, bool) flow" where
  "classify en rid i = bind (list_steps rid) (\<lambda>rows. case row_at rows i of
       None \<Rightarrow> raise_exc (OtherExc ''WorkflowServiceError'')
     | Some row \<Rightarrow>
         if sr_status row \<in> {W_completed, W_skipped, W_skipped_conditional}
         then seq (change_run rid (\<lambda>r. r\<lparr>wr_current := next_index rows\<rparr>)) (ret False)
         else if sr_status row = W_waiting
         then seq (touch_run en rid (\<lambda>r. r\<lparr>wr_status := W_waiting, wr_current := i\<rparr>)) (ret True)
         else if sr_status row = W_ambiguous then seq (set_ambiguous en rid) (ret True)
         else seq (end_run en rid W_failed (error_or_default (sr_error row)) id) (ret True))"

definition not_allowed_message :: "string \<Rightarrow> string" where
  "not_allowed_message a = ''step '' @ [CHR 0x27] @ a @ [CHR 0x27] @ '' is not allowed for this role''"

definition start_clock :: "('w, 'z) engine_scheme \<Rightarrow> run_row \<Rightarrow> ('w, string) flow" where
  "start_clock en run = (case wr_started run of
       Some (c # cs) \<Rightarrow> ret (c # cs) | _ \<Rightarrow> ask_w (en_utcnow en))"

definition run_single ::
  "('w, 'z) engine_scheme \<Rightarrow> string \<Rightarrow> wf_def \<Rightarrow> step_row list \<Rightarrow> nat \<Rightarrow> exec_ctx \<Rightarrow> (string \<Rightarrow> bool) \<Rightarrow> ('w, bool) flow" where
  "run_single en rid d rows i ctx allowed =
     seq (set_current en rid i)
    (bind (load_owned rid (actor_id ctx)) (\<lambda>run.
     bind (start_clock en run) (\<lambda>t.
     seq (change_run rid (\<lambda>r. r\<lparr>wr_status := W_running, wr_started := Some t\<rparr>))
    (let s = wd_steps d ! i in
     if \<not> allowed (st_action s) then seq (set_run_failed en rid (not_allowed_message (st_action s))) (ret True)
     else if st_condition s \<noteq> None \<and> evaluate_condition d rows s = Some False
     then bind (ask_w (en_utcnow en)) (\<lambda>t'. seq
       (change_step rid i (\<lambda>r. r\<lparr>sr_status := W_skipped_conditional, sr_finished := Some t'\<rparr>)) (ret False))
     else seq (execute_step en run s i ctx) (classify en rid i)))))"

fun claim_budgets :: "('w, 'z) engine_scheme \<Rightarrow> string \<Rightarrow> nat list \<Rightarrow> ('w, string option) flow" where
  "claim_budgets en rid [] = ret None"
| "claim_budgets en rid (i # is) = bind (claim_budget en rid) (\<lambda>b. case b of
       Some msg \<Rightarrow> ret (Some msg) | None \<Rightarrow> claim_budgets en rid is)"

fun set_currents :: "('w, 'z) engine_scheme \<Rightarrow> string \<Rightarrow> nat list \<Rightarrow> ('w, unit) flow" where
  "set_currents en rid [] = ret ()"
| "set_currents en rid (i # is) = seq (set_current en rid i) (set_currents en rid is)"

text \<open>Every member runs, whatever becomes of the others; the first exception is raised after that.\<close>

fun run_members ::
  "('w, 'z) engine_scheme \<Rightarrow> run_row \<Rightarrow> wf_def \<Rightarrow> exec_ctx \<Rightarrow> nat list \<Rightarrow> ('w, unit) flow" where
  "run_members en run d ctx [] s = (Inr (), s)"
| "run_members en run d ctx (i # is) s = (case execute_step en run (wd_steps d ! i) i ctx s of (r, s1) \<Rightarrow>
     (case run_members en run d ctx is s1 of (r', s2) \<Rightarrow> (case r of Inl e \<Rightarrow> (Inl e, s2) | Inr _ \<Rightarrow> (r', s2))))"

definition run_parallel ::
  "('w, 'z) engine_scheme \<Rightarrow> string \<Rightarrow> wf_def \<Rightarrow> nat list \<Rightarrow> exec_ctx \<Rightarrow> ('w, unit) flow" where
  "run_parallel en rid d batch ctx = bind (claim_budgets en rid batch) (\<lambda>b. case b of
       Some msg \<Rightarrow> set_run_budget_failed en rid msg
     | None \<Rightarrow> seq (set_currents en rid batch) (bind (load_run rid) (\<lambda>run. run_members en run d ctx batch)))"

definition complete_run :: "('w, 'z) engine_scheme \<Rightarrow> string \<Rightarrow> nat \<Rightarrow> ('w, unit) flow" where
  "complete_run en rid n = bind (ask_w (en_utcnow en)) (\<lambda>t1. bind (ask_w (en_utcnow en)) (\<lambda>t2. seq
     (change_run rid (\<lambda>r. r\<lparr>wr_status := W_completed, wr_current := n, wr_error := None, wr_finished := Some t1,
                            wr_updated := t2\<rparr>))
     (release_governance en rid)))"

text \<open>One pass of the loop: does the engine return?  The snapshot that has no waiting row makes the
  second treatment of waiting rows in the source unreachable, as does readiness for a waiting step.\<close>

definition run_batch ::
  "('w, 'z) engine_scheme \<Rightarrow> string \<Rightarrow> wf_def \<Rightarrow> step_row list \<Rightarrow> nat list \<Rightarrow> exec_ctx \<Rightarrow> (string \<Rightarrow> bool) \<Rightarrow> ('w, bool) flow" where
  "run_batch en rid d rows batch ctx allowed = (case batch of
       [] \<Rightarrow> raise_exc (OtherExc ''IndexError'')
     | [i] \<Rightarrow> run_single en rid d rows i ctx allowed
     | _ \<Rightarrow> seq (run_parallel en rid d batch ctx)
              (bind (list_steps rid) (\<lambda>rows'. refresh_run_status en rid rows')))"

definition loop_body ::
  "('w, 'z) engine_scheme \<Rightarrow> string \<Rightarrow> wf_def \<Rightarrow> rat \<Rightarrow> exec_ctx \<Rightarrow> (string \<Rightarrow> bool) \<Rightarrow> ('w, bool) flow" where
  "loop_body en rid d deadl ctx allowed =
     bind (ask_w (en_monotonic en)) (\<lambda>t.
       if deadl < t then seq (set_run_failed en rid ''workflow wall-clock budget exceeded'') (ret True)
       else bind (list_steps rid) (\<lambda>rows.
         if filter (\<lambda>r. sr_status r = W_waiting) rows \<noteq> []
         then bind (load_run rid) (\<lambda>run. bind (reconcile en run ctx False (filter (\<lambda>r. sr_status r = W_waiting) rows)) (\<lambda>m. case m of
             None \<Rightarrow> ret True
           | Some True \<Rightarrow> ret False
           | Some False \<Rightarrow> seq (touch_run en rid (\<lambda>r. r\<lparr>wr_status := W_waiting\<rparr>)) (ret True)))
         else bind (refresh_run_status en rid rows) (\<lambda>settled.
           if settled then ret True
           else if ready_indices d rows = [] then
             (if all_terminal d rows
              then seq (complete_run en rid (length (wd_steps d))) (ret True) else ret True)
           else run_batch en rid d rows (choose_batch (en_max_pending en) d (ready_indices d rows)) ctx allowed)))"

text \<open>The loop with a bound on its passes: \<open>False\<close> when the bound is used up.\<close>

fun engine_loop ::
  "nat \<Rightarrow> ('w, 'z) engine_scheme \<Rightarrow> string \<Rightarrow> wf_def \<Rightarrow> rat \<Rightarrow> exec_ctx \<Rightarrow> (string \<Rightarrow> bool) \<Rightarrow> ('w, bool) flow" where
  "engine_loop 0 en rid d deadl ctx allowed = ret False"
| "engine_loop (Suc n) en rid d deadl ctx allowed = bind (loop_body en rid d deadl ctx allowed) (\<lambda>fin.
     if fin then ret True else engine_loop n en rid d deadl ctx allowed)"

text \<open>\<open>_advance\<close>: \<open>None\<close> when the bound on the passes is used up, else the run.\<close>

definition advance ::
  "nat \<Rightarrow> ('w, 'z) engine_scheme \<Rightarrow> string \<Rightarrow> exec_ctx \<Rightarrow> (string \<Rightarrow> bool) \<Rightarrow> ('w, run_row option) flow" where
  "advance fuel en rid ctx allowed =
     bind (load_owned rid (actor_id ctx)) (\<lambda>run. bind (definition_for_run en run) (\<lambda>d. case d of
         None \<Rightarrow> seq (set_run_failed en rid ''workflow is no longer registered or template missing'')
                     (bind (load_run rid) (\<lambda>r. ret (Some r)))
       | Some d \<Rightarrow>
           if checksum (en_sha en) (en_frepr en) d \<noteq> wr_checksum run
           then seq (set_run_failed en rid ''workflow definition changed since the run started (checksum)'')
                    (bind (load_run rid) (\<lambda>r. ret (Some r)))
           else bind (ask_w (en_monotonic en)) (\<lambda>t.
             bind (engine_loop fuel en rid d (t + en_max_wallclock en) ctx allowed) (\<lambda>fin.
               if fin then bind (load_run rid) (\<lambda>r. ret (Some r)) else ret None))))"

end
