(* ===== verification/Workflow_Service.thy ===== *)
theory Workflow_Service
  imports Workflow_Engine
begin

text \<open>
  The operations of \<^verbatim>\<open>WorkflowService\<close> in \<^verbatim>\<open>era/services/workflow_service.py\<close>: start, resume, cancel and
  the operator's resolution of an ambiguous run, and the reading of runs.  The first argument of an
  operation that drives the engine bounds the passes of the engine's loop.
\<close>

section \<open>Starting a run\<close>

datatype wf_source = ByName string | Inline wf_def

text \<open>\<open>try: template_service.instantiate(...) except Exception: None\<close>.\<close>

definition instantiated ::
  "('w, 'z) engine_scheme \<Rightarrow> 'w templates \<Rightarrow> string \<Rightarrow> int option \<Rightarrow> ('w, wf_def option) flow" where
  "instantiated en tp name version s = (case outside (tp_instantiate tp name version) s of
       (Inl e, s') \<Rightarrow> if en_fatal en e then (Inl e, s') else (Inr None, s')
     | (Inr d, s') \<Rightarrow> (Inr (Some d), s'))"

definition found_or_unknown :: "wf_def option \<Rightarrow> ('w, wf_def) flow" where
  "found_or_unknown d = (case d of None \<Rightarrow> raise_exc (OtherExc ''WorkflowServiceError'') | Some d \<Rightarrow> ret d)"

definition register_inline :: "('w, 'z) engine_scheme \<Rightarrow> wf_def \<Rightarrow> ('w, unit) flow" where
  "register_inline en d s =
     (case wf_register (en_sha en) (en_frepr en) (en_actions en) (Some (en_max_steps en)) d (ws_catalog s) of
        (Inl _, wc) \<Rightarrow> (Inl (OtherExc ''WorkflowDefinitionError''), s\<lparr>ws_catalog := wc\<rparr>)
      | (Inr _, wc) \<Rightarrow> (Inr (), s\<lparr>ws_catalog := wc\<rparr>))"

definition resolve_definition ::
  "('w, 'z) engine_scheme \<Rightarrow> wf_source \<Rightarrow> int option \<Rightarrow> ('w, wf_def) flow" where
  "resolve_definition en src version = (case src of
       ByName name \<Rightarrow> bind (get_s (\<lambda>s. wf_get (ws_catalog s) name)) (\<lambda>d. case (d, en_templates en) of
           (Some d, _) \<Rightarrow> ret d
         | (None, Some tp) \<Rightarrow> bind (instantiated en tp name version) found_or_unknown
         | (None, None) \<Rightarrow> found_or_unknown None)
     | Inline d \<Rightarrow>
         (case validate_workflow_definition (en_frepr en) (en_actions en) (en_max_steps en) DEFAULT_MAX_WORKFLOW_PARAM_CHARS d of
            Inl _ \<Rightarrow> raise_exc (OtherExc ''WorkflowDefinitionError'')
          | Inr _ \<Rightarrow> bind (get_s (\<lambda>s. wf_get (ws_catalog s) (wd_name d))) (\<lambda>ex.
              if ex = None then seq (register_inline en d) (ret d) else ret d)))"

record start_args =
  sa_params :: params
  sa_token :: string
  sa_template :: "string option"
  sa_template_version :: "int option"
  sa_scheduled :: bool
  sa_schedule :: "string option"
  sa_source :: "string option"

definition check_roles :: "(string \<Rightarrow> bool) \<Rightarrow> start_args \<Rightarrow> wf_def \<Rightarrow> (py_exc, unit) result" where
  "check_roles allowed args d =
     (if \<not> allowed ''browser.workflow_run'' then Inl (OtherExc ''WorkflowNotAllowed'')
      else if (case sa_template_version args of None \<Rightarrow> False | Some v \<Rightarrow> wd_version d \<noteq> v)
      then Inl (OtherExc ''WorkflowServiceError'')
      else if \<exists>s \<in> set (wd_steps d). \<not> allowed (st_action s) then Inl (OtherExc ''WorkflowNotAllowed'')
      else Inr ())"

text \<open>The row of a new run; \<open>scope\<close> and what follows differ between a run that is admitted and one that is not.\<close>

definition new_run ::
  "('w, 'z) engine_scheme \<Rightarrow> start_args \<Rightarrow> wf_def \<Rightarrow> string \<Rightarrow> string \<Rightarrow> string \<Rightarrow> string \<Rightarrow> string \<Rightarrow> run_row" where
  "new_run en args d actor token now rid resume_token =
     \<lparr>wr_id = rid, wr_workflow = wd_name d, wr_version = wd_version d, wr_actor = actor, wr_scope = None,
      wr_status = W_pending, wr_current = 0, wr_error = None, wr_token = token, wr_resume_token = resume_token,
      wr_checksum = checksum (en_sha en) (en_frepr en) d, wr_definition = redact_definition d,
      wr_params = redact_run_params (sa_params args), wr_created = now, wr_updated = now,
      wr_template = sa_template args,
      wr_template_version = (if truthy (sa_template args) then Some (wd_version d) else None),
      wr_template_checksum = (if truthy (sa_template args) then Some (checksum (en_sha en) (en_frepr en) d) else None),
      wr_started = Some now, wr_finished = None, wr_source = sa_source args, wr_cap = max_parallel_cap d,
      wr_governance = None, wr_scheduled = sa_scheduled args, wr_schedule = sa_schedule args\<rparr>"

definition insert_run :: "run_row \<Rightarrow> step_row list \<Rightarrow> ('w, unit) flow" where
  "insert_run run rows s = (case run_create run (ws_runs s) of
       None \<Rightarrow> (Inl (OtherExc ''IntegrityError''), s)
     | Some t \<Rightarrow> (Inr (), s\<lparr>ws_runs := t, ws_steps := (ws_steps s)(wr_id run := ws_steps s (wr_id run) @ rows)\<rparr>))"

definition first_row :: "wf_def \<Rightarrow> nat \<Rightarrow> step_row" where
  "first_row d i = (let s = wd_steps d ! i in (new_row s i)\<lparr>sr_depends := st_depends_on s,
     sr_condition := map_option condition_json (st_condition s), sr_group := parallel_group (Some d) s\<rparr>)"

definition first_rows :: "wf_def \<Rightarrow> step_row list" where
  "first_rows d = map (first_row d) [0..<length (wd_steps d)]"

definition run_scope :: "exec_ctx \<Rightarrow> string \<Rightarrow> string" where
  "run_scope ctx rid = (case execution_scope ctx of Some (c # cs) \<Rightarrow> c # cs | _ \<Rightarrow> ''workflow:'' @ rid)"

definition refused_run ::
  "('w, 'z) engine_scheme \<Rightarrow> start_args \<Rightarrow> wf_def \<Rightarrow> exec_ctx \<Rightarrow> string \<Rightarrow> string \<Rightarrow> ('w, run_row) flow" where
  "refused_run en args d ctx token gcode =
     bind (ask_w (en_utcnow en)) (\<lambda>now. bind (ask_w (en_uuid en)) (\<lambda>rid. bind (ask_w (en_uuid en)) (\<lambda>rt.
       let run = (new_run en args d (actor_id ctx) token now rid rt)
             \<lparr>wr_scope := execution_scope ctx, wr_status := W_failed, wr_template_version := Some (wd_version d),
              wr_finished := Some now, wr_error := Some (''governance admission denied ('' @ gcode @ '')''),
              wr_governance := Some gcode\<rparr>
       in seq (insert_run run []) (ret run))))"

text \<open>\<open>claim_start\<close>: \<open>None\<close> when admitted, or the code of the refusal.\<close>

definition admit :: "('w, 'z) engine_scheme \<Rightarrow> string \<Rightarrow> string \<Rightarrow> ('w, string option) flow" where
  "admit en actor workflow = (case en_governance en of
       None \<Rightarrow> ret None
     | Some gs \<Rightarrow> bind (ask_w (en_timestamp en)) (\<lambda>now s. case claim_start gs now actor workflow (ws_counters s) of
         Inl e \<Rightarrow> (Inr (Some (gov_code e)), s)
       | Inr t \<Rightarrow> (Inr None, s\<lparr>ws_counters := t\<rparr>)))"

definition admitted_run ::
  "nat \<Rightarrow> ('w, 'z) engine_scheme \<Rightarrow> start_args \<Rightarrow> wf_def \<Rightarrow> exec_ctx \<Rightarrow> (string \<Rightarrow> bool) \<Rightarrow> string \<Rightarrow> string
     \<Rightarrow> ('w, run_row option) flow" where
  "admitted_run fuel en args d ctx allowed token now =
     bind (ask_w (en_uuid en)) (\<lambda>rid. bind (ask_w (en_uuid en)) (\<lambda>rt.
       seq (insert_run ((new_run en args d (actor_id ctx) token now rid rt)\<lparr>wr_scope := Some (run_scope ctx rid)\<rparr>) (first_rows d))
         (advance fuel en rid (ctx\<lparr>execution_scope := Some (run_scope ctx rid)\<rparr>) allowed)))"

definition start_token :: "('w, 'z) engine_scheme \<Rightarrow> start_args \<Rightarrow> ('w, string) flow" where
  "start_token en args = (if strip (sa_token args) \<noteq> [] then ret (strip (sa_token args)) else ask_w (en_uuid en))"

definition start_run ::
  "nat \<Rightarrow> ('w, 'z) engine_scheme \<Rightarrow> wf_source \<Rightarrow> start_args \<Rightarrow> exec_ctx \<Rightarrow> (string \<Rightarrow> bool) \<Rightarrow> ('w, run_row option) flow" where
  "start_run fuel en src args ctx allowed =
     bind (resolve_definition en src (sa_template_version args)) (\<lambda>d.
     bind (lift_res (check_roles allowed args d)) (\<lambda>_.
     bind (start_token en args) (\<lambda>token.
     bind (ask_w (en_utcnow en)) (\<lambda>now.
     bind (get_s (\<lambda>s. run_by_token (ws_runs s) (actor_id ctx) token)) (\<lambda>ex. case ex of
         Some run \<Rightarrow> ret (Some run)
       | None \<Rightarrow> bind (admit en (actor_id ctx) (wd_name d)) (\<lambda>refused. case refused of
           Some gcode \<Rightarrow> bind (refused_run en args d ctx token gcode) (\<lambda>run. ret (Some run))
         | None \<Rightarrow> admitted_run fuel en args d ctx allowed token now))))))"

section \<open>Resuming, cancelling, resolving\<close>

definition scoped :: "run_row \<Rightarrow> exec_ctx \<Rightarrow> exec_ctx" where
  "scoped run ctx = (if truthy (wr_scope run) then ctx\<lparr>execution_scope := wr_scope run\<rparr> else ctx)"

definition resume_run ::
  "nat \<Rightarrow> ('w, 'z) engine_scheme \<Rightarrow> string \<Rightarrow> exec_ctx \<Rightarrow> (string \<Rightarrow> bool) \<Rightarrow> ('w, run_row option) flow" where
  "resume_run fuel en rid ctx allowed = bind (load_owned rid (actor_id ctx)) (\<lambda>run.
       if wr_status run \<in> {W_completed, W_cancelled} then ret (Some run)
       else if wr_status run \<in> {W_failed, W_ambiguous} then raise_exc (OtherExc ''WorkflowAlreadyTerminal'')
       else advance fuel en rid (scoped run ctx) allowed)"

definition cancel_run :: "('w, 'z) engine_scheme \<Rightarrow> string \<Rightarrow> exec_ctx \<Rightarrow> ('w, run_row) flow" where
  "cancel_run en rid ctx = bind (load_owned rid (actor_id ctx)) (\<lambda>run.
       if wr_status run \<in> {W_completed, W_cancelled, W_failed, W_ambiguous} then ret run
       else seq (end_run en rid W_cancelled ''cancelled by operator'' id) (load_run rid))"

definition resolved_receipt :: json where
  "resolved_receipt = JObj [(''resolved'', JStr ''operator_continue''), (''outcome_unknown'', JBool True)]"

definition resolve_row :: "string \<Rightarrow> step_row \<Rightarrow> step_row" where
  "resolve_row now r = (if sr_status r = W_ambiguous
     then r\<lparr>sr_status := W_completed, sr_receipt := Some resolved_receipt, sr_error := None, sr_finished := Some now\<rparr> else r)"

definition continue_run :: "('w, 'z) engine_scheme \<Rightarrow> string \<Rightarrow> nat \<Rightarrow> ('w, unit) flow" where
  "continue_run en rid i = bind (list_steps rid) (\<lambda>rows.
       seq (if (case row_at rows i of None \<Rightarrow> False | Some r \<Rightarrow> sr_status r = W_ambiguous)
            then bind (ask_w (en_utcnow en)) (\<lambda>t. change_step rid i (resolve_row t)) else ret ())
           (touch_run en rid (\<lambda>r. r\<lparr>wr_status := W_running, wr_current := wr_current r + 1, wr_error := None\<rparr>)))"

definition resolve_ambiguous ::
  "nat \<Rightarrow> ('w, 'z) engine_scheme \<Rightarrow> string \<Rightarrow> exec_ctx \<Rightarrow> string \<Rightarrow> ('w, run_row option) flow" where
  "resolve_ambiguous fuel en rid ctx choice = bind (load_owned rid (actor_id ctx)) (\<lambda>run.
       if wr_status run \<noteq> W_ambiguous then raise_exc (OtherExc ''WorkflowStateError'')
       else if choice \<notin> {''continue'', ''abort''} then raise_exc (OtherExc ''WorkflowStateError'')
       else if choice = ''abort''
       then seq (end_run en rid W_cancelled ''ambiguous outcome aborted by operator'' id) (bind (load_run rid) (\<lambda>r. ret (Some r)))
       else seq (continue_run en rid (wr_current run)) (advance fuel en rid (scoped run ctx) (\<lambda>_. True)))"

section \<open>The operator\<close>

definition ctx_for_run :: "run_row \<Rightarrow> exec_ctx" where
  "ctx_for_run run = (plain_ctx (wr_actor run))\<lparr>execution_scope := wr_scope run\<rparr>"

text \<open>\<open>audit\<close> writes the operator's audit row, in the world; it may raise.\<close>

definition admin_resolve_ambiguous ::
  "nat \<Rightarrow> ('w, 'z) engine_scheme \<Rightarrow> (action \<Rightarrow> exec_ctx \<Rightarrow> string \<Rightarrow> ('w, unit) comp) \<Rightarrow> string \<Rightarrow> exec_ctx \<Rightarrow> string \<Rightarrow> string
     \<Rightarrow> ('w, run_row option) flow" where
  "admin_resolve_ambiguous fuel en audit rid admin choice reason = bind (load_run rid) (\<lambda>run.
       if wr_status run \<noteq> W_ambiguous then raise_exc (OtherExc ''WorkflowStateError'')
       else seq (outside (audit \<lparr>action_type = ''workflow.operator.resolve'',
                                 a_params = [(''run_id'', JStr rid), (''decision'', JStr choice)]\<rparr> admin reason))
                (resolve_ambiguous fuel en rid (ctx_for_run run) choice))"

definition admin_cancel ::
  "('w, 'z) engine_scheme \<Rightarrow> (action \<Rightarrow> exec_ctx \<Rightarrow> string \<Rightarrow> ('w, unit) comp) \<Rightarrow> string \<Rightarrow> exec_ctx \<Rightarrow> string
     \<Rightarrow> ('w, run_row) flow" where
  "admin_cancel en audit rid admin reason = bind (load_run rid) (\<lambda>run.
       seq (outside (audit \<lparr>action_type = ''workflow.operator.cancel'', a_params = [(''run_id'', JStr rid)]\<rparr> admin reason))
           (cancel_run en rid (ctx_for_run run)))"

text \<open>\<open>approval\<close> is the execution service's, which lets the operator approve for the actor.\<close>

definition admin_approve ::
  "(action \<Rightarrow> exec_ctx \<Rightarrow> string \<Rightarrow> ('w, unit) comp) \<Rightarrow> (string \<Rightarrow> action \<Rightarrow> exec_ctx \<Rightarrow> bool \<Rightarrow> ('w, response) comp)
     \<Rightarrow> string \<Rightarrow> exec_ctx \<Rightarrow> action \<Rightarrow> string \<Rightarrow> ('w, response) flow" where
  "admin_approve audit approval cid admin act reason =
     seq (outside (audit \<lparr>action_type = ''workflow.operator.approve'', a_params = [(''confirmation_id'', JStr cid)]\<rparr> admin reason))
         (outside (approval cid act admin True))"

section \<open>Reading runs\<close>

definition read_run :: "string \<Rightarrow> exec_ctx \<Rightarrow> ('w, run_row \<times> step_row list) flow" where
  "read_run rid ctx = bind (load_owned rid (actor_id ctx)) (\<lambda>run. bind (list_steps rid) (\<lambda>rows. ret (run, rows)))"

text \<open>The runs of an actor, newest first, at most 50.\<close>

definition runs_by_actor :: "string \<Rightarrow> run_row list \<Rightarrow> run_row list" where
  "runs_by_actor actor t = take 50 (rev (sort_key wr_created (filter (\<lambda>r. wr_actor r = actor) t)))"

definition list_awaiting_runs :: "nat \<Rightarrow> run_row list \<Rightarrow> run_row list" where
  "list_awaiting_runs limit t = take limit (rev (sort_key wr_updated (filter (\<lambda>r. wr_status r \<in> {W_waiting, W_ambiguous}) t)))"

record run_filter =
  rf_actor :: "string option"
  rf_status :: "wf_status option"
  rf_workflow :: "string option"
  rf_start :: "string option"
  rf_end :: "string option"

definition passes :: "run_filter \<Rightarrow> run_row \<Rightarrow> bool" where
  "passes f r = ((case rf_actor f of None \<Rightarrow> True | Some a \<Rightarrow> wr_actor r = a)
     \<and> (case rf_status f of None \<Rightarrow> True | Some st \<Rightarrow> wr_status r = st)
     \<and> (case rf_workflow f of None \<Rightarrow> True | Some w \<Rightarrow> wr_workflow r = w)
     \<and> (case rf_start f of None \<Rightarrow> True | Some t \<Rightarrow> t \<le> wr_created r)
     \<and> (case rf_end f of None \<Rightarrow> True | Some t \<Rightarrow> wr_created r \<le> t))"

definition count_runs :: "run_filter \<Rightarrow> run_row list \<Rightarrow> nat" where
  "count_runs f t = length (filter (passes f) t)"

definition list_runs_filtered :: "run_filter \<Rightarrow> int \<Rightarrow> int \<Rightarrow> run_row list \<Rightarrow> run_row list" where
  "list_runs_filtered f limit offset t =
     take (nat (min (max limit 1) 200)) (drop (nat (max offset 0)) (rev (sort_key wr_created (filter (passes f) t))))"

definition AGGREGATED :: "wf_status list" where
  "AGGREGATED = [W_completed, W_failed, W_ambiguous, W_waiting, W_cancelled, W_running, W_pending]"

text \<open>The counts of \<open>aggregate_runs\<close>, by status, and their total.\<close>

definition aggregate_counts :: "run_filter \<Rightarrow> run_row list \<Rightarrow> (wf_status \<times> nat) list \<times> nat" where
  "aggregate_counts f t =
     (let counts = map (\<lambda>st. (st, count_runs (f\<lparr>rf_status := Some st\<rparr>) t)) AGGREGATED
      in (counts, sum_list (map snd counts)))"

text \<open>Of \<open>run_timeline\<close>, the events of a step; the empty string stands for a time that is missing.\<close>

datatype timeline_event =
    StepStarted string string wf_status
  | StepPaused string string "string option"
  | StepAmbiguous string string "string option"
  | StepFinished string string wf_status

definition event_time :: "step_row \<Rightarrow> string" where
  "event_time r = (if truthy (sr_finished r) then the (sr_finished r)
     else case sr_started r of None \<Rightarrow> [] | Some t \<Rightarrow> t)"

fun event_at :: "timeline_event \<Rightarrow> string" where
  "event_at (StepStarted t _ _) = t"
| "event_at (StepPaused t _ _) = t"
| "event_at (StepAmbiguous t _ _) = t"
| "event_at (StepFinished t _ _) = t"

definition step_events :: "step_row \<Rightarrow> timeline_event list" where
  "step_events r =
     (if truthy (sr_started r) then [StepStarted (the (sr_started r)) (sr_step_id r) (sr_status r)] else [])
     @ (if sr_status r = W_waiting then [StepPaused (event_time r) (sr_step_id r) (sr_confirmation r)] else [])
     @ (if sr_status r = W_ambiguous then [StepAmbiguous (event_time r) (sr_step_id r) (sr_error_code r)] else [])
     @ (if sr_status r \<in> {W_completed, W_failed, W_skipped, W_skipped_conditional}
        then [StepFinished (event_time r) (sr_step_id r) (sr_status r)] else [])"

definition timeline :: "step_row list \<Rightarrow> timeline_event list" where
  "timeline rows = take 200 (sort_key event_at (concat (map step_events rows)))"

definition run_timeline :: "string \<Rightarrow> exec_ctx \<Rightarrow> bool \<Rightarrow> ('w, timeline_event list) flow" where
  "run_timeline rid ctx admin = bind (load_run rid) (\<lambda>run.
       if \<not> admin \<and> wr_actor run \<noteq> actor_id ctx then raise_exc (OtherExc ''WorkflowStateError'')
       else bind (list_steps rid) (\<lambda>rows. ret (timeline rows)))"

end
