(* ===== verification/Workflow_Progress.thy ===== *)
theory Workflow_Progress
  imports Workflow_Service
begin

text \<open>
  What the operations of the workflow engine may do to the store: the relations \<open>quiet\<close> (only the run's
  own row, the counters and the world), \<open>row_change\<close> (one step row besides) and \<open>progress\<close> (step rows
  move forward, and leave \<open>pending\<close> only when their dependencies are settled), and which of them every
  function of the engine obeys.
\<close>

section \<open>The table of runs\<close>

lemma run_get_update:
  "run_get (run_update r t) i = (if i = wr_id r \<and> run_get t i \<noteq> None then Some r else run_get t i)"
  unfolding run_get_def run_update_def by (induction t) auto

interpretation runs: keyed_table wr_id run_get run_create run_update
proof
  show "wr_id r = i" if "run_get t i = Some r" for t i r
    using that by (auto simp: run_get_def find_Some_iff)
  show "run_get t (wr_id r) = None" if "run_create r t = Some t'" for r t t'
    using that by (auto simp: run_create_def split: if_splits)
  show "run_get t' i = (if i = wr_id r then Some r else run_get t i)" if "run_create r t = Some t'" for r t t' i
    using that by (auto simp: run_create_def run_get_def find_app split: if_splits option.splits)
  show "run_get (run_update r t) i = (if i = wr_id r \<and> run_get t i \<noteq> None then Some r else run_get t i)" for r t i
    by (rule run_get_update)
qed

text \<open>What never changes in a run's row, and what most of the engine does not do: complete the run.\<close>

definition same_ident :: "run_row \<Rightarrow> run_row \<Rightarrow> bool" where
  "same_ident r r' = (wr_id r' = wr_id r \<and> wr_actor r' = wr_actor r \<and> wr_token r' = wr_token r
     \<and> wr_checksum r' = wr_checksum r \<and> wr_workflow r' = wr_workflow r \<and> wr_template r' = wr_template r
     \<and> wr_template_version r' = wr_template_version r \<and> wr_params r' = wr_params r \<and> wr_scope r' = wr_scope r)"

definition same_run :: "run_row \<Rightarrow> run_row \<Rightarrow> bool" where
  "same_run r r' = (same_ident r r' \<and> (wr_status r' = W_completed \<longrightarrow> wr_status r = W_completed))"

lemma same_run_refl [simp]: "same_run r r" and same_ident_refl [simp]: "same_ident r r"
  by (simp_all add: same_run_def same_ident_def)

lemma same_ident_trans: "same_ident a b \<Longrightarrow> same_ident b c \<Longrightarrow> same_ident a c"
  by (simp add: same_ident_def)

lemma same_run_trans: "same_run a b \<Longrightarrow> same_run b c \<Longrightarrow> same_run a c"
  by (auto simp: same_run_def intro: same_ident_trans)

section \<open>Quiet computations\<close>

definition runs_kept :: "string \<Rightarrow> 'w wf_store \<Rightarrow> 'w wf_store \<Rightarrow> bool" where
  "runs_kept rid s s' = (ws_catalog s' = ws_catalog s
     \<and> (\<forall>i. i \<noteq> rid \<longrightarrow> run_get (ws_runs s') i = run_get (ws_runs s) i \<and> ws_steps s' i = ws_steps s i)
     \<and> rel_option same_run (run_get (ws_runs s) rid) (run_get (ws_runs s') rid))"

definition quiet :: "string \<Rightarrow> 'w wf_store \<Rightarrow> 'w wf_store \<Rightarrow> bool" where
  "quiet rid s s' = (runs_kept rid s s' \<and> ws_steps s' rid = ws_steps s rid)"

lemma runs_kept_refl [simp]: "runs_kept rid s s"
  by (simp add: runs_kept_def option.rel_refl)

lemma rel_same_run_trans:
  "rel_option same_run a b \<Longrightarrow> rel_option same_run b c \<Longrightarrow> rel_option same_run a c"
  by (cases a; cases b; cases c) (auto intro: same_run_trans)

lemma runs_kept_trans: "runs_kept rid a b \<Longrightarrow> runs_kept rid b c \<Longrightarrow> runs_kept rid a c"
  by (auto simp: runs_kept_def intro: rel_same_run_trans)

lemma quiet_refl [simp]: "quiet rid s s"
  by (simp add: quiet_def)

lemma quiet_trans: "quiet rid a b \<Longrightarrow> quiet rid b c \<Longrightarrow> quiet rid a c"
  by (auto simp: quiet_def intro: runs_kept_trans)

definition silent :: "string \<Rightarrow> ('w, 'a) flow \<Rightarrow> bool" where
  "silent rid m = (\<forall>s r s'. m s = (r, s') \<longrightarrow> quiet rid s s')"

lemma silentD: "silent rid m \<Longrightarrow> m s = (r, s') \<Longrightarrow> quiet rid s s'"
  by (simp add: silent_def)

named_theorems silent

lemma silent_ret [silent]: "silent rid (ret x)"
  and silent_raise [silent]: "silent rid (raise_exc e)"
  and silent_get [silent]: "silent rid (get_s f)"
  by (simp_all add: silent_def get_s_def)

lemma silent_world: "(\<And>s r s'. m s = (r, s') \<Longrightarrow> \<exists>w. s' = s\<lparr>ws_world := w\<rparr>) \<Longrightarrow> silent rid m"
  by (force simp: silent_def quiet_def runs_kept_def option.rel_refl)

lemma silent_ask [silent]: "silent rid (ask_w f)"
  and silent_outside [silent]: "silent rid (outside m)"
  by (rule silent_world; auto simp: ask_w_def outside_def split: prod.splits)+

lemma silent_bind [silent]: "silent rid m \<Longrightarrow> (\<And>x. silent rid (f x)) \<Longrightarrow> silent rid (bind m f)"
  unfolding silent_def bind_def by (fastforce split: prod.splits sum.splits intro: quiet_trans)

lemma silent_seq [silent]: "silent rid m \<Longrightarrow> silent rid k \<Longrightarrow> silent rid (seq m k)"
  unfolding seq_def by (rule silent_bind)

lemma silent_if [silent]: "silent rid a \<Longrightarrow> silent rid b \<Longrightarrow> silent rid (if c then a else b)"
  and silent_option [silent]: "silent rid n \<Longrightarrow> (\<And>x. silent rid (f x)) \<Longrightarrow> silent rid (case ox of None \<Rightarrow> n | Some x \<Rightarrow> f x)"
  and silent_sum [silent]: "(\<And>x. silent rid (g x)) \<Longrightarrow> (\<And>x. silent rid (h x)) \<Longrightarrow> silent rid (case sx of Inl x \<Rightarrow> g x | Inr x \<Rightarrow> h x)"
  by (auto split: option.split sum.split)

lemma silent_change_run [silent]:
  assumes "\<And>r. same_run r (f r)"
  shows "silent rid (change_run rid f)"
proof -
  have "quiet rid s (s\<lparr>ws_runs := run_update (f r) (ws_runs s)\<rparr>)" if r: "run_get (ws_runs s) rid = Some r" for s :: "'a wf_store" and r
  proof -
    have id: "wr_id (f r) = rid" using assms [of r] runs.get_key [OF r] by (simp add: same_run_def same_ident_def)
    show ?thesis using r assms [of r] by (auto simp: quiet_def runs_kept_def run_get_update id)
  qed
  then show ?thesis by (auto simp: silent_def change_run_def put_s_def split: option.splits)
qed

lemma silent_release [silent]: "silent rid (release_governance en rid)"
  by (auto simp: silent_def release_governance_def put_s_def quiet_def runs_kept_def option.rel_refl
      split: if_splits option.splits sum.splits)

lemma silent_end_run [silent]: "st \<noteq> W_completed \<Longrightarrow> silent rid (end_run en rid st msg g)"
  unfolding end_run_def by (intro silent) (simp add: same_run_def same_ident_def)

lemma silent_touch_run [silent]:
  assumes "\<And>r. same_run r (f r)"
  shows "silent rid (touch_run en rid f)"
  unfolding touch_run_def using assms by (intro silent) (simp add: same_run_def same_ident_def)

lemma silent_small [silent]:
  "silent rid (set_run_failed en rid msg)" "silent rid (set_run_budget_failed en rid msg)" "silent rid (set_current en rid i)"
  "silent rid (set_ambiguous en rid)" "silent rid (list_steps i')" "silent rid (load_run i')" "silent rid (load_owned i' a)"
  unfolding set_run_failed_def set_run_budget_failed_def set_current_def set_ambiguous_def list_steps_def load_run_def load_owned_def
  by (intro silent; simp add: same_run_def same_ident_def)+

lemma silent_definition_for_run [silent]: "silent rid (definition_for_run en run)"
  unfolding definition_for_run_def by (auto intro!: silent split: option.split)

lemma silent_step_def_for [silent]: "silent rid (step_def_for en run i)"
  unfolding step_def_for_def by (intro silent)

lemma silent_claim_budget [silent]: "silent rid (claim_budget en i')"
  by (auto simp: silent_def claim_budget_def quiet_def runs_kept_def option.rel_refl split: option.splits sum.splits gov_exc.splits)

lemma silent_guarded_request [silent]: "silent rid (guarded_request en act ctx)"
proof (rule silent_world)
  show "\<exists>w. s' = s\<lparr>ws_world := w\<rparr>" if "guarded_request en act ctx s = (r, s')" for s r s'
    using that by (auto simp: guarded_request_def outside_def split: prod.splits sum.splits if_splits)
qed

lemma silent_dispatch_step [silent]: "silent rid (dispatch_step en run s ctx)"
  unfolding dispatch_step_def with_target_def acquire_target_def by (intro silent)

lemma silent_revalidate [silent]: "silent rid (revalidate en run i ctx)"
  unfolding revalidate_def by (intro silent)

lemma silent_fail_wait [silent]: "silent rid (fail_wait en rid msg)"
  unfolding fail_wait_def by (intro silent)

lemma silent_refresh [silent]: "silent rid (refresh_run_status en rid rows)"
  unfolding refresh_run_status_def Let_def by (intro silent; simp)

lemma silent_classify [silent]: "silent rid (classify en rid i)"
  unfolding classify_def by (intro silent; simp add: same_run_def same_ident_def)

lemma silent_start_clock [silent]: "silent rid (start_clock en run)"
  unfolding start_clock_def by (auto intro!: silent split: option.split list.split)

lemma silent_claim_budgets [silent]: "silent rid (claim_budgets en i' is)"
  by (induction "is") (auto intro!: silent)

lemma silent_set_currents [silent]: "silent rid (set_currents en rid is)"
  by (induction "is") (auto intro!: silent)

section \<open>One row\<close>

text \<open>At most the row of one index changes, in the way \<open>P\<close> says.\<close>

definition row_change :: "string \<Rightarrow> nat \<Rightarrow> (step_row \<Rightarrow> step_row \<Rightarrow> bool) \<Rightarrow> 'w wf_store \<Rightarrow> 'w wf_store \<Rightarrow> bool" where
  "row_change rid i P s s' = (runs_kept rid s s' \<and> (\<exists>f. ws_steps s' rid = change_row i f (ws_steps s rid)
     \<and> (\<forall>r. sr_index r = i \<longrightarrow> sr_index (f r) = i \<and> sr_step_id (f r) = sr_step_id r \<and> P r (f r))))"

lemma change_row_id: "(\<And>r. sr_index r = i \<Longrightarrow> f r = r) \<Longrightarrow> change_row i f rows = rows"
  by (simp add: change_row_def map_idI)

lemma change_row_twice:
  assumes "\<And>r. sr_index r = i \<Longrightarrow> sr_index (f r) = i"
  shows "change_row i g (change_row i f rows) = change_row i (g \<circ> f) rows"
  using assms by (simp add: change_row_def)

lemma quiet_row_change: "quiet rid s s' \<Longrightarrow> (\<And>r. P r r) \<Longrightarrow> row_change rid i P s s'"
  unfolding quiet_def row_change_def by (auto simp: change_row_id intro!: exI [of _ "\<lambda>r. r"])

lemma row_change_quiet: "row_change rid i P a b \<Longrightarrow> quiet rid b c \<Longrightarrow> row_change rid i P a c"
  unfolding quiet_def row_change_def by (metis runs_kept_trans)

lemma quiet_then_row_change: "quiet rid a b \<Longrightarrow> row_change rid i P b c \<Longrightarrow> row_change rid i P a c"
  unfolding quiet_def row_change_def by (metis runs_kept_trans)

lemma row_change_mono: "row_change rid i P a b \<Longrightarrow> (\<And>r r'. P r r' \<Longrightarrow> Q r r') \<Longrightarrow> row_change rid i Q a b"
  unfolding row_change_def by metis

lemma row_change_comp:
  assumes "row_change rid i P a b" and "row_change rid i Q b c" and "\<And>x y z. P x y \<Longrightarrow> Q y z \<Longrightarrow> S x z"
  shows "row_change rid i S a c"
proof -
  obtain f where f: "ws_steps b rid = change_row i f (ws_steps a rid)" "runs_kept rid a b"
      "\<forall>r. sr_index r = i \<longrightarrow> sr_index (f r) = i \<and> sr_step_id (f r) = sr_step_id r \<and> P r (f r)"
    using assms(1) by (auto simp: row_change_def)
  obtain g where g: "ws_steps c rid = change_row i g (ws_steps b rid)" "runs_kept rid b c"
      "\<forall>r. sr_index r = i \<longrightarrow> sr_index (g r) = i \<and> sr_step_id (g r) = sr_step_id r \<and> Q r (g r)"
    using assms(2) by (auto simp: row_change_def)
  have "ws_steps c rid = change_row i (g \<circ> f) (ws_steps a rid)"
    unfolding g(1) f(1) using f(3) by (intro change_row_twice) blast
  moreover have "\<forall>r. sr_index r = i \<longrightarrow> sr_index ((g \<circ> f) r) = i \<and> sr_step_id ((g \<circ> f) r) = sr_step_id r \<and> S r ((g \<circ> f) r)"
    using f(3) g(3) assms(3) by fastforce
  ultimately show ?thesis using runs_kept_trans [OF f(2) g(2)] by (auto simp: row_change_def)
qed

lemma change_step_row:
  assumes "change_step rid i f s = (r, s')"
    and "\<And>x. sr_index (f x) = sr_index x \<and> sr_step_id (f x) = sr_step_id x \<and> P x (f x)"
  shows "r = Inr () \<and> row_change rid i P s s'"
  using assms by (auto simp: change_step_def put_s_def row_change_def runs_kept_def option.rel_refl intro!: exI [of _ f])

text \<open>What becomes of the row of a step that is executed: it is started once more, and it is then neither
  pending nor skipped by its condition.\<close>

definition past :: "wf_status \<Rightarrow> bool" where
  "past st = (st \<notin> {W_pending, W_skipped_conditional, W_cancelled})"

definition started :: "step_row \<Rightarrow> step_row \<Rightarrow> bool" where
  "started r r' = (sr_attempt r' = sr_attempt r + 1 \<and> past (sr_status r'))"

lemma begin_row_sel [simp]:
  "sr_index (begin_row t cd s r) = sr_index r" "sr_step_id (begin_row t cd s r) = sr_step_id r"
  "sr_attempt (begin_row t cd s r) = sr_attempt r + 1" "sr_status (begin_row t cd s r) = W_running"
  by (simp_all add: begin_row_def)

definition run_status_only :: "step_row \<Rightarrow> step_row \<Rightarrow> bool" where
  "run_status_only r r' = (sr_attempt r' = sr_attempt r \<and> past (sr_status r'))"

lemma ask_w_ok: "ask_w f s = (r, s') \<Longrightarrow> \<exists>x. r = Inr x \<and> quiet rid s s'"
  using silentD [OF silent_ask, of f s r s'] by (auto simp: ask_w_def split: prod.splits)

lemma open_step_row:
  assumes "open_step en run s i st = (r, st')" and "row_at (ws_steps st (wr_id run)) i \<noteq> None"
  shows "r = Inr () \<and> row_change (wr_id run) i (\<lambda>x y. sr_attempt y = sr_attempt x + 1 \<and> sr_status y = W_running) st st'"
proof -
  have "ensure_row (wr_id run) s i st = (Inr (), st)"
    using assms(2) by (auto simp: ensure_row_def put_s_def)
  then have "bind (ask_w (en_utcnow en)) (\<lambda>now. bind (get_s (\<lambda>st. wf_get (ws_catalog st) (wr_workflow run)))
      (\<lambda>cd. change_step (wr_id run) i (begin_row now cd s))) st = (r, st')"
    using assms(1) unfolding open_step_def by (elim seqE) auto
  then obtain t st1 where 1: "ask_w (en_utcnow en) st = (Inr t, st1)"
      and 2: "bind (get_s (\<lambda>st. wf_get (ws_catalog st) (wr_workflow run))) (\<lambda>cd. change_step (wr_id run) i (begin_row t cd s)) st1 = (r, st')"
    by (rule bindE) (auto dest: ask_w_ok [of _ _ _ _ "wr_id run"])
  then have "change_step (wr_id run) i (begin_row t (wf_get (ws_catalog st1) (wr_workflow run)) s) st1 = (r, st')"
    by (auto simp: bind_def get_s_def)
  from change_step_row [OF this, of "\<lambda>x y. sr_attempt y = sr_attempt x + 1 \<and> sr_status y = W_running"]
  show ?thesis using ask_w_ok [OF 1, of "wr_id run"] quiet_then_row_change by auto
qed

lemma mark_step_row:
  assumes "mark_step en rid i st receipt ecode msg s = (r, s')" and "past st"
  shows "r = Inr () \<and> row_change rid i run_status_only s s'"
proof -
  obtain t s1 where 1: "ask_w (en_utcnow en) s = (Inr t, s1)"
      and 2: "change_step rid i (\<lambda>r. r\<lparr>sr_status := st, sr_receipt := receipt, sr_error_code := ecode, sr_error := msg,
                              sr_finished := Some t\<rparr>) s1 = (r, s')"
    using assms(1) unfolding mark_step_def by (elim bindE) (auto dest: ask_w_ok [of _ _ _ _ rid])
  from change_step_row [OF 2, of run_status_only] show ?thesis
    using ask_w_ok [OF 1, of rid] quiet_then_row_change assms(2) by (auto simp: run_status_only_def)
qed

lemma response_mark_past: "response_mark s resp = Mark st a b c \<Longrightarrow> past st"
  by (auto simp: response_mark_def Let_def past_def split: if_splits)

lemma apply_mark_row:
  assumes "apply_mark en rid i (outcome_mark en sd res) s = (r, s')"
  shows "r = Inr () \<and> row_change rid i run_status_only s s'"
proof (cases "outcome_mark en sd res")
  case (Mark st a b c)
  then have "past st"
    using response_mark_past by (auto simp: outcome_mark_def past_def split: sum.splits)
  from mark_step_row [OF _ this] show ?thesis using assms by (simp add: apply_mark_def Mark)
next
  case (Hold cid)
  then show ?thesis
    using assms change_step_row [of rid i "\<lambda>r. r\<lparr>sr_status := W_waiting, sr_confirmation := cid\<rparr>" s r s' run_status_only]
    by (simp add: apply_mark_def run_status_only_def past_def)
qed

lemma started_then: "sr_attempt y = sr_attempt x + 1 \<and> sr_status y = W_running \<Longrightarrow> run_status_only y z \<Longrightarrow> started x z"
  by (simp add: run_status_only_def started_def)

lemma execute_step_row:
  assumes "execute_step en run sd i ctx s = (r, s')" and "row_at (ws_steps s (wr_id run)) i \<noteq> None"
  shows "row_change (wr_id run) i started s s'"
proof -
  let ?rid = "wr_id run" and ?O = "\<lambda>x y. sr_attempt y = sr_attempt x + 1 \<and> sr_status y = W_running"
  have opened: "row_change ?rid i started s t" if "row_change ?rid i ?O s t" for t
    using that by (rule row_change_mono) (simp add: started_def past_def)
  obtain s1 where o: "open_step en run sd i s = (Inr (), s1)"
      and rest: "bind (claim_budget en ?rid) (\<lambda>b. case b of
         Some msg \<Rightarrow> seq (set_run_budget_failed en ?rid msg) (mark_step en ?rid i W_failed None (Some ''BUDGET_EXCEEDED'') (Some msg))
       | None \<Rightarrow> bind (dispatch_step en run sd ctx) (\<lambda>r. apply_mark en ?rid i (outcome_mark en sd r))) s1 = (r, s')"
    using assms unfolding execute_step_def by (elim seqE) (auto dest: open_step_row)
  note first = conjunct2 [OF open_step_row [OF o assms(2)]]
  from rest show ?thesis
  proof (cases rule: bindE)
    case (1 e)
    then show ?thesis using opened row_change_quiet [OF first silentD [OF silent_claim_budget]] by blast
  next
    case (2 b s2)
    note claimed = row_change_quiet [OF first silentD [OF silent_claim_budget 2(1)]]
    show ?thesis
    proof (cases b)
      case None
      with 2(2) have "bind (dispatch_step en run sd ctx) (\<lambda>r. apply_mark en ?rid i (outcome_mark en sd r)) s2 = (r, s')" by simp
      then show ?thesis
      proof (cases rule: bindE)
        case (1 e)
        then show ?thesis using opened row_change_quiet [OF claimed silentD [OF silent_dispatch_step]] by blast
      next
        case (2 res s3)
        from row_change_quiet [OF claimed silentD [OF silent_dispatch_step 2(1)]] conjunct2 [OF apply_mark_row [OF 2(2)]]
        show ?thesis by (rule row_change_comp) (rule started_then)
      qed
    next
      case (Some msg)
      with 2(2) have "seq (set_run_budget_failed en ?rid msg)
          (mark_step en ?rid i W_failed None (Some ''BUDGET_EXCEEDED'') (Some msg)) s2 = (r, s')" by simp
      then show ?thesis
      proof (cases rule: seqE)
        case (1 e)
        then show ?thesis using opened row_change_quiet [OF claimed silentD [OF silent_small(2)]] by blast
      next
        case (2 x s3)
        have "past W_failed" by (simp add: past_def)
        from row_change_quiet [OF claimed silentD [OF silent_small(2) 2(1)]] conjunct2 [OF mark_step_row [OF 2(2) this]]
        show ?thesis by (rule row_change_comp) (rule started_then)
      qed
    qed
  qed
qed

text \<open>A waiting step either stays as it is or becomes completed or skipped.\<close>

definition released :: "step_row \<Rightarrow> step_row \<Rightarrow> bool" where
  "released r r' = (sr_attempt r' = sr_attempt r \<and> sr_status r' \<in> {W_completed, W_skipped})"

definition moves_on :: "(py_exc, wait_outcome) result \<Rightarrow> bool" where
  "moves_on r = (r = Inr Next \<or> r = Inr DeniedSkip)"

lemma fail_wait_result: "fail_wait en rid msg s = (r, s') \<Longrightarrow> \<not> moves_on r"
  unfolding fail_wait_def by (elim seqE) (auto simp: moves_on_def)

lemma release_row:
  assumes "bind (ask_w (en_utcnow en)) (\<lambda>t. seq (change_step rid i (f t)) (ret x)) s = (r, s')"
    and "\<And>t y. sr_index (f t y) = sr_index y \<and> sr_step_id (f t y) = sr_step_id y \<and> released y (f t y)"
  shows "r = Inr x \<and> row_change rid i released s s'"
  using assms(1)
proof (cases rule: bindE)
  case (1 e)
  then show ?thesis using ask_w_ok [OF 1(1), of rid] by simp
next
  case (2 t s1)
  from 2(2) obtain u where c: "change_step rid i (f t) s1 = (u, s')" and u: "u = Inr () \<Longrightarrow> r = Inr x"
    by (elim seqE) auto
  have "u = Inr () \<and> row_change rid i released s1 s'"
    by (rule change_step_row [OF c]) (rule assms(2))
  then show ?thesis
    using u ask_w_ok [OF 2(1), of rid] quiet_then_row_change by auto
qed

lemma handle_waiting_row:
  assumes "handle_waiting en run row ctx s = (r, s')"
  shows "(moves_on r \<and> row_change (wr_id run) (sr_index row) released s s') \<or> (\<not> moves_on r \<and> quiet (wr_id run) s s')"
proof -
  let ?goal = "\<lambda>r a b. (moves_on r \<and> row_change (wr_id run) (sr_index row) released a b) \<or> (\<not> moves_on r \<and> quiet (wr_id run) a b)"
  have failing: "?goal x a b" if "fail_wait en (wr_id run) msg a = (x, b)" for msg x a b
    using fail_wait_result [OF that] silentD [OF silent_fail_wait that] by blast
  have after: "?goal x a c" if "quiet (wr_id run) a b" "?goal x b c" for x a b c
    using that quiet_then_row_change quiet_trans by metis
  have raised: "\<not> moves_on (Inl e)" for e by (simp add: moves_on_def)
  have used: "?goal x a b" if "approved_step en run (sr_index row) cid ctx a = (x, b)" for cid x a b
    using that unfolding approved_step_def
  proof (cases rule: bindE)
    case (1 e)
    then show ?thesis using silentD [OF silent_outside] raised by blast
  next
    case (2 outs a1)
    note q = silentD [OF silent_outside 2(1)]
    show ?thesis
    proof (cases "dispatch_outcome outs = Some O_EXECUTED")
      case False
      then show ?thesis using 2(2) after [OF q] failing by (auto split: option.splits)
    next
      case True
      with 2(2) have "bind (revalidate en run (sr_index row) ctx) (\<lambda>ok.
             if \<not> ok then fail_wait en (wr_id run) ''approved step failed post-condition revalidation''
             else bind (ask_w (en_utcnow en)) (\<lambda>t. seq
               (change_step (wr_id run) (sr_index row) (\<lambda>r. r\<lparr>sr_status := W_completed, sr_receipt := Some (approved_receipt cid),
                                                sr_finished := Some t\<rparr>))
               (ret Next))) a1 = (x, b)" by simp
      then have "?goal x a1 b"
      proof (cases rule: bindE)
        case (1 e)
        then show ?thesis using silentD [OF silent_revalidate] raised by blast
      next
        case (2 ok a2)
        note q2 = silentD [OF silent_revalidate 2(1)]
        show ?thesis
        proof (cases ok)
          case False
          then show ?thesis using 2(2) after [OF q2] failing by simp
        next
          case True
          with 2(2) have "bind (ask_w (en_utcnow en)) (\<lambda>t. seq
               (change_step (wr_id run) (sr_index row) (\<lambda>r. r\<lparr>sr_status := W_completed, sr_receipt := Some (approved_receipt cid),
                                                sr_finished := Some t\<rparr>)) (ret Next)) a2 = (x, b)" by simp
          from release_row [OF this] have "moves_on x \<and> row_change (wr_id run) (sr_index row) released a2 b"
            by (simp add: released_def moves_on_def)
          then show ?thesis using after [OF q2] by blast
        qed
      qed
      then show ?thesis using after [OF q] by blast
    qed
  qed
  have denied: "?goal x a b" if "denied_step en run (sr_index row) a = (x, b)" for x a b
    using that unfolding denied_step_def
  proof (cases rule: bindE)
    case (1 e)
    then show ?thesis using silentD [OF silent_step_def_for] raised by blast
  next
    case (2 sd a1)
    note q = silentD [OF silent_step_def_for 2(1)]
    show ?thesis
    proof (cases "case sd of None \<Rightarrow> False | Some s \<Rightarrow> st_on_denied s = ''skip''")
      case False
      then have "x = Inr DeniedStop" "b = a1" using 2(2) by auto
      then show ?thesis using q by (simp add: moves_on_def)
    next
      case True
      with 2(2) have "bind (ask_w (en_utcnow en)) (\<lambda>t. seq
       (change_step (wr_id run) (sr_index row) (\<lambda>r. r\<lparr>sr_status := W_skipped, sr_error := Some ''confirmation denied; step skipped'',
                                        sr_finished := Some t\<rparr>))
       (ret DeniedSkip)) a1 = (x, b)" by simp
      from release_row [OF this] have "moves_on x \<and> row_change (wr_id run) (sr_index row) released a1 b"
        by (simp add: released_def moves_on_def)
      then show ?thesis using after [OF q] by blast
    qed
  qed
  show ?thesis
  proof (cases "truthy (sr_confirmation row)")
    case False
    then show ?thesis using assms failing by (auto simp: handle_waiting_def split: option.splits)
  next
    case True
    then obtain cid where cid: "sr_confirmation row = Some cid" "cid \<noteq> []" by auto
    from assms have "bind (outside (en_confirmation en cid)) (\<lambda>c. case c of
             None \<Rightarrow> fail_wait en (wr_id run) ''confirmation record is missing''
           | Some c \<Rightarrow> (case cf_status c of
               STATUS_PENDING \<Rightarrow> ret StillWaiting
             | STATUS_USED \<Rightarrow> approved_step en run (sr_index row) cid ctx
             | STATUS_DENIED \<Rightarrow> denied_step en run (sr_index row)
             | STATUS_EXPIRED \<Rightarrow> fail_wait en (wr_id run) ''confirmation expired'')) s = (r, s')"
      using cid by (simp add: handle_waiting_def)
    then show ?thesis
    proof (cases rule: bindE)
      case (1 e)
      then show ?thesis using silentD [OF silent_outside] raised by blast
    next
      case (2 c a)
      note q = silentD [OF silent_outside 2(1)]
      have still: "?goal (Inr StillWaiting) a a" by (simp add: moves_on_def)
      show ?thesis
        using 2(2) after [OF q] failing used denied still
        by (cases c; cases "cf_status (the c)") auto
    qed
  qed
qed


section \<open>Rows that move forward\<close>

definition row_evolves :: "step_row \<Rightarrow> step_row \<Rightarrow> bool" where
  "row_evolves r r' = (sr_index r' = sr_index r \<and> sr_step_id r' = sr_step_id r
     \<and> ((sr_attempt r' = sr_attempt r \<and> sr_status r' = sr_status r)
        \<or> (sr_status r = W_pending \<and> sr_attempt r' = sr_attempt r + 1 \<and> past (sr_status r'))
        \<or> (sr_status r = W_pending \<and> sr_attempt r' = sr_attempt r \<and> sr_status r' = W_skipped_conditional)
        \<or> (sr_status r \<in> {W_waiting, W_ambiguous} \<and> sr_attempt r' = sr_attempt r \<and> sr_status r' \<in> {W_completed, W_skipped})))"

lemma row_evolves_refl [simp]: "row_evolves r r"
  by (simp add: row_evolves_def)

lemma row_evolves_trans: "row_evolves a b \<Longrightarrow> row_evolves b c \<Longrightarrow> row_evolves a c"
  unfolding row_evolves_def past_def by (elim conjE disjE; simp; elim disjE; simp)

abbreviation rows_evolve :: "step_row list \<Rightarrow> step_row list \<Rightarrow> bool" where
  "rows_evolve \<equiv> list_all2 row_evolves"

lemma rows_evolve_refl [simp]: "rows_evolve rows rows"
  by (simp add: list_all2_same)

lemma rows_evolve_trans: "rows_evolve a b \<Longrightarrow> rows_evolve b c \<Longrightarrow> rows_evolve a c"
  by (rule list_all2_trans [OF row_evolves_trans])

lemma rows_evolve_row_at: "rows_evolve xs ys \<Longrightarrow> rel_option row_evolves (row_at xs i) (row_at ys i)"
  unfolding row_at_def by (induction rule: list_all2_induct) (auto simp: row_evolves_def)

lemma rows_evolve_index: "rows_evolve xs ys \<Longrightarrow> map sr_index ys = map sr_index xs"
  by (induction rule: list_all2_induct) (auto simp: row_evolves_def)

lemma settled_stays:
  assumes "rows_evolve xs ys" and "dep_settled (status_at xs i)"
  shows "dep_settled (status_at ys i)"
  using assms(2) rows_evolve_row_at [OF assms(1), of i]
  by (cases "row_at xs i"; cases "row_at ys i") (auto simp: status_at_def dep_settled_def row_evolves_def)

lemma deps_ok_mono: "rows_evolve xs ys \<Longrightarrow> deps_ok d xs s \<Longrightarrow> deps_ok d ys s"
  unfolding deps_ok_def by (auto simp: list_all_iff split: option.splits dest: settled_stays)

lemma row_at_change:
  assumes "\<And>r. sr_index r = i \<Longrightarrow> sr_index (f r) = i"
  shows "row_at (change_row i f rows) j = (if j = i then map_option f (row_at rows i) else row_at rows j)"
  unfolding row_at_def change_row_def using assms by (induction rows) auto

lemma change_row_evolves:
  assumes "distinct (map sr_index rows)" and "row_at rows i = Some r" and "row_evolves r (f r)"
  shows "rows_evolve rows (change_row i f rows)"
proof -
  have "x = r" if "x \<in> set rows" "sr_index x = i" for x
    using that assms(1) row_at_Some [OF assms(2)] by (auto simp: distinct_map inj_on_def)
  then have "row_evolves x (if sr_index x = i then f x else x)" if "x \<in> set rows" for x
    using that assms(3) by auto
  then show ?thesis by (simp add: change_row_def list_all2_conv_all_nth)
qed

section \<open>Progress\<close>

text \<open>A row leaves \<open>pending\<close> only when the dependencies of its step are settled.\<close>

definition progress :: "wf_def \<Rightarrow> string \<Rightarrow> 'w wf_store \<Rightarrow> 'w wf_store \<Rightarrow> bool" where
  "progress d rid s s' = (runs_kept rid s s' \<and> rows_evolve (ws_steps s rid) (ws_steps s' rid)
     \<and> (\<forall>i. status_at (ws_steps s rid) i = W_pending \<and> status_at (ws_steps s' rid) i \<noteq> W_pending
            \<longrightarrow> i < length (wd_steps d) \<and> deps_ok d (ws_steps s' rid) (wd_steps d ! i)))"

lemma quiet_progress: "quiet rid s s' \<Longrightarrow> progress d rid s s'"
  by (simp add: quiet_def progress_def)

lemma progress_refl [simp]: "progress d rid s s"
  by (simp add: progress_def)

lemma progress_trans:
  assumes "progress d rid a b" and "progress d rid b c"
  shows "progress d rid a c"
proof -
  have "i < length (wd_steps d) \<and> deps_ok d (ws_steps c rid) (wd_steps d ! i)"
    if "status_at (ws_steps a rid) i = W_pending" "status_at (ws_steps c rid) i \<noteq> W_pending" for i
    using that assms deps_ok_mono [of "ws_steps b rid" "ws_steps c rid" d "wd_steps d ! i"]
    by (cases "status_at (ws_steps b rid) i = W_pending") (auto simp: progress_def)
  then show ?thesis
    using assms runs_kept_trans rows_evolve_trans unfolding progress_def by blast
qed

text \<open>The rows of a run, one for each step, by index.\<close>

definition indexed :: "wf_def \<Rightarrow> step_row list \<Rightarrow> bool" where
  "indexed d rows = (map sr_index rows = [0..<length (wd_steps d)])"

lemma indexed_distinct: "indexed d rows \<Longrightarrow> distinct (map sr_index rows)"
  by (simp add: indexed_def)

lemma indexed_row_at: "indexed d rows \<Longrightarrow> i < length (wd_steps d) \<Longrightarrow> row_at rows i \<noteq> None"
proof -
  assume "indexed d rows" "i < length (wd_steps d)"
  then have "i \<in> sr_index ` set rows" by (simp add: indexed_def flip: set_map)
  then show ?thesis by (auto simp: row_at_def find_None_iff)
qed

lemma progress_indexed: "progress d rid s s' \<Longrightarrow> indexed d (ws_steps s rid) \<Longrightarrow> indexed d (ws_steps s' rid)"
  using rows_evolve_index by (auto simp: progress_def indexed_def)

lemma row_change_status:
  assumes "row_change rid i P s s'" and "j \<noteq> i"
  shows "status_at (ws_steps s' rid) j = status_at (ws_steps s rid) j"
  using assms by (auto simp: row_change_def status_at_def row_at_change)

lemma row_change_progress:
  assumes "row_change rid i P s s'" and ix: "indexed d (ws_steps s rid)" and row: "row_at (ws_steps s rid) i = Some r"
    and step: "\<And>r'. sr_index r' = sr_index r \<Longrightarrow> sr_step_id r' = sr_step_id r \<Longrightarrow> P r r' \<Longrightarrow> row_evolves r r'"
    and deps: "sr_status r = W_pending \<Longrightarrow> i < length (wd_steps d) \<and> deps_ok d (ws_steps s rid) (wd_steps d ! i)"
  shows "progress d rid s s'" and "\<exists>r'. row_at (ws_steps s' rid) i = Some r' \<and> P r r'"
proof -
  obtain f where f: "ws_steps s' rid = change_row i f (ws_steps s rid)" "runs_kept rid s s'"
      "\<forall>r. sr_index r = i \<longrightarrow> sr_index (f r) = i \<and> sr_step_id (f r) = sr_step_id r \<and> P r (f r)"
    using assms(1) by (auto simp: row_change_def)
  have r: "sr_index r = i" using row_at_Some [OF row] by simp
  have ev: "rows_evolve (ws_steps s rid) (ws_steps s' rid)"
    unfolding f(1) using f(3) r step by (intro change_row_evolves [OF indexed_distinct [OF ix] row]) simp
  show "\<exists>r'. row_at (ws_steps s' rid) i = Some r' \<and> P r r'"
    using f(3) r row by (simp add: f(1) row_at_change)
  have "j < length (wd_steps d) \<and> deps_ok d (ws_steps s' rid) (wd_steps d ! j)"
    if "status_at (ws_steps s rid) j = W_pending" "status_at (ws_steps s' rid) j \<noteq> W_pending" for j
  proof (cases "j = i")
    case True
    then show ?thesis using that(1) deps deps_ok_mono [OF ev] row by (simp add: status_at_def)
  next
    case False
    then show ?thesis using that row_change_status [OF assms(1) False] by simp
  qed
  then show "progress d rid s s'" using f(2) ev by (simp add: progress_def)
qed

section \<open>A measure of what is left to do\<close>

definition weight :: "wf_status \<Rightarrow> nat" where
  "weight st = (if st = W_pending then 2 else if st = W_waiting then 1 else 0)"

definition rows_weight :: "step_row list \<Rightarrow> nat" where
  "rows_weight rows = sum_list (map (weight \<circ> sr_status) rows)"

lemma row_evolves_weight: "row_evolves r r' \<Longrightarrow> weight (sr_status r') \<le> weight (sr_status r)"
  by (auto simp: row_evolves_def weight_def past_def)

lemma rows_evolve_weight: "rows_evolve xs ys \<Longrightarrow> rows_weight ys \<le> rows_weight xs"
  by (induction rule: list_all2_induct) (auto simp: rows_weight_def dest: row_evolves_weight)

lemma rows_evolve_weight_less:
  assumes "rows_evolve xs ys" and "status_at xs i \<in> {W_pending, W_waiting}" and "row_at xs i \<noteq> None"
    and "status_at ys i \<noteq> status_at xs i"
  shows "rows_weight ys < rows_weight xs"
  using assms
proof (induction rule: list_all2_induct)
  case Nil
  then show ?case by simp
next
  case (Cons x xs y ys)
  have le: "rows_weight ys \<le> rows_weight xs" by (rule rows_evolve_weight [OF Cons(2)])
  have ix: "sr_index y = sr_index x" using Cons(1) by (simp add: row_evolves_def)
  show ?case
  proof (cases "sr_index x = i")
    case True
    then have "weight (sr_status y) < weight (sr_status x)"
      using Cons(1,4,6) ix by (auto simp: status_at_def row_at_def row_evolves_def weight_def past_def)
    then show ?thesis using le by (simp add: rows_weight_def)
  next
    case False
    then have "rows_weight ys < rows_weight xs"
      using Cons ix by (simp add: status_at_def row_at_def)
    then show ?thesis using row_evolves_weight [OF Cons(1)] by (simp add: rows_weight_def)
  qed
qed

end
