(* ===== verification/Workflow_Safety.thy ===== *)
theory Workflow_Safety
  imports Workflow_Progress
begin

text \<open>
  The engine's loop: every pass is progress and, where it goes on, brings the end of the loop nearer.
  From this follow the properties of the operations: steps start at most once and after their
  dependencies, a settled run is final, the loop ends, and a completed run has no step left.
\<close>

section \<open>Batches\<close>

definition startable :: "wf_def \<Rightarrow> step_row list \<Rightarrow> nat \<Rightarrow> bool" where
  "startable d rows i = (i < length (wd_steps d) \<and> status_at rows i = W_pending \<and> deps_ok d rows (wd_steps d ! i))"

lemma ready_startable: "i \<in> set (ready_indices d rows) \<longleftrightarrow> startable d rows i"
  by (simp add: ready_index startable_def)

lemma started_evolves: "sr_status r = W_pending \<Longrightarrow> sr_index r' = sr_index r \<Longrightarrow> sr_step_id r' = sr_step_id r \<Longrightarrow> started r r' \<Longrightarrow> row_evolves r r'"
  by (simp add: started_def row_evolves_def)

lemma startable_row:
  assumes "indexed d rows" and "startable d rows i"
  obtains r where "row_at rows i = Some r" "sr_status r = W_pending" "i < length (wd_steps d)" "deps_ok d rows (wd_steps d ! i)"
  using assms indexed_row_at [OF assms(1), of i] by (auto simp: startable_def status_at_def)

lemma execute_step_progress:
  assumes "execute_step en run (wd_steps d ! i) i ctx s = (r, s')" and ix: "indexed d (ws_steps s (wr_id run))"
    and go: "startable d (ws_steps s (wr_id run)) i"
  shows "progress d (wr_id run) s s'" and "status_at (ws_steps s' (wr_id run)) i \<noteq> W_pending"
    and "j \<noteq> i \<Longrightarrow> startable d (ws_steps s (wr_id run)) j \<Longrightarrow> startable d (ws_steps s' (wr_id run)) j"
proof -
  obtain x where x: "row_at (ws_steps s (wr_id run)) i = Some x" "sr_status x = W_pending" "i < length (wd_steps d)"
      "deps_ok d (ws_steps s (wr_id run)) (wd_steps d ! i)"
    by (rule startable_row [OF ix go])
  have ch: "row_change (wr_id run) i started s s'" by (rule execute_step_row [OF assms(1)]) (simp add: x)
  note pr = row_change_progress [OF ch ix x(1) started_evolves [OF x(2)], OF _ _ _ conjI [OF x(3,4)]]
  show prog: "progress d (wr_id run) s s'" by (rule pr(1))
  obtain y where "row_at (ws_steps s' (wr_id run)) i = Some y" "started x y" using pr(2) by blast
  then show "status_at (ws_steps s' (wr_id run)) i \<noteq> W_pending"
    by (simp add: status_at_def started_def past_def)
  show "startable d (ws_steps s' (wr_id run)) j" if "j \<noteq> i" "startable d (ws_steps s (wr_id run)) j"
  proof -
    have "rows_evolve (ws_steps s (wr_id run)) (ws_steps s' (wr_id run))" using prog by (simp add: progress_def)
    from deps_ok_mono [OF this] show ?thesis
      using that(2) row_change_status [OF ch that(1)] by (simp add: startable_def)
  qed
qed

lemma started_weight:
  assumes "progress d rid s s'" and "indexed d (ws_steps s rid)" and "startable d (ws_steps s rid) i"
    and "status_at (ws_steps s' rid) i \<noteq> W_pending"
  shows "rows_weight (ws_steps s' rid) < rows_weight (ws_steps s rid)"
  using assms indexed_row_at [OF assms(2), of i]
  by (intro rows_evolve_weight_less [of _ _ i]) (auto simp: progress_def startable_def)

lemma progress_weight: "progress d rid s s' \<Longrightarrow> rows_weight (ws_steps s' rid) \<le> rows_weight (ws_steps s rid)"
  by (auto simp: progress_def intro: rows_evolve_weight)

lemma run_members_progress:
  assumes "run_members en run d ctx is s = (r, s')" and "indexed d (ws_steps s (wr_id run))" and "distinct is"
    and "\<forall>i \<in> set is. startable d (ws_steps s (wr_id run)) i"
  shows "progress d (wr_id run) s s' \<and> (is \<noteq> [] \<longrightarrow> rows_weight (ws_steps s' (wr_id run)) < rows_weight (ws_steps s (wr_id run)))"
  using assms
proof (induction "is" arbitrary: s r)
  case Nil
  then show ?case by simp
next
  case (Cons i "is")
  obtain r1 s1 r2 where 1: "execute_step en run (wd_steps d ! i) i ctx s = (r1, s1)"
      and 2: "run_members en run d ctx is s1 = (r2, s')"
    using Cons.prems(1) by (auto split: prod.splits sum.splits)
  have go: "startable d (ws_steps s (wr_id run)) i" using Cons.prems(4) by simp
  note step = execute_step_progress [OF 1 Cons.prems(2) go]
  have "progress d (wr_id run) s1 s' \<and> (is \<noteq> [] \<longrightarrow> rows_weight (ws_steps s' (wr_id run)) < rows_weight (ws_steps s1 (wr_id run)))"
  proof (rule Cons.IH [OF 2 progress_indexed [OF step(1) Cons.prems(2)]])
    show "distinct is" using Cons.prems(3) by simp
    have "j \<noteq> i" if "j \<in> set is" for j using Cons.prems(3) that by auto
    then show "\<forall>j \<in> set is. startable d (ws_steps s1 (wr_id run)) j"
      using Cons.prems(4) step(3) by (meson list.set_intros(2))
  qed
  then show ?case
    using step(1) started_weight [OF step(1) Cons.prems(2) go step(2)] progress_trans progress_weight [of d "wr_id run" s1 s']
    by fastforce
qed

section \<open>Waiting rows\<close>

lemma released_evolves: "sr_status r = W_waiting \<Longrightarrow> sr_index r' = sr_index r \<Longrightarrow> sr_step_id r' = sr_step_id r \<Longrightarrow> released r r' \<Longrightarrow> row_evolves r r'"
  by (simp add: released_def row_evolves_def)

lemma handle_waiting_progress:
  assumes "handle_waiting en run row ctx s = (r, s')" and ix: "indexed d (ws_steps s (wr_id run))"
    and w: "status_at (ws_steps s (wr_id run)) (sr_index row) = W_waiting"
  shows "progress d (wr_id run) s s'" and "moves_on r \<Longrightarrow> rows_weight (ws_steps s' (wr_id run)) < rows_weight (ws_steps s (wr_id run))"
    and "j \<noteq> sr_index row \<Longrightarrow> status_at (ws_steps s' (wr_id run)) j = status_at (ws_steps s (wr_id run)) j"
proof -
  obtain x where x: "row_at (ws_steps s (wr_id run)) (sr_index row) = Some x" "sr_status x = W_waiting"
    using w by (auto simp: status_at_def split: option.splits)
  have "progress d (wr_id run) s s' \<and> (moves_on r \<longrightarrow> rows_weight (ws_steps s' (wr_id run)) < rows_weight (ws_steps s (wr_id run)))
      \<and> (j \<noteq> sr_index row \<longrightarrow> status_at (ws_steps s' (wr_id run)) j = status_at (ws_steps s (wr_id run)) j)"
  proof (cases "moves_on r")
    case True
    then have ch: "row_change (wr_id run) (sr_index row) released s s'" using handle_waiting_row [OF assms(1)] by blast
    note pr = row_change_progress [OF ch ix x(1) released_evolves [OF x(2)]]
    have prog: "progress d (wr_id run) s s'" by (rule pr(1)) (use x in auto)
    obtain y where "row_at (ws_steps s' (wr_id run)) (sr_index row) = Some y" "released x y" using pr(2) x(2) by auto
    then have "status_at (ws_steps s' (wr_id run)) (sr_index row) \<noteq> W_waiting"
      by (auto simp: status_at_def released_def)
    then have "rows_weight (ws_steps s' (wr_id run)) < rows_weight (ws_steps s (wr_id run))"
      using prog w x(1) by (intro rows_evolve_weight_less [of _ _ "sr_index row"]) (auto simp: progress_def)
    then show ?thesis using prog row_change_status [OF ch] by blast
  next
    case False
    then have q: "quiet (wr_id run) s s'" using handle_waiting_row [OF assms(1)] by blast
    then show ?thesis using False quiet_progress [OF q] by (simp add: quiet_def)
  qed
  then show "progress d (wr_id run) s s'" "moves_on r \<Longrightarrow> rows_weight (ws_steps s' (wr_id run)) < rows_weight (ws_steps s (wr_id run))"
    "j \<noteq> sr_index row \<Longrightarrow> status_at (ws_steps s' (wr_id run)) j = status_at (ws_steps s (wr_id run)) j" by blast+
qed

lemma reconcile_progress:
  assumes "reconcile en run ctx ch ws s = (r, s')" and "indexed d (ws_steps s (wr_id run))"
    and "\<forall>row \<in> set ws. status_at (ws_steps s (wr_id run)) (sr_index row) = W_waiting" and "distinct (map sr_index ws)"
  shows "progress d (wr_id run) s s'
     \<and> (r = Inr (Some True) \<longrightarrow> ch \<or> rows_weight (ws_steps s' (wr_id run)) < rows_weight (ws_steps s (wr_id run)))"
  using assms
proof (induction ws arbitrary: ch s)
  case Nil
  then show ?case by auto
next
  case (Cons row ws)
  obtain r1 s1 where 1: "handle_waiting en run row ctx s = (r1, s1)" by (metis surj_pair)
  have w: "status_at (ws_steps s (wr_id run)) (sr_index row) = W_waiting" using Cons.prems(3) by simp
  note step = handle_waiting_progress [OF 1 Cons.prems(2) w]
  note ix = progress_indexed [OF step(1) Cons.prems(2)]
  have rest: "\<forall>x \<in> set ws. status_at (ws_steps s1 (wr_id run)) (sr_index x) = W_waiting" "distinct (map sr_index ws)"
  proof -
    have "sr_index x \<noteq> sr_index row" if "x \<in> set ws" for x using Cons.prems(4) that by (auto simp: image_iff)
    then show "\<forall>x \<in> set ws. status_at (ws_steps s1 (wr_id run)) (sr_index x) = W_waiting"
      using Cons.prems(3) step(3) by (metis list.set_intros(2))
    show "distinct (map sr_index ws)" using Cons.prems(4) by simp
  qed
  have weights: "rows_weight (ws_steps s1 (wr_id run)) \<le> rows_weight (ws_steps s (wr_id run))" by (rule progress_weight [OF step(1)])
  have join: ?case
    if "progress d (wr_id run) s1 s'
     \<and> (r = Inr (Some True) \<longrightarrow> c \<or> rows_weight (ws_steps s' (wr_id run)) < rows_weight (ws_steps s1 (wr_id run)))"
      and "c \<longrightarrow> ch \<or> rows_weight (ws_steps s1 (wr_id run)) < rows_weight (ws_steps s (wr_id run))" for c
  proof
    have p: "progress d (wr_id run) s1 s'" using that(1) by blast
    show "progress d (wr_id run) s s'" by (rule progress_trans [OF step(1) p])
    show "r = Inr (Some True) \<longrightarrow> ch \<or> rows_weight (ws_steps s' (wr_id run)) < rows_weight (ws_steps s (wr_id run))"
      using that weights progress_weight [OF p] by linarith
  qed
  have moved: "moves_on r1 \<longrightarrow> rows_weight (ws_steps s1 (wr_id run)) < rows_weight (ws_steps s (wr_id run))"
    using step(2) by blast
  show ?case
  proof (cases r1)
    case (Inl e)
    then show ?thesis using Cons.prems(1) 1 step(1) by (auto simp: bind_def)
  next
    case (Inr res)
    have "reconcile en run ctx ch (row # ws) s = (case res of
       Next \<Rightarrow> reconcile en run ctx True ws s1
     | DeniedSkip \<Rightarrow> reconcile en run ctx True ws s1
     | StillWaiting \<Rightarrow> reconcile en run ctx ch ws s1
     | WaitFailed \<Rightarrow> ret None s1
     | DeniedStop \<Rightarrow> ret None s1)"
      using 1 Inr by (cases res) (simp_all add: bind_def)
    then have eq: "(case res of
       Next \<Rightarrow> reconcile en run ctx True ws s1
     | DeniedSkip \<Rightarrow> reconcile en run ctx True ws s1
     | StillWaiting \<Rightarrow> reconcile en run ctx ch ws s1
     | WaitFailed \<Rightarrow> ret None s1
     | DeniedStop \<Rightarrow> ret None s1) = (r, s')" using Cons.prems(1) by simp
    show ?thesis
    proof (cases res)
      case Next
      show ?thesis by (rule join [OF Cons.IH [OF _ ix rest, of True]]) (use eq Next moved Inr in \<open>auto simp: moves_on_def\<close>)
    next
      case StillWaiting
      show ?thesis by (rule join [OF Cons.IH [OF _ ix rest, of ch]]) (use eq StillWaiting in auto)
    next
      case DeniedSkip
      show ?thesis by (rule join [OF Cons.IH [OF _ ix rest, of True]]) (use eq DeniedSkip moved Inr in \<open>auto simp: moves_on_def\<close>)
    next
      case DeniedStop
      then show ?thesis using eq step(1) by auto
    next
      case WaitFailed
      then show ?thesis using eq step(1) by auto
    qed
  qed
qed


section \<open>The loop\<close>

lemma load_run_Inr: "load_run rid s = (Inr run, s') \<Longrightarrow> s' = s \<and> run_get (ws_runs s) rid = Some run \<and> wr_id run = rid"
  by (auto simp: load_run_def bind_def get_s_def split: option.splits dest: runs.get_key)

lemma load_owned_Inr:
  "load_owned rid a s = (Inr run, s') \<Longrightarrow> s' = s \<and> run_get (ws_runs s) rid = Some run \<and> wr_id run = rid \<and> wr_actor run = a"
  unfolding load_owned_def by (elim bindE) (auto dest: load_run_Inr split: if_splits)

text \<open>What is proved of a pass that ends in \<open>r\<close>.\<close>

definition advances :: "wf_def \<Rightarrow> string \<Rightarrow> (py_exc, bool) result \<Rightarrow> 'w wf_store \<Rightarrow> 'w wf_store \<Rightarrow> bool" where
  "advances d rid r s s' = (progress d rid s s' \<and> (r = Inr False \<longrightarrow> rows_weight (ws_steps s' rid) < rows_weight (ws_steps s rid)))"

lemma quiet_advances: "quiet rid s s' \<Longrightarrow> r \<noteq> Inr False \<Longrightarrow> advances d rid r s s'"
  by (simp add: advances_def quiet_progress)

lemma advances_after: "quiet rid a b \<Longrightarrow> advances d rid r b c \<Longrightarrow> advances d rid r a c"
  unfolding advances_def by (metis quiet_def quiet_progress progress_trans)

lemma seq_ret: "seq m (ret x) s = (r, s') \<Longrightarrow> silent rid m \<Longrightarrow> quiet rid s s' \<and> (r = Inr x \<or> (\<exists>e. r = Inl e))"
  by (elim seqE) (auto dest: silentD)

lemma classify_result:
  assumes "classify en rid i s = (r, s')" shows "quiet rid s s'"
  using assms silentD [OF silent_classify] by blast

lemma run_single_prefix:
  assumes "run_single en rid d rows i ctx allowed s = (r, s')"
  shows "(quiet rid s s' \<and> (\<exists>e. r = Inl e)) \<or> (\<exists>run s1. quiet rid s s1 \<and> wr_id run = rid \<and>
    (let sd = wd_steps d ! i in
     if \<not> allowed (st_action sd) then seq (set_run_failed en rid (not_allowed_message (st_action sd))) (ret True)
     else if st_condition sd \<noteq> None \<and> evaluate_condition d rows sd = Some False
     then bind (ask_w (en_utcnow en)) (\<lambda>t'. seq
       (change_step rid i (\<lambda>r. r\<lparr>sr_status := W_skipped_conditional, sr_finished := Some t'\<rparr>)) (ret False))
     else seq (execute_step en run sd i ctx) (classify en rid i)) s1 = (r, s'))"
  using assms unfolding run_single_def
proof (cases rule: seqE)
  case (1 e)
  then show ?thesis using silentD [OF silent_small(3)] by blast
next
  case (2 u s1)
  note q1 = silentD [OF silent_small(3) 2(1)]
  from 2(2) show ?thesis
  proof (cases rule: bindE)
    case (1 e)
    then show ?thesis using quiet_trans [OF q1 silentD [OF silent_small(7)]] by blast
  next
    case (2 run s2)
    note run = load_owned_Inr [OF 2(1)]
    from 2(2) show ?thesis
    proof (cases rule: bindE)
      case (1 e)
      then show ?thesis using quiet_trans [OF q1 silentD [OF silent_start_clock]] run by blast
    next
      case (2 t s3)
      note q3 = quiet_trans [OF q1 silentD [OF silent_start_clock]]
      have kept: "\<And>r. same_run r (r\<lparr>wr_status := W_running, wr_started := Some t\<rparr>)" by (simp add: same_run_def same_ident_def)
      from 2(2) show ?thesis
      proof (cases rule: seqE)
        case (1 e)
        then show ?thesis
          using quiet_trans [OF q3 silentD [OF silent_change_run [OF kept]]] 2(1) run by blast
      next
        case (2 v s4)
        then show ?thesis
          using quiet_trans [OF q3 silentD [OF silent_change_run [OF kept]]] \<open>start_clock en run s2 = (Inr t, s3)\<close> run by blast
      qed
    qed
  qed
qed

lemma run_single_advances:
  assumes "run_single en rid d rows i ctx allowed s = (r, s')" and ix: "indexed d (ws_steps s rid)"
    and go: "startable d (ws_steps s rid) i"
  shows "advances d rid r s s'"
proof -
  let ?sd = "wd_steps d ! i"
  consider (stop) e where "quiet rid s s'" "r = Inl e"
    | (body) run s1 where "quiet rid s s1" "wr_id run = rid" "(let sd = ?sd in
     if \<not> allowed (st_action sd) then seq (set_run_failed en rid (not_allowed_message (st_action sd))) (ret True)
     else if st_condition sd \<noteq> None \<and> evaluate_condition d rows sd = Some False
     then bind (ask_w (en_utcnow en)) (\<lambda>t'. seq
       (change_step rid i (\<lambda>r. r\<lparr>sr_status := W_skipped_conditional, sr_finished := Some t'\<rparr>)) (ret False))
     else seq (execute_step en run sd i ctx) (classify en rid i)) s1 = (r, s')"
    using run_single_prefix [OF assms(1)] by blast
  then show ?thesis
  proof cases
    case stop
    then show ?thesis by (simp add: quiet_advances)
  next
    case body
    have ix1: "indexed d (ws_steps s1 rid)" and go1: "startable d (ws_steps s1 rid) i"
      using body(1) ix go by (simp_all add: quiet_def)
    have "advances d rid r s1 s'"
    proof (cases "allowed (st_action ?sd)")
      case False
      then have "seq (set_run_failed en rid (not_allowed_message (st_action ?sd))) (ret True) s1 = (r, s')"
        using body(3) by simp
      from seq_ret [OF this silent_small(1)] show ?thesis by (auto intro: quiet_advances)
    next
      case True
      show ?thesis
      proof (cases "st_condition ?sd \<noteq> None \<and> evaluate_condition d rows ?sd = Some False")
        case skip: True
        then have b: "bind (ask_w (en_utcnow en)) (\<lambda>t'. seq
            (change_step rid i (\<lambda>r. r\<lparr>sr_status := W_skipped_conditional, sr_finished := Some t'\<rparr>)) (ret False)) s1 = (r, s')"
          using body(3) True by simp
        then obtain t' s2 u where 2: "ask_w (en_utcnow en) s1 = (Inr t', s2)"
            "change_step rid i (\<lambda>r. r\<lparr>sr_status := W_skipped_conditional, sr_finished := Some t'\<rparr>) s2 = (u, s')"
          by (elim bindE seqE) (auto dest: ask_w_ok [of _ _ _ _ rid])
        let ?P = "\<lambda>x y. sr_attempt y = sr_attempt x \<and> sr_status y = W_skipped_conditional"
        have ch: "row_change rid i ?P s1 s'"
          using change_step_row [OF 2(2), of ?P] ask_w_ok [OF 2(1), of rid] quiet_then_row_change by auto
        obtain x where x: "row_at (ws_steps s1 rid) i = Some x" "sr_status x = W_pending" "i < length (wd_steps d)"
            "deps_ok d (ws_steps s1 rid) ?sd" by (rule startable_row [OF ix1 go1])
        have ev: "row_evolves x y" if "sr_index y = sr_index x" "sr_step_id y = sr_step_id x" "?P x y" for y
          using that x(2) by (simp add: row_evolves_def)
        note pr = row_change_progress [OF ch ix1 x(1) ev, OF _ _ _ conjI [OF x(3,4)]]
        obtain y where "row_at (ws_steps s' rid) i = Some y" "?P x y" using pr(2) by blast
        then have "status_at (ws_steps s' rid) i \<noteq> W_pending" by (simp add: status_at_def)
        moreover have prog: "progress d rid s1 s'" by (rule pr(1))
        ultimately show ?thesis using started_weight [OF prog ix1 go1] by (simp add: advances_def)
      next
        case False
        then have "seq (execute_step en run ?sd i ctx) (classify en rid i) s1 = (r, s')"
          using body(3) True by (auto simp: Let_def simp del: not_None_eq split: if_splits)
        then show ?thesis
        proof (cases rule: seqE)
          case (1 e)
          then show ?thesis
            using execute_step_progress(1) [OF 1(1), unfolded body(2), OF ix1 go1] by (simp add: advances_def)
        next
          case (2 v s2)
          note ex = execute_step_progress [OF 2(1), unfolded body(2), OF ix1 go1]
          have q: "quiet rid s2 s'" by (rule classify_result [OF 2(2)])
          have "status_at (ws_steps s' rid) i \<noteq> W_pending" using ex(2) q by (simp add: quiet_def)
          moreover have "progress d rid s1 s'" by (rule progress_trans [OF ex(1) quiet_progress [OF q]])
          ultimately show ?thesis using started_weight [OF _ ix1 go1] by (simp add: advances_def)
        qed
      qed
    qed
    then show ?thesis by (rule advances_after [OF body(1)])
  qed
qed


text \<open>A completed run: every step is completed or skipped, or failed without an error code, which is what a
  step denied by policy in a parallel batch is.\<close>

definition all_done :: "wf_def \<Rightarrow> step_row list \<Rightarrow> bool" where
  "all_done d rows = (\<forall>i < length (wd_steps d). \<exists>r. row_at rows i = Some r
     \<and> (dep_settled (sr_status r) \<or> sr_status r = W_cancelled \<or> (sr_status r = W_failed \<and> \<not> truthy (sr_error_code r))))"

definition completing :: "wf_def \<Rightarrow> string \<Rightarrow> 'w wf_store \<Rightarrow> 'w wf_store \<Rightarrow> bool" where
  "completing d rid s s' = (all_done d (ws_steps s rid) \<and> ws_steps s' = ws_steps s \<and> ws_catalog s' = ws_catalog s
     \<and> (\<forall>i. i \<noteq> rid \<longrightarrow> run_get (ws_runs s') i = run_get (ws_runs s) i)
     \<and> rel_option same_ident (run_get (ws_runs s) rid) (run_get (ws_runs s') rid))"

lemma refresh_False:
  assumes "refresh_run_status en rid rows s = (Inr False, s')"
  shows "s' = s" and "\<forall>r \<in> set rows. sr_status r \<noteq> W_ambiguous"
    and "(\<exists>r \<in> set rows. sr_status r = W_pending) \<or> (\<forall>r \<in> set rows. sr_status r = W_failed \<longrightarrow> \<not> truthy (sr_error_code r))"
proof -
  let ?failed = "filter (\<lambda>r. sr_status r = W_failed \<and> truthy (sr_error_code r)) rows"
  have no: "\<not> (\<exists>r \<in> set rows. sr_status r = W_ambiguous)" "\<not> (?failed \<noteq> [] \<and> \<not> (\<exists>r \<in> set rows. sr_status r = W_pending))"
    using assms unfolding refresh_run_status_def Let_def by (auto simp: seq_Inr_iff split: if_splits)
  then show "s' = s" using assms unfolding refresh_run_status_def Let_def by (simp split: if_splits)
  show "\<forall>r \<in> set rows. sr_status r \<noteq> W_ambiguous" using no(1) by blast
  show "(\<exists>r \<in> set rows. sr_status r = W_pending) \<or> (\<forall>r \<in> set rows. sr_status r = W_failed \<longrightarrow> \<not> truthy (sr_error_code r))"
    using no(2) by (auto simp: filter_empty_conv)
qed

lemma complete_run_effect:
  assumes "complete_run en rid n s = (r, s')" and "all_done d (ws_steps s rid)"
  shows "r = Inr () \<and> completing d rid s s'"
proof -
  obtain t1 w1 t2 w2 where w: "en_utcnow en (ws_world s) = (t1, w1)" "en_utcnow en w1 = (t2, w2)"
    by (metis surj_pair)
  let ?f = "\<lambda>r. r\<lparr>wr_status := W_completed, wr_current := n, wr_error := None, wr_finished := Some t1, wr_updated := t2\<rparr>"
  have "change_run rid ?f (s\<lparr>ws_world := w2\<rparr>) = (Inr (), s1) \<Longrightarrow>
      ws_steps s1 = ws_steps s \<and> ws_catalog s1 = ws_catalog s \<and> (\<forall>i. i \<noteq> rid \<longrightarrow> run_get (ws_runs s1) i = run_get (ws_runs s) i)
      \<and> rel_option same_ident (run_get (ws_runs s) rid) (run_get (ws_runs s1) rid)" for s1
    using runs.get_key [of "ws_runs s" rid]
    by (cases "run_get (ws_runs s) rid") (auto simp: change_run_def put_s_def run_get_update same_ident_def)
  then show ?thesis
    using assms by (auto simp: complete_run_def bind_def seq_def ask_w_def w change_run_def put_s_def release_governance_def
        ret_def completing_def split: if_splits option.splits sum.splits)
qed


text \<open>The engine never claims step budgets in vain: there is no governance, or no parallel batch.\<close>

definition calm :: "('w, 'z) engine_scheme \<Rightarrow> bool" where
  "calm en = (en_governance en = None \<or> en_max_pending en = 1)"

lemma claim_budgets_None: "en_governance en = None \<Longrightarrow> claim_budgets en rid is s = (Inr None, s)"
  by (induction "is" arbitrary: s) (auto simp: claim_budget_def bind_def ret_def)

lemma run_parallel_advances:
  assumes "run_parallel en rid d batch ctx s = (r, s')" and "indexed d (ws_steps s rid)" and "distinct batch" and "batch \<noteq> []"
    and "\<forall>i \<in> set batch. startable d (ws_steps s rid) i"
  shows "progress d rid s s'" and "en_governance en = None \<Longrightarrow> r = Inr () \<Longrightarrow> rows_weight (ws_steps s' rid) < rows_weight (ws_steps s rid)"
proof -
  let ?goal = "\<lambda>a. progress d rid a s' \<and> (en_governance en = None \<and> r = Inr () \<longrightarrow> rows_weight (ws_steps s' rid) < rows_weight (ws_steps a rid))"
  have quiet_end: "?goal a" if "quiet rid a s'" "en_governance en \<noteq> None \<or> r \<noteq> Inr ()" for a
    using that quiet_progress by auto
  have after: "?goal a" if "quiet rid a b" "?goal b" for a b
    using that quiet_progress progress_trans by (metis quiet_def)
  from assms(1) have "?goal s"
    unfolding run_parallel_def
  proof (cases rule: bindE)
    case (1 e)
    then show ?thesis using quiet_end [OF silentD [OF silent_claim_budgets 1(1)]] by simp
  next
    case (2 b s1)
    note q1 = silentD [OF silent_claim_budgets 2(1), of rid]
    show ?thesis
    proof (cases b)
      case (Some msg)
      then have "en_governance en \<noteq> None" using 2(1) claim_budgets_None [of en rid batch s] by auto
      moreover have "set_run_budget_failed en rid msg s1 = (r, s')" using 2(2) Some by simp
      ultimately show ?thesis using quiet_end quiet_trans [OF q1 silentD [OF silent_small(2)]] by blast
    next
      case None
      then have "seq (set_currents en rid batch) (bind (load_run rid) (\<lambda>run. run_members en run d ctx batch)) s1 = (r, s')"
        using 2(2) by simp
      then show ?thesis
      proof (cases rule: seqE)
        case (1 e)
        then show ?thesis using quiet_end quiet_trans [OF q1 silentD [OF silent_set_currents 1(1)]] by simp
      next
        case (2 u s2)
        note q2 = quiet_trans [OF q1 silentD [OF silent_set_currents 2(1)]]
        from 2(2) show ?thesis
        proof (cases rule: bindE)
          case (1 e)
          then show ?thesis using quiet_end quiet_trans [OF q2 silentD [OF silent_small(6) 1(1)]] by simp
        next
          case (2 run s3)
          have run: "s3 = s2" "wr_id run = rid" using load_run_Inr [OF 2(1)] by simp_all
          have pre: "indexed d (ws_steps s2 rid)" "\<forall>i \<in> set batch. startable d (ws_steps s2 rid) i"
            using q2 assms(2,5) by (simp_all add: quiet_def)
          from run_members_progress [OF 2(2), unfolded run] pre assms(3,4) have "?goal s2" by blast
          then show ?thesis by (rule after [OF q2])
        qed
      qed
    qed
  qed
  then show "progress d rid s s'" "en_governance en = None \<Longrightarrow> r = Inr () \<Longrightarrow> rows_weight (ws_steps s' rid) < rows_weight (ws_steps s rid)"
    by blast+
qed

lemma run_batch_advances:
  assumes "run_batch en rid d rows batch ctx allowed s = (r, s')" and "indexed d (ws_steps s rid)" and "distinct batch"
    and "\<forall>i \<in> set batch. startable d (ws_steps s rid) i" and "en_max_pending en = 1 \<Longrightarrow> length batch \<le> 1"
  shows "progress d rid s s' \<and> (calm en \<longrightarrow> advances d rid r s s')"
proof -
  consider "batch = []" | i where "batch = [i]" | i j js where "batch = i # j # js" by (metis list.exhaust)
  then show ?thesis
  proof cases
    case 1
    then show ?thesis using assms(1) by (auto simp: run_batch_def advances_def)
  next
    case (2 i)
    then have "run_single en rid d rows i ctx allowed s = (r, s')" using assms(1) by (simp add: run_batch_def)
    from run_single_advances [OF this assms(2)] show ?thesis using 2 assms(4) by (auto simp: advances_def)
  next
    case (3 i j js)
    then have g: "calm en \<Longrightarrow> en_governance en = None" using assms(5) by (auto simp: calm_def)
    have "seq (run_parallel en rid d batch ctx) (bind (list_steps rid) (\<lambda>rows'. refresh_run_status en rid rows')) s = (r, s')"
      using assms(1) 3 by (simp add: run_batch_def)
    then show ?thesis
    proof (cases rule: seqE)
      case (1 e)
      then show ?thesis using run_parallel_advances(1) [OF 1(1) assms(2,3) _ assms(4)] 3 by (simp add: advances_def)
    next
      case (2 u s1)
      have p: "progress d rid s s1" by (rule run_parallel_advances(1) [OF 2(1) assms(2,3) _ assms(4)]) (simp add: 3)
      have less: "rows_weight (ws_steps s1 rid) < rows_weight (ws_steps s rid)" if "calm en"
        by (rule run_parallel_advances(2) [OF 2(1) assms(2,3) _ assms(4) g [OF that]]) (simp_all add: 3)
      have "silent rid (bind (list_steps rid) (\<lambda>rows'. refresh_run_status en rid rows'))" by (intro silent)
      then have q: "quiet rid s1 s'" using silentD 2(2) by blast
      have "progress d rid s s'" by (rule progress_trans [OF p quiet_progress [OF q]])
      then show ?thesis using less q by (auto simp: advances_def quiet_def)
    qed
  qed
qed

definition passes_to :: "('w, 'z) engine_scheme \<Rightarrow> wf_def \<Rightarrow> string \<Rightarrow> (py_exc, bool) result \<Rightarrow> 'w wf_store \<Rightarrow> 'w wf_store \<Rightarrow> bool" where
  "passes_to en d rid r s s' = ((progress d rid s s' \<and> (calm en \<longrightarrow> advances d rid r s s')) \<or> (r = Inr True \<and> completing d rid s s'))"

lemma passes_after: "quiet rid a b \<Longrightarrow> passes_to en d rid r b c \<Longrightarrow> passes_to en d rid r a c"
proof -
  assume q: "quiet rid a b" and p: "passes_to en d rid r b c"
  from p consider "progress d rid b c" "calm en \<longrightarrow> advances d rid r b c" | "r = Inr True" "completing d rid b c"
    by (auto simp: passes_to_def)
  then show ?thesis
  proof cases
    case 1
    then show ?thesis using progress_trans [OF quiet_progress [OF q]] advances_after [OF q] by (auto simp: passes_to_def)
  next
    case 2
    have "same_run x y \<Longrightarrow> same_ident x y" for x y by (simp add: same_run_def)
    then have "rel_option same_ident (run_get (ws_runs a) rid) (run_get (ws_runs b) rid)"
      using q by (auto simp: quiet_def runs_kept_def elim!: option.rel_mono_strong)
    moreover have "rel_option same_ident (run_get (ws_runs b) rid) (run_get (ws_runs c) rid)"
      using 2(2) by (simp add: completing_def)
    ultimately have "rel_option same_ident (run_get (ws_runs a) rid) (run_get (ws_runs c) rid)"
      by (cases "run_get (ws_runs a) rid"; cases "run_get (ws_runs b) rid"; cases "run_get (ws_runs c) rid")
        (auto intro: same_ident_trans)
    then show ?thesis using 2 q by (auto simp: passes_to_def completing_def quiet_def runs_kept_def)
  qed
qed

lemma passes_quiet: "quiet rid s s' \<Longrightarrow> r \<noteq> Inr False \<Longrightarrow> passes_to en d rid r s s'"
  by (simp add: passes_to_def quiet_progress quiet_advances)

lemma choose_batch_one: "length (choose_batch 1 d ready) \<le> 1"
  using default_bound_is_sequential [of ready d] by (cases "ready = []") (auto simp: choose_batch_def)

lemma terminal_done:
  assumes "all_terminal d rows" and "indexed d rows"
    and "\<forall>r \<in> set rows. sr_status r \<noteq> W_ambiguous"
    and "(\<exists>r \<in> set rows. sr_status r = W_pending) \<or> (\<forall>r \<in> set rows. sr_status r = W_failed \<longrightarrow> \<not> truthy (sr_error_code r))"
  shows "all_done d rows"
proof -
  have there: "\<exists>r. row_at rows i = Some r \<and> terminal_step (sr_status r)" if "i < length (wd_steps d)" for i
    using assms(1) that by (cases "row_at rows i") (auto simp: all_terminal_def list_all_iff dest!: bspec [of _ _ i])
  have "\<not> (\<exists>r \<in> set rows. sr_status r = W_pending)"
  proof
    assume "\<exists>r \<in> set rows. sr_status r = W_pending"
    then obtain r where r: "r \<in> set rows" "sr_status r = W_pending" by blast
    have "sr_index r \<in> set (map sr_index rows)" using r(1) by simp
    then have lt: "sr_index r < length (wd_steps d)" using assms(2) unfolding indexed_def by simp
    then obtain x where x: "row_at rows (sr_index r) = Some x" "terminal_step (sr_status x)" using there by blast
    then have "x = r" using row_at_Some [OF x(1)] r(1) indexed_distinct [OF assms(2)] by (auto simp: distinct_map inj_on_def)
    then show False using x(2) r(2) by (simp add: terminal_step_def)
  qed
  then have failed: "\<forall>r \<in> set rows. sr_status r = W_failed \<longrightarrow> \<not> truthy (sr_error_code r)" using assms(4) by blast
  show ?thesis
    unfolding all_done_def
  proof (intro allI impI)
    fix i assume "i < length (wd_steps d)"
    then obtain r where r: "row_at rows i = Some r" "terminal_step (sr_status r)" using there by blast
    then have "r \<in> set rows" using row_at_Some by blast
    then show "\<exists>r. row_at rows i = Some r \<and> (dep_settled (sr_status r) \<or> sr_status r = W_cancelled
        \<or> (sr_status r = W_failed \<and> \<not> truthy (sr_error_code r)))"
      using r failed assms(3) by (auto simp: terminal_step_def dep_settled_def)
  qed
qed


lemma waiting_rows:
  assumes "indexed d rows"
  shows "\<forall>row \<in> set (filter (\<lambda>r. sr_status r = W_waiting) rows). status_at rows (sr_index row) = W_waiting"
    and "distinct (map sr_index (filter (\<lambda>r. sr_status r = W_waiting) rows))"
proof -
  note dist = indexed_distinct [OF assms]
  show "distinct (map sr_index (filter (\<lambda>r. sr_status r = W_waiting) rows))" using dist by (rule distinct_map_filter)
  have "status_at rows (sr_index row) = W_waiting" if row: "row \<in> set rows" "sr_status row = W_waiting" for row
  proof -
    have "row_at rows (sr_index row) \<noteq> None" using row(1) by (auto simp: row_at_def find_None_iff)
    then obtain x where x: "row_at rows (sr_index row) = Some x" by auto
    then have "x = row" using row_at_Some [OF x] row(1) dist by (auto simp: distinct_map inj_on_def)
    then show ?thesis using x row(2) by (simp add: status_at_def)
  qed
  then show "\<forall>row \<in> set (filter (\<lambda>r. sr_status r = W_waiting) rows). status_at rows (sr_index row) = W_waiting" by auto
qed

lemma waiting_pass:
  assumes "bind (load_run rid) (\<lambda>run. bind (reconcile en run ctx False (filter (\<lambda>r. sr_status r = W_waiting) (ws_steps s rid))) (\<lambda>m. case m of
             None \<Rightarrow> ret True
           | Some True \<Rightarrow> ret False
           | Some False \<Rightarrow> seq (touch_run en rid (\<lambda>r. r\<lparr>wr_status := W_waiting\<rparr>)) (ret True))) s = (r, s')"
    and ix: "indexed d (ws_steps s rid)"
  shows "passes_to en d rid r s s'"
  using assms(1)
proof (cases rule: bindE)
  case (1 e)
  show ?thesis unfolding 1(2) by (rule passes_quiet [OF silentD [OF silent_small(6) 1(1)]]) simp
next
  case (2 run s1)
  have run: "s1 = s" "wr_id run = rid" using load_run_Inr [OF 2(1)] by simp_all
  note rec = reconcile_progress [of en run ctx False "filter (\<lambda>r. sr_status r = W_waiting) (ws_steps s rid)" s _ _ d,
      unfolded run(2), OF _ ix waiting_rows [OF ix]]
  from 2(2) [unfolded run(1)] show ?thesis
  proof (cases rule: bindE)
    case (1 e)
    then show ?thesis using rec [OF 1(1)] by (simp add: passes_to_def advances_def)
  next
    case (2 m s2)
    note p = rec [OF 2(1)]
    consider "m = None" | "m = Some True" | "m = Some False" by (cases m) auto
    then show ?thesis
    proof cases
      case 1
      then show ?thesis using 2(2) p by (auto simp: passes_to_def advances_def)
    next
      case 2
      then show ?thesis using \<open>(case m of None \<Rightarrow> ret True | Some True \<Rightarrow> ret False | Some False \<Rightarrow> _) s2 = (r, s')\<close> p
        by (auto simp: passes_to_def advances_def)
    next
      case 3
      then have sq: "seq (touch_run en rid (\<lambda>r. r\<lparr>wr_status := W_waiting\<rparr>)) (ret True) s2 = (r, s')" using 2(2) by simp
      have "silent rid (touch_run en rid (\<lambda>r. r\<lparr>wr_status := W_waiting\<rparr>))" for en :: "('a, 'b) engine_scheme"
        by (intro silent) (simp add: same_run_def same_ident_def)
      from seq_ret [OF sq this] have "quiet rid s2 s'" "r \<noteq> Inr False" by auto
      then show ?thesis using p progress_trans [OF _ quiet_progress] by (auto simp: passes_to_def advances_def)
    qed
  qed
qed

lemma loop_body_passes:
  assumes "loop_body en rid d deadl ctx allowed s = (r, s')" and ix: "indexed d (ws_steps s rid)"
  shows "passes_to en d rid r s s'"
  using assms(1) unfolding loop_body_def
proof (cases rule: bindE)
  case (1 e)
  show ?thesis unfolding 1(2) by (rule passes_quiet [OF silentD [OF silent_ask 1(1)]]) simp
next
  case (2 t s1)
  note q1 = silentD [OF silent_ask 2(1), of rid]
  have ix1: "indexed d (ws_steps s1 rid)" using q1 ix by (simp add: quiet_def)
  let ?rows = "ws_steps s1 rid"
  have "passes_to en d rid r s1 s'"
  proof (cases "deadl < t")
    case True
    then have "seq (set_run_failed en rid ''workflow wall-clock budget exceeded'') (ret True) s1 = (r, s')" using 2(2) by simp
    from seq_ret [OF this silent_small(1)] show ?thesis by (auto intro: passes_quiet)
  next
    case False
    then have body: "(if filter (\<lambda>r. sr_status r = W_waiting) ?rows \<noteq> []
         then bind (load_run rid) (\<lambda>run. bind (reconcile en run ctx False (filter (\<lambda>r. sr_status r = W_waiting) ?rows)) (\<lambda>m. case m of
             None \<Rightarrow> ret True
           | Some True \<Rightarrow> ret False
           | Some False \<Rightarrow> seq (touch_run en rid (\<lambda>r. r\<lparr>wr_status := W_waiting\<rparr>)) (ret True)))
         else bind (refresh_run_status en rid ?rows) (\<lambda>settled.
           if settled then ret True
           else if ready_indices d ?rows = [] then
             (if all_terminal d ?rows
              then seq (complete_run en rid (length (wd_steps d))) (ret True) else ret True)
           else run_batch en rid d ?rows (choose_batch (en_max_pending en) d (ready_indices d ?rows)) ctx allowed)) s1 = (r, s')"
      using 2(2) by (simp add: bind_def list_steps_def get_s_def)
    show ?thesis
    proof (cases "filter (\<lambda>r. sr_status r = W_waiting) ?rows = []")
      case False
      then show ?thesis using waiting_pass [OF _ ix1] body by simp
    next
      case True
      with body have "bind (refresh_run_status en rid ?rows) (\<lambda>settled.
           if settled then ret True
           else if ready_indices d ?rows = [] then
             (if all_terminal d ?rows
              then seq (complete_run en rid (length (wd_steps d))) (ret True) else ret True)
           else run_batch en rid d ?rows (choose_batch (en_max_pending en) d (ready_indices d ?rows)) ctx allowed) s1 = (r, s')"
        by simp
      then show ?thesis
      proof (cases rule: bindE)
        case (1 e)
        show ?thesis unfolding 1(2) by (rule passes_quiet [OF silentD [OF silent_refresh 1(1)]]) simp
      next
        case (2 settled s2)
        show ?thesis
        proof (cases settled)
          case True
          then have "r = Inr True" "s' = s2" using 2(2) by auto
          then show ?thesis by (simp add: passes_quiet [OF silentD [OF silent_refresh 2(1)]])
        next
          case False
          have "refresh_run_status en rid ?rows s1 = (Inr False, s2)" using 2(1) False by simp
          note ref = refresh_False [OF this]
          show ?thesis
          proof (cases "ready_indices d ?rows = []")
            case none: True
            show ?thesis
            proof (cases "all_terminal d ?rows")
              case True
              have sq: "seq (complete_run en rid (length (wd_steps d))) (ret True) s1 = (r, s')"
                using 2(2) False none ref(1) by (simp only: if_False if_True simp_thms if_P [OF True])
              have "all_done d ?rows" by (rule terminal_done [OF True ix1 ref(2,3)])
              from complete_run_effect [OF _ this] sq show ?thesis
                by (elim seqE) (auto simp: passes_to_def)
            next
              case unfinished: False
              then have "r = Inr True" "s' = s1" using 2(2) False none ref(1)
                by (simp_all only: if_False if_True simp_thms if_not_P [OF unfinished] ret_Inr_iff)
              then show ?thesis by (simp add: passes_quiet)
            qed
          next
            case some: False
            let ?batch = "choose_batch (en_max_pending en) d (ready_indices d ?rows)"
            have run: "run_batch en rid d ?rows ?batch ctx allowed s1 = (r, s')"
              using 2(2) False some ref(1) by (simp only: if_False simp_thms)
            have "distinct ?batch" by (rule choose_batch_distinct [OF distinct_ready])
            moreover have "\<forall>i \<in> set ?batch. startable d ?rows i"
              using choose_batch_subset [of "en_max_pending en" d "ready_indices d ?rows"] ready_startable by blast
            moreover have "en_max_pending en = 1 \<Longrightarrow> length ?batch \<le> 1" using choose_batch_one by simp
            ultimately show ?thesis using run_batch_advances [OF run ix1] by (simp add: passes_to_def)
          qed
        qed
      qed
    qed
  qed
  then show ?thesis by (rule passes_after [OF q1])
qed

text \<open>The loop as a whole.\<close>

definition loop_result :: "wf_def \<Rightarrow> string \<Rightarrow> (py_exc, bool) result \<Rightarrow> 'w wf_store \<Rightarrow> 'w wf_store \<Rightarrow> bool" where
  "loop_result d rid r s s' = (progress d rid s s' \<or> (r = Inr True \<and> (\<exists>s0. progress d rid s s0 \<and> completing d rid s0 s')))"

lemma engine_loop_result:
  assumes "engine_loop n en rid d deadl ctx allowed s = (r, s')" and "indexed d (ws_steps s rid)"
  shows "loop_result d rid r s s'" and "calm en \<Longrightarrow> rows_weight (ws_steps s rid) < n \<Longrightarrow> r \<noteq> Inr False"
proof -
  have "loop_result d rid r s s' \<and> (calm en \<and> rows_weight (ws_steps s rid) < n \<longrightarrow> r \<noteq> Inr False)"
    using assms
  proof (induction n arbitrary: s)
    case 0
    then show ?case by (auto simp: loop_result_def)
  next
    case (Suc n)
    from Suc.prems(1) [unfolded engine_loop.simps] show ?case
    proof (cases rule: bindE)
      case (1 e)
      then show ?thesis using loop_body_passes [OF 1(1) Suc.prems(2)] by (auto simp: loop_result_def passes_to_def)
    next
      case (2 fin s1)
      note p = loop_body_passes [OF 2(1) Suc.prems(2)]
      show ?thesis
      proof (cases fin)
        case True
        then have "r = Inr True" "s' = s1" using 2(2) by auto
        then show ?thesis using p True by (auto simp: loop_result_def passes_to_def intro: progress_refl)
      next
        case False
        then have go: "progress d rid s s1" "calm en \<Longrightarrow> rows_weight (ws_steps s1 rid) < rows_weight (ws_steps s rid)"
          using p by (auto simp: passes_to_def advances_def)
        have "engine_loop n en rid d deadl ctx allowed s1 = (r, s')" using 2(2) False by simp
        from Suc.IH [OF this progress_indexed [OF go(1) Suc.prems(2)]]
        have ih: "loop_result d rid r s1 s'" "calm en \<and> rows_weight (ws_steps s1 rid) < n \<longrightarrow> r \<noteq> Inr False" by blast+
        have "loop_result d rid r s s'" using ih(1) progress_trans [OF go(1)] by (auto simp: loop_result_def)
        then show ?thesis using ih(2) go(2) by linarith
      qed
    qed
  qed
  then show "loop_result d rid r s s'" "calm en \<Longrightarrow> rows_weight (ws_steps s rid) < n \<Longrightarrow> r \<noteq> Inr False" by blast+
qed

end
