(* ===== verification/Small_Workflow.thy ===== *)
theory Small_Workflow
  imports Workflow_Service
begin

text \<open>
  A small workflow service, on which the engine is evaluated: clocks that stand still, an execution
  service that executes everything at once, and a workflow of two steps, the second of which depends on
  the first.
\<close>

definition small_step :: "string \<Rightarrow> string list \<Rightarrow> wf_step" where
  "small_step sid deps = \<lparr>st_id = sid, st_action = ''browser.inspect'', st_params = [], st_target = None, st_expect = None,
     st_on_denied = ''stop'', st_description = None, st_outputs = [], st_depends_on = deps, st_condition = None\<rparr>"

definition small_def :: wf_def where
  "small_def = \<lparr>wd_name = ''look twice'', wd_version = 1, wd_description = None, wd_params_schema = [],
     wd_steps = [small_step ''first'' [], small_step ''second'' [''first'']], wd_parallel = []\<rparr>"

definition small_engine :: "unit engine" where
  "small_engine = \<lparr>en_sha = (\<lambda>_. ''k''), en_frepr = (\<lambda>_. ''1.5''), en_utcnow = Pair ''t'', en_uuid = Pair ''r'',
     en_monotonic = Pair 0, en_timestamp = Pair 0,
     en_request = (\<lambda>act ctx. Pair (Inr ((mk_response St_executed ALLOW)\<lparr>rs_result :=
        Some \<lparr>ar_success = True, ar_summary = ''seen'', ar_data = [(''url'', JStr ''u'')]\<rparr>\<rparr>))),
     en_confirmation = (\<lambda>_. Pair (Inr None)), en_outcomes = (\<lambda>_. Pair (Inr [])), en_templates = None,
     en_actions = [], en_str = (\<lambda>_. []), en_text = (\<lambda>_. []), en_fatal = (\<lambda>_. False), en_max_steps = 4,
     en_max_wallclock = 60, en_max_pending = 1, en_governance = None\<rparr>"

definition small_ctx :: exec_ctx where
  "small_ctx = \<lparr>actor_id = ''ann'', session_id = None, execution_scope = None, cred_refs = [], deadline = None\<rparr>"

definition small_args :: start_args where
  "small_args = \<lparr>sa_params = [], sa_token = ''token'', sa_template = None, sa_template_version = None,
     sa_scheduled = False, sa_schedule = None, sa_source = None\<rparr>"

definition small_catalog :: wf_catalog where
  "small_catalog = \<lparr>wc_max_steps = 4, wc_definitions = [(''look twice'', small_def)]\<rparr>"

definition empty_store :: "unit wf_store" where
  "empty_store = \<lparr>ws_catalog = small_catalog, ws_runs = [], ws_steps = (\<lambda>_. []), ws_counters = [], ws_world = ()\<rparr>"

section \<open>Evaluation\<close>

lemmas flow_run = bind_run seq_run ret_def raise_exc_def get_s_def put_s_def ask_w_def lift_res_def outside_def

lemma small_engine_sel [simp]:
  "en_sha small_engine = (\<lambda>_. ''k'')" "en_utcnow small_engine w = (''t'', w)" "en_uuid small_engine w = (''r'', w)"
  "en_monotonic small_engine w = (0, w)"
  "en_request small_engine act ctx w = (Inr ((mk_response St_executed ALLOW)\<lparr>rs_result :=
        Some \<lparr>ar_success = True, ar_summary = ''seen'', ar_data = [(''url'', JStr ''u'')]\<rparr>\<rparr>), w)"
  "en_templates small_engine = None" "en_max_pending small_engine = 1" "en_governance small_engine = None"
  "en_max_wallclock small_engine = 60"
  by (simp_all add: small_engine_def)

definition small_run :: run_row where
  "small_run = (new_run small_engine small_args small_def ''ann'' ''token'' ''t'' ''r'' ''r'')\<lparr>wr_scope := Some ''workflow:r''\<rparr>"

definition small_store :: "run_row \<Rightarrow> step_row list \<Rightarrow> unit wf_store" where
  "small_store run rows = \<lparr>ws_catalog = small_catalog, ws_runs = [run], ws_steps = (\<lambda>_. [])(''r'' := rows),
     ws_counters = [], ws_world = ()\<rparr>"

lemma start_small: "start_run n small_engine (ByName ''look twice'') small_args small_ctx (\<lambda>_. True) empty_store
   = advance n small_engine ''r'' (small_ctx\<lparr>execution_scope := Some ''workflow:r''\<rparr>) (\<lambda>_. True) (small_store small_run (first_rows small_def))"
proof -
  have "strip (sa_token small_args) = ''token''" by code_simp
  then show ?thesis
  by (simp add: start_run_def resolve_definition_def empty_store_def small_catalog_def wf_get_def flow_run check_roles_def
     start_token_def run_by_token_def admit_def admitted_run_def run_scope_def small_ctx_def insert_run_def run_create_def
     run_get_def small_store_def first_rows_def small_run_def new_run_def
     small_args_def
     cong: bind_weak_cong seq_weak_cong)
qed

definition seen_row :: "nat \<Rightarrow> step_row" where
  "seen_row i = (first_row small_def i)\<lparr>sr_status := W_completed, sr_attempt := 1,
     sr_receipt := Some (JObj [(''url'', JStr ''u'')]), sr_started := Some ''t'', sr_finished := Some ''t''\<rparr>"

definition rows_1 :: "step_row list" where "rows_1 = [seen_row 0, first_row small_def 1]"
definition rows_2 :: "step_row list" where "rows_2 = [seen_row 0, seen_row 1]"

lemma small_run_sel [simp]: "wr_actor small_run = ''ann''" "wr_workflow small_run = ''look twice''" "wr_checksum small_run = ''k''"
  "wr_id small_run = ''r''" "wr_started small_run = Some ''t''" "wr_template small_run = None" "wr_token small_run = ''token''"
  "wr_status small_run = W_pending"
  by (simp_all add: small_run_def new_run_def small_def_def checksum_def small_args_def)

lemma small_get [simp]: "wr_id run = ''r'' \<Longrightarrow> run_get (ws_runs (small_store run rows)) ''r'' = Some run"
  "ws_steps (small_store run rows) ''r'' = rows" "ws_world (small_store run rows) = ()"
  "(small_store run rows)\<lparr>ws_world := w\<rparr> = small_store run rows"
  "wf_get (ws_catalog (small_store run rows)) ''look twice'' = Some small_def"
  by (simp_all add: small_store_def run_get_def wf_get_def small_catalog_def)

lemma small_change [simp]:
  "wr_id run = ''r'' \<Longrightarrow> wr_id (f run) = ''r'' \<Longrightarrow> change_run ''r'' f (small_store run rows) = (Inr (), small_store (f run) rows)"
  "change_step ''r'' i g (small_store run rows) = (Inr (), small_store run (change_row i g rows))"
  by (simp_all add: change_run_def change_step_def put_s_def small_store_def run_get_def run_update_def)

abbreviation "small_scoped \<equiv> small_ctx\<lparr>execution_scope := Some ''workflow:r''\<rparr>"

definition seen :: response where
  "seen = (mk_response St_executed ALLOW)\<lparr>rs_result := Some \<lparr>ar_success = True, ar_summary = ''seen'', ar_data = [(''url'', JStr ''u'')]\<rparr>\<rparr>"

lemma small_step_sel [simp]: "st_id (small_step sid deps) = sid" "st_action (small_step sid deps) = ''browser.inspect''"
  "st_params (small_step sid deps) = []" "st_target (small_step sid deps) = None" "st_expect (small_step sid deps) = None"
  "st_outputs (small_step sid deps) = []" "st_depends_on (small_step sid deps) = deps" "st_condition (small_step sid deps) = None"
  by (simp_all add: small_step_def)

lemma small_step_dispatch: "dispatch_step small_engine run (small_step sid deps) ctx s = (Inr (Inr seen), s)"
proof -
  have r: "render_workflow_params (en_frepr small_engine) (small_step sid deps) (run_params run) False = Inr []"
    by (simp add: render_workflow_params_def render_params_def small_step_sel)
  have e: "with_expect small_engine run (small_step sid deps) [] = Inr []"
    by (simp add: with_expect_def render_step_expect_def small_step_sel)
  show ?thesis
    by (simp add: dispatch_step_def r e with_target_def flow_run guarded_request_def seen_def small_step_sel
        cong: bind_weak_cong seq_weak_cong)
qed

lemma small_mark: "outcome_mark small_engine (small_step sid deps) (Inr seen) = Mark W_completed (Some (JObj [(''url'', JStr ''u'')])) None None"
proof -
  have "sanitize_receipt (JObj [(''url'', JStr ''u'')]) = JObj [(''url'', JStr ''u'')]" by code_simp
  then show ?thesis by (simp add: outcome_mark_def response_mark_def seen_def mk_response_def small_step_sel)
qed

lemma small_open: "row_at rows i = Some r0 \<Longrightarrow> wr_id run' = ''r'' \<Longrightarrow> wr_id run = ''r'' \<Longrightarrow> wr_workflow run = ''look twice'' \<Longrightarrow>
  open_step small_engine run st i (small_store run' rows) = (Inr (), small_store run' (change_row i (begin_row ''t'' (Some small_def) st) rows))"
  by (simp add: open_step_def flow_run ensure_row_def cong: bind_weak_cong seq_weak_cong)

definition executed :: "nat \<Rightarrow> wf_step \<Rightarrow> step_row list \<Rightarrow> step_row list" where
  "executed i st rows = change_row i (\<lambda>r. r\<lparr>sr_status := W_completed, sr_receipt := Some (JObj [(''url'', JStr ''u'')]),
     sr_error_code := None, sr_error := None, sr_finished := Some ''t''\<rparr>) (change_row i (begin_row ''t'' (Some small_def) st) rows)"

lemma small_execute:
  assumes "row_at rows i = Some r0" and "wr_id run = ''r''" and "wr_workflow run = ''look twice''" and "wr_id run' = ''r''"
  shows "execute_step small_engine run (small_step sid deps) i ctx (small_store run' rows)
    = (Inr (), small_store run' (executed i (small_step sid deps) rows))"
  using assms
  by (simp add: execute_step_def small_open small_step_dispatch small_mark flow_run claim_budget_def apply_mark_def mark_step_def
     executed_def cong: bind_weak_cong seq_weak_cong)

lemma small_pass:
  assumes run: "wr_id run = ''r''" "wr_actor run = ''ann''" "wr_workflow run = ''look twice''" "wr_started run = Some ''t''"
    and rows: "filter (\<lambda>r. sr_status r = W_waiting) rows = []" "filter (\<lambda>r. sr_status r = W_failed \<and> truthy (sr_error_code r)) rows = []"
      "\<not> (\<exists>r \<in> set rows. sr_status r = W_ambiguous)"
      "ready_indices small_def rows = [i]" "row_at rows i = Some r0"
      "row_at (executed i (small_step sid deps) rows) i = Some r1" "sr_status r1 = W_completed"
    and st: "wd_steps small_def ! i = small_step sid deps"
  shows "loop_body small_engine ''r'' small_def 60 small_scoped (\<lambda>_. True) (small_store run rows)
    = (Inr False, small_store (run\<lparr>wr_updated := ''t'', wr_status := W_running, wr_started := Some ''t'',
         wr_current := next_index (executed i (small_step sid deps) rows)\<rparr>) (executed i (small_step sid deps) rows))"
proof -
  have 3: "choose_batch 1 small_def [i] = [i]"
    by (simp add: choose_batch_def small_def_def)
  show ?thesis
  using assms
  by (simp add: loop_body_def flow_run refresh_run_status_def list_steps_def 3 run_batch_def set_current_def touch_run_def load_owned_def load_run_def start_clock_def classify_def small_ctx_def run_single_def small_execute [OF rows(5)] cong: bind_weak_cong seq_weak_cong)
qed

lemma pass_1: "loop_body small_engine ''r'' small_def 60 small_scoped (\<lambda>_. True) (small_store small_run (first_rows small_def))
    = (Inr False, small_store (small_run\<lparr>wr_updated := ''t'', wr_status := W_running, wr_started := Some ''t'', wr_current := 1\<rparr>) rows_1)"
proof -
  have "next_index rows_1 = 1" by code_simp
  moreover have "executed 0 (small_step ''first'' []) (first_rows small_def) = rows_1" by code_simp
  moreover have "ready_indices small_def (first_rows small_def) = [0]" by code_simp
  moreover have "run_params small_run = []" by code_simp
  ultimately show ?thesis
    by (subst small_pass [where i = 0 and sid = "''first''" and deps = "[]" and ?r0.0 = "first_row small_def 0" and ?r1.0 = "seen_row 0"])
      (simp_all add: rows_1_def row_at_def first_rows_def first_row_def Let_def new_row_def small_def_def seen_row_def)
qed

lemma pass_2:
  assumes "wr_id run = ''r''" "wr_actor run = ''ann''" "wr_workflow run = ''look twice''" "wr_started run = Some ''t''"
  shows "loop_body small_engine ''r'' small_def 60 small_scoped (\<lambda>_. True) (small_store run rows_1)
    = (Inr False, small_store (run\<lparr>wr_updated := ''t'', wr_status := W_running, wr_started := Some ''t'', wr_current := 2\<rparr>) rows_2)"
proof -
  have "next_index rows_2 = 2" by code_simp
  moreover have "executed 1 (small_step ''second'' [''first'']) rows_1 = rows_2" by code_simp
  moreover have "ready_indices small_def rows_1 = [1]" by code_simp
  ultimately show ?thesis
    using assms
    by (subst small_pass [where i = 1 and sid = "''second''" and deps = "[''first'']" and ?r0.0 = "first_row small_def 1" and ?r1.0 = "seen_row 1"])
      (simp_all add: rows_1_def rows_2_def row_at_def first_row_def Let_def new_row_def small_def_def seen_row_def)
qed

lemma pass_3:
  assumes "wr_id run = ''r''"
  shows "loop_body small_engine ''r'' small_def 60 small_scoped (\<lambda>_. True) (small_store run rows_2)
    = (Inr True, small_store (run\<lparr>wr_status := W_completed, wr_current := 2, wr_error := None, wr_finished := Some ''t'',
         wr_updated := ''t''\<rparr>) rows_2)"
proof -
  have "ready_indices small_def rows_2 = []" "all_terminal small_def rows_2" by code_simp+
  moreover have "length (wd_steps small_def) = 2" by (simp add: small_def_def)
  moreover have "filter (\<lambda>r. sr_status r = W_waiting) rows_2 = []"
    "refresh_run_status small_engine ''r'' rows_2 s = (Inr False, s)" for s
    by (simp_all add: rows_2_def seen_row_def refresh_run_status_def ret_def)
  ultimately show ?thesis
    using assms
    by (simp add: loop_body_def flow_run list_steps_def complete_run_def release_governance_def cong: bind_weak_cong seq_weak_cong)
qed

definition seen_run :: run_row where
  "seen_run = small_run\<lparr>wr_started := Some ''t'', wr_status := W_completed, wr_current := 2, wr_error := None,
     wr_finished := Some ''t'', wr_updated := ''t''\<rparr>"

lemma advance_small: "advance n small_engine ''r'' small_scoped (\<lambda>_. True) (small_store small_run (first_rows small_def))
   = (case engine_loop n small_engine ''r'' small_def 60 small_scoped (\<lambda>_. True) (small_store small_run (first_rows small_def)) of
        (Inl e, s) \<Rightarrow> (Inl e, s)
      | (Inr b, s) \<Rightarrow> (if b then bind (load_run ''r'') (\<lambda>r. ret (Some r)) else ret None) s)"
  by (simp add: advance_def flow_run load_owned_def load_run_def definition_for_run_def checksum_def small_ctx_def cong: bind_weak_cong seq_weak_cong)

text \<open>The store when the process ends before the first pass, and when it does not end.\<close>

lemma started_small: "start_run 0 small_engine (ByName ''look twice'') small_args small_ctx (\<lambda>_. True) empty_store
    = (Inr None, small_store small_run (first_rows small_def))"
  by (simp add: start_small advance_small ret_def)

lemma completed_small: "start_run 3 small_engine (ByName ''look twice'') small_args small_ctx (\<lambda>_. True) empty_store
    = (Inr (Some seen_run), small_store seen_run rows_2)"
  by (simp add: start_small advance_small numeral_3_eq_3 pass_1 pass_2 pass_3 flow_run load_run_def seen_run_def cong: bind_weak_cong)

end
