(* ===== verification/Workflow_Runs.thy ===== *)
theory Workflow_Runs
  imports Workflow_Safety Small_Workflow
begin

text \<open>
  The properties of the workflow service over any history of its operations: starts, resumptions,
  cancellations and resolutions by anybody, with anything happening in the world between them, each of
  them possibly cut short by the end of its process.
\<close>

section \<open>The invariant\<close>

definition row_ok :: "step_row \<Rightarrow> bool" where
  "row_ok r = (sr_attempt r = (if sr_status r \<in> {W_pending, W_skipped_conditional} then 0 else 1) \<and> sr_status r \<noteq> W_cancelled)"

definition good_rows :: "wf_def \<Rightarrow> step_row list \<Rightarrow> bool" where
  "good_rows d rows = (indexed d rows \<and> map sr_step_id rows = map st_id (wd_steps d)
     \<and> (\<forall>r \<in> set rows. row_ok r \<and> (sr_status r \<noteq> W_pending \<longrightarrow> deps_ok d rows (wd_steps d ! sr_index r))))"

text \<open>The definitions in play have different checksums, and templates yield no others.\<close>

definition trusted :: "('w, 'z) engine_scheme \<Rightarrow> wf_def set \<Rightarrow> bool" where
  "trusted en W = (inj_on (checksum (en_sha en) (en_frepr en)) W
     \<and> (\<forall>tp. en_templates en = Some tp \<longrightarrow>
          (\<forall>name v w d w'. tp_get tp name v w = (Inr (Some d), w') \<longrightarrow> d \<in> W)
        \<and> (\<forall>name v w d w'. tp_instantiate tp name v w = (Inr d, w') \<longrightarrow> d \<in> W)))"

definition run_ok :: "('w, 'z) engine_scheme \<Rightarrow> wf_def set \<Rightarrow> run_row \<Rightarrow> step_row list \<Rightarrow> bool" where
  "run_ok en W run rows = (\<exists>d \<in> W. checksum (en_sha en) (en_frepr en) d = wr_checksum run
     \<and> ((wr_status run = W_failed \<and> rows = []) \<or> good_rows d rows)
     \<and> (wr_status run = W_completed \<longrightarrow> all_done d rows))"

definition wf_inv :: "('w, 'z) engine_scheme \<Rightarrow> wf_def set \<Rightarrow> 'w wf_store \<Rightarrow> bool" where
  "wf_inv en W s = ((\<forall>rid run. run_get (ws_runs s) rid = Some run \<longrightarrow> run_ok en W run (ws_steps s rid))
     \<and> (\<forall>rid. run_get (ws_runs s) rid = None \<longrightarrow> ws_steps s rid = [])
     \<and> (\<forall>name d. wf_get (ws_catalog s) name = Some d \<longrightarrow> d \<in> W))"

lemma row_evolves_ok: "row_evolves r r' \<Longrightarrow> row_ok r \<Longrightarrow> row_ok r'"
  by (auto simp: row_evolves_def row_ok_def past_def split: if_splits)

lemma good_row:
  assumes "good_rows d rows" and "r \<in> set rows"
  shows "row_at rows (sr_index r) = Some r" and "sr_index r < length (wd_steps d)" and "row_ok r"
    and "sr_status r \<noteq> W_pending \<Longrightarrow> deps_ok d rows (wd_steps d ! sr_index r)"
    and "sr_step_id r = st_id (wd_steps d ! sr_index r)"
proof -
  have ix: "indexed d rows" using assms(1) by (simp add: good_rows_def)
  have "row_at rows (sr_index r) \<noteq> None" using assms(2) by (auto simp: row_at_def find_None_iff)
  then obtain x where x: "row_at rows (sr_index r) = Some x" by auto
  then have "x = r" using row_at_Some [OF x] assms(2) indexed_distinct [OF ix] by (auto simp: distinct_map inj_on_def)
  then show "row_at rows (sr_index r) = Some r" using x by simp
  obtain j where j: "j < length rows" "rows ! j = r" using assms(2) by (auto simp: in_set_conv_nth)
  have len: "length rows = length (wd_steps d)" using ix by (metis indexed_def length_map length_upt minus_nat.diff_0)
  have sj: "sr_index r = j" using ix j len by (metis indexed_def nth_map nth_upt add_0)
  show "sr_index r < length (wd_steps d)" using sj j(1) len by simp
  show "sr_step_id r = st_id (wd_steps d ! sr_index r)"
    using assms(1) j len sj by (metis good_rows_def nth_map)
  show "row_ok r" "sr_status r \<noteq> W_pending \<Longrightarrow> deps_ok d rows (wd_steps d ! sr_index r)"
    using assms by (simp_all add: good_rows_def)
qed

lemma rows_evolve_ids: "rows_evolve xs ys \<Longrightarrow> map sr_step_id ys = map sr_step_id xs"
  by (induction rule: list_all2_induct) (auto simp: row_evolves_def)

lemma rows_evolve_back:
  assumes "rows_evolve xs ys" and "y \<in> set ys"
  obtains x where "x \<in> set xs" "row_evolves x y"
proof -
  obtain i where i: "i < length ys" "y = ys ! i" using assms(2) by (auto simp: in_set_conv_nth)
  then have "xs ! i \<in> set xs" "row_evolves (xs ! i) y" using assms(1) by (simp_all add: list_all2_conv_all_nth)
  then show thesis by (rule that)
qed

lemma good_rows_evolve:
  assumes good: "good_rows d xs" and ev: "rows_evolve xs ys"
    and left: "\<And>i. status_at xs i = W_pending \<Longrightarrow> status_at ys i \<noteq> W_pending \<Longrightarrow> i < length (wd_steps d) \<Longrightarrow> deps_ok d ys (wd_steps d ! i)"
  shows "good_rows d ys"
  unfolding good_rows_def
proof (intro conjI ballI impI)
  show ix: "indexed d ys" using good rows_evolve_index [OF ev] by (simp add: good_rows_def indexed_def)
  show "map sr_step_id ys = map st_id (wd_steps d)" using good rows_evolve_ids [OF ev] by (simp add: good_rows_def)
  fix y assume y: "y \<in> set ys"
  obtain x where x: "x \<in> set xs" "row_evolves x y" by (rule rows_evolve_back [OF ev y])
  show "row_ok y" using row_evolves_ok [OF x(2)] good_row(3) [OF good x(1)] by blast
  assume st: "sr_status y \<noteq> W_pending"
  have eq: "sr_index y = sr_index x" using x(2) by (simp add: row_evolves_def)
  have rx: "row_at xs (sr_index y) = Some x" using good_row(1) [OF good x(1)] eq by simp
  show "deps_ok d ys (wd_steps d ! sr_index y)"
  proof (cases "sr_status x = W_pending")
    case True
    have "row_at ys (sr_index y) \<noteq> None" using y by (auto simp: row_at_def find_None_iff)
    then obtain z where z: "row_at ys (sr_index y) = Some z" by auto
    then have "z = y" using row_at_Some [OF z] y indexed_distinct [OF ix] by (auto simp: distinct_map inj_on_def)
    then show ?thesis using left [of "sr_index y"] z st rx True good_row(2) [OF good x(1)] eq by (simp add: status_at_def)
  next
    case False
    then show ?thesis using good_row(4) [OF good x(1)] deps_ok_mono [OF ev] eq by simp
  qed
qed

lemma progress_good: "progress d rid s s' \<Longrightarrow> good_rows d (ws_steps s rid) \<Longrightarrow> good_rows d (ws_steps s' rid)"
  by (rule good_rows_evolve) (auto simp: progress_def)

lemma first_rows_good: "good_rows d (first_rows d)"
proof -
  have "map sr_index (first_rows d) = [0..<length (wd_steps d)]"
    by (simp add: first_rows_def first_row_def Let_def new_row_def comp_def)
  moreover have "map sr_step_id (first_rows d) = map st_id (wd_steps d)"
    by (rule nth_equalityI) (simp_all add: first_rows_def first_row_def Let_def new_row_def)
  ultimately show ?thesis
    by (auto simp: good_rows_def indexed_def first_rows_def first_row_def Let_def new_row_def row_ok_def)
qed

section \<open>Driving the engine keeps the invariant\<close>

text \<open>What an operation on the run \<open>rid\<close> may do to the store.\<close>

definition others_kept :: "string \<Rightarrow> 'w wf_store \<Rightarrow> 'w wf_store \<Rightarrow> bool" where
  "others_kept rid s s' = (ws_catalog s' = ws_catalog s
     \<and> (\<forall>i. i \<noteq> rid \<longrightarrow> run_get (ws_runs s') i = run_get (ws_runs s) i \<and> ws_steps s' i = ws_steps s i)
     \<and> rel_option same_ident (run_get (ws_runs s) rid) (run_get (ws_runs s') rid))"

lemma rel_same_ident_trans:
  "rel_option same_ident a b \<Longrightarrow> rel_option same_ident b c \<Longrightarrow> rel_option same_ident a c"
  by (cases a; cases b; cases c) (auto intro: same_ident_trans)

lemma runs_kept_others: "runs_kept rid s s' \<Longrightarrow> others_kept rid s s'"
  by (auto simp: runs_kept_def others_kept_def same_run_def elim!: option.rel_mono_strong)

lemma completing_others: "completing d rid s s' \<Longrightarrow> others_kept rid s s'"
  by (auto simp: completing_def others_kept_def)

lemma others_kept_trans: "others_kept rid a b \<Longrightarrow> others_kept rid b c \<Longrightarrow> others_kept rid a c"
  by (auto simp: others_kept_def intro: rel_same_ident_trans)

lemma loop_result_others: "loop_result d rid r s s' \<Longrightarrow> others_kept rid s s'"
  unfolding loop_result_def progress_def
  using runs_kept_others completing_others others_kept_trans by blast

lemma loop_result_good: "loop_result d rid r s s' \<Longrightarrow> good_rows d (ws_steps s rid) \<Longrightarrow> good_rows d (ws_steps s' rid)"
  unfolding loop_result_def using progress_good by (auto simp: completing_def)

lemma loop_result_completed:
  assumes "loop_result d rid r s s'" and "run_get (ws_runs s) rid = Some run" and "wr_status run \<noteq> W_completed"
    and "run_get (ws_runs s') rid = Some run'" and "wr_status run' = W_completed"
  shows "all_done d (ws_steps s' rid)"
  using assms by (auto simp: loop_result_def progress_def runs_kept_def completing_def same_run_def)

text \<open>An operation on one run keeps the invariant when the run's own part of it is kept.\<close>

lemma wf_inv_others:
  assumes inv: "wf_inv en W s" and kept: "others_kept rid s s'" and some: "run_get (ws_runs s) rid \<noteq> None"
    and own: "\<And>run'. run_get (ws_runs s') rid = Some run' \<Longrightarrow> run_ok en W run' (ws_steps s' rid)"
  shows "wf_inv en W s'"
  unfolding wf_inv_def
proof (intro conjI allI impI)
  fix i run assume g: "run_get (ws_runs s') i = Some run"
  show "run_ok en W run (ws_steps s' i)"
  proof (cases "i = rid")
    case True
    then show ?thesis using own g by simp
  next
    case False
    then show ?thesis using g inv kept by (auto simp: others_kept_def wf_inv_def)
  qed
next
  fix i assume g: "run_get (ws_runs s') i = None"
  then have "i \<noteq> rid" using some kept by (auto simp: others_kept_def)
  then show "ws_steps s' i = []" using g inv kept by (auto simp: others_kept_def wf_inv_def)
next
  fix name d assume "wf_get (ws_catalog s') name = Some d"
  then show "d \<in> W" using inv kept by (auto simp: others_kept_def wf_inv_def)
qed

lemma loop_result_inv:
  assumes inv: "wf_inv en W s" and run: "run_get (ws_runs s) rid = Some run" "wr_status run \<noteq> W_completed"
    and d: "d \<in> W" "checksum (en_sha en) (en_frepr en) d = wr_checksum run" "good_rows d (ws_steps s rid)"
    and res: "loop_result d rid r s s'"
  shows "wf_inv en W s'"
proof (rule wf_inv_others [OF inv loop_result_others [OF res]])
  show "run_get (ws_runs s) rid \<noteq> None" using run by simp
  fix run' assume run': "run_get (ws_runs s') rid = Some run'"
  have "wr_checksum run' = wr_checksum run"
    using loop_result_others [OF res] run(1) run' by (auto simp: others_kept_def same_ident_def)
  then show "run_ok en W run' (ws_steps s' rid)"
    using d loop_result_good [OF res d(3)] loop_result_completed [OF res run run'] by (auto simp: run_ok_def)
qed

lemma trusted_get: "trusted en W \<Longrightarrow> en_templates en = Some tp \<Longrightarrow> tp_get tp name v w = (Inr (Some d), w') \<Longrightarrow> d \<in> W"
  and trusted_instantiate: "trusted en W \<Longrightarrow> en_templates en = Some tp \<Longrightarrow> tp_instantiate tp name ver w = (Inr d, w') \<Longrightarrow> d \<in> W"
  unfolding trusted_def by blast+

lemma definition_for_run_trusted:
  assumes "definition_for_run en run s = (Inr (Some d), s')" and "trusted en W" and "wf_inv en W s"
  shows "d \<in> W"
proof -
  have "(\<exists>tp name v w w'. en_templates en = Some tp \<and> tp_get tp name v w = (Inr (Some d), w'))
      \<or> wf_get (ws_catalog s) (wr_workflow run) = Some d"
    using assms(1)
    by (auto simp: definition_for_run_def bind_def get_s_def outside_def ret_def
        split: option.splits if_splits prod.splits sum.splits)
  then show ?thesis using trusted_get [OF assms(2)] assms(3) by (auto simp: wf_inv_def)
qed

text \<open>\<open>advance\<close> on a run that is not completed.\<close>

lemma advance_result:
  assumes adv: "advance fuel en rid ctx allowed s = (r, s')" and tr: "trusted en W" and inv: "wf_inv en W s"
    and run: "run_get (ws_runs s) rid = Some run"
    and d: "d \<in> W" "checksum (en_sha en) (en_frepr en) d = wr_checksum run" "good_rows d (ws_steps s rid)"
  shows "\<exists>x. loop_result d rid x s s'" and "calm en \<Longrightarrow> 2 * length (wd_steps d) < fuel \<Longrightarrow> r \<noteq> Inr None"
proof -
  let ?goal = "(\<exists>x. loop_result d rid x s s') \<and> (calm en \<and> 2 * length (wd_steps d) < fuel \<longrightarrow> r \<noteq> Inr None)"
  have quiet_end: ?goal if "quiet rid s s'" "r \<noteq> Inr None"
    using that quiet_progress by (auto simp: loop_result_def)
  have failing: "quiet rid a s' \<and> r \<noteq> Inr None"
    if "seq (set_run_failed en rid msg) (bind (load_run rid) (\<lambda>r. ret (Some r))) a = (r, s')" for msg a
  proof -
    have "silent rid (seq (set_run_failed en rid msg) (bind (load_run rid) (\<lambda>r. ret (Some r))))" by (intro silent)
    then have "quiet rid a s'" using that silentD by blast
    moreover have "r \<noteq> Inr None" using that by (auto elim!: seqE bindE)
    ultimately show ?thesis by blast
  qed
  from adv have ?goal
    unfolding advance_def
  proof (cases rule: bindE)
    case (1 e)
    then show ?thesis using quiet_end [OF silentD [OF silent_small(7) 1(1)]] by simp
  next
    case (2 run1 s1)
    have eq: "s1 = s" "run1 = run" using load_owned_Inr [OF 2(1)] run by simp_all
    from 2(2) [unfolded eq] show ?thesis
    proof (cases rule: bindE)
      case (1 e)
      then show ?thesis using quiet_end [OF silentD [OF silent_definition_for_run 1(1)]] by simp
    next
      case (2 dd s2)
      note q = silentD [OF silent_definition_for_run 2(1), of rid]
      show ?thesis
      proof (cases dd)
        case None
        then show ?thesis using 2(2) failing quiet_end quiet_trans [OF q] by simp
      next
        case (Some d')
        have "d' \<in> W" by (rule definition_for_run_trusted [OF 2(1) [unfolded Some] tr inv])
        show ?thesis
        proof (cases "checksum (en_sha en) (en_frepr en) d' = wr_checksum run")
          case False
          then show ?thesis using 2(2) Some failing quiet_end quiet_trans [OF q] by simp
        next
          case True
          then have "d' = d" using tr d(1,2) \<open>d' \<in> W\<close> by (auto simp: trusted_def inj_on_def)
          with 2(2) Some True have "bind (ask_w (en_monotonic en)) (\<lambda>t.
             bind (engine_loop fuel en rid d (t + en_max_wallclock en) ctx allowed) (\<lambda>fin.
               if fin then bind (load_run rid) (\<lambda>r. ret (Some r)) else ret None)) s2 = (r, s')" by simp
          then show ?thesis
          proof (cases rule: bindE)
            case (1 e)
            then show ?thesis using quiet_end quiet_trans [OF q silentD [OF silent_ask 1(1)]] by simp
          next
            case (2 t s3)
            note q3 = quiet_trans [OF q silentD [OF silent_ask 2(1)]]
            have ix: "indexed d (ws_steps s3 rid)" using q3 d(3) by (simp add: quiet_def good_rows_def)
            have after: "loop_result d rid x s s'" if "loop_result d rid x s3 s'" for x
              using that quiet_progress [OF q3] progress_trans unfolding loop_result_def by blast
            have w: "rows_weight (ws_steps s3 rid) \<le> 2 * length (wd_steps d)"
            proof -
              have "rows_weight rows \<le> 2 * length rows" for rows by (induction rows) (auto simp: rows_weight_def weight_def)
              moreover have "length (ws_steps s3 rid) = length (wd_steps d)"
                using ix by (metis indexed_def length_map length_upt minus_nat.diff_0)
              ultimately show ?thesis by metis
            qed
            from 2(2) show ?thesis
            proof (cases rule: bindE)
              case (1 e)
              then show ?thesis using after engine_loop_result(1) [OF 1(1) ix] by auto
            next
              case (2 fin s4)
              note lr = engine_loop_result [OF 2(1) ix]
              show ?thesis
              proof (cases fin)
                case True
                then have "s' = s4 \<and> r \<noteq> Inr None" using 2(2) by (auto elim!: bindE dest: load_run_Inr simp: load_run_def get_s_def split: option.splits)
                then show ?thesis using after lr(1) by auto
              next
                case False
                then have "s' = s4" "r = Inr None" "\<not> (calm en \<and> rows_weight (ws_steps s3 rid) < fuel)"
                  using 2(2) lr(2) by auto
                then show ?thesis using after lr(1) w by auto
              qed
            qed
          qed
        qed
      qed
    qed
  qed
  then show "\<exists>x. loop_result d rid x s s'" "calm en \<Longrightarrow> 2 * length (wd_steps d) < fuel \<Longrightarrow> r \<noteq> Inr None" by blast+
qed


section \<open>The operations\<close>

text \<open>One operation by anybody, with any arguments and any outcome; or anything happening in the world.\<close>

inductive wf_op :: "('w, 'z) engine_scheme \<Rightarrow> wf_def set \<Rightarrow> 'w wf_store \<Rightarrow> 'w wf_store \<Rightarrow> bool" for en :: "('w, 'z) engine_scheme" and W where
  start: "start_run fuel en src args ctx allowed s = (r, s') \<Longrightarrow> (\<And>d. src = Inline d \<Longrightarrow> d \<in> W) \<Longrightarrow> wf_op en W s s'"
| resume: "resume_run fuel en rid ctx allowed s = (r, s') \<Longrightarrow> wf_op en W s s'"
| cancel: "cancel_run en rid ctx s = (r', s') \<Longrightarrow> wf_op en W s s'"
| resolve: "resolve_ambiguous fuel en rid ctx choice s = (r, s') \<Longrightarrow> wf_op en W s s'"
| admin_resolve: "admin_resolve_ambiguous fuel en audit rid admin choice reason s = (r, s') \<Longrightarrow> wf_op en W s s'"
| admin_cancel: "admin_cancel en audit rid admin reason s = (r', s') \<Longrightarrow> wf_op en W s s'"
| world: "wf_op en W s (s\<lparr>ws_world := w\<rparr>)"

definition fresh_store :: "wf_catalog \<Rightarrow> 'w \<Rightarrow> 'w wf_store" where
  "fresh_store wc w = \<lparr>ws_catalog = wc, ws_runs = [], ws_steps = (\<lambda>_. []), ws_counters = [], ws_world = w\<rparr>"

text \<open>An operation on the run \<open>rid\<close>: nothing happens to a run that is settled, and the invariant is kept.\<close>

definition settled_run :: "run_row \<Rightarrow> bool" where
  "settled_run run = (wr_status run \<in> {W_completed, W_cancelled, W_failed})"

definition unchanged :: "string \<Rightarrow> 'w wf_store \<Rightarrow> 'w wf_store \<Rightarrow> bool" where
  "unchanged rid s s' = (run_get (ws_runs s') rid = run_get (ws_runs s) rid \<and> ws_steps s' rid = ws_steps s rid)"

definition lawful :: "('w, 'z) engine_scheme \<Rightarrow> wf_def set \<Rightarrow> 'w wf_store \<Rightarrow> 'w wf_store \<Rightarrow> bool" where
  "lawful en W s s' = (wf_inv en W s' \<and> (\<forall>rid run. run_get (ws_runs s) rid = Some run \<and> settled_run run \<longrightarrow> unchanged rid s s'))"

lemma lawful_refl: "wf_inv en W s \<Longrightarrow> lawful en W s s"
  by (simp add: lawful_def unchanged_def)

lemma others_lawful:
  assumes "others_kept rid s s'" and "wf_inv en W s'" and "run_get (ws_runs s) rid = Some run" and "\<not> settled_run run"
  shows "lawful en W s s'"
proof -
  have "unchanged i s s'" if "run_get (ws_runs s) i = Some x" "settled_run x" for i x
  proof -
    have "i \<noteq> rid" using that assms(3,4) by auto
    then show ?thesis using assms(1) by (simp add: others_kept_def unchanged_def)
  qed
  then show ?thesis using assms(2) by (simp add: lawful_def)
qed

lemma run_rows:
  assumes "wf_inv en W s" and "run_get (ws_runs s) rid = Some run" and "wr_status run \<noteq> W_failed"
  obtains d where "d \<in> W" "checksum (en_sha en) (en_frepr en) d = wr_checksum run" "good_rows d (ws_steps s rid)"
proof -
  have "run_ok en W run (ws_steps s rid)" using assms by (simp add: wf_inv_def)
  then show thesis using that assms(3) by (auto simp: run_ok_def)
qed

lemma lawful_trans:
  assumes "lawful en W a b" and "lawful en W b c"
  shows "lawful en W a c"
proof -
  have "unchanged rid a c" if run: "run_get (ws_runs a) rid = Some run" "settled_run run" for rid run
  proof -
    have ab: "unchanged rid a b" using assms(1) run by (simp add: lawful_def)
    then have "unchanged rid b c" using assms(2) run by (simp add: lawful_def unchanged_def)
    then show ?thesis using ab by (simp add: unchanged_def)
  qed
  then show ?thesis using assms(2) by (simp add: lawful_def)
qed

lemma advance_lawful:
  assumes "advance fuel en rid ctx allowed s = (r, s')" and tr: "trusted en W" and inv: "wf_inv en W s"
    and run: "run_get (ws_runs s) rid = Some run" "\<not> settled_run run"
  shows "lawful en W s s'"
proof -
  obtain d where d: "d \<in> W" "checksum (en_sha en) (en_frepr en) d = wr_checksum run" "good_rows d (ws_steps s rid)"
    using run_rows [OF inv run(1)] run(2) by (auto simp: settled_run_def)
  obtain x where x: "loop_result d rid x s s'" using advance_result(1) [OF assms(1) tr inv run(1) d] by blast
  have "wf_inv en W s'" using loop_result_inv [OF inv run(1) _ d x] run(2) by (simp add: settled_run_def)
  then show ?thesis by (rule others_lawful [OF loop_result_others [OF x] _ run])
qed

lemma silent_lawful:
  assumes "quiet rid s s'" and inv: "wf_inv en W s" and run: "run_get (ws_runs s) rid = Some run" "\<not> settled_run run"
  shows "lawful en W s s'"
proof -
  obtain d where d: "d \<in> W" "checksum (en_sha en) (en_frepr en) d = wr_checksum run" "good_rows d (ws_steps s rid)"
    using run_rows [OF inv run(1)] run(2) by (auto simp: settled_run_def)
  have x: "loop_result d rid (Inr True) s s'" using quiet_progress [OF assms(1)] by (auto simp: loop_result_def)
  have "wf_inv en W s'" using loop_result_inv [OF inv run(1) _ d x] run(2) by (simp add: settled_run_def)
  then show ?thesis by (rule others_lawful [OF loop_result_others [OF x] _ run])
qed

lemma resume_lawful:
  assumes "resume_run fuel en rid ctx allowed s = (r, s')" and tr: "trusted en W" and inv: "wf_inv en W s"
  shows "lawful en W s s'"
  using assms(1) unfolding resume_run_def
proof (cases rule: bindE)
  case (1 e)
  then have "s' = s" by (auto simp: load_owned_def load_run_def bind_def get_s_def raise_exc_def ret_def split: option.splits if_splits)
  then show ?thesis using lawful_refl [OF inv] by simp
next
  case (2 run s1)
  note run = load_owned_Inr [OF 2(1)]
  show ?thesis
  proof (cases "wr_status run \<in> {W_completed, W_cancelled} \<or> wr_status run \<in> {W_failed, W_ambiguous}")
    case True
    then have "s' = s" using 2(2) run by (auto split: if_splits)
    then show ?thesis using lawful_refl [OF inv] by simp
  next
    case False
    then have "advance fuel en rid (scoped run ctx) allowed s = (r, s')" using 2(2) run by simp
    then show ?thesis using advance_lawful [OF _ tr inv] run False by (auto simp: settled_run_def)
  qed
qed

lemma load_owned_same: "load_owned rid a s = (r, s') \<Longrightarrow> s' = s"
  by (auto simp: load_owned_def load_run_def bind_def get_s_def raise_exc_def ret_def split: option.splits if_splits)

lemma cancel_lawful:
  assumes "cancel_run en rid ctx s = (r, s')" and inv: "wf_inv en W s"
  shows "lawful en W s s'"
  using assms(1) unfolding cancel_run_def
proof (cases rule: bindE)
  case (1 e)
  then show ?thesis using lawful_refl [OF inv] load_owned_same by blast
next
  case (2 run s1)
  note run = load_owned_Inr [OF 2(1)]
  show ?thesis
  proof (cases "wr_status run \<in> {W_completed, W_cancelled, W_failed, W_ambiguous}")
    case True
    then have "s' = s" using 2(2) run by auto
    then show ?thesis using lawful_refl [OF inv] by simp
  next
    case False
    then have "seq (end_run en rid W_cancelled ''cancelled by operator'' id) (load_run rid) s = (r, s')" using 2(2) run by simp
    moreover have "silent rid (seq (end_run en rid W_cancelled ''cancelled by operator'' id) (load_run rid))"
      by (intro silent) simp
    ultimately have "quiet rid s s'" using silentD by blast
    then show ?thesis using silent_lawful [OF _ inv] run False by (auto simp: settled_run_def)
  qed
qed

text \<open>An ambiguous step that the operator resolves.\<close>

lemma continue_run_progress:
  assumes "continue_run en rid i s = (r, s')" and ix: "indexed d (ws_steps s rid)"
  shows "r = Inr () \<and> progress d rid s s' \<and> (\<forall>run. run_get (ws_runs s) rid = Some run \<longrightarrow>
      (\<exists>run'. run_get (ws_runs s') rid = Some run' \<and> wr_status run' = W_running))"
proof -
  let ?f = "\<lambda>r. r\<lparr>wr_status := W_running, wr_current := wr_current r + 1, wr_error := None\<rparr>"
  have touch: "u = Inr () \<and> quiet rid a b \<and> (\<forall>run. run_get (ws_runs a) rid = Some run \<longrightarrow>
      (\<exists>run'. run_get (ws_runs b) rid = Some run' \<and> wr_status run' = W_running))"
    if t: "touch_run en rid ?f a = (u, b)" for a b u
  proof -
    have "silent rid (touch_run en rid ?f)" for en :: "('a, 'b) engine_scheme"
      by (intro silent) (simp add: same_run_def same_ident_def)
    then have "quiet rid a b" using t silentD by blast
    moreover have "u = Inr () \<and> (\<forall>run. run_get (ws_runs a) rid = Some run \<longrightarrow>
        (\<exists>run'. run_get (ws_runs b) rid = Some run' \<and> wr_status run' = W_running))"
      using t runs.get_key [of "ws_runs a" rid]
      by (cases "run_get (ws_runs a) rid")
        (auto simp: touch_run_def bind_def ask_w_def change_run_def put_s_def run_get_update split: prod.splits)
    ultimately show ?thesis by blast
  qed
  show ?thesis
  proof (cases "case row_at (ws_steps s rid) i of None \<Rightarrow> False | Some r \<Rightarrow> sr_status r = W_ambiguous")
    case False
    then have "touch_run en rid ?f s = (r, s')"
      using assms(1) by (simp add: continue_run_def bind_def list_steps_def get_s_def seq_def ret_def)
    from touch [OF this] show ?thesis by (auto intro: quiet_progress)
  next
    case True
    then obtain x where x: "row_at (ws_steps s rid) i = Some x" "sr_status x = W_ambiguous" by (auto split: option.splits)
    obtain t w where w: "en_utcnow en (ws_world s) = (t, w)" by (metis surj_pair)
    let ?a = "(s\<lparr>ws_world := w\<rparr>)\<lparr>ws_steps := (ws_steps s)(rid := change_row i (resolve_row t) (ws_steps s rid))\<rparr>"
    have "touch_run en rid ?f ?a = (r, s')"
      using assms(1) x w by (simp add: continue_run_def bind_def list_steps_def get_s_def seq_def ask_w_def change_step_def put_s_def)
    note t = touch [OF this]
    let ?P = "\<lambda>x y. y = resolve_row t x"
    have ch: "row_change rid i ?P s ?a"
      by (auto simp: row_change_def runs_kept_def option.rel_refl resolve_row_def intro!: exI [of _ "resolve_row t"])
    have ev: "row_evolves x y" if "?P x y" for y using that x(2) by (simp add: row_evolves_def resolve_row_def)
    have "progress d rid s ?a" by (rule row_change_progress(1) [OF ch ix x(1)]) (use ev x(2) in auto)
    then show ?thesis using t progress_trans [OF _ quiet_progress] by auto
  qed
qed

lemma resolve_lawful:
  assumes "resolve_ambiguous fuel en rid ctx choice s = (r, s')" and tr: "trusted en W" and inv: "wf_inv en W s"
  shows "lawful en W s s'"
  using assms(1) unfolding resolve_ambiguous_def
proof (cases rule: bindE)
  case (1 e)
  then show ?thesis using lawful_refl [OF inv] load_owned_same by blast
next
  case (2 run s1)
  note run = load_owned_Inr [OF 2(1)]
  consider "wr_status run \<noteq> W_ambiguous \<or> choice \<notin> {''continue'', ''abort''}"
    | "wr_status run = W_ambiguous" "choice = ''abort''" | "wr_status run = W_ambiguous" "choice = ''continue''" by blast
  then show ?thesis
  proof cases
    case 1
    then have "s' = s" using 2(2) run by (auto split: if_splits)
    then show ?thesis using lawful_refl [OF inv] by simp
  next
    case abort: 2
    then have "seq (end_run en rid W_cancelled ''ambiguous outcome aborted by operator'' id) (bind (load_run rid) (\<lambda>r. ret (Some r))) s = (r, s')"
      using 2(2) run by simp
    moreover have "silent rid (seq (end_run en rid W_cancelled ''ambiguous outcome aborted by operator'' id) (bind (load_run rid) (\<lambda>r. ret (Some r))))"
      by (intro silent) simp
    ultimately have "quiet rid s s'" using silentD by blast
    then show ?thesis using silent_lawful [OF _ inv] run abort by (auto simp: settled_run_def)
  next
    case go: 3
    then have open_run: "\<not> settled_run run" by (simp add: settled_run_def)
    obtain d where d: "d \<in> W" "checksum (en_sha en) (en_frepr en) d = wr_checksum run" "good_rows d (ws_steps s rid)"
      using run_rows [OF inv, of rid run] run go by auto
    have ix: "indexed d (ws_steps s rid)" using d(3) by (simp add: good_rows_def)
    have "seq (continue_run en rid (wr_current run)) (advance fuel en rid (scoped run ctx) (\<lambda>_. True)) s = (r, s')"
      using 2(2) run go by simp
    then show ?thesis
    proof (cases rule: seqE)
      case (1 e)
      then show ?thesis using continue_run_progress [OF 1(1) ix] by simp
    next
      case (2 u s2)
      note c = continue_run_progress [OF 2(1) ix]
      then obtain run2 where run2: "run_get (ws_runs s2) rid = Some run2" "wr_status run2 = W_running" using run by blast
      have x: "loop_result d rid (Inr True) s s2" using c by (auto simp: loop_result_def)
      have inv2: "wf_inv en W s2" using loop_result_inv [OF inv _ _ d x] run go by auto
      have "lawful en W s2 s'" by (rule advance_lawful [OF 2(2) tr inv2 run2(1)]) (simp add: settled_run_def run2(2))
      moreover have "lawful en W s s2" using others_lawful [OF loop_result_others [OF x] inv2] run open_run by blast
      ultimately show ?thesis using lawful_trans by blast
    qed
  qed
qed

lemma world_lawful: "wf_inv en W s \<Longrightarrow> lawful en W s (s\<lparr>ws_world := w\<rparr>)"
  by (simp add: lawful_def unchanged_def wf_inv_def)

lemma admin_lawful:
  assumes "bind (load_run rid) (\<lambda>run. if bad run then raise_exc e else seq (outside (m run)) (k run)) s = (r, s')"
    and inv: "wf_inv en W s" and next_op: "\<And>run t r t'. k run t = (r, t') \<Longrightarrow> wf_inv en W t \<Longrightarrow> lawful en W t t'"
  shows "lawful en W s s'"
  using assms(1)
proof (cases rule: bindE)
  case (1 x)
  then have "s' = s" by (auto simp: load_run_def bind_def get_s_def raise_exc_def ret_def split: option.splits)
  then show ?thesis using lawful_refl [OF inv] by simp
next
  case (2 run s1)
  have s1: "s1 = s" using load_run_Inr [OF 2(1)] by simp
  show ?thesis
  proof (cases "bad run")
    case True
    then show ?thesis using 2(2) s1 lawful_refl [OF inv] by simp
  next
    case False
    then have sq: "seq (outside (m run)) (k run) s = (r, s')" using 2(2) s1 by simp
    have audited: "lawful en W s t" if out: "outside (m run) s = (x, t)" for x t
    proof -
      obtain w where "t = s\<lparr>ws_world := w\<rparr>" using out by (auto simp: outside_def split: prod.splits)
      then show ?thesis using world_lawful [OF inv] by simp
    qed
    from sq show ?thesis
    proof (cases rule: seqE)
      case (1 x)
      then show ?thesis using audited by blast
    next
      case (2 u t)
      have "lawful en W s t" by (rule audited [OF 2(1)])
      moreover from this have "lawful en W t s'" using next_op [OF 2(2)] by (simp add: lawful_def)
      ultimately show ?thesis by (rule lawful_trans)
    qed
  qed
qed

lemma admin_resolve_lawful:
  assumes "admin_resolve_ambiguous fuel en audit rid admin choice reason s = (r, s')" and "trusted en W" and "wf_inv en W s"
  shows "lawful en W s s'"
  using assms(1) unfolding admin_resolve_ambiguous_def
  by (rule admin_lawful [OF _ assms(3)]) (rule resolve_lawful [OF _ assms(2)])

lemma admin_cancel_lawful:
  assumes "admin_cancel en audit rid admin reason s = (r, s')" and "wf_inv en W s"
  shows "lawful en W s s'"
proof -
  have "bind (load_run rid) (\<lambda>run. if False then raise_exc undefined else
       seq (outside (audit \<lparr>action_type = ''workflow.operator.cancel'', a_params = [(''run_id'', JStr rid)]\<rparr> admin reason))
           (cancel_run en rid (ctx_for_run run))) s = (r, s')"
    using assms(1) by (simp add: admin_cancel_def)
  then show ?thesis by (rule admin_lawful [OF _ assms(2)]) (rule cancel_lawful)
qed

section \<open>Starting\<close>

text \<open>Resolving a definition touches nothing but the catalog and the world.\<close>

definition only_catalog :: "'w wf_store \<Rightarrow> 'w wf_store \<Rightarrow> bool" where
  "only_catalog s s' = (ws_runs s' = ws_runs s \<and> ws_steps s' = ws_steps s)"

lemma resolve_definition_effect:
  assumes "resolve_definition en src version s = (r, s')" and tr: "trusted en W" and inv: "wf_inv en W s"
    and src: "\<And>d. src = Inline d \<Longrightarrow> d \<in> W"
  shows "only_catalog s s' \<and> wf_inv en W s' \<and> (\<forall>d. r = Inr d \<longrightarrow> d \<in> W)"
proof (cases src)
  case (ByName name)
  show ?thesis
  proof (cases "wf_get (ws_catalog s) name")
    case (Some d)
    then have "s' = s" "r = Inr d" using assms(1) ByName by (auto simp: resolve_definition_def bind_def get_s_def ret_def)
    then show ?thesis using inv Some by (auto simp: only_catalog_def wf_inv_def)
  next
    case None
    show ?thesis
    proof (cases "en_templates en")
      case no: None
      then have "s' = s" "\<exists>e. r = Inl e"
        using assms(1) ByName None by (auto simp: resolve_definition_def bind_def get_s_def found_or_unknown_def raise_exc_def)
      then show ?thesis using inv by (auto simp: only_catalog_def)
    next
      case (Some tp)
      then have b: "bind (instantiated en tp name version) found_or_unknown s = (r, s')"
        using assms(1) ByName None by (simp add: resolve_definition_def bind_def get_s_def)
      obtain y w where y: "tp_instantiate tp name version (ws_world s) = (y, w)" by (metis surj_pair)
      have "s' = s\<lparr>ws_world := w\<rparr> \<and> (\<forall>d. r = Inr d \<longrightarrow> y = Inr d)"
        using b y by (auto simp: bind_def instantiated_def outside_def found_or_unknown_def raise_exc_def ret_def
            split: sum.splits if_splits)
      then show ?thesis using trusted_instantiate [OF tr Some] y inv by (auto simp: only_catalog_def wf_inv_def)
    qed
  qed
next
  case (Inline d)
  have dW: "d \<in> W" by (rule src [OF Inline])
  obtain y wc where reg: "wf_register (en_sha en) (en_frepr en) (en_actions en) (Some (en_max_steps en)) d (ws_catalog s) = (y, wc)"
    by (metis surj_pair)
  have cat: "d' \<in> W" if "wf_get wc n = Some d'" for n d'
    using reg
  proof (cases rule: wf_register_cases)
    case (1 e)
    then show ?thesis using that inv by (auto simp: wf_inv_def)
  next
    case (2 m)
    then show ?thesis using that inv dW by (auto simp: wf_get_def update_conv' wf_inv_def split: if_splits)
  qed
  have "s' = s \<or> s' = s\<lparr>ws_catalog := wc\<rparr>" and "\<forall>x. r = Inr x \<longrightarrow> x = d"
    using assms(1) Inline reg
    by (auto simp: resolve_definition_def bind_def seq_def get_s_def ret_def raise_exc_def register_inline_def
        split: sum.splits if_splits prod.splits)
  then show ?thesis using inv dW cat by (auto simp: only_catalog_def wf_inv_def)
qed

lemma insert_run_lawful:
  assumes "insert_run run rows s = (r, s')" and inv: "wf_inv en W s" and ok: "run_ok en W run rows"
  shows "lawful en W s s' \<and> (r = Inr () \<longrightarrow> run_get (ws_runs s') (wr_id run) = Some run \<and> ws_steps s' (wr_id run) = rows)"
proof (cases "run_create run (ws_runs s)")
  case None
  then show ?thesis using assms(1) lawful_refl [OF inv] by (auto simp: insert_run_def)
next
  case (Some t)
  then have s': "r = Inr ()" "s' = s\<lparr>ws_runs := t, ws_steps := (ws_steps s)(wr_id run := ws_steps s (wr_id run) @ rows)\<rparr>"
    using assms(1) by (auto simp: insert_run_def)
  have fresh: "run_get (ws_runs s) (wr_id run) = None" by (rule runs.create_fresh [OF Some])
  then have none: "ws_steps s (wr_id run) = []" using inv by (simp add: wf_inv_def)
  have get: "run_get t i = (if i = wr_id run then Some run else run_get (ws_runs s) i)" for i
    by (rule runs.get_create [OF Some])
  have "wf_inv en W s'" using inv ok none by (auto simp: wf_inv_def s' get)
  moreover have "unchanged i s s'" if "run_get (ws_runs s) i = Some x" for i x
    using that fresh by (auto simp: unchanged_def s' get)
  ultimately show ?thesis using none by (auto simp: lawful_def s' get)
qed

lemma only_catalog_lawful: "only_catalog s s' \<Longrightarrow> wf_inv en W s' \<Longrightarrow> lawful en W s s'"
  by (auto simp: only_catalog_def lawful_def unchanged_def)

lemma world_inv: "wf_inv en W s \<Longrightarrow> ask_w f s = (r, s') \<Longrightarrow> lawful en W s s'"
  using world_lawful by (auto simp: ask_w_def split: prod.splits)

lemma bind_lawful:
  assumes "bind m f s = (r, s')" and "\<And>x t. m s = (x, t) \<Longrightarrow> lawful en W s t"
    and "\<And>x t. m s = (Inr x, t) \<Longrightarrow> wf_inv en W t \<Longrightarrow> f x t = (r, s') \<Longrightarrow> lawful en W t s'"
  shows "lawful en W s s'"
  using assms(1)
proof (cases rule: bindE)
  case (1 e)
  then show ?thesis using assms(2) by blast
next
  case (2 x t)
  have "lawful en W s t" by (rule assms(2) [OF 2(1)])
  moreover from this have "lawful en W t s'" using assms(3) [OF 2(1) _ 2(2)] by (simp add: lawful_def)
  ultimately show ?thesis by (rule lawful_trans)
qed

lemma refused_run_lawful:
  assumes "refused_run en args d ctx token gcode s = (r, s')" and inv: "wf_inv en W s" and d: "d \<in> W"
  shows "lawful en W s s'"
  using assms(1) unfolding refused_run_def
proof (elim bind_lawful)
  fix now t rid t1 rt t2
  let ?run = "(new_run en args d (actor_id ctx) token now rid rt)
             \<lparr>wr_scope := execution_scope ctx, wr_status := W_failed, wr_template_version := Some (wd_version d),
              wr_finished := Some now, wr_error := Some (''governance admission denied ('' @ gcode @ '')''),
              wr_governance := Some gcode\<rparr>"
  assume inv2: "wf_inv en W t2" and "(let run = ?run in seq (insert_run run []) (ret run)) t2 = (r, s')"
  then have "seq (insert_run ?run []) (ret ?run) t2 = (r, s')" by (simp only: Let_def)
  moreover have "run_ok en W ?run []" using d by (auto simp: run_ok_def new_run_def)
  ultimately show "lawful en W t2 s'" using insert_run_lawful [OF _ inv2] by (elim seqE) auto
qed (use inv world_inv in blast)+

lemma admitted_run_lawful:
  assumes "admitted_run fuel en args d ctx allowed token now s = (r, s')" and tr: "trusted en W" and inv: "wf_inv en W s" and d: "d \<in> W"
  shows "lawful en W s s'"
  using assms(1) unfolding admitted_run_def
proof (elim bind_lawful)
  fix rid t1 rt t2
  let ?run = "(new_run en args d (actor_id ctx) token now rid rt)\<lparr>wr_scope := Some (run_scope ctx rid)\<rparr>"
  assume inv2: "wf_inv en W t2"
    and sq: "seq (insert_run ?run (first_rows d)) (advance fuel en rid (ctx\<lparr>execution_scope := Some (run_scope ctx rid)\<rparr>) allowed) t2 = (r, s')"
  have ok: "run_ok en W ?run (first_rows d)" using d first_rows_good by (auto simp: run_ok_def new_run_def)
  from sq show "lawful en W t2 s'"
  proof (cases rule: seqE)
    case (1 e)
    then show ?thesis using insert_run_lawful [OF _ inv2 ok] by blast
  next
    case (2 u t3)
    have ins: "lawful en W t2 t3" "run_get (ws_runs t3) rid = Some ?run"
      using insert_run_lawful [OF 2(1) inv2 ok] by (simp_all add: new_run_def)
    have "wf_inv en W t3" using ins(1) by (simp add: lawful_def)
    from advance_lawful [OF 2(2) tr this ins(2)] have "lawful en W t3 s'" by (simp add: settled_run_def new_run_def)
    with ins(1) show ?thesis by (rule lawful_trans)
  qed
qed (use inv world_inv in blast)+

lemma start_lawful:
  assumes "start_run fuel en src args ctx allowed s = (r, s')" and tr: "trusted en W" and inv: "wf_inv en W s"
    and src: "\<And>d. src = Inline d \<Longrightarrow> d \<in> W"
  shows "lawful en W s s'"
  using assms(1) unfolding start_run_def
proof (elim bind_lawful)
  show "lawful en W s t" if "resolve_definition en src (sa_template_version args) s = (x, t)" for x t
    using resolve_definition_effect [OF that tr inv src] only_catalog_lawful by blast
  fix d t assume d: "resolve_definition en src (sa_template_version args) s = (Inr d, t)"
  then have dW: "d \<in> W" using resolve_definition_effect [OF d tr inv src] by blast
  fix u t1 token t2 now t3 ex t4 assume inv4: "wf_inv en W t4"
    and rest: "(case ex of
         Some run \<Rightarrow> ret (Some run)
       | None \<Rightarrow> bind (admit en (actor_id ctx) (wd_name d)) (\<lambda>refused. case refused of
           Some gcode \<Rightarrow> bind (refused_run en args d ctx token gcode) (\<lambda>run. ret (Some run))
         | None \<Rightarrow> admitted_run fuel en args d ctx allowed token now)) t4 = (r, s')"
  show "lawful en W t4 s'"
  proof (cases ex)
    case (Some run)
    then show ?thesis using rest lawful_refl [OF inv4] by simp
  next
    case None
    then have "bind (admit en (actor_id ctx) (wd_name d)) (\<lambda>refused. case refused of
           Some gcode \<Rightarrow> bind (refused_run en args d ctx token gcode) (\<lambda>run. ret (Some run))
         | None \<Rightarrow> admitted_run fuel en args d ctx allowed token now) t4 = (r, s')" using rest by simp
    then show ?thesis
    proof (rule bind_lawful)
      show "lawful en W t4 t" if "admit en (actor_id ctx) (wd_name d) t4 = (x, t)" for x t
        using that inv4
        by (auto simp: admit_def bind_def ask_w_def ret_def lawful_def unchanged_def wf_inv_def split: option.splits prod.splits sum.splits)
      fix refused t5 assume inv5: "wf_inv en W t5"
        and go: "(case refused of
           Some gcode \<Rightarrow> bind (refused_run en args d ctx token gcode) (\<lambda>run. ret (Some run))
         | None \<Rightarrow> admitted_run fuel en args d ctx allowed token now) t5 = (r, s')"
      show "lawful en W t5 s'"
      proof (cases refused)
        case None
        then show ?thesis using go admitted_run_lawful [OF _ tr inv5 dW] by simp
      next
        case (Some gcode)
        then have "bind (refused_run en args d ctx token gcode) (\<lambda>run. ret (Some run)) t5 = (r, s')" using go by simp
        then show ?thesis
          by (rule bind_lawful) (use refused_run_lawful [OF _ inv5 dW] lawful_refl in auto)
      qed
    qed
  qed
qed (use world_inv lawful_refl in \<open>auto simp: start_token_def get_s_def lift_res_def split: if_splits\<close>)

lemma wf_op_lawful:
  assumes "wf_op en W s s'" and "trusted en W" and "wf_inv en W s"
  shows "lawful en W s s'"
  using assms(1)
proof cases
  case (start fuel src args ctx allowed r)
  then show ?thesis using start_lawful [OF _ assms(2,3)] by blast
next
  case (resume fuel rid ctx allowed r)
  then show ?thesis using resume_lawful [OF _ assms(2,3)] by blast
next
  case (cancel rid ctx r')
  then show ?thesis using cancel_lawful [OF _ assms(3)] by blast
next
  case (resolve fuel rid ctx choice r)
  then show ?thesis using resolve_lawful [OF _ assms(2,3)] by blast
next
  case (admin_resolve fuel audit rid admin choice reason r)
  then show ?thesis using admin_resolve_lawful [OF _ assms(2,3)] by blast
next
  case (admin_cancel audit rid admin reason r')
  then show ?thesis using admin_cancel_lawful [OF _ assms(3)] by blast
next
  case (world w)
  then show ?thesis using world_lawful [OF assms(3)] by simp
qed

lemma reachable_inv:
  assumes "trusted en W" and "\<forall>name d. wf_get wc name = Some d \<longrightarrow> d \<in> W" and "(wf_op en W)\<^sup>*\<^sup>* (fresh_store wc w) s"
  shows "wf_inv en W s"
  using assms(3)
proof (induction rule: rtranclp_induct)
  case base
  then show ?case using assms(2) by (simp add: wf_inv_def fresh_store_def run_get_def)
next
  case (step s t)
  then show ?case using wf_op_lawful [OF step(2) assms(1) step(3)] by (simp add: lawful_def)
qed


section \<open>Properties\<close>

text \<open>The small service of \<^verbatim>\<open>Small_Workflow\<close>, before and after its run.\<close>

lemma small_trusted: "trusted small_engine {small_def}"
  and small_known: "\<forall>name d. wf_get small_catalog name = Some d \<longrightarrow> d \<in> {small_def}"
  by (auto simp: trusted_def wf_get_def small_catalog_def split: if_splits)

lemma small_started: "(wf_op small_engine {small_def})\<^sup>*\<^sup>* (fresh_store small_catalog ()) (small_store small_run (first_rows small_def))"
  and small_completed: "(wf_op small_engine {small_def})\<^sup>*\<^sup>* (fresh_store small_catalog ()) (small_store seen_run rows_2)"
proof -
  have "fresh_store small_catalog () = empty_store" by (simp add: fresh_store_def empty_store_def)
  then show "(wf_op small_engine {small_def})\<^sup>*\<^sup>* (fresh_store small_catalog ()) (small_store small_run (first_rows small_def))"
    "(wf_op small_engine {small_def})\<^sup>*\<^sup>* (fresh_store small_catalog ()) (small_store seen_run rows_2)"
    using wf_op.start [OF started_small] wf_op.start [OF completed_small] by auto
qed

lemma seen_run_sel: "wr_id seen_run = ''r''" "wr_status seen_run = W_completed" "wr_actor seen_run = ''ann''"
  by (simp_all add: seen_run_def)

lemma small_rows: "seen_row 0 \<in> set rows_2" "seen_row 1 \<in> set rows_2"
  by (simp_all add: rows_2_def)

lemma reachable_run:
  assumes "trusted en W" and "\<forall>name d. wf_get wc name = Some d \<longrightarrow> d \<in> W" and "(wf_op en W)\<^sup>*\<^sup>* (fresh_store wc w) s"
    and "run_get (ws_runs s) rid = Some run" and "r \<in> set (ws_steps s rid)"
  obtains d where "d \<in> W" "checksum (en_sha en) (en_frepr en) d = wr_checksum run" "good_rows d (ws_steps s rid)"
      "wr_status run = W_completed \<Longrightarrow> all_done d (ws_steps s rid)"
proof -
  have "run_ok en W run (ws_steps s rid)"
    using reachable_inv [OF assms(1-3)] assms(4) by (simp add: wf_inv_def)
  then show thesis using that assms(5) by (auto simp: run_ok_def)
qed

text \<open>C5. Whatever was started, resumed, cancelled or resolved, by whom and how often, and wherever a process
  ended: no step of a workflow run is ever started twice, and exactly the steps that are pending or
  were skipped by their condition were never started.\<close>

theorem steps_start_once:
  assumes "trusted en W" and "\<forall>name d. wf_get wc name = Some d \<longrightarrow> d \<in> W" and "(wf_op en W)\<^sup>*\<^sup>* (fresh_store wc w) s"
    and "run_get (ws_runs s) rid = Some run" and "r \<in> set (ws_steps s rid)"
  shows "sr_attempt r \<le> 1 \<and> (sr_attempt r = 0 \<longleftrightarrow> sr_status r \<in> {W_pending, W_skipped_conditional})"
proof -
  obtain d where "good_rows d (ws_steps s rid)" by (rule reachable_run [OF assms])
  then have "row_ok r" using good_row(3) assms(5) by blast
  then show ?thesis by (auto simp: row_ok_def split: if_splits)
qed

lemma steps_start_once_witness:
  "sr_attempt (seen_row 0) \<le> 1 \<and> (sr_attempt (seen_row 0) = 0 \<longleftrightarrow> sr_status (seen_row 0) \<in> {W_pending, W_skipped_conditional})"
  by (rule steps_start_once [OF small_trusted small_known small_completed, where rid = "''r''" and run = seen_run])
    (simp_all add: seen_run_sel small_rows)

text \<open>C6. In every reachable store, a step that has left the pending state has all its dependencies behind it:
  each step it depends on, in the definition that the run is pinned to, is completed or skipped.\<close>

theorem steps_follow_dependencies:
  assumes "trusted en W" and "\<forall>name d. wf_get wc name = Some d \<longrightarrow> d \<in> W" and "(wf_op en W)\<^sup>*\<^sup>* (fresh_store wc w) s"
    and "run_get (ws_runs s) rid = Some run" and "r \<in> set (ws_steps s rid)" and "sr_status r \<noteq> W_pending"
  shows "\<exists>d \<in> W. checksum (en_sha en) (en_frepr en) d = wr_checksum run
     \<and> st_id (wd_steps d ! sr_index r) = sr_step_id r
     \<and> (\<forall>dep \<in> set (st_depends_on (wd_steps d ! sr_index r)). \<exists>x \<in> set (ws_steps s rid). sr_step_id x = dep \<and> dep_settled (sr_status x))"
proof -
  obtain d where d: "d \<in> W" "checksum (en_sha en) (en_frepr en) d = wr_checksum run" "good_rows d (ws_steps s rid)"
    by (rule reachable_run [OF assms(1-5)])
  have "\<exists>x \<in> set (ws_steps s rid). sr_step_id x = dep \<and> dep_settled (sr_status x)"
    if dep: "dep \<in> set (st_depends_on (wd_steps d ! sr_index r))" for dep
  proof -
    obtain i where i: "by_id d dep = Some i" "dep_settled (status_at (ws_steps s rid) i)"
      using good_row(4) [OF d(3) assms(5,6)] dep by (auto simp: deps_ok_def list_all_iff split: option.splits)
    then obtain x where x: "row_at (ws_steps s rid) i = Some x" "dep_settled (sr_status x)"
      by (auto simp: status_at_def dep_settled_def split: option.splits)
    then have "x \<in> set (ws_steps s rid)" "sr_index x = i" using row_at_Some by blast+
    then show ?thesis using x(2) good_row(5) [OF d(3)] by_id_Some [OF i(1)] by fastforce
  qed
  then show ?thesis using d good_row(5) [OF d(3) assms(5)] by auto
qed

lemma steps_follow_dependencies_witness:
  "\<exists>x \<in> set rows_2. sr_step_id x = ''first'' \<and> dep_settled (sr_status x)"
proof -
  have "sr_index (seen_row 1) = 1" "st_depends_on (wd_steps small_def ! 1) = [''first'']"
    by (simp_all add: seen_row_def first_row_def new_row_def small_def_def Let_def)
  moreover have "sr_status (seen_row 1) = W_completed" by (simp add: seen_row_def)
  ultimately show ?thesis
    using steps_follow_dependencies [OF small_trusted small_known small_completed, where rid = "''r''" and run = seen_run and r = "seen_row 1"]
    by (fastforce simp add: seen_run_sel small_rows simp del: One_nat_def)
qed

text \<open>A run that is completed has no step left and none of unknown outcome: every step is completed or
  skipped, or failed without an error code, which the engine writes only for a step denied by policy.\<close>

theorem completed_run_is_done:
  assumes "trusted en W" and "\<forall>name d. wf_get wc name = Some d \<longrightarrow> d \<in> W" and "(wf_op en W)\<^sup>*\<^sup>* (fresh_store wc w) s"
    and "run_get (ws_runs s) rid = Some run" and "r \<in> set (ws_steps s rid)" and "wr_status run = W_completed"
  shows "sr_status r \<in> {W_completed, W_skipped, W_skipped_conditional} \<or> (sr_status r = W_failed \<and> \<not> truthy (sr_error_code r))"
proof -
  obtain d where d: "good_rows d (ws_steps s rid)" "all_done d (ws_steps s rid)"
    using reachable_run [OF assms(1-5)] assms(6) by metis
  have "dep_settled (sr_status r) \<or> sr_status r = W_cancelled \<or> (sr_status r = W_failed \<and> \<not> truthy (sr_error_code r))"
    using d(2) good_row(1,2) [OF d(1) assms(5)] by (auto simp: all_done_def)
  moreover have "sr_status r \<noteq> W_cancelled" using good_row(3) [OF d(1) assms(5)] by (simp add: row_ok_def)
  ultimately show ?thesis by (auto simp: dep_settled_def)
qed

lemma completed_run_is_done_witness:
  "sr_status (seen_row 1) \<in> {W_completed, W_skipped, W_skipped_conditional}
     \<or> (sr_status (seen_row 1) = W_failed \<and> \<not> truthy (sr_error_code (seen_row 1)))"
  by (rule completed_run_is_done [OF small_trusted small_known small_completed, where rid = "''r''" and run = seen_run])
    (simp_all add: seen_run_sel small_rows del: One_nat_def)







section \<open>What the model shows besides\<close>

text \<open>A confirmation that is denied, for a step that stops on denial, ends the engine without a change of the
  run: it waits for ever.\<close>

lemma denied_run_keeps_waiting:
  assumes "sr_confirmation row = Some cid" and "cid \<noteq> []"
    and "en_confirmation en cid (ws_world s) = (Inr (Some c), w)" and "cf_status c = STATUS_DENIED"
    and "step_def_for en run (sr_index row) (s\<lparr>ws_world := w\<rparr>) = (Inr (Some sd), s1)" and "st_on_denied sd = ''stop''"
  shows "reconcile en run ctx ch (row # rows) s = (Inr None, s1)" and "ws_steps s1 i = ws_steps s i"
    and "rel_option same_run (run_get (ws_runs s) i) (run_get (ws_runs s1) i)"
proof -
  show "reconcile en run ctx ch (row # rows) s = (Inr None, s1)"
    using assms by (simp add: handle_waiting_def denied_step_def bind_def outside_def ret_def)
  have "quiet i (s\<lparr>ws_world := w\<rparr>) s1" by (rule silentD [OF silent_step_def_for assms(5)])
  then show "ws_steps s1 i = ws_steps s i" "rel_option same_run (run_get (ws_runs s) i) (run_get (ws_runs s1) i)"
    by (simp_all add: quiet_def runs_kept_def)
qed

text \<open>A run that fails its step budget releases its slots twice.\<close>

lemma budget_failure_releases_twice:
  assumes "en_governance en = Some gs" and "run_get (ws_runs s) rid = Some run"
    and "seq (set_run_budget_failed en rid msg) (set_run_failed en rid msg') s = (r, s')"
    and "release_start (wr_actor run) (wr_workflow run) (ws_counters s) = Inr t"
    and "release_start (wr_actor run) (wr_workflow run) t = Inr t'"
  shows "ws_counters s' = t'"
proof -
  have id: "wr_id run = rid" by (rule runs.get_key [OF assms(2)])
  obtain t1 w1 where 1: "en_utcnow en (ws_world s) = (t1, w1)" by (metis surj_pair)
  obtain t2 w2 where 2: "en_utcnow en w1 = (t2, w2)" by (metis surj_pair)
  obtain t3 w3 where 3: "en_utcnow en w2 = (t3, w3)" by (metis surj_pair)
  obtain t4 w4 where 4: "en_utcnow en w3 = (t4, w4)" by (metis surj_pair)
  show ?thesis
    using assms(3) assms(1,2,4,5)
    by (simp add: set_run_budget_failed_def set_run_failed_def end_run_def bind_def seq_def ask_w_def change_run_def put_s_def
        release_governance_def run_get_update id 1 2 3 4) auto
qed

end
