(* ===== verification/Agent_Tasks.thy ===== *)
theory Agent_Tasks
  imports Execution
begin

text \<open>
  The data of an agent run: tasks (\<^verbatim>\<open>era/agents/models.py\<close>), the task manager
  (\<^verbatim>\<open>era/agents/task_manager.py\<close>), the budget (\<^verbatim>\<open>era/agents/budget.py\<close>) and the working memory
  (\<open>ShortTermMemory\<close> of \<^verbatim>\<open>era/agents/memory.py\<close>).

  The manager's dictionary is the list of its entries in insertion order.  The transitions of the manager
  change the task object they are given, which the dictionary shares; here they take its key.  Costs and
  times are exact rationals.  The ellipsis U+2026 is the character with its Windows-1252 code.
\<close>

section \<open>Tasks\<close>

datatype task_status = T_pending | T_running | T_completed | T_failed | T_retrying | T_waiting | T_skipped

record task =
  tk_id :: string
  tk_title :: string
  tk_action :: string
  tk_params :: params
  tk_status :: task_status
  tk_depends :: "string list"
  tk_verify :: "params option"
  tk_required :: bool
  tk_attempt :: int
  tk_max_attempts :: int
  tk_observations :: "json list"
  tk_waiting_on :: "string list"
  tk_note :: "string option"
  tk_error :: "string option"

type_synonym tasks = "(string \<times> task) list"

text \<open>\<open>{t.id: t for t in tasks}\<close>.\<close>

definition task_table :: "task list \<Rightarrow> tasks" where
  "task_table ts = fold (\<lambda>t. AList.update (tk_id t) t) ts []"

definition add_task :: "task \<Rightarrow> tasks \<Rightarrow> tasks" where
  "add_task t tm = (if map_of tm (tk_id t) \<noteq> None then tm else tm @ [(tk_id t, t)])"


definition pending_tasks :: "tasks \<Rightarrow> task list" where
  "pending_tasks tm = filter (\<lambda>t. tk_status t = T_pending) (map snd tm)"

definition waiting_tasks :: "tasks \<Rightarrow> task list" where
  "waiting_tasks tm = filter (\<lambda>t. tk_status t = T_waiting) (map snd tm)"

definition dep_completed :: "tasks \<Rightarrow> string \<Rightarrow> bool" where
  "dep_completed tm d = (case map_of tm d of None \<Rightarrow> False | Some t \<Rightarrow> tk_status t = T_completed)"

definition dep_terminal_failed :: "tasks \<Rightarrow> string \<Rightarrow> bool" where
  "dep_terminal_failed tm d = (case map_of tm d of None \<Rightarrow> True | Some t \<Rightarrow> tk_status t \<in> {T_failed, T_skipped})"

definition next_ready :: "tasks \<Rightarrow> task option" where
  "next_ready tm = find (\<lambda>t. tk_status t = T_pending \<and> list_all (dep_completed tm) (tk_depends t)) (map snd tm)"

definition blocked_pending :: "tasks \<Rightarrow> task list" where
  "blocked_pending tm = filter (\<lambda>t. tk_status t = T_pending \<and> list_ex (dep_terminal_failed tm) (tk_depends t)) (map snd tm)"

definition has_pending :: "tasks \<Rightarrow> bool" where
  "has_pending tm = list_ex (\<lambda>t. tk_status t = T_pending) (map snd tm)"

definition all_terminal_tasks :: "tasks \<Rightarrow> bool" where
  "all_terminal_tasks tm = list_all (\<lambda>t. tk_status t \<in> {T_completed, T_failed, T_skipped}) (map snd tm)"

definition count_status :: "task_status \<Rightarrow> tasks \<Rightarrow> nat" where
  "count_status st tm = length (filter (\<lambda>t. tk_status t = st) (map snd tm))"

section \<open>Transitions\<close>

definition on_task :: "string \<Rightarrow> (task \<Rightarrow> task) \<Rightarrow> tasks \<Rightarrow> tasks" where
  "on_task i f tm = map (\<lambda>(k, t). (k, if k = i then f t else t)) tm"

definition mark_running :: "task \<Rightarrow> task" where
  "mark_running t = t\<lparr>tk_status := T_running\<rparr>"

definition complete_task :: "task \<Rightarrow> task" where
  "complete_task t = t\<lparr>tk_status := T_completed\<rparr>"

definition fail_task :: "string \<Rightarrow> task \<Rightarrow> task" where
  "fail_task err t = t\<lparr>tk_status := T_failed, tk_error := Some (take 500 err)\<rparr>"

definition skip_task :: "string \<Rightarrow> task \<Rightarrow> task" where
  "skip_task reason t = t\<lparr>tk_status := T_skipped, tk_error := Some (take 500 reason)\<rparr>"

text \<open>At the cap only the count of attempts has changed.\<close>

definition retry_task :: "string \<Rightarrow> task \<Rightarrow> task" where
  "retry_task note t =
     (let t' = t\<lparr>tk_attempt := tk_attempt t + 1\<rparr>
      in if tk_max_attempts t' \<le> tk_attempt t' then t'
         else t'\<lparr>tk_note := Some (take 500 note), tk_status := T_pending\<rparr>)"

definition retry_allowed :: "task \<Rightarrow> bool" where
  "retry_allowed t = (tk_attempt t + 1 < tk_max_attempts t)"

definition pause_task :: "string \<Rightarrow> task \<Rightarrow> task" where
  "pause_task cid t = t\<lparr>tk_status := T_waiting,
     tk_waiting_on := (if cid \<in> set (tk_waiting_on t) then tk_waiting_on t else tk_waiting_on t @ [cid])\<rparr>"

definition resolve_wait :: "string \<Rightarrow> string \<Rightarrow> task \<Rightarrow> task" where
  "resolve_wait outcome note t =
     (if outcome = ''executed'' then t\<lparr>tk_status := T_completed\<rparr>
      else t\<lparr>tk_status := T_failed, tk_error := Some (if note \<noteq> [] then note else ''confirmation resolved as '' @ outcome)\<rparr>)"

definition MAX_OBSERVATIONS_PER_TASK :: nat where "MAX_OBSERVATIONS_PER_TASK = 20"

text \<open>The slice \<open>xs[-n:]\<close> of a list that is longer than \<open>n\<close>.\<close>

definition keep_last :: "nat \<Rightarrow> 'a list \<Rightarrow> 'a list" where
  "keep_last n xs = drop (length xs - n) xs"

definition observe_task :: "json \<Rightarrow> task \<Rightarrow> task" where
  "observe_task obs t = t\<lparr>tk_observations := keep_last MAX_OBSERVATIONS_PER_TASK (tk_observations t @ [obs])\<rparr>"

section \<open>The budget\<close>

record budget =
  bg_max_iterations :: int
  bg_max_tool_calls :: int
  bg_max_llm_calls :: int
  bg_timeout :: rat
  bg_cost_cap :: rat
  bg_started :: rat
  bg_iterations :: int
  bg_tool_calls :: int
  bg_llm_calls :: int
  bg_tokens :: int
  bg_cost :: rat

text \<open>The reasons for stopping, without their wording.\<close>

datatype budget_reason = TimeoutExceeded | IterationsExceeded | ToolCallsExceeded | LlmCallsExceeded | CostExceeded

definition budget_check :: "rat \<Rightarrow> budget \<Rightarrow> budget_reason option" where
  "budget_check now b =
     (if bg_timeout b < now - bg_started b then Some TimeoutExceeded
      else if bg_max_iterations b < bg_iterations b then Some IterationsExceeded
      else if bg_max_tool_calls b < bg_tool_calls b then Some ToolCallsExceeded
      else if bg_max_llm_calls b < bg_llm_calls b then Some LlmCallsExceeded
      else if bg_cost_cap b < bg_cost b then Some CostExceeded
      else None)"

definition can_llm_call :: "rat \<Rightarrow> budget \<Rightarrow> budget_reason option" where
  "can_llm_call now b = (if bg_max_llm_calls b \<le> bg_llm_calls b then Some LlmCallsExceeded else budget_check now b)"

definition record_tool_call :: "budget \<Rightarrow> budget" where
  "record_tool_call b = b\<lparr>bg_tool_calls := bg_tool_calls b + 1\<rparr>"

definition record_llm_call :: "int \<Rightarrow> rat \<Rightarrow> budget \<Rightarrow> budget" where
  "record_llm_call tokens cost b = b\<lparr>bg_llm_calls := bg_llm_calls b + 1, bg_tokens := bg_tokens b + max 0 tokens,
     bg_cost := bg_cost b + max 0 cost\<rparr>"

record usage =
  us_iterations :: int
  us_tool_calls :: int
  us_llm_calls :: int
  us_tokens :: int
  us_cost :: rat

definition restore_budget :: "usage \<Rightarrow> budget \<Rightarrow> budget" where
  "restore_budget u b = b\<lparr>bg_iterations := us_iterations u, bg_tool_calls := us_tool_calls u, bg_llm_calls := us_llm_calls u,
     bg_tokens := us_tokens u, bg_cost := us_cost u\<rparr>"

section \<open>Working memory\<close>

record memory =
  me_goal :: string
  me_facts :: params
  me_observations :: "json list"
  me_artifacts :: "string list"

definition MAX_SHORT_TERM_OBSERVATIONS :: nat where "MAX_SHORT_TERM_OBSERVATIONS = 200"
definition MAX_SHORT_TERM_FACTS :: nat where "MAX_SHORT_TERM_FACTS = 500"
definition MAX_FACT_VALUE_CHARS :: nat where "MAX_FACT_VALUE_CHARS = 20000"
definition MAX_OBSERVATION_STR :: nat where "MAX_OBSERVATION_STR = 4000"

definition cut_text :: "nat \<Rightarrow> string \<Rightarrow> string" where
  "cut_text n s = (if length s \<le> n then s else take n s @ [CHR 0x85])"

fun bounded_value :: "nat \<Rightarrow> json \<Rightarrow> json" where
  "bounded_value d v =
     (if d > 5 then JStr ''[truncated]''
      else case v of
        JStr s \<Rightarrow> JStr (cut_text MAX_OBSERVATION_STR s)
      | JObj kvs \<Rightarrow> JObj (map (\<lambda>(k, x). (k, bounded_value (d + 1) x)) kvs)
      | JList xs \<Rightarrow> JList (take 100 (map (bounded_value (d + 1)) xs))
      | _ \<Rightarrow> v)"

declare bounded_value.simps [simp del]

definition new_memory :: "string \<Rightarrow> memory" where
  "new_memory goal = \<lparr>me_goal = goal, me_facts = [], me_observations = [], me_artifacts = []\<rparr>"

definition remember :: "string \<Rightarrow> json \<Rightarrow> memory \<Rightarrow> memory" where
  "remember k v m =
     (if MAX_SHORT_TERM_FACTS \<le> length (me_facts m) \<and> \<not> has_key (me_facts m) k then m
      else m\<lparr>me_facts := AList.update k (case v of JStr s \<Rightarrow> JStr (cut_text MAX_FACT_VALUE_CHARS s) | _ \<Rightarrow> v) (me_facts m)\<rparr>)"

definition recall :: "string \<Rightarrow> memory \<Rightarrow> json" where
  "recall k m = get_param (me_facts m) k"

definition note_observation :: "json \<Rightarrow> memory \<Rightarrow> memory" where
  "note_observation obs m =
     m\<lparr>me_observations := keep_last MAX_SHORT_TERM_OBSERVATIONS (me_observations m @ [bounded_value 0 obs])\<rparr>"

definition record_artifact :: "string \<Rightarrow> memory \<Rightarrow> memory" where
  "record_artifact a m = (if a \<in> set (me_artifacts m) then m else m\<lparr>me_artifacts := me_artifacts m @ [a]\<rparr>)"

text \<open>\<open>str\<close> of a path that is not a string is a parameter.\<close>

definition truthy_json :: "json \<Rightarrow> bool" where
  "truthy_json v = (case v of JNull \<Rightarrow> False | JBool b \<Rightarrow> b | JInt i \<Rightarrow> i \<noteq> 0 | JFloat f \<Rightarrow> f \<noteq> Fin 0
     | JStr s \<Rightarrow> s \<noteq> [] | JList xs \<Rightarrow> xs \<noteq> [] | JObj kvs \<Rightarrow> kvs \<noteq> [])"

definition path_artifact :: "(json \<Rightarrow> string) \<Rightarrow> json \<Rightarrow> memory \<Rightarrow> memory" where
  "path_artifact str p m =
     (if truthy_json p then record_artifact (case p of JStr s \<Rightarrow> s | _ \<Rightarrow> str p) m else m)"

definition rebuild_task :: "(json \<Rightarrow> string) \<Rightarrow> task \<Rightarrow> memory \<Rightarrow> memory" where
  "rebuild_task str t m =
     (let m' = fold note_observation (tk_observations t) m
      in if tk_action t = ''fs.write'' \<and> tk_status t = T_completed then path_artifact str (get_param (tk_params t) ''path'') m'
         else m')"

definition rebuild_memory :: "(json \<Rightarrow> string) \<Rightarrow> task list \<Rightarrow> memory \<Rightarrow> memory" where
  "rebuild_memory str ts m = fold (rebuild_task str) ts m"

end
