(* ===== verification/Agent_Loop.thy ===== *)
theory Agent_Loop
  imports Agent_Tasks
begin

text \<open>
  Model of the agent loop, \<^verbatim>\<open>era/agents/loop.py\<close>.

  The state holds the tasks, the budget, the working memory, the events emitted and a world \<open>'w\<close>.  The
  planner, the brain, the verifier, the operator, the execution service, the long-term memory and the
  clock are operations on the world.  The brain changes the budget only by the model calls it records,
  which it returns.  \<open>ag_calls\<close> is the history of the requests made, kept for the statements.
  A sink's exceptions are dropped, and of the events the loop itself keeps the last 500; here they are
  all kept.  The plan of a run record, which shares its task objects, is left out of it.  The dash U+2014 of
  the summaries is the character with its Windows-1252 code.
\<close>

section \<open>The state\<close>

datatype run_status = R_planning | R_running | R_waiting | R_completed | R_failed | R_budget_exceeded

record observation =
  ob_task :: string
  ob_action :: string
  ob_status :: exec_status
  ob_summary :: string
  ob_data :: params
  ob_confirmation :: "string option"
  ob_challenge :: "string option"
  ob_error :: "string option"

record tool_call =
  tc_action :: string
  tc_params :: params

record task_verdict =
  vd_ok :: bool
  vd_reason :: string

record plan =
  pl_goal :: string
  pl_summary :: string
  pl_tasks :: "task list"
  pl_created_by :: string

datatype run_note = StoppedBy budget_reason | PausedForApproval | SomeFailed nat | SomeSkipped nat

datatype agent_event =
    RunStarted string bool
  | PlanCreated string nat string
  | TaskStarted string string string int bool
  | ToolCalled string string params
  | Observed string string string "string option" "string option"
  | ConfirmationRequired string string "string option" decision "string option" params
  | VerdictGiven string bool string
  | TaskRetrying string string int
  | TaskCompleted string "string option"
  | TaskFailed string string
  | TaskSkipped string "string option"
  | RunFinished run_status string "string list" "string list"

record 'w agent =
  ag_tasks :: tasks
  ag_budget :: budget
  ag_memory :: memory
  ag_replans :: int
  ag_events :: "agent_event list"
  ag_calls :: "action list"
  ag_world :: 'w

datatype approval_choice = Approve | Deny | Wait

type_synonym 'a thinking = "(py_exc, 'a) result \<times> (int \<times> rat) list"

text \<open>\<open>ae_registry\<close>: the non-retryable action types of the provider registered for an action type.\<close>

record 'w agent_env =
  ae_request :: "action \<Rightarrow> exec_ctx \<Rightarrow> ('w, response) comp"
  ae_approve :: "string \<Rightarrow> action \<Rightarrow> exec_ctx \<Rightarrow> string option \<Rightarrow> ('w, response) comp"
  ae_catalog :: catalog
  ae_registry :: "string \<Rightarrow> string set option"
  ae_guard :: "(string \<Rightarrow> bool) option"
  ae_operator :: "(action \<Rightarrow> response \<Rightarrow> 'w \<Rightarrow> approval_choice option \<times> 'w) option"
  ae_monotonic :: "'w \<Rightarrow> rat \<times> 'w"
  ae_prepare :: "task \<Rightarrow> memory \<Rightarrow> budget \<Rightarrow> 'w \<Rightarrow> params thinking \<times> 'w"
  ae_propose :: "task \<Rightarrow> memory \<Rightarrow> params \<Rightarrow> budget \<Rightarrow> 'w \<Rightarrow> tool_call list thinking \<times> 'w"
  ae_plan :: "string \<Rightarrow> ('w, plan) comp"
  ae_repair :: "task \<Rightarrow> string \<Rightarrow> ('w, task list) comp"
  ae_verify :: "task \<Rightarrow> observation option \<Rightarrow> ('w, task_verdict) comp"
  ae_long_term :: "(string \<Rightarrow> string \<Rightarrow> string \<Rightarrow> json \<Rightarrow> ('w, unit) comp) option"
  ae_subject :: "string \<Rightarrow> string"
  ae_str :: "json \<Rightarrow> string"
  ae_max_replans :: int
  ae_run_id :: string

type_synonym ('w, 'a) act = "('w agent, 'a) comp"

definition reads :: "('w agent \<Rightarrow> 'a) \<Rightarrow> ('w, 'a) act" where
  "reads f s = (Inr (f s), s)"

definition updates :: "('w agent \<Rightarrow> 'w agent) \<Rightarrow> ('w, unit) act" where
  "updates f s = (Inr (), f s)"

definition asks :: "('w \<Rightarrow> 'a \<times> 'w) \<Rightarrow> ('w, 'a) act" where
  "asks f s = (case f (ag_world s) of (x, w) \<Rightarrow> (Inr x, s\<lparr>ag_world := w\<rparr>))"

definition calls_out :: "('w, 'a) comp \<Rightarrow> ('w, 'a) act" where
  "calls_out m s = (case m (ag_world s) of (r, w) \<Rightarrow> (r, s\<lparr>ag_world := w\<rparr>))"

definition emit :: "agent_event \<Rightarrow> ('w, unit) act" where
  "emit ev = updates (\<lambda>s. s\<lparr>ag_events := ag_events s @ [ev]\<rparr>)"

definition change_task :: "string \<Rightarrow> (task \<Rightarrow> task) \<Rightarrow> ('w, unit) act" where
  "change_task i f = updates (\<lambda>s. s\<lparr>ag_tasks := on_task i f (ag_tasks s)\<rparr>)"

definition change_memory :: "(memory \<Rightarrow> memory) \<Rightarrow> ('w, unit) act" where
  "change_memory f = updates (\<lambda>s. s\<lparr>ag_memory := f (ag_memory s)\<rparr>)"

definition change_budget :: "(budget \<Rightarrow> budget) \<Rightarrow> ('w, unit) act" where
  "change_budget f = updates (\<lambda>s. s\<lparr>ag_budget := f (ag_budget s)\<rparr>)"

text \<open>The task object in its present state.\<close>

definition the_task :: "string \<Rightarrow> ('w, task) act" where
  "the_task i = bind (reads (\<lambda>s. map_of (ag_tasks s) i)) (\<lambda>t. case t of
       None \<Rightarrow> raise_exc (OtherExc ''KeyError'') | Some t \<Rightarrow> ret t)"

section \<open>Observations\<close>

fun exec_status_text :: "exec_status \<Rightarrow> string" where
  "exec_status_text St_executed = ''executed''"
| "exec_status_text St_failed = ''failed''"
| "exec_status_text St_rejected = ''rejected''"
| "exec_status_text St_confirmation_required = ''confirmation_required''"
| "exec_status_text St_awaiting_approval = ''awaiting_approval''"
| "exec_status_text St_denied = ''denied''"

definition or_empty :: "string option \<Rightarrow> string" where
  "or_empty x = (case x of None \<Rightarrow> [] | Some s \<Rightarrow> s)"

definition observation_of :: "string \<Rightarrow> string \<Rightarrow> response \<Rightarrow> observation" where
  "observation_of tid a resp =
     \<lparr>ob_task = tid, ob_action = a, ob_status = rs_status resp,
      ob_summary = (case rs_result resp of Some res \<Rightarrow> if ar_summary res \<noteq> [] then ar_summary res else or_empty (rs_message resp)
                    | None \<Rightarrow> or_empty (rs_message resp)),
      ob_data = (case rs_result resp of Some res \<Rightarrow> ar_data res | None \<Rightarrow> []),
      ob_confirmation = rs_confirmation_id resp, ob_challenge = rs_challenge resp,
      ob_error = (if rs_status resp \<in> {St_failed, St_rejected, St_denied} then rs_message resp else None)\<rparr>"

definition opt_text :: "string option \<Rightarrow> json" where
  "opt_text x = (case x of None \<Rightarrow> JNull | Some s \<Rightarrow> JStr s)"

definition observation_json :: "observation \<Rightarrow> json" where
  "observation_json ob = JObj [(''task_id'', JStr (ob_task ob)), (''action_type'', JStr (ob_action ob)),
     (''status'', JStr (exec_status_text (ob_status ob))), (''summary'', JStr (ob_summary ob)), (''data'', JObj (ob_data ob)),
     (''confirmation_id'', opt_text (ob_confirmation ob)), (''challenge'', opt_text (ob_challenge ob)),
     (''error'', opt_text (ob_error ob))]"

definition short_obs :: "string \<Rightarrow> string \<Rightarrow> string \<Rightarrow> string \<Rightarrow> json" where
  "short_obs tid a st err = JObj [(''task_id'', JStr tid), (''action_type'', JStr a), (''status'', JStr st),
     (''summary'', JStr []), (''error'', JStr err)]"

definition SUMMARY_STR_LIMIT :: nat where "SUMMARY_STR_LIMIT = 200"

definition summarize_value :: "json \<Rightarrow> json" where
  "summarize_value v = (case v of
       JStr s \<Rightarrow> if SUMMARY_STR_LIMIT < length s then JStr (''<str:'' @ show_nat (length s) @ '' chars>'') else JStr s
     | _ \<Rightarrow> v)"

definition summarize_params :: "params \<Rightarrow> string set \<Rightarrow> params" where
  "summarize_params ps secret = map (\<lambda>(k, v). (k, summarize_value v)) (redact_params secret ps)"

definition event_params :: "('w, 'z) agent_env_scheme \<Rightarrow> string \<Rightarrow> params \<Rightarrow> params" where
  "event_params env a ps = summarize_params ps
     (case catalog_get (ae_catalog env) a of Some spec \<Rightarrow> as_secret_fields spec | None \<Rightarrow> {})"

definition note_outcome :: "string \<Rightarrow> observation \<Rightarrow> ('w, unit) act" where
  "note_outcome i ob = seq (change_task i (observe_task (observation_json ob)))
     (seq (change_memory (note_observation (observation_json ob)))
       (emit (Observed i (ob_action ob) (exec_status_text (ob_status ob)) (Some (ob_summary ob)) (ob_error ob))))"

section \<open>The gates\<close>

definition is_str :: "json \<Rightarrow> bool" where
  "is_str v = (case v of JStr _ \<Rightarrow> True | _ \<Rightarrow> False)"

definition gate_reject :: "('w, 'z) agent_env_scheme \<Rightarrow> tool_call \<Rightarrow> string option" where
  "gate_reject env c = (let a = tc_action c in case catalog_get (ae_catalog env) a of
       None \<Rightarrow> Some (''unknown action type: '' @ a)
     | Some spec \<Rightarrow>
         if as_risk spec = FORBIDDEN then Some (''action is permanently forbidden: '' @ a)
         else if ae_registry env a = None then Some (''no provider registered for '' @ a)
         else if (case ae_guard env of None \<Rightarrow> False | Some g \<Rightarrow> \<not> g a) then Some (''action not allowed for this role: '' @ a)
         else if a = ''browser.fill'' \<and> is_str (get_param (tc_params c) ''text'')
         then Some ''agent browser.fill requires a vault-backed value_ref''
         else None)"

definition automatic_retry_allowed :: "('w, 'z) agent_env_scheme \<Rightarrow> string \<Rightarrow> bool" where
  "automatic_retry_allowed env a = (case ae_registry env a of None \<Rightarrow> True | Some no_retry \<Rightarrow> a \<notin> no_retry)"

definition run_gate :: "('w, 'z) agent_env_scheme \<Rightarrow> ('w, budget_reason option) act" where
  "run_gate env = bind (asks (ae_monotonic env)) (\<lambda>t. reads (\<lambda>s. budget_check t (ag_budget s)))"

definition tool_gate :: "('w, 'z) agent_env_scheme \<Rightarrow> ('w, budget_reason option) act" where
  "tool_gate env = bind (reads (\<lambda>s. bg_max_tool_calls (ag_budget s) \<le> bg_tool_calls (ag_budget s))) (\<lambda>spent.
     if spent then ret (Some ToolCallsExceeded) else run_gate env)"

definition ask_operator :: "('w, 'z) agent_env_scheme \<Rightarrow> action \<Rightarrow> response \<Rightarrow> ('w, approval_choice) act" where
  "ask_operator env act resp = (case ae_operator env of
       None \<Rightarrow> ret Wait
     | Some f \<Rightarrow> bind (asks (f act resp)) (\<lambda>c. ret (case c of None \<Rightarrow> Wait | Some choice \<Rightarrow> choice)))"

section \<open>The end of a run\<close>

record agent_result =
  rr_status :: run_status
  rr_goal :: string
  rr_summary :: string
  rr_completed :: nat
  rr_failed :: nat
  rr_skipped :: nat
  rr_usage :: usage
  rr_artifacts :: "string list"
  rr_notes :: "run_note list"

record run_record =
  rc_run_id :: string
  rc_actor :: string
  rc_goal :: string
  rc_status :: run_status
  rc_tasks :: "task list"
  rc_result :: agent_result
  rc_pending :: "string list"

definition pending_ids :: "tasks \<Rightarrow> string list" where
  "pending_ids tm = fold (\<lambda>c ids. if c \<in> set ids then ids else ids @ [c]) (concat (map tk_waiting_on (waiting_tasks tm))) []"

definition final_status :: "run_status \<Rightarrow> tasks \<Rightarrow> run_status" where
  "final_status forced tm =
     (if forced = R_budget_exceeded then forced
      else if forced = R_waiting \<or> waiting_tasks tm \<noteq> [] then R_waiting
      else if list_ex (\<lambda>t. tk_required t \<and> tk_status t \<in> {T_failed, T_skipped}) (map snd tm) then R_failed
      else R_completed)"

text \<open>\<open>round(x, 6)\<close>: ties to even.\<close>

definition round_even :: "rat \<Rightarrow> int" where
  "round_even y = (let f = \<lfloor>y\<rfloor>; d = y - of_int f
     in if d < 1 / 2 then f else if 1 / 2 < d then f + 1 else if even f then f else f + 1)"

definition round6 :: "rat \<Rightarrow> rat" where
  "round6 x = of_int (round_even (x * 1000000)) / 1000000"

definition usage_of :: "budget \<Rightarrow> usage" where
  "usage_of b = \<lparr>us_iterations = bg_iterations b, us_tool_calls = bg_tool_calls b, us_llm_calls = bg_llm_calls b,
     us_tokens = bg_tokens b, us_cost = round6 (bg_cost b)\<rparr>"

definition status_head :: "run_status \<Rightarrow> string" where
  "status_head st = (case st of
       R_completed \<Rightarrow> ''Goal completed and verified''
     | R_failed \<Rightarrow> ''Goal not fully completed '' @ [CHR 0x97] @ '' some required tasks failed''
     | R_waiting \<Rightarrow> ''Run paused '' @ [CHR 0x97] @ '' waiting for user approval''
     | R_budget_exceeded \<Rightarrow> ''Run stopped '' @ [CHR 0x97] @ '' budget exceeded''
     | R_planning \<Rightarrow> ''planning'' | R_running \<Rightarrow> ''running'')"

definition summarise :: "string \<Rightarrow> run_status \<Rightarrow> nat \<Rightarrow> nat \<Rightarrow> nat \<Rightarrow> string" where
  "summarise plan_summary st completed failed skipped = status_head st @ ''. '' @ plan_summary
     @ '' [completed='' @ show_nat completed @ '', failed='' @ show_nat failed @ '', skipped='' @ show_nat skipped @ '']''"

definition result_of ::
  "string \<Rightarrow> string \<Rightarrow> tasks \<Rightarrow> budget \<Rightarrow> memory \<Rightarrow> run_status \<Rightarrow> run_note list \<Rightarrow> agent_result" where
  "result_of goal plan_summary tm b m forced notes =
     (let st = final_status forced tm;
          failed = count_status T_failed tm; skipped = count_status T_skipped tm
      in \<lparr>rr_status = st, rr_goal = goal, rr_summary = summarise plan_summary st (count_status T_completed tm) failed skipped,
          rr_completed = count_status T_completed tm, rr_failed = failed, rr_skipped = skipped, rr_usage = usage_of b,
          rr_artifacts = sort (me_artifacts m),
          rr_notes = notes @ (if failed = 0 then [] else [SomeFailed failed]) @ (if skipped = 0 then [] else [SomeSkipped skipped])\<rparr>)"

definition final_record ::
  "('w, 'z) agent_env_scheme \<Rightarrow> string \<Rightarrow> exec_ctx \<Rightarrow> string \<Rightarrow> run_status \<Rightarrow> run_note list \<Rightarrow> 'w agent \<Rightarrow> run_record" where
  "final_record env goal ctx plan_summary forced notes s =
     (let res = result_of goal plan_summary (ag_tasks s) (ag_budget s) (ag_memory s) forced notes
      in \<lparr>rc_run_id = ae_run_id env, rc_actor = actor_id ctx, rc_goal = goal, rc_status = rr_status res,
          rc_tasks = map snd (ag_tasks s), rc_result = res,
          rc_pending = (if rr_status res = R_waiting then pending_ids (ag_tasks s) else [])\<rparr>)"

definition final ::
  "('w, 'z) agent_env_scheme \<Rightarrow> string \<Rightarrow> exec_ctx \<Rightarrow> string \<Rightarrow> run_status \<Rightarrow> run_note list \<Rightarrow> ('w, run_record) act" where
  "final env goal ctx plan_summary forced notes =
     bind (reads (final_record env goal ctx plan_summary forced notes)) (\<lambda>rc.
       seq (emit (RunFinished (rc_status rc) (rr_summary (rc_result rc)) (rr_artifacts (rc_result rc)) (rc_pending rc)))
           (ret rc))"

section \<open>One task\<close>

definition apply_usage :: "(int \<times> rat) list \<Rightarrow> budget \<Rightarrow> budget" where
  "apply_usage uses b = fold (\<lambda>(tokens, cost). record_llm_call tokens cost) uses b"

definition thinks :: "(task \<Rightarrow> memory \<Rightarrow> budget \<Rightarrow> 'w \<Rightarrow> 'a thinking \<times> 'w) \<Rightarrow> string \<Rightarrow> ('w, 'a) act" where
  "thinks f i = bind (the_task i) (\<lambda>t s. case f t (ag_memory s) (ag_budget s) (ag_world s) of
       ((r, uses), w) \<Rightarrow> (r, s\<lparr>ag_world := w, ag_budget := apply_usage uses (ag_budget s)\<rparr>))"

text \<open>The calls that the brain proposes, or the message of its \<open>ToolError\<close>.\<close>

definition prepare_calls :: "('w, 'z) agent_env_scheme \<Rightarrow> string \<Rightarrow> ('w, string + tool_call list) act" where
  "prepare_calls env i s =
     (case bind (thinks (ae_prepare env) i) (\<lambda>ps. thinks (\<lambda>t m. ae_propose env t m ps) i) s of
        (Inl (ToolErr e), s') \<Rightarrow> (Inr (Inl (te_message e)), s')
      | (Inl (OtherExc x), s') \<Rightarrow> (Inl (OtherExc x), s')
      | (Inr proposed, s') \<Rightarrow> (Inr (Inr proposed), s'))"

definition fail_now :: "string \<Rightarrow> string \<Rightarrow> ('w, unit) act" where
  "fail_now i err = seq (change_task i (fail_task err)) (bind (the_task i) (\<lambda>t.
     emit (TaskFailed i (if or_empty (tk_error t) = [] then err else or_empty (tk_error t)))))"

definition retry_now :: "string \<Rightarrow> string \<Rightarrow> ('w, unit) act" where
  "retry_now i reason = seq (change_task i (retry_task reason)) (bind (the_task i) (\<lambda>t.
     seq (emit (TaskRetrying i reason (tk_attempt t)))
         (change_memory (note_observation (short_obs i (tk_action t) ''retrying'' reason)))))"

definition settle_failure :: "string \<Rightarrow> string \<Rightarrow> ('w, unit) act" where
  "settle_failure i err = bind (the_task i) (\<lambda>t.
     if retry_allowed t then retry_now i err
     else seq (change_task i (fail_task err)) (emit (TaskFailed i err)))"

definition brain_failed :: "string \<Rightarrow> string \<Rightarrow> ('w, unit) act" where
  "brain_failed i err = bind (the_task i) (\<lambda>t.
     seq (change_task i (observe_task (short_obs i (tk_action t) ''failed'' err)))
    (seq (emit (Observed i (tk_action t) ''failed'' None (Some err)))
         (settle_failure i err)))"

definition gate_failed :: "string \<Rightarrow> string \<Rightarrow> string \<Rightarrow> ('w, unit) act" where
  "gate_failed i a reason =
     seq (change_task i (fail_task reason))
    (seq (change_task i (observe_task (short_obs i a ''denied'' reason)))
    (seq (emit (Observed i a ''denied'' None (Some reason)))
         (emit (TaskFailed i reason))))"

datatype calls_end = Settled "observation option" | OperatorDenied | Paused | OutOfBudget budget_reason

definition make_request :: "('w, 'z) agent_env_scheme \<Rightarrow> action \<Rightarrow> exec_ctx \<Rightarrow> ('w, response) act" where
  "make_request env act ctx =
     seq (updates (\<lambda>s. s\<lparr>ag_calls := ag_calls s @ [act]\<rparr>)) (calls_out (ae_request env act ctx))"

definition confirm_call ::
  "('w, 'z) agent_env_scheme \<Rightarrow> exec_ctx \<Rightarrow> string \<Rightarrow> action \<Rightarrow> response \<Rightarrow> ('w, observation + calls_end) act" where
  "confirm_call env ctx i act resp =
     seq (emit (ConfirmationRequired i (action_type act) (rs_confirmation_id resp) (rs_decision resp) (rs_challenge resp)
                  (event_params env (action_type act) (a_params act))))
    (bind (ask_operator env act resp) (\<lambda>choice. case choice of
       Wait \<Rightarrow> seq (change_task i (pause_task (or_empty (rs_confirmation_id resp)))) (ret (Inr Paused))
     | Deny \<Rightarrow> seq (change_task i (observe_task (short_obs i (action_type act) ''denied''
                       ''operator denied the pending confirmation''))) (ret (Inr OperatorDenied))
     | Approve \<Rightarrow>
         bind (calls_out (ae_approve env (or_empty (rs_confirmation_id resp)) act ctx (rs_challenge resp))) (\<lambda>r.
           let ob = observation_of i (action_type act) r
           in seq (note_outcome i ob) (ret (Inl ob)))))"

definition one_call ::
  "('w, 'z) agent_env_scheme \<Rightarrow> exec_ctx \<Rightarrow> string \<Rightarrow> tool_call \<Rightarrow> ('w, observation + calls_end) act" where
  "one_call env ctx i c = (let act = \<lparr>action_type = tc_action c, a_params = tc_params c\<rparr> in
     bind (tool_gate env) (\<lambda>g. case g of
       Some reason \<Rightarrow> ret (Inr (OutOfBudget reason))
     | None \<Rightarrow>
         seq (change_budget record_tool_call)
        (seq (emit (ToolCalled i (tc_action c) (event_params env (tc_action c) (tc_params c))))
        (bind (make_request env act ctx) (\<lambda>resp.
           let ob = observation_of i (tc_action c) resp
           in seq (note_outcome i ob)
                (if rs_status resp = St_confirmation_required then confirm_call env ctx i act resp
                 else ret (Inl ob)))))))"

text \<open>The calls in turn, until one of them is not executed.\<close>

fun run_calls ::
  "('w, 'z) agent_env_scheme \<Rightarrow> exec_ctx \<Rightarrow> string \<Rightarrow> observation option \<Rightarrow> tool_call list \<Rightarrow> ('w, calls_end) act" where
  "run_calls env ctx i ob [] = ret (Settled ob)"
| "run_calls env ctx i ob (c # cs) = bind (one_call env ctx i c) (\<lambda>r. case r of
       Inr e \<Rightarrow> ret e
     | Inl ob' \<Rightarrow> if ob_status ob' \<noteq> St_executed then ret (Settled (Some ob'))
                 else run_calls env ctx i (Some ob') cs)"

definition swallowed :: "py_exc \<Rightarrow> bool" where
  "swallowed e = (e \<in> {OtherExc ''ValueError'', OtherExc ''OSError''})"

definition remember_long_term :: "('w, 'z) agent_env_scheme \<Rightarrow> task \<Rightarrow> ('w, unit) act" where
  "remember_long_term env t = (case ae_long_term env of
       None \<Rightarrow> ret ()
     | Some put \<Rightarrow> bind (reads (\<lambda>s. recall ''actor_id'' (ag_memory s))) (\<lambda>actor s.
         if \<not> truthy_json actor then (Inr (), s)
         else case calls_out (put (case actor of JStr a \<Rightarrow> a | v \<Rightarrow> ae_str env v) (''run:'' @ ae_run_id env) (''task:'' @ tk_id t)
                (JObj [(''status'', JStr ''completed''), (''title'', JStr (tk_title t))])) s of
             (Inl e, s') \<Rightarrow> if swallowed e then (Inr (), s') else (Inl e, s')
           | (Inr _, s') \<Rightarrow> (Inr (), s')))"

definition remember_success ::
  "('w, 'z) agent_env_scheme \<Rightarrow> task \<Rightarrow> observation option \<Rightarrow> ('w, unit) act" where
  "remember_success env t ob = (case ob of
       None \<Rightarrow> ret ()
     | Some ob \<Rightarrow>
         seq (if tk_action t \<in> {''fs.write'', ''browser.screenshot''}
              then change_memory (path_artifact (ae_str env) (get_param (tk_params t) ''path''))
              else if tk_action t = ''browser.extract_dom''
              then change_memory (path_artifact (ae_str env)
                     (if truthy_json (get_param (ob_data ob) ''html_path'') then get_param (ob_data ob) ''html_path''
                      else get_param (tk_params t) ''save_html_path''))
              else ret ())
           (remember_long_term env t))"

definition repair_plan :: "('w, 'z) agent_env_scheme \<Rightarrow> string \<Rightarrow> string \<Rightarrow> ('w, unit) act" where
  "repair_plan env i reason = bind (reads ag_replans) (\<lambda>n.
     if ae_max_replans env \<le> n then ret ()
     else bind (the_task i) (\<lambda>t. bind (calls_out (ae_repair env t reason)) (\<lambda>repairs.
       if repairs = [] then ret ()
       else seq (updates (\<lambda>s. s\<lparr>ag_tasks := fold add_task repairs (ag_tasks s), ag_replans := ag_replans s + 1\<rparr>))
              (change_memory (note_observation (short_obs i (tk_action t) ''replanning''
                 (''added '' @ show_nat (length repairs) @ '' repair task(s): '' @ reason)))))))"

definition judge_task ::
  "('w, 'z) agent_env_scheme \<Rightarrow> string \<Rightarrow> observation option \<Rightarrow> ('w, unit) act" where
  "judge_task env i ob =
     bind (the_task i) (\<lambda>t. bind (calls_out (ae_verify env t ob)) (\<lambda>v.
       seq (emit (VerdictGiven i (vd_ok v) (vd_reason v)))
         (if vd_ok v then
            seq (change_task i complete_task) (seq (emit (TaskCompleted i None)) (remember_success env t ob))
          else if retry_allowed t \<and> automatic_retry_allowed env (tk_action t) then retry_now i (vd_reason v)
          else seq (fail_now i (''verification failed: '' @ vd_reason v)) (repair_plan env i (vd_reason v)))))"

section \<open>The loop\<close>

datatype pass_end = Again | Ended run_record

definition attempt_task ::
  "('w, 'z) agent_env_scheme \<Rightarrow> string \<Rightarrow> exec_ctx \<Rightarrow> string \<Rightarrow> string \<Rightarrow> ('w, pass_end) act" where
  "attempt_task env goal ctx summary i =
     bind (prepare_calls env i) (\<lambda>r. case r of
       Inl err \<Rightarrow> seq (brain_failed i err) (ret Again)
     | Inr proposed \<Rightarrow> (case filter (\<lambda>c. tc_action c \<noteq> []) proposed of
         [] \<Rightarrow> seq (fail_now i ''brain proposed no tool call'') (ret Again)
       | c # cs \<Rightarrow> (case gate_reject env c of
           Some reason \<Rightarrow> seq (gate_failed i (tc_action c) reason) (ret Again)
         | None \<Rightarrow> bind (run_calls env ctx i None (c # cs)) (\<lambda>e. case e of
             Settled ob \<Rightarrow> seq (judge_task env i ob) (ret Again)
           | OperatorDenied \<Rightarrow> seq (fail_now i ''operator denied the pending confirmation'') (ret Again)
           | Paused \<Rightarrow> bind (final env goal ctx summary R_waiting [PausedForApproval]) (\<lambda>rc. ret (Ended rc))
           | OutOfBudget reason \<Rightarrow>
               bind (final env goal ctx summary R_budget_exceeded [StoppedBy reason]) (\<lambda>rc. ret (Ended rc))))))"

definition start_task :: "task \<Rightarrow> ('w, unit) act" where
  "start_task t = seq (change_budget (\<lambda>b. b\<lparr>bg_iterations := bg_iterations b + 1\<rparr>))
     (seq (change_task (tk_id t) mark_running)
          (emit (TaskStarted (tk_id t) (tk_title t) (tk_action t) (tk_attempt t) (tk_required t))))"

definition DEAD_REASON :: string where
  "DEAD_REASON = ''dependency could not be satisfied (failed, cycle or unknown dependency)''"

fun skip_tasks :: "task list \<Rightarrow> ('w, unit) act" where
  "skip_tasks [] = ret ()"
| "skip_tasks (t # ts) = seq (change_task (tk_id t) (skip_task DEAD_REASON))
     (seq (emit (TaskSkipped (tk_id t) (Some (take 500 DEAD_REASON)))) (skip_tasks ts))"

definition drive_pass ::
  "('w, 'z) agent_env_scheme \<Rightarrow> string \<Rightarrow> exec_ctx \<Rightarrow> string \<Rightarrow> ('w, pass_end) act" where
  "drive_pass env goal ctx summary = bind (run_gate env) (\<lambda>g. case g of
       Some reason \<Rightarrow> bind (final env goal ctx summary R_budget_exceeded [StoppedBy reason]) (\<lambda>rc. ret (Ended rc))
     | None \<Rightarrow> bind (reads ag_tasks) (\<lambda>tm. case next_ready tm of
         Some t \<Rightarrow> seq (start_task t) (attempt_task env goal ctx summary (tk_id t))
       | None \<Rightarrow>
           if \<not> has_pending tm then bind (final env goal ctx summary R_completed []) (\<lambda>rc. ret (Ended rc))
           else seq (skip_tasks (if blocked_pending tm \<noteq> [] then blocked_pending tm else pending_tasks tm)) (ret Again)))"

text \<open>The loop with a bound on its passes: \<open>None\<close> when the bound is used up.\<close>

fun drive ::
  "nat \<Rightarrow> ('w, 'z) agent_env_scheme \<Rightarrow> string \<Rightarrow> exec_ctx \<Rightarrow> string \<Rightarrow> ('w, run_record option) act" where
  "drive 0 env goal ctx summary = ret None"
| "drive (Suc n) env goal ctx summary = bind (drive_pass env goal ctx summary) (\<lambda>e. case e of
       Again \<Rightarrow> drive n env goal ctx summary
     | Ended rc \<Rightarrow> ret (Some rc))"

section \<open>Running and resuming\<close>

definition harden_task :: "task \<Rightarrow> task" where
  "harden_task t = (if tk_action t = ''browser.fill'' \<and> has_key (tk_params t) ''text''
     then t\<lparr>tk_params := AList.update ''text'' (JStr REDACTED) (tk_params t)\<rparr> else t)"

definition harden_plan :: "plan \<Rightarrow> plan" where
  "harden_plan p = p\<lparr>pl_tasks := map harden_task (pl_tasks p)\<rparr>"

fun join_lines :: "string list \<Rightarrow> string" where
  "join_lines [] = []"
| "join_lines [x] = x"
| "join_lines (x # xs) = x @ [CHR 0x0A] @ join_lines xs"

definition tool_catalog_text :: "catalog \<Rightarrow> string" where
  "tool_catalog_text cat = join_lines
     (map (\<lambda>spec. ''- '' @ as_action_type spec @ '' ('' @ risk_value (as_risk spec) @ '')'') (sort_key as_action_type (map snd cat)))"

definition subject_of :: "('w, 'z) agent_env_scheme \<Rightarrow> string \<Rightarrow> string" where
  "subject_of env goal = (if strip (ae_subject env goal) = [] then ''topic'' else strip (ae_subject env goal))"

definition set_up_memory :: "('w, 'z) agent_env_scheme \<Rightarrow> exec_ctx \<Rightarrow> string \<Rightarrow> memory \<Rightarrow> memory" where
  "set_up_memory env ctx plan_goal m =
     remember ''tool_catalog'' (JStr (tool_catalog_text (ae_catalog env)))
       (remember ''subject'' (JStr (subject_of env plan_goal)) (remember ''actor_id'' (JStr (actor_id ctx)) m))"

definition run_agent ::
  "nat \<Rightarrow> ('w, 'z) agent_env_scheme \<Rightarrow> string \<Rightarrow> exec_ctx \<Rightarrow> plan option \<Rightarrow> ('w, run_record option) act" where
  "run_agent fuel env goal ctx given =
     seq (emit (RunStarted goal False))
    (bind (case given of Some p \<Rightarrow> ret p | None \<Rightarrow> calls_out (ae_plan env goal)) (\<lambda>p0. let p = harden_plan p0 in
     seq (emit (PlanCreated (pl_summary p) (length (pl_tasks p)) (pl_created_by p)))
    (seq (updates (\<lambda>s. s\<lparr>ag_memory := set_up_memory env ctx (pl_goal p) (new_memory goal),
                          ag_tasks := task_table (pl_tasks p), ag_replans := 0\<rparr>))
         (drive fuel env goal ctx (pl_summary p)))))"

record resolution =
  rv_confirmation :: string
  rv_outcome :: string
  rv_note :: string

definition settle_wait :: "(string \<times> resolution) list \<Rightarrow> task \<Rightarrow> ('w, unit) act" where
  "settle_wait resolved t = (case List.map_filter (map_of resolved) (tk_waiting_on t) of
       [] \<Rightarrow> ret ()
     | e # es \<Rightarrow>
         if list_ex (\<lambda>r. rv_outcome r = ''executed'') (e # es)
         then seq (change_task (tk_id t) complete_task)
                (emit (TaskCompleted (tk_id t) (Some ''approval executed (from audit log)'')))
         else let r = last (e # es);
                  note = (if rv_note r \<noteq> [] then rv_note r else ''confirmation resolved as '' @ rv_outcome r)
              in seq (change_task (tk_id t) (fail_task note)) (emit (TaskFailed (tk_id t) note)))"

fun settle_waits :: "(string \<times> resolution) list \<Rightarrow> task list \<Rightarrow> ('w, unit) act" where
  "settle_waits resolved [] = ret ()"
| "settle_waits resolved (t # ts) = seq (settle_wait resolved t) (settle_waits resolved ts)"

definition resume_agent ::
  "nat \<Rightarrow> ('w, 'z) agent_env_scheme \<Rightarrow> run_record \<Rightarrow> plan \<Rightarrow> exec_ctx \<Rightarrow> resolution list \<Rightarrow> ('w, run_record option) act" where
  "resume_agent fuel env prev p ctx resolutions =
     (let ts = map harden_task (rc_tasks prev); tm = task_table ts in
      seq (emit (RunStarted (rc_goal prev) True))
     (seq (updates (\<lambda>s. s\<lparr>ag_memory := set_up_memory env ctx (pl_goal p) (rebuild_memory (ae_str env) ts (new_memory (rc_goal prev))),
                           ag_budget := restore_budget (rr_usage (rc_result prev)) (ag_budget s),
                           ag_tasks := tm, ag_replans := 0\<rparr>))
     (seq (settle_waits (fold (\<lambda>r. AList.update (rv_confirmation r) r) resolutions []) (waiting_tasks tm))
          (drive fuel env (rc_goal prev) ctx (pl_summary p)))))"

end
