(* ===== verification/Agent_Frame.thy ===== *)
theory Agent_Frame
  imports Agent_Loop
begin

text \<open>
  A frame for the parts of the agent loop: a relation between the state before and after, which the parts
  that make no request keep whatever else they do.
\<close>

section \<open>Tables of tasks\<close>

definition keyed :: "tasks \<Rightarrow> bool" where
  "keyed tm = (distinct (map fst tm) \<and> (\<forall>(k, t) \<in> set tm. tk_id t = k))"

lemma keyed_add: "keyed tm \<Longrightarrow> keyed (add_task t tm)"
  by (auto simp: keyed_def add_task_def map_of_eq_None_iff)

lemma keyed_adds: "keyed tm \<Longrightarrow> keyed (fold add_task ts tm)"
  by (induction ts arbitrary: tm) (auto intro: keyed_add)

lemma set_update: "set (AList.update k v al) \<subseteq> insert (k, v) (set al)"
  by (induction al) auto

lemma keyed_table: "keyed (task_table ts)"
proof -
  have step: "keyed tm \<Longrightarrow> keyed (fold (\<lambda>t. AList.update (tk_id t) t) ts tm)" for tm
  proof (induction ts arbitrary: tm)
    case (Cons t ts)
    have "keyed (AList.update (tk_id t) t tm)"
      using Cons.prems unfolding keyed_def using set_update [of "tk_id t" t tm] by (fastforce simp: distinct_update)
    then show ?case using Cons.IH by simp
  qed simp
  show ?thesis unfolding task_table_def by (rule step) (simp add: keyed_def)
qed

text \<open>The transitions of a task keep its identity and its dependencies.\<close>

definition same_task :: "(task \<Rightarrow> task) \<Rightarrow> bool" where
  "same_task f = (\<forall>t. tk_id (f t) = tk_id t \<and> tk_depends (f t) = tk_depends t)"

lemma same_task [simp]:
  "same_task mark_running" "same_task complete_task" "same_task (fail_task err)" "same_task (skip_task reason)"
  "same_task (retry_task note)" "same_task (pause_task cid)" "same_task (observe_task obs)"
  by (simp_all add: same_task_def mark_running_def complete_task_def fail_task_def skip_task_def retry_task_def pause_task_def
      observe_task_def Let_def)

lemma keyed_on_task [simp]: "same_task f \<Longrightarrow> keyed tm \<Longrightarrow> keyed (on_task i f tm)"
  by (auto simp: keyed_def on_task_def comp_def case_prod_unfold same_task_def)

section \<open>Computations that keep a relation\<close>

definition keeps :: "('w agent \<Rightarrow> 'w agent \<Rightarrow> bool) \<Rightarrow> ('w, 'a) act \<Rightarrow> bool" where
  "keeps R m = (\<forall>s r s'. m s = (r, s') \<longrightarrow> R s s')"

lemma keepsD: "keeps R m \<Longrightarrow> m s = (r, s') \<Longrightarrow> R s s'"
  by (simp add: keeps_def)

text \<open>The counters of the budget that the relation may look at.\<close>

definition same_budget :: "budget \<Rightarrow> budget \<Rightarrow> bool" where
  "same_budget b b' = (bg_tool_calls b' = bg_tool_calls b \<and> bg_max_tool_calls b' = bg_max_tool_calls b
     \<and> bg_max_iterations b' = bg_max_iterations b \<and> bg_iterations b' = bg_iterations b)"

lemma same_budget_usage: "same_budget b (apply_usage uses b)"
  unfolding apply_usage_def
proof (induction uses arbitrary: b)
  case (Cons u us)
  have "same_budget b (record_llm_call (fst u) (snd u) b)" by (simp add: same_budget_def record_llm_call_def)
  then show ?case using Cons [of "record_llm_call (fst u) (snd u) b"] by (simp add: same_budget_def case_prod_unfold)
qed (simp add: same_budget_def)

locale frame =
  fixes R :: "'w agent \<Rightarrow> 'w agent \<Rightarrow> bool"
  assumes trans: "R a b \<Longrightarrow> R b c \<Longrightarrow> R a c"
    and same: "ag_tasks s' = ag_tasks s \<Longrightarrow> ag_calls s' = ag_calls s \<Longrightarrow> same_budget (ag_budget s) (ag_budget s') \<Longrightarrow> R s s'"
begin

lemma refl: "R s s"
  by (rule same) (simp_all add: same_budget_def)

lemma keeps_bind:
  assumes "keeps R m" and "\<And>x. keeps R (f x)"
  shows "keeps R (bind m f)"
  unfolding keeps_def
proof (intro allI impI)
  fix s r s' assume run: "bind m f s = (r, s')"
  show "R s s'"
  proof (cases r)
    case (Inl e)
    then have "m s = (Inl e, s') \<or> (\<exists>x t. m s = (Inr x, t) \<and> f x t = (Inl e, s'))" using run by (simp add: bind_Inl_iff)
    then show ?thesis using keepsD [OF assms(1)] keepsD [OF assms(2)] by (blast intro: trans)
  next
    case (Inr y)
    then obtain x t where "m s = (Inr x, t)" "f x t = (Inr y, s')" using run by (auto simp: bind_Inr_iff)
    then show ?thesis using keepsD [OF assms(1)] keepsD [OF assms(2)] by (blast intro: trans)
  qed
qed

lemma keeps_seq: "keeps R m \<Longrightarrow> keeps R k \<Longrightarrow> keeps R (seq m k)"
  unfolding seq_def by (rule keeps_bind)

lemma keeps_if: "(c \<Longrightarrow> keeps R a) \<Longrightarrow> (\<not> c \<Longrightarrow> keeps R b) \<Longrightarrow> keeps R (if c then a else b)"
  by simp

lemma keeps_plain [simp]:
  "keeps R (ret x)" "keeps R (raise_exc e)" "keeps R (reads g)" "keeps R (asks h)" "keeps R (calls_out m)"
  "keeps R (emit ev)" "keeps R (change_memory mf)"
  by (auto simp: keeps_def ret_def raise_exc_def reads_def asks_def calls_out_def emit_def updates_def change_memory_def
      same_budget_def split: prod.splits intro!: same)

lemma keeps_the_task [simp]: "keeps R (the_task j)"
  unfolding the_task_def by (rule keeps_bind) (auto split: option.split)

lemma keeps_thinks [simp]: "keeps R (thinks f j)"
  unfolding thinks_def
proof (rule keeps_bind)
  show "keeps R (\<lambda>s. case f t (ag_memory s) (ag_budget s) (ag_world s) of
      ((r, uses), w) \<Rightarrow> (r, s\<lparr>ag_world := w, ag_budget := apply_usage uses (ag_budget s)\<rparr>))" for t
    by (auto simp: keeps_def same_budget_usage split: prod.splits intro!: same)
qed simp

lemma keeps_prepare [simp]: "keeps R (prepare_calls env j)"
proof -
  let ?m = "bind (thinks (ae_prepare env) j) (\<lambda>ps. thinks (\<lambda>t m. ae_propose env t m ps) j)"
  have "keeps R ?m" by (intro keeps_bind) simp_all
  then show ?thesis
    by (auto simp: keeps_def prepare_calls_def split: prod.splits sum.splits py_exc.splits)
qed

lemmas keeps_intros = keeps_bind keeps_seq keeps_if

lemma keeps_reads [simp]:
  "keeps R (run_gate env)" "keeps R (final env goal ctx summary forced notes)" "keeps R (ask_operator env act resp)"
  by (auto simp: run_gate_def final_def ask_operator_def intro!: keeps_intros split: option.split)

lemma keeps_tool_gate [simp]: "keeps R (tool_gate env)"
  by (auto simp: tool_gate_def intro!: keeps_intros)

lemma keeps_remember [simp]: "keeps R (remember_success env t ob)"
proof -
  have "keeps R (remember_long_term env t)"
  proof (cases "ae_long_term env")
    case (Some put)
    have "keeps R (\<lambda>s. if \<not> truthy_json actor then (Inr (), s) else case calls_out (put a b c d) s of
        (Inl e, s') \<Rightarrow> if swallowed e then (Inr (), s') else (Inl e, s') | (Inr x, s') \<Rightarrow> (Inr (), s'))" for actor a b c d
      using keeps_plain(5) [of "put a b c d"] refl by (auto simp: keeps_def split: prod.splits sum.splits if_splits)
    then show ?thesis unfolding remember_long_term_def Some option.case by (intro keeps_bind keeps_plain)
  qed (simp add: remember_long_term_def)
  then show ?thesis by (auto simp: remember_success_def intro!: keeps_intros split: option.split)
qed

end

text \<open>A relation that also lets the task \<open>i\<close> change, and \<open>fresh\<close> tasks be added.\<close>

locale task_frame = frame +
  fixes i :: string and fresh :: "task \<Rightarrow> bool"
  assumes task: "same_task f \<Longrightarrow> R s (s\<lparr>ag_tasks := on_task i f (ag_tasks s)\<rparr>)"
    and added: "\<forall>t \<in> set ts. fresh t \<Longrightarrow> R s (s\<lparr>ag_tasks := fold add_task ts (ag_tasks s), ag_replans := n\<rparr>)"
begin

lemma keeps_change_task [simp]: "same_task f \<Longrightarrow> keeps R (change_task i f)"
  by (auto simp: keeps_def change_task_def updates_def intro!: task)

lemma keeps_small [simp]:
  "keeps R (fail_now i err)" "keeps R (retry_now i reason)" "keeps R (settle_failure i err)"
  "keeps R (brain_failed i err)" "keeps R (gate_failed i a reason)" "keeps R (note_outcome i ob)"
  by (auto simp: fail_now_def retry_now_def settle_failure_def brain_failed_def gate_failed_def note_outcome_def
      intro!: keeps_intros split: option.split)

lemma keeps_confirm [simp]: "keeps R (confirm_call env ctx i act resp)"
  by (auto simp: confirm_call_def Let_def intro!: keeps_intros split: approval_choice.split)

lemma keeps_added:
  assumes "\<And>t reason w ts w'. ae_repair env t reason w = (Inr ts, w') \<Longrightarrow> \<forall>t \<in> set ts. fresh t"
  shows "keeps R (bind (calls_out (ae_repair env t reason)) (\<lambda>repairs.
       if repairs = [] then ret ()
       else seq (updates (\<lambda>s. s\<lparr>ag_tasks := fold add_task repairs (ag_tasks s), ag_replans := ag_replans s + 1\<rparr>))
              (change_memory (f repairs))))"
  unfolding keeps_def
proof (intro allI impI)
  fix s r s'
  assume run: "bind (calls_out (ae_repair env t reason)) (\<lambda>repairs.
       if repairs = [] then ret ()
       else seq (updates (\<lambda>s. s\<lparr>ag_tasks := fold add_task repairs (ag_tasks s), ag_replans := ag_replans s + 1\<rparr>))
              (change_memory (f repairs))) s = (r, s')"
  obtain x w where x: "ae_repair env t reason (ag_world s) = (x, w)" by (metis surj_pair)
  have world: "R s (s\<lparr>ag_world := w\<rparr>)" by (rule same) (simp_all add: same_budget_def)
  show "R s s'"
  proof (cases "\<exists>ts. x = Inr ts \<and> ts \<noteq> []")
    case False
    then show ?thesis using run x world by (cases x) (auto simp: bind_def calls_out_def ret_def)
  next
    case True
    then obtain ts where ts: "x = Inr ts" "ts \<noteq> []" by blast
    let ?t = "s\<lparr>ag_world := w, ag_tasks := fold add_task ts (ag_tasks s), ag_replans := ag_replans s + 1\<rparr>"
    have "R (s\<lparr>ag_world := w\<rparr>) ?t"
      using added [of ts "s\<lparr>ag_world := w\<rparr>" "ag_replans s + 1"] assms x ts(1) by simp
    moreover have "R ?t s'"
      using run x ts keepsD [OF keeps_plain(7) [of "f ts"], of ?t r s']
      by (simp add: bind_def seq_def calls_out_def updates_def)
    ultimately show ?thesis using world trans by blast
  qed
qed

lemma keeps_repair:
  assumes "\<And>t reason w ts w'. ae_repair env t reason w = (Inr ts, w') \<Longrightarrow> \<forall>t \<in> set ts. fresh t"
  shows "keeps R (repair_plan env i reason)"
  unfolding repair_plan_def
  by (intro keeps_bind [OF keeps_plain(3)] keeps_if keeps_plain(1) keeps_bind [OF keeps_the_task] keeps_added assms)

lemma keeps_judge:
  assumes "\<And>t reason w ts w'. ae_repair env t reason w = (Inr ts, w') \<Longrightarrow> \<forall>t \<in> set ts. fresh t"
  shows "keeps R (judge_task env i ob)"
  unfolding judge_task_def by (intro keeps_intros keeps_repair [OF assms]) simp_all

end

end
