(* ===== verification/Small_Agent.thy ===== *)
theory Small_Agent
  imports Agent_Frame
begin

text \<open>
  A small agent, on which the loop is evaluated: two tasks, the second of which depends on the first, an
  execution service that executes everything at once, and a brain that proposes a fixed list of calls.
\<close>

definition small_task :: "string \<Rightarrow> string list \<Rightarrow> task" where
  "small_task i deps = \<lparr>tk_id = i, tk_title = ''look'', tk_action = ''browser.open'', tk_params = [], tk_status = T_pending,
     tk_depends = deps, tk_verify = None, tk_required = True, tk_attempt = 0, tk_max_attempts = 3, tk_observations = [],
     tk_waiting_on = [], tk_note = None, tk_error = None\<rparr>"

definition small_plan :: plan where
  "small_plan = \<lparr>pl_goal = ''look'', pl_summary = ''look twice'', pl_tasks = [small_task ''b'' [''a''], small_task ''a'' []],
     pl_created_by = ''rules''\<rparr>"

definition browser_spec :: "string \<Rightarrow> string \<times> action_spec" where
  "browser_spec a = (a, \<lparr>as_action_type = a, as_risk = SAFE, as_domain = ''browser'', as_secret_fields = {}, as_param_schema = None\<rparr>)"

definition open_page :: tool_call where
  "open_page = \<lparr>tc_action = ''browser.open'', tc_params = []\<rparr>"

definition fill_raw :: tool_call where
  "fill_raw = \<lparr>tc_action = ''browser.fill'', tc_params = [(''text'', JStr ''hunter2'')]\<rparr>"

definition done_response :: response where
  "done_response = mk_response St_executed ALLOW"

definition small_agent :: "tool_call list \<Rightarrow> unit agent_env" where
  "small_agent tcs = \<lparr>ae_request = (\<lambda>act ctx w. (Inr done_response, w)),
     ae_approve = (\<lambda>cid act ctx ch w. (Inr done_response, w)),
     ae_catalog = [browser_spec ''browser.open'', browser_spec ''browser.fill''], ae_registry = (\<lambda>_. Some {}), ae_guard = None,
     ae_operator = None, ae_monotonic = (\<lambda>w. (0, w)), ae_prepare = (\<lambda>t m b w. ((Inr [], []), w)),
     ae_propose = (\<lambda>t m ps b w. ((Inr tcs, []), w)), ae_plan = (\<lambda>g w. (Inr small_plan, w)),
     ae_repair = (\<lambda>t reason w. (Inr [], w)), ae_verify = (\<lambda>t ob w. (Inr \<lparr>vd_ok = True, vd_reason = []\<rparr>, w)),
     ae_long_term = None, ae_subject = (\<lambda>g. g), ae_str = (\<lambda>_. []), ae_max_replans = 1, ae_run_id = ''r''\<rparr>"

definition user_ctx :: exec_ctx where
  "user_ctx = \<lparr>actor_id = ''ann'', session_id = None, execution_scope = None, cred_refs = [], deadline = None\<rparr>"

definition new_agent :: "unit agent" where
  "new_agent = \<lparr>ag_tasks = [], ag_budget = \<lparr>bg_max_iterations = 8, bg_max_tool_calls = 8, bg_max_llm_calls = 0, bg_timeout = 9,
       bg_cost_cap = 0, bg_started = 0, bg_iterations = 0, bg_tool_calls = 0, bg_llm_calls = 0, bg_tokens = 0, bg_cost = 0\<rparr>,
     ag_memory = new_memory [], ag_replans = 0, ag_events = [], ag_calls = [], ag_world = ()\<rparr>"

lemma small_agent_sel [simp]:
  "ae_request (small_agent tcs) act ctx w = (Inr done_response, w)" "ae_guard (small_agent tcs) = None"
  "ae_registry (small_agent tcs) a = Some {}" "ae_operator (small_agent tcs) = None" "ae_monotonic (small_agent tcs) w = (0, w)"
  "ae_prepare (small_agent tcs) t m b w = ((Inr [], []), w)" "ae_propose (small_agent tcs) t m ps b w = ((Inr tcs, []), w)"
  "ae_plan (small_agent tcs) g w = (Inr small_plan, w)" "ae_repair (small_agent tcs) t reason w = (Inr [], w)"
  "ae_verify (small_agent tcs) t ob w = (Inr \<lparr>vd_ok = True, vd_reason = []\<rparr>, w)" "ae_long_term (small_agent tcs) = None"
  "catalog_get (ae_catalog (small_agent tcs)) ''browser.open'' = Some (snd (browser_spec ''browser.open''))"
  by (simp_all add: small_agent_def catalog_get_def browser_spec_def)

lemma unit_world [simp]: "(s::unit agent)\<lparr>ag_world := w\<rparr> = s"
  by (cases s) simp

lemma small_gate: "gate_reject (small_agent tcs) open_page = None"
  by (simp add: gate_reject_def open_page_def Let_def browser_spec_def)

lemmas agent_run = bind_run seq_run ret_def raise_exc_def reads_def updates_def asks_def calls_out_def emit_def change_task_def
  change_memory_def change_budget_def the_task_def

lemma map_of_on [simp]: "map_of (on_task i f tm) i = map_option f (map_of tm i)"
  by (induction tm) (auto simp: on_task_def)

lemma small_prepare: "map_of (ag_tasks s) i = Some t \<Longrightarrow> prepare_calls (small_agent tcs) i s = (Inr (Inr tcs), s)"
  by (simp add: prepare_calls_def thinks_def agent_run apply_usage_def)

definition seen_by :: "string \<Rightarrow> observation" where
  "seen_by i = observation_of i ''browser.open'' done_response"

definition calm :: "budget \<Rightarrow> bool" where
  "calm b = (budget_check 0 b = None \<and> bg_tool_calls b < bg_max_tool_calls b)"

lemma done_sel [simp]: "rs_status done_response = St_executed" "ob_status (seen_by i) = St_executed"
  by (simp_all add: done_response_def mk_response_def seen_by_def observation_of_def)

lemma small_call:
  assumes "calm (ag_budget s)"
  shows "\<exists>s'. run_calls (small_agent tcs) ctx i None [open_page] s = (Inr (Settled (Some (seen_by i))), s')
    \<and> ag_tasks s' = on_task i (observe_task (observation_json (seen_by i))) (ag_tasks s)
    \<and> ag_budget s' = record_tool_call (ag_budget s) \<and> ag_calls s' = ag_calls s @ [\<lparr>action_type = ''browser.open'', a_params = []\<rparr>]"
  using assms
  by (simp add: one_call_def tool_gate_def run_gate_def calm_def agent_run Let_def open_page_def make_request_def note_outcome_def
      seen_by_def [symmetric])

lemma small_judge:
  assumes "map_of (ag_tasks s) i = Some t" and "tk_action t = ''browser.open''"
  shows "\<exists>s'. judge_task (small_agent tcs) i (Some (seen_by i)) s = (Inr (), s') \<and> ag_tasks s' = on_task i complete_task (ag_tasks s)
    \<and> ag_budget s' = ag_budget s \<and> ag_calls s' = ag_calls s"
  using assms by (simp add: judge_task_def agent_run remember_success_def remember_long_term_def)

text \<open>A pass that executes the next task.\<close>

definition done_with :: "string \<Rightarrow> tasks \<Rightarrow> tasks" where
  "done_with i tm = on_task i complete_task (on_task i (observe_task (observation_json (seen_by i))) (on_task i mark_running tm))"

lemma small_agent_pass:
  assumes "next_ready (ag_tasks s) = Some t" and "map_of (ag_tasks s) (tk_id t) = Some t" and "tk_action t = ''browser.open''"
    and "calm (ag_budget s)" and "calm ((ag_budget s)\<lparr>bg_iterations := bg_iterations (ag_budget s) + 1\<rparr>)"
  shows "\<exists>s'. drive_pass (small_agent [open_page]) goal ctx summary s = (Inr Again, s') \<and> ag_tasks s' = done_with (tk_id t) (ag_tasks s)
    \<and> ag_budget s' = record_tool_call ((ag_budget s)\<lparr>bg_iterations := bg_iterations (ag_budget s) + 1\<rparr>)
    \<and> ag_calls s' = ag_calls s @ [\<lparr>action_type = ''browser.open'', a_params = []\<rparr>]"
proof -
  obtain s1 where s1: "start_task t s = (Inr (), s1)" "ag_tasks s1 = on_task (tk_id t) mark_running (ag_tasks s)"
    "ag_budget s1 = (ag_budget s)\<lparr>bg_iterations := bg_iterations (ag_budget s) + 1\<rparr>" "ag_calls s1 = ag_calls s"
    by (simp add: start_task_def agent_run)
  obtain s2 where s2: "run_calls (small_agent [open_page]) ctx (tk_id t) None [open_page] s1 = (Inr (Settled (Some (seen_by (tk_id t)))), s2)"
    "ag_tasks s2 = on_task (tk_id t) (observe_task (observation_json (seen_by (tk_id t)))) (ag_tasks s1)"
    "ag_budget s2 = record_tool_call (ag_budget s1)" "ag_calls s2 = ag_calls s1 @ [\<lparr>action_type = ''browser.open'', a_params = []\<rparr>]"
    using small_call [of s1] assms(5) s1(3) by metis
  have t2: "map_of (ag_tasks s2) (tk_id t) = Some (observe_task (observation_json (seen_by (tk_id t))) (mark_running t))"
    using s1(2) s2(2) assms(2) by simp
  obtain s3 where s3: "judge_task (small_agent [open_page]) (tk_id t) (Some (seen_by (tk_id t))) s2 = (Inr (), s3)"
    "ag_tasks s3 = on_task (tk_id t) complete_task (ag_tasks s2)" "ag_budget s3 = ag_budget s2" "ag_calls s3 = ag_calls s2"
    using small_judge [OF t2] assms(3) by (auto simp: observe_task_def mark_running_def)
  have "prepare_calls (small_agent [open_page]) (tk_id t) s1 = (Inr (Inr [open_page]), s1)"
    using small_prepare s1(2) assms(2) by simp
  then have "attempt_task (small_agent [open_page]) goal ctx summary (tk_id t) s1 = (Inr Again, s3)"
    using s2(1) s3(1) by (simp add: attempt_task_def bind_run seq_run ret_def small_gate del: run_calls.simps) (simp add: open_page_def)
  then have "drive_pass (small_agent [open_page]) goal ctx summary s = (Inr Again, s3)"
    using s1(1) assms(1,4) by (simp add: drive_pass_def run_gate_def calm_def agent_run)
  then show ?thesis using s1 s2 s3 by (simp add: done_with_def)
qed

text \<open>The pass that ends a run.\<close>

lemma small_end:
  assumes "next_ready (ag_tasks s) = None" and "\<not> has_pending (ag_tasks s)" and "calm (ag_budget s)"
  shows "\<exists>s'. drive_pass (small_agent tcs) goal ctx summary s
     = (Inr (Ended (final_record (small_agent tcs) goal ctx summary R_completed [] s)), s') \<and> ag_calls s' = ag_calls s"
  using assms by (simp add: drive_pass_def run_gate_def calm_def agent_run final_def)

definition small_start :: "unit agent \<Rightarrow> unit agent" where
  "small_start s = s\<lparr>ag_events := ag_events s @ [RunStarted ''look'' False, PlanCreated ''look twice'' (Suc (Suc 0)) ''rules''],
     ag_memory := set_up_memory (small_agent [open_page]) user_ctx ''look'' (new_memory ''look''),
     ag_tasks := [(''b'', small_task ''b'' [''a'']), (''a'', small_task ''a'' [])], ag_replans := 0\<rparr>"

lemma small_run_start:
  "run_agent n (small_agent [open_page]) ''look'' user_ctx None new_agent
     = drive n (small_agent [open_page]) ''look'' user_ctx ''look twice'' (small_start new_agent)"
  by (simp add: run_agent_def agent_run small_plan_def small_start_def new_agent_def harden_plan_def harden_task_def small_task_def
      task_table_def)

lemma status_of [simp]:
  "tk_status (complete_task t) = T_completed" "tk_depends (complete_task t) = tk_depends t" "tk_id (complete_task t) = tk_id t"
  "tk_status (mark_running t) = T_running" "tk_depends (mark_running t) = tk_depends t" "tk_id (mark_running t) = tk_id t"
  "tk_status (observe_task ob t) = tk_status t" "tk_depends (observe_task ob t) = tk_depends t" "tk_id (observe_task ob t) = tk_id t"
  "tk_required (complete_task t) = tk_required t" "tk_required (mark_running t) = tk_required t" "tk_required (observe_task ob t) = tk_required t"
  by (simp_all add: complete_task_def mark_running_def observe_task_def)

lemma small_task_sel [simp]: "tk_status (small_task i ds) = T_pending" "tk_depends (small_task i ds) = ds" "tk_id (small_task i ds) = i"
  "tk_action (small_task i ds) = ''browser.open''" "tk_required (small_task i ds)"
  by (simp_all add: small_task_def)

lemma small_agent_run:
  "\<exists>rc s'. run_agent 3 (small_agent [open_page]) ''look'' user_ctx None new_agent = (Inr (Some rc), s') \<and> rc_status rc = R_completed
     \<and> map (\<lambda>t. (tk_id t, tk_status t)) (rc_tasks rc) = [(''b'', T_completed), (''a'', T_completed)]
     \<and> map action_type (ag_calls s') = [''browser.open'', ''browser.open'']"
proof -
  let ?s = "small_start new_agent"
  let ?b = "ag_budget new_agent"
  have b: "ag_budget ?s = ?b" "ag_calls ?s = []" by (simp_all add: small_start_def new_agent_def)
  have t0: "ag_tasks ?s = [(''b'', small_task ''b'' [''a'']), (''a'', small_task ''a'' [])]" by (simp add: small_start_def)
  have calm: "calm ((ag_budget new_agent)\<lparr>bg_iterations := k, bg_tool_calls := k'\<rparr>)" if "k \<le> 2" "k' \<le> 2" for k k'
    using that by (simp add: calm_def budget_check_def new_agent_def)
  have start: "ag_budget new_agent = (ag_budget new_agent)\<lparr>bg_iterations := 0, bg_tool_calls := 0\<rparr>" by (simp add: new_agent_def)
  have "next_ready (ag_tasks ?s) = Some (small_task ''a'' [])" by (simp add: t0 next_ready_def dep_completed_def)
  then obtain s1 where s1: "drive_pass (small_agent [open_page]) ''look'' user_ctx ''look twice'' ?s = (Inr Again, s1)"
    "ag_tasks s1 = done_with ''a'' (ag_tasks ?s)" "ag_budget s1 = ?b\<lparr>bg_iterations := 1, bg_tool_calls := 1\<rparr>"
    "ag_calls s1 = [\<lparr>action_type = ''browser.open'', a_params = []\<rparr>]"
    using small_agent_pass [of ?s "small_task ''a'' []" "''look''" user_ctx "''look twice''"] calm [of 0 0] calm [of 1 0] t0 b
    by (auto simp: record_tool_call_def new_agent_def)
  have t1: "next_ready (ag_tasks s1) = Some (small_task ''b'' [''a''])" "map_of (ag_tasks s1) ''b'' = Some (small_task ''b'' [''a''])"
    by (simp_all add: s1(2) t0 done_with_def on_task_def next_ready_def dep_completed_def)
  then obtain s2 where s2: "drive_pass (small_agent [open_page]) ''look'' user_ctx ''look twice'' s1 = (Inr Again, s2)"
    "ag_tasks s2 = done_with ''b'' (ag_tasks s1)" "ag_budget s2 = ?b\<lparr>bg_iterations := 2, bg_tool_calls := 2\<rparr>"
    "ag_calls s2 = ag_calls s1 @ [\<lparr>action_type = ''browser.open'', a_params = []\<rparr>]"
    using small_agent_pass [of s1 "small_task ''b'' [''a'']" "''look''" user_ctx "''look twice''"] calm [of 1 1] calm [of 2 1] s1(3)
    by (auto simp: record_tool_call_def new_agent_def)
  have t2: "next_ready (ag_tasks s2) = None" "\<not> has_pending (ag_tasks s2)"
    by (simp_all add: s2(2) s1(2) t0 done_with_def on_task_def next_ready_def has_pending_def)
  then obtain s3 where s3: "drive_pass (small_agent [open_page]) ''look'' user_ctx ''look twice'' s2
     = (Inr (Ended (final_record (small_agent [open_page]) ''look'' user_ctx ''look twice'' R_completed [] s2)), s3)"
    "ag_calls s3 = ag_calls s2"
    using small_end [of s2 "[open_page]" "''look''" user_ctx "''look twice''"] calm [of 2 2] s2(3) by auto
  have "final_status R_completed (ag_tasks s2) = R_completed"
    "map (\<lambda>t. (tk_id t, tk_status t)) (map snd (ag_tasks s2)) = [(''b'', T_completed), (''a'', T_completed)]"
    by (simp_all add: s2(2) s1(2) t0 done_with_def on_task_def final_status_def waiting_tasks_def)
  moreover have "run_agent 3 (small_agent [open_page]) ''look'' user_ctx None new_agent
      = (Inr (Some (final_record (small_agent [open_page]) ''look'' user_ctx ''look twice'' R_completed [] s2)), s3)"
    using s1(1) s2(1) s3(1) by (simp add: small_run_start numeral_3_eq_3 bind_run ret_def)
  ultimately show ?thesis using s3(2) s2(4) s1(4) by (simp add: final_record_def Let_def result_of_def)
qed

interpretation same_calls: task_frame "\<lambda>s s'. ag_calls s' = ag_calls s" i "\<lambda>_. True" for i
  by unfold_locales simp_all

text \<open>Only the first call of a proposal is judged: the second one fills raw text into a page, which the gate
  rejects, and is requested all the same.\<close>

lemma second_call_skips_gate:
  "gate_reject (small_agent [open_page, fill_raw]) fill_raw \<noteq> None
   \<and> map action_type (ag_calls (snd (drive_pass (small_agent [open_page, fill_raw]) ''look'' user_ctx ''look twice'' (small_start new_agent))))
     = [''browser.open'', ''browser.fill'']"
proof
  show "gate_reject (small_agent [open_page, fill_raw]) fill_raw \<noteq> None"
    by (simp add: gate_reject_def fill_raw_def small_agent_def catalog_get_def browser_spec_def is_str_def get_param_def Let_def)
  let ?env = "small_agent [open_page, fill_raw]"
  let ?s = "small_start new_agent"
  have t0: "ag_tasks ?s = [(''b'', small_task ''b'' [''a'']), (''a'', small_task ''a'' [])]" by (simp add: small_start_def)
  have b: "budget_check 0 ((ag_budget new_agent)\<lparr>bg_iterations := k, bg_tool_calls := k'\<rparr>) = None" if "k \<le> 2" "k' \<le> 2" for k k'
    using that by (simp add: budget_check_def new_agent_def)
  have calls_sel: "tc_action open_page = ''browser.open''" "tc_action fill_raw = ''browser.fill''" "bg_max_tool_calls (ag_budget new_agent) = 8"
    by (simp_all add: open_page_def fill_raw_def new_agent_def)
  obtain s1 where s1: "start_task (small_task ''a'' []) ?s = (Inr (), s1)" "ag_tasks s1 = on_task ''a'' mark_running (ag_tasks ?s)"
    "ag_budget s1 = (ag_budget new_agent)\<lparr>bg_iterations := 1, bg_tool_calls := 0\<rparr>" "ag_calls s1 = []"
    by (simp add: start_task_def agent_run small_start_def new_agent_def)
  have "\<exists>ob s2. run_calls ?env user_ctx ''a'' None [open_page, fill_raw] s1 = (Inr (Settled ob), s2)
     \<and> map action_type (ag_calls s2) = [''browser.open'', ''browser.fill''] \<and> map_of (ag_tasks s2) ''a'' \<noteq> None"
    using s1 t0 b [of 1 0] b [of 1 1]
    by (simp add: calls_sel one_call_def tool_gate_def run_gate_def agent_run Let_def make_request_def note_outcome_def record_tool_call_def
        observation_of_def)
  then obtain ob s2 where s2: "run_calls ?env user_ctx ''a'' None [open_page, fill_raw] s1 = (Inr (Settled ob), s2)"
    "map action_type (ag_calls s2) = [''browser.open'', ''browser.fill'']" "map_of (ag_tasks s2) ''a'' \<noteq> None"
    by (elim exE conjE) (rule that)
  obtain r s3 where s3: "judge_task ?env ''a'' ob s2 = (r, s3)" by (metis surj_pair)
  have calls: "ag_calls s3 = ag_calls s2" by (rule keepsD [OF same_calls.keeps_judge s3]) simp
  have "prepare_calls ?env ''a'' s1 = (Inr (Inr [open_page, fill_raw]), s1)"
    using small_prepare s1(2) t0 by simp
  then have "snd (attempt_task ?env ''look'' user_ctx ''look twice'' ''a'' s1) = s3"
    using s2(1) s3 calls_sel by (cases r) (simp_all add: attempt_task_def bind_run seq_run ret_def small_gate del: run_calls.simps)
  moreover have "budget_check 0 (ag_budget ?s) = None" using b [of 0 0] by (simp add: small_start_def new_agent_def)
  moreover have "next_ready (ag_tasks ?s) = Some (small_task ''a'' [])" by (simp add: t0 next_ready_def dep_completed_def)
  ultimately show "map action_type (ag_calls (snd (drive_pass ?env ''look'' user_ctx ''look twice'' ?s))) = [''browser.open'', ''browser.fill'']"
    using s1(1) s2(2) calls by (simp add: drive_pass_def run_gate_def agent_run)
qed

end
