(* ===== verification/Agent_Safety.thy ===== *)
theory Agent_Safety
  imports Small_Agent
begin

text \<open>
  What the agent loop may do: the requests it makes, what they cost, and that it ends.
\<close>

section \<open>What a part of the loop spends\<close>

text \<open>The requests made satisfy \<open>P\<close>, each was paid for within the cap, the caps and the count of the
  iterations stay, and so do the keys of the tasks.\<close>

definition spends :: "(action \<Rightarrow> bool) \<Rightarrow> int \<Rightarrow> 'w agent \<Rightarrow> 'w agent \<Rightarrow> bool" where
  "spends P k s s' = (\<exists>new. ag_calls s' = ag_calls s @ new \<and> list_all P new
     \<and> bg_tool_calls (ag_budget s') = bg_tool_calls (ag_budget s) + int (length new)
     \<and> (new \<noteq> [] \<longrightarrow> bg_tool_calls (ag_budget s') \<le> bg_max_tool_calls (ag_budget s))
     \<and> bg_max_tool_calls (ag_budget s') = bg_max_tool_calls (ag_budget s)
     \<and> bg_max_iterations (ag_budget s') = bg_max_iterations (ag_budget s)
     \<and> bg_iterations (ag_budget s') = bg_iterations (ag_budget s) + k
     \<and> (keyed (ag_tasks s) \<longrightarrow> keyed (ag_tasks s')))"

abbreviation thrifty :: "(action \<Rightarrow> bool) \<Rightarrow> ('w, 'a) act \<Rightarrow> bool" where
  "thrifty P \<equiv> keeps (spends P 0)"

lemma spends_same:
  assumes "ag_calls s' = ag_calls s" and "ag_budget s' = ag_budget s" and "keyed (ag_tasks s) \<Longrightarrow> keyed (ag_tasks s')"
  shows "spends P 0 s s'"
  unfolding spends_def by (rule exI [of _ "[]"]) (use assms in simp)

lemma spends_trans: "spends P i a b \<Longrightarrow> spends P j b c \<Longrightarrow> spends P (i + j) a c"
  unfolding spends_def
proof (elim exE conjE)
  fix xs ys
  assume "ag_calls b = ag_calls a @ xs" "list_all P xs"
    "bg_tool_calls (ag_budget b) = bg_tool_calls (ag_budget a) + int (length xs)"
    "xs \<noteq> [] \<longrightarrow> bg_tool_calls (ag_budget b) \<le> bg_max_tool_calls (ag_budget a)"
    "bg_max_tool_calls (ag_budget b) = bg_max_tool_calls (ag_budget a)"
    "bg_max_iterations (ag_budget b) = bg_max_iterations (ag_budget a)"
    "bg_iterations (ag_budget b) = bg_iterations (ag_budget a) + i" "keyed (ag_tasks a) \<longrightarrow> keyed (ag_tasks b)"
    "ag_calls c = ag_calls b @ ys" "list_all P ys"
    "bg_tool_calls (ag_budget c) = bg_tool_calls (ag_budget b) + int (length ys)"
    "ys \<noteq> [] \<longrightarrow> bg_tool_calls (ag_budget c) \<le> bg_max_tool_calls (ag_budget b)"
    "bg_max_tool_calls (ag_budget c) = bg_max_tool_calls (ag_budget b)"
    "bg_max_iterations (ag_budget c) = bg_max_iterations (ag_budget b)"
    "bg_iterations (ag_budget c) = bg_iterations (ag_budget b) + j" "keyed (ag_tasks b) \<longrightarrow> keyed (ag_tasks c)"
  then show "\<exists>new. ag_calls c = ag_calls a @ new \<and> list_all P new
     \<and> bg_tool_calls (ag_budget c) = bg_tool_calls (ag_budget a) + int (length new)
     \<and> (new \<noteq> [] \<longrightarrow> bg_tool_calls (ag_budget c) \<le> bg_max_tool_calls (ag_budget a))
     \<and> bg_max_tool_calls (ag_budget c) = bg_max_tool_calls (ag_budget a)
     \<and> bg_max_iterations (ag_budget c) = bg_max_iterations (ag_budget a)
     \<and> bg_iterations (ag_budget c) = bg_iterations (ag_budget a) + (i + j)
     \<and> (keyed (ag_tasks a) \<longrightarrow> keyed (ag_tasks c))"
    by (intro exI [of _ "xs @ ys"]) (cases ys; simp)
qed

lemma spends_trans0: "spends P 0 a b \<Longrightarrow> spends P 0 b c \<Longrightarrow> spends P 0 a c"
  using spends_trans [of P 0 a b 0 c] by simp

lemma spends_mono: "spends P k a b \<Longrightarrow> (\<And>x. P x \<Longrightarrow> Q x) \<Longrightarrow> spends Q k a b"
  unfolding spends_def by (auto elim!: list.pred_mono_strong)

lemma spends_refl [simp]: "spends P 0 s s"
  by (rule spends_same) simp_all

lemma spends_free:
  assumes "ag_calls s' = ag_calls s" and "same_budget (ag_budget s) (ag_budget s')" and "keyed (ag_tasks s) \<Longrightarrow> keyed (ag_tasks s')"
  shows "spends P 0 s s'"
  unfolding spends_def by (rule exI [of _ "[]"]) (use assms in \<open>simp add: same_budget_def\<close>)

text \<open>What is spent is a frame for the parts that make no request.\<close>

interpretation spend: task_frame "spends P 0" i "\<lambda>_. True" for P i
proof unfold_locales
  fix a b c assume "spends P 0 a b" "spends P 0 b c"
  then show "spends P 0 a c" by (rule spends_trans0)
qed (auto intro!: spends_free keyed_adds simp: same_budget_def)

lemmas spend_intros = spend.keeps_intros

lemma thrifty_skip [simp]: "thrifty P (skip_tasks ts)"
proof (induction ts)
  case (Cons t ts)
  then show ?case using spend.keeps_change_task [of "skip_task DEAD_REASON" P "tk_id t"] by (auto intro!: spend_intros)
qed simp

lemma thrifty_judge [simp]: "thrifty P (judge_task env i ob)"
  by (rule spend.keeps_judge) simp


section \<open>The calls of a task\<close>

lemma tool_gate_None:
  assumes "tool_gate env s = (Inr None, s')"
  shows "bg_tool_calls (ag_budget s) < bg_max_tool_calls (ag_budget s)" and "\<exists>w. s' = s\<lparr>ag_world := w\<rparr>"
  using assms
  by (auto simp: tool_gate_def run_gate_def bind_def reads_def asks_def ret_def split: if_splits prod.splits)

lemma paid_request:
  assumes "P act" and "bg_tool_calls (ag_budget s) < bg_max_tool_calls (ag_budget s)" and "\<And>resp. thrifty P (m resp)"
    and "seq (change_budget record_tool_call) (seq (emit ev) (bind (make_request env act ctx) m)) s = (r, s')"
  shows "spends P 0 s s'"
proof -
  obtain x w where req: "ae_request env act ctx (ag_world s) = (x, w)" by (metis surj_pair)
  define s1 where "s1 = s\<lparr>ag_budget := record_tool_call (ag_budget s), ag_events := ag_events s @ [ev],
    ag_calls := ag_calls s @ [act], ag_world := w\<rparr>"
  have one: "spends P 0 s s1"
    unfolding spends_def by (rule exI [of _ "[act]"]) (use assms(1,2) in \<open>simp add: s1_def record_tool_call_def\<close>)
  have run: "(case x of Inl e \<Rightarrow> (Inl e, s1) | Inr resp \<Rightarrow> m resp s1) = (r, s')"
    using assms(4) req
    by (cases x) (simp_all add: seq_def bind_def change_budget_def emit_def updates_def make_request_def calls_out_def s1_def)
  show ?thesis
  proof (cases x)
    case (Inl e)
    then show ?thesis using run one by simp
  next
    case (Inr resp)
    then show ?thesis using run one keepsD [OF assms(3)] by (auto intro: spends_trans0)
  qed
qed

lemma thrifty_one_call:
  assumes "P \<lparr>action_type = tc_action c, a_params = tc_params c\<rparr>"
  shows "thrifty P (one_call env ctx i c)"
  unfolding keeps_def
proof (intro allI impI)
  fix s r s' assume "one_call env ctx i c s = (r, s')"
  then show "spends P 0 s s'"
    unfolding one_call_def Let_def
  proof (cases rule: bindE)
    case (1 e)
    then show ?thesis using keepsD [OF spend.keeps_tool_gate] by blast
  next
    case (2 g s1)
    show ?thesis
    proof (cases g)
      case (Some reason)
      then show ?thesis using 2 keepsD [OF spend.keeps_tool_gate] by (auto intro: spends_trans0)
    next
      case None
      obtain w where w: "s1 = s\<lparr>ag_world := w\<rparr>" using tool_gate_None(2) 2(1) None by blast
      have "spends P 0 s1 s'"
      proof (rule paid_request)
        show "P \<lparr>action_type = tc_action c, a_params = tc_params c\<rparr>" by (rule assms)
        show "bg_tool_calls (ag_budget s1) < bg_max_tool_calls (ag_budget s1)" using tool_gate_None(1) 2(1) None w by auto
        show "thrifty P (let ob = observation_of i (tc_action c) resp in seq (note_outcome i ob)
            (if rs_status resp = St_confirmation_required
              then confirm_call env ctx i \<lparr>action_type = tc_action c, a_params = tc_params c\<rparr> resp else ret (Inl ob)))" for resp
          by (auto simp: Let_def intro!: spend_intros)
      qed (use 2(2) None in \<open>simp add: Let_def\<close>)
      moreover have "spends P 0 s s1" using 2(1) keepsD [OF spend.keeps_tool_gate] by blast
      ultimately show ?thesis by (blast intro: spends_trans0)
    qed
  qed
qed

lemma thrifty_run_calls:
  "\<forall>c \<in> set cs. P \<lparr>action_type = tc_action c, a_params = tc_params c\<rparr> \<Longrightarrow> thrifty P (run_calls env ctx i ob cs)"
proof (induction cs arbitrary: ob)
  case (Cons c cs)
  then have "thrifty P (one_call env ctx i c)" by (intro thrifty_one_call) simp
  then show ?case using Cons
    by (auto intro!: spend_intros split: sum.split)
qed simp


section \<open>A pass\<close>

text \<open>\<open>P\<close> holds of every call of a list whose first call passes the gate.\<close>

definition act_of :: "tool_call \<Rightarrow> action" where
  "act_of c = \<lparr>action_type = tc_action c, a_params = tc_params c\<rparr>"

definition covered :: "('w, 'z) agent_env_scheme \<Rightarrow> (action \<Rightarrow> bool) \<Rightarrow> bool" where
  "covered env P = (\<forall>i s proposed s' c cs. prepare_calls env i s = (Inr (Inr proposed), s')
     \<and> filter (\<lambda>c. tc_action c \<noteq> []) proposed = c # cs \<and> gate_reject env c = None \<longrightarrow> (\<forall>x \<in> set (c # cs). P (act_of x)))"

lemma covered_all: "covered env (\<lambda>_. True)"
  by (simp add: covered_def)

lemma thrifty_attempt:
  assumes "covered env P"
  shows "thrifty P (attempt_task env goal ctx summary i)"
  unfolding keeps_def
proof (intro allI impI)
  fix s r s' assume "attempt_task env goal ctx summary i s = (r, s')"
  then show "spends P 0 s s'"
    unfolding attempt_task_def
  proof (cases rule: bindE)
    case (1 e)
    then show ?thesis using keepsD [OF spend.keeps_prepare] by blast
  next
    case (2 x s1)
    have pre: "spends P 0 s s1" using 2(1) keepsD [OF spend.keeps_prepare] by blast
    have "spends P 0 s1 s'"
    proof (cases x)
      case (Inl err)
      have "thrifty P (seq (brain_failed i err) (ret Again))" by (intro spend_intros) simp_all
      then show ?thesis using 2(2) Inl by (auto dest: keepsD)
    next
      case (Inr proposed)
      show ?thesis
      proof (cases "filter (\<lambda>c. tc_action c \<noteq> []) proposed")
        case Nil
        have "thrifty P (seq (fail_now i ''brain proposed no tool call'') (ret Again))" by (intro spend_intros) simp_all
        then show ?thesis using 2(2) Inr Nil by (auto dest: keepsD)
      next
        case (Cons c cs)
        show ?thesis
        proof (cases "gate_reject env c")
          case (Some reason)
          have "thrifty P (seq (gate_failed i (tc_action c) reason) (ret Again))" by (intro spend_intros) simp_all
          then show ?thesis using 2(2) Inr Cons Some by (auto dest: keepsD)
        next
          case None
          have "\<forall>x \<in> set (c # cs). P (act_of x)" using assms 2(1) Inr Cons None unfolding covered_def by blast
          then have "thrifty P (run_calls env ctx i None (c # cs))"
            by (intro thrifty_run_calls) (simp add: act_of_def)
          then have "thrifty P (bind (run_calls env ctx i None (c # cs)) (\<lambda>e. case e of
             Settled ob \<Rightarrow> seq (judge_task env i ob) (ret Again)
           | OperatorDenied \<Rightarrow> seq (fail_now i ''operator denied the pending confirmation'') (ret Again)
           | Paused \<Rightarrow> bind (final env goal ctx summary R_waiting [PausedForApproval]) (\<lambda>rc. ret (Ended rc))
           | OutOfBudget reason \<Rightarrow>
               bind (final env goal ctx summary R_budget_exceeded [StoppedBy reason]) (\<lambda>rc. ret (Ended rc))))"
            by (rule spend.keeps_bind) (auto intro!: spend_intros split: calls_end.split)
          then show ?thesis using 2(2) Inr Cons None by (auto dest: keepsD)
        qed
      qed
    qed
    with pre show ?thesis by (rule spends_trans0)
  qed
qed


text \<open>Skipping: every task of the list is no longer pending.\<close>

lemma pending_skip:
  assumes "keyed tm"
  shows "pending_tasks (on_task i (skip_task reason) tm) = filter (\<lambda>t. tk_id t \<noteq> i) (pending_tasks tm)"
  using assms unfolding pending_tasks_def on_task_def keyed_def
  by (induction tm) (auto simp: skip_task_def)

lemma skip_tasks_pending:
  assumes "skip_tasks ts s = (r, s')" and "keyed (ag_tasks s)"
  shows "r = Inr () \<and> (\<exists>f. pending_tasks (ag_tasks s') = filter f (pending_tasks (ag_tasks s)) \<and> (\<forall>t \<in> set ts. \<not> f t))"
  using assms
proof (induction ts arbitrary: s)
  case (Cons t ts)
  define s1 where "s1 = s\<lparr>ag_tasks := on_task (tk_id t) (skip_task DEAD_REASON) (ag_tasks s),
    ag_events := ag_events s @ [TaskSkipped (tk_id t) (Some (take 500 DEAD_REASON))]\<rparr>"
  have "skip_tasks ts s1 = (r, s')"
    using Cons.prems(1) by (simp add: seq_def bind_def change_task_def emit_def updates_def s1_def)
  moreover have "keyed (ag_tasks s1)" using Cons.prems(2) by (simp add: s1_def keyed_on_task)
  ultimately obtain f where f: "r = Inr ()" "pending_tasks (ag_tasks s') = filter f (pending_tasks (ag_tasks s1))" "\<forall>t \<in> set ts. \<not> f t"
    using Cons.IH by blast
  have "pending_tasks (ag_tasks s') = filter (\<lambda>x. tk_id x \<noteq> tk_id t \<and> f x) (pending_tasks (ag_tasks s))"
    using f(2) pending_skip [OF Cons.prems(2)] by (simp add: s1_def conj_commute)
  then show ?case using f(1,3) by (intro conjI exI [of _ "\<lambda>x. tk_id x \<noteq> tk_id t \<and> f x"]) auto
qed (auto intro: exI [of _ "\<lambda>_. True"])

lemma pending_choice:
  "next_ready tm = None \<Longrightarrow> has_pending tm \<Longrightarrow>
     \<exists>t \<in> set (if blocked_pending tm \<noteq> [] then blocked_pending tm else pending_tasks tm). t \<in> set (pending_tasks tm)"
proof -
  assume "has_pending tm"
  then have "pending_tasks tm \<noteq> []" by (auto simp: has_pending_def pending_tasks_def list_ex_iff filter_empty_conv)
  moreover have "set (blocked_pending tm) \<subseteq> set (pending_tasks tm)" by (auto simp: blocked_pending_def pending_tasks_def)
  ultimately show ?thesis by (cases "blocked_pending tm") (auto simp: neq_Nil_conv)
qed

text \<open>A pass either ends the run, or counts an iteration within the cap, or leaves fewer tasks pending.\<close>

lemma start_task_spends:
  "start_task t s = (r, s1) \<Longrightarrow> r = Inr () \<and> spends P 1 s s1"
  unfolding start_task_def seq_def bind_def change_budget_def change_task_def emit_def updates_def spends_def
  by (auto intro!: exI [of _ "[]"] keyed_on_task)

lemma budget_check_None: "budget_check now b = None \<Longrightarrow> bg_iterations b \<le> bg_max_iterations b"
  by (auto simp: budget_check_def split: if_splits)

lemma run_gate_None:
  assumes "run_gate env s = (x, s')"
  shows "\<exists>g w. x = Inr g \<and> s' = s\<lparr>ag_world := w\<rparr> \<and> (g = None \<longrightarrow> bg_iterations (ag_budget s) \<le> bg_max_iterations (ag_budget s))"
proof -
  obtain now w where "ae_monotonic env (ag_world s) = (now, w)" by (metis surj_pair)
  then show ?thesis
    using assms budget_check_None by (intro exI [of _ "budget_check now (ag_budget s)"] exI [of _ w])
      (auto simp: run_gate_def bind_def reads_def asks_def)
qed

lemma pass_spends:
  assumes "drive_pass env goal ctx summary s = (r, s')" and "covered env P"
  shows "(\<exists>k. (k = 0 \<or> k = 1) \<and> spends P k s s')
    \<and> (r = Inr Again \<longrightarrow> keyed (ag_tasks s) \<longrightarrow>
         (bg_iterations (ag_budget s') = bg_iterations (ag_budget s) + 1 \<and> bg_iterations (ag_budget s) \<le> bg_max_iterations (ag_budget s))
       \<or> (bg_iterations (ag_budget s') = bg_iterations (ag_budget s)
          \<and> length (pending_tasks (ag_tasks s')) < length (pending_tasks (ag_tasks s))))"
  using assms(1) unfolding drive_pass_def
proof (cases rule: bindE)
  case (1 e)
  then show ?thesis using run_gate_None by blast
next
  case (2 g s1)
  obtain w where w: "s1 = s\<lparr>ag_world := w\<rparr>" "g = None \<longrightarrow> bg_iterations (ag_budget s) \<le> bg_max_iterations (ag_budget s)"
    using run_gate_None [OF 2(1)] by blast
  have s1: "spends P 0 s s1" unfolding w(1) by (rule spends_same) simp_all
  show ?thesis
  proof (cases g)
    case (Some reason)
    have "thrifty P (bind (final env goal ctx summary R_budget_exceeded [StoppedBy reason]) (\<lambda>rc. ret (Ended rc)))"
      by (intro spend_intros) simp_all
    then have "spends P 0 s1 s'" using 2(2) Some by (auto dest: keepsD)
    moreover have "r \<noteq> Inr Again" using 2(2) Some by (auto simp: bind_def ret_def split: prod.splits sum.splits)
    ultimately show ?thesis using s1 spends_trans0 by blast
  next
    case None
    show ?thesis
    proof (cases "next_ready (ag_tasks s1)")
      case (Some t)
      have "seq (start_task t) (attempt_task env goal ctx summary (tk_id t)) s1 = (r, s')"
        using 2(2) None Some by (simp add: bind_def reads_def)
      then obtain s2 where s2: "start_task t s1 = (Inr (), s2)" "attempt_task env goal ctx summary (tk_id t) s2 = (r, s')"
        using start_task_spends [of t s1] by (auto simp: seq_def bind_def split: prod.splits sum.splits)
      have "spends P 1 s1 s2" using start_task_spends [OF s2(1)] by blast
      moreover have "spends P 0 s2 s'" by (rule keepsD [OF thrifty_attempt [OF assms(2)] s2(2)])
      ultimately have all: "spends P 1 s s'" using s1 spends_trans [of P 0 s s1 1 s2] spends_trans [of P 1 s s2 0 s'] by simp
      then have "bg_iterations (ag_budget s') = bg_iterations (ag_budget s) + 1" by (auto simp: spends_def)
      then show ?thesis using all w(2) None by blast
    next
      case no: None
      show ?thesis
      proof (cases "has_pending (ag_tasks s1)")
        case False
        have run: "bind (final env goal ctx summary R_completed []) (\<lambda>rc. ret (Ended rc)) s1 = (r, s')"
          using 2(2) None no False by (simp add: bind_def reads_def)
        have "thrifty P (bind (final env goal ctx summary R_completed []) (\<lambda>rc. ret (Ended rc)))"
          by (intro spend_intros) simp_all
        then have "spends P 0 s1 s'" using run by (auto dest: keepsD)
        moreover have "r \<noteq> Inr Again" using run by (auto simp: bind_def ret_def split: prod.splits sum.splits)
        ultimately show ?thesis using s1 spends_trans0 by blast
      next
        case True
        let ?dead = "if blocked_pending (ag_tasks s1) \<noteq> [] then blocked_pending (ag_tasks s1) else pending_tasks (ag_tasks s1)"
        have run: "seq (skip_tasks ?dead) (ret Again) s1 = (r, s')"
          using 2(2) None no True by (simp add: bind_def reads_def)
        have "thrifty P (seq (skip_tasks ?dead) (ret Again))" by (intro spend_intros) simp_all
        then have sp: "spends P 0 s1 s'" using run by (auto dest: keepsD)
        have "length (pending_tasks (ag_tasks s')) < length (pending_tasks (ag_tasks s))" if "keyed (ag_tasks s)"
        proof -
          obtain x where "skip_tasks ?dead s1 = (x, s')"
            using run by (auto simp: seq_def bind_def ret_def split: prod.splits sum.splits)
          from skip_tasks_pending [OF this] that w(1) obtain f where
            f: "pending_tasks (ag_tasks s') = filter f (pending_tasks (ag_tasks s))" "\<forall>t \<in> set ?dead. \<not> f t" by auto
          then show ?thesis using pending_choice [OF no True] w(1) by (auto simp: length_filter_less)
        qed
        moreover have "bg_iterations (ag_budget s') = bg_iterations (ag_budget s)" using sp w(1) by (auto simp: spends_def)
        ultimately show ?thesis using s1 sp spends_trans0 by blast
      qed
    qed
  qed
qed


section \<open>The loop\<close>

lemma drive_spends:
  "drive n env goal ctx summary s = (r, s') \<Longrightarrow> covered env P \<Longrightarrow> \<exists>k. spends P k s s'"
proof (induction n arbitrary: s)
  case 0
  then show ?case by (auto intro: exI [of _ 0])
next
  case (Suc n)
  from Suc.prems(1) show ?case
    unfolding drive.simps
  proof (cases rule: bindE)
    case (1 e)
    then show ?thesis using pass_spends Suc.prems(2) by blast
  next
    case (2 x t)
    obtain k where k: "spends P k s t" using pass_spends [OF 2(1) Suc.prems(2)] by blast
    show ?thesis
    proof (cases x)
      case Again
      then obtain j where "spends P j t s'" using 2(2) Suc.IH Suc.prems(2) by auto
      with k show ?thesis using spends_trans by blast
    next
      case (Ended rc)
      then show ?thesis using 2(2) k by auto
    qed
  qed
qed

lemma drive_ends:
  assumes "keyed (ag_tasks s)"
  shows "\<exists>n. fst (drive n env goal ctx summary s) \<noteq> Inr None"
  using assms
proof (induction "(nat (bg_max_iterations (ag_budget s) + 1 - bg_iterations (ag_budget s)), length (pending_tasks (ag_tasks s)))"
    arbitrary: s rule: wf_induct [OF wf_lex_prod [OF wf_less_than wf_less_than]])
  case (1 s)
  obtain r s1 where pass: "drive_pass env goal ctx summary s = (r, s1)" by (metis surj_pair)
  have sp: "\<exists>k. (k = 0 \<or> k = 1) \<and> spends (\<lambda>_. True) k s s1"
    using pass_spends [OF pass covered_all] by blast
  then have keyed: "keyed (ag_tasks s1)" and cap: "bg_max_iterations (ag_budget s1) = bg_max_iterations (ag_budget s)"
    using 1(2) by (auto simp: spends_def)
  show ?case
  proof (cases r)
    case (Inl e)
    then show ?thesis using pass by (intro exI [of _ 1]) (simp add: bind_def)
  next
    case (Inr x)
    show ?thesis
    proof (cases x)
      case (Ended rc)
      then show ?thesis using pass Inr by (intro exI [of _ 1]) (simp add: bind_def ret_def)
    next
      case Again
      have "(bg_iterations (ag_budget s1) = bg_iterations (ag_budget s) + 1 \<and> bg_iterations (ag_budget s) \<le> bg_max_iterations (ag_budget s))
       \<or> (bg_iterations (ag_budget s1) = bg_iterations (ag_budget s)
          \<and> length (pending_tasks (ag_tasks s1)) < length (pending_tasks (ag_tasks s)))"
        using pass_spends [OF pass covered_all] Inr Again 1(2) by blast
      then have "((nat (bg_max_iterations (ag_budget s1) + 1 - bg_iterations (ag_budget s1)), length (pending_tasks (ag_tasks s1))),
          (nat (bg_max_iterations (ag_budget s) + 1 - bg_iterations (ag_budget s)), length (pending_tasks (ag_tasks s))))
          \<in> less_than <*lex*> less_than"
        using cap by auto
      then obtain n where "fst (drive n env goal ctx summary s1) \<noteq> Inr None" using 1(1) keyed by blast
      then show ?thesis using pass Inr Again by (intro exI [of _ "Suc n"]) (simp add: bind_def)
    qed
  qed
qed

section \<open>Running and resuming\<close>

text \<open>What happens before the loop.\<close>

lemma seq_updates: "seq (updates f) m s = m (f s)"
  by (simp add: seq_def bind_def updates_def)

lemmas seq_emit = seq_updates [of "\<lambda>s. s\<lparr>ag_events := ag_events s @ [ev]\<rparr>", folded emit_def] for ev

lemma run_agent_cases:
  obtains (failed) e t where "\<And>n. run_agent n env goal ctx given s = (Inl e, t)" "ag_calls t = ag_calls s" "ag_budget t = ag_budget s"
  | (driven) s1 summary where "\<And>n. run_agent n env goal ctx given s = drive n env goal ctx summary s1" "keyed (ag_tasks s1)"
      "ag_calls s1 = ag_calls s" "ag_budget s1 = ag_budget s"
proof -
  let ?plan = "case given of Some p \<Rightarrow> ret p | None \<Rightarrow> calls_out (ae_plan env goal)"
  obtain x t where plan: "?plan (s\<lparr>ag_events := ag_events s @ [RunStarted goal False]\<rparr>) = (x, t)" by (metis surj_pair)
  have t: "ag_calls t = ag_calls s" "ag_budget t = ag_budget s"
    using plan by (auto simp: calls_out_def ret_def split: option.splits prod.splits)
  show thesis
  proof (cases x)
    case (Inl e)
    then have "run_agent n env goal ctx given s = (Inl e, t)" for n
      unfolding run_agent_def seq_emit using plan by (simp add: bind_def)
    then show thesis using t by (rule failed)
  next
    case (Inr p0)
    let ?p = "harden_plan p0"
    define s1 where "s1 = t\<lparr>ag_events := ag_events t @ [PlanCreated (pl_summary ?p) (length (pl_tasks ?p)) (pl_created_by ?p)],
      ag_memory := set_up_memory env ctx (pl_goal ?p) (new_memory goal), ag_tasks := task_table (pl_tasks ?p), ag_replans := 0\<rparr>"
    have "run_agent n env goal ctx given s = drive n env goal ctx (pl_summary ?p) s1" for n
      unfolding run_agent_def seq_emit using plan Inr by (simp add: bind_def Let_def seq_emit seq_updates s1_def)
    then show thesis using t by (intro driven [of "pl_summary ?p" s1]) (simp_all add: s1_def keyed_table)
  qed
qed

lemma thrifty_settle_waits [simp]: "thrifty P (settle_waits resolved ts)"
proof (induction ts)
  case (Cons t ts)
  have "thrifty P (settle_wait resolved t)"
    by (auto simp: settle_wait_def Let_def intro!: spend_intros split: list.split)
  then show ?case using Cons by (auto intro: spend.keeps_seq)
qed simp

lemma settle_waits_ok: "\<exists>s'. settle_waits resolved ts s = (Inr (), s')"
proof (induction ts arbitrary: s)
  case (Cons t ts)
  have "\<exists>s1. settle_wait resolved t s = (Inr (), s1)"
    by (auto simp: settle_wait_def Let_def ret_def seq_def bind_def change_task_def emit_def updates_def split: list.split)
  then show ?case using Cons.IH by (auto simp: seq_def bind_def)
qed (simp add: ret_def)

lemma resume_agent_cases:
  obtains s1 where "\<And>n. resume_agent n env prev p ctx resolutions s = drive n env (rc_goal prev) ctx (pl_summary p) s1"
      "keyed (ag_tasks s1)" "ag_calls s1 = ag_calls s" "bg_max_tool_calls (ag_budget s1) = bg_max_tool_calls (ag_budget s)"
      "bg_tool_calls (ag_budget s1) = us_tool_calls (rr_usage (rc_result prev))"
proof -
  let ?ts = "map harden_task (rc_tasks prev)"
  let ?waits = "settle_waits (fold (\<lambda>r. AList.update (rv_confirmation r) r) resolutions []) (waiting_tasks (task_table ?ts))"
  define s0 where "s0 = s\<lparr>ag_events := ag_events s @ [RunStarted (rc_goal prev) True],
    ag_memory := set_up_memory env ctx (pl_goal p) (rebuild_memory (ae_str env) ?ts (new_memory (rc_goal prev))),
    ag_budget := restore_budget (rr_usage (rc_result prev)) (ag_budget s), ag_tasks := task_table ?ts, ag_replans := 0\<rparr>"
  obtain s1 where w: "?waits s0 = (Inr (), s1)" using settle_waits_ok by blast
  have "spends (\<lambda>_. False) 0 s0 s1" by (rule keepsD [OF thrifty_settle_waits w])
  then have "ag_calls s1 = ag_calls s" "bg_max_tool_calls (ag_budget s1) = bg_max_tool_calls (ag_budget s)"
    "bg_tool_calls (ag_budget s1) = us_tool_calls (rr_usage (rc_result prev))" "keyed (ag_tasks s1)"
    by (auto simp: spends_def s0_def restore_budget_def keyed_table list_all_iff)
  moreover have "resume_agent n env prev p ctx resolutions s = drive n env (rc_goal prev) ctx (pl_summary p) s1" for n
    using w by (simp add: resume_agent_def Let_def seq_emit seq_updates s0_def [symmetric] seq_def [of ?waits] bind_def [of ?waits])
  ultimately show thesis by (intro that)
qed

section \<open>Properties\<close>

text \<open>C13. A run of the agent ends, and so does every resumption of one, whatever the planner, the brain, the
  verifier, the operator and the clocks do: some number of passes of the loop is enough.\<close>

theorem agent_run_ends:
  "(\<exists>n. fst (run_agent n env goal ctx given s) \<noteq> Inr None)
   \<and> (\<exists>n. fst (resume_agent n env prev p ctx resolutions s) \<noteq> Inr None)"
proof
  show "\<exists>n. fst (run_agent n env goal ctx given s) \<noteq> Inr None"
  proof (cases rule: run_agent_cases [of env goal ctx given s])
    case (failed e t)
    then show ?thesis by simp
  next
    case (driven s1 summary)
    then show ?thesis using drive_ends by metis
  qed
  show "\<exists>n. fst (resume_agent n env prev p ctx resolutions s) \<noteq> Inr None"
  proof -
    obtain s1 where "\<And>n. resume_agent n env prev p ctx resolutions s = drive n env (rc_goal prev) ctx (pl_summary p) s1"
        and "keyed (ag_tasks s1)"
      by (rule resume_agent_cases [of env prev p ctx resolutions s]) blast
    then show ?thesis using drive_ends by metis
  qed
qed

lemma run_agent_spends:
  "covered env P \<Longrightarrow> \<exists>k s1. spends P k s1 (snd (run_agent n env goal ctx given s)) \<and> ag_calls s1 = ag_calls s
     \<and> bg_tool_calls (ag_budget s1) = bg_tool_calls (ag_budget s) \<and> bg_max_tool_calls (ag_budget s1) = bg_max_tool_calls (ag_budget s)"
proof (cases rule: run_agent_cases [of env goal ctx given s])
  case (failed e t)
  then show ?thesis by (intro exI [of _ 0] exI [of _ t]) simp
next
  case (driven s1 summary)
  then show "covered env P \<Longrightarrow> ?thesis" using drive_spends [OF prod.collapse [symmetric]] by metis
qed

lemma resume_agent_spends:
  "covered env P \<Longrightarrow> \<exists>k s1. spends P k s1 (snd (resume_agent n env prev p ctx resolutions s)) \<and> ag_calls s1 = ag_calls s
     \<and> bg_tool_calls (ag_budget s1) = us_tool_calls (rr_usage (rc_result prev))
     \<and> bg_max_tool_calls (ag_budget s1) = bg_max_tool_calls (ag_budget s)"
proof (rule resume_agent_cases [of env prev p ctx resolutions s])
  fix s1
  assume "\<And>n. resume_agent n env prev p ctx resolutions s = drive n env (rc_goal prev) ctx (pl_summary p) s1"
    "ag_calls s1 = ag_calls s" "bg_max_tool_calls (ag_budget s1) = bg_max_tool_calls (ag_budget s)"
    "bg_tool_calls (ag_budget s1) = us_tool_calls (rr_usage (rc_result prev))"
  then show "covered env P \<Longrightarrow> ?thesis" using drive_spends [OF prod.collapse [symmetric]] by metis
qed

lemma spent_calls:
  assumes "spends P k s1 s'" and "ag_calls s1 = c" and "bg_tool_calls (ag_budget s1) = used" and "bg_max_tool_calls (ag_budget s1) = cap"
  shows "\<exists>made. ag_calls s' = c @ made \<and> list_all P made \<and> int (length made) \<le> max 0 (cap - used)"
proof -
  obtain made where made: "ag_calls s' = ag_calls s1 @ made" "list_all P made"
    "bg_tool_calls (ag_budget s') = bg_tool_calls (ag_budget s1) + int (length made)"
    "made \<noteq> [] \<longrightarrow> bg_tool_calls (ag_budget s') \<le> bg_max_tool_calls (ag_budget s1)"
    using assms(1) by (auto simp: spends_def)
  then show ?thesis using assms(2-4) by (intro exI [of _ made]) (cases "made = []"; simp)
qed

text \<open>What passes the gate of the loop.\<close>

definition selectable :: "('w, 'z) agent_env_scheme \<Rightarrow> action \<Rightarrow> bool" where
  "selectable env act = (case catalog_get (ae_catalog env) (action_type act) of
       None \<Rightarrow> False
     | Some spec \<Rightarrow> as_risk spec \<noteq> FORBIDDEN \<and> ae_registry env (action_type act) \<noteq> None
         \<and> (case ae_guard env of None \<Rightarrow> True | Some g \<Rightarrow> g (action_type act))
         \<and> \<not> (action_type act = ''browser.fill'' \<and> is_str (get_param (a_params act) ''text'')))"

lemma gate_selectable: "gate_reject env c = None \<Longrightarrow> selectable env (act_of c)"
  by (auto simp: gate_reject_def selectable_def act_of_def Let_def split: option.splits if_splits)

lemma prepared_calls:
  assumes "prepare_calls env i s = (Inr (Inr cs), s')"
  shows "\<exists>t m ps b w uses w'. ae_propose env t m ps b w = ((Inr cs, uses), w')"
proof -
  have "bind (thinks (ae_prepare env) i) (\<lambda>ps. thinks (\<lambda>t m. ae_propose env t m ps) i) s = (Inr cs, s')"
    using assms by (auto simp: prepare_calls_def split: prod.splits sum.splits py_exc.splits)
  then obtain ps s1 where "thinks (\<lambda>t m. ae_propose env t m ps) i s1 = (Inr cs, s')" by (auto simp: bind_Inr_iff)
  then obtain t s2 where "(case ae_propose env t (ag_memory s2) ps (ag_budget s2) (ag_world s2) of
      ((r, uses), w) \<Rightarrow> (r, s2\<lparr>ag_world := w, ag_budget := apply_usage uses (ag_budget s2)\<rparr>)) = (Inr cs, s')"
    by (auto simp: thinks_def bind_Inr_iff)
  then show ?thesis by (cases "ae_propose env t (ag_memory s2) ps (ag_budget s2) (ag_world s2)") (fastforce split: prod.splits)
qed

lemma covered_single:
  assumes "\<And>t m ps b w cs uses w'. ae_propose env t m ps b w = ((Inr cs, uses), w') \<Longrightarrow> length cs \<le> 1"
  shows "covered env (selectable env)"
  unfolding covered_def
proof (intro allI impI, elim conjE)
  fix i s proposed s' c cs
  assume p: "prepare_calls env i s = (Inr (Inr proposed), s')" "filter (\<lambda>c. tc_action c \<noteq> []) proposed = c # cs" "gate_reject env c = None"
  have "length proposed \<le> 1" using prepared_calls [OF p(1)] assms by blast
  then have "length (c # cs) \<le> 1" using length_filter_le [of "\<lambda>c. tc_action c \<noteq> []" proposed] unfolding p(2) by linarith
  then have "cs = []" by simp
  then show "\<forall>x \<in> set (c # cs). selectable env (act_of x)" using gate_selectable [OF p(3)] by simp
qed

text \<open>C33. The cap on tool calls holds over a run and its resumptions: a run makes no more requests than its
  budget has left, and a resumption no more than the record it resumes leaves.\<close>

theorem agent_tool_calls_bounded:
  "(\<exists>made. ag_calls (snd (run_agent n env goal ctx given s)) = ag_calls s @ made
      \<and> int (length made) \<le> max 0 (bg_max_tool_calls (ag_budget s) - bg_tool_calls (ag_budget s)))
   \<and> (\<exists>made. ag_calls (snd (resume_agent n env prev p ctx resolutions s)) = ag_calls s @ made
      \<and> int (length made) \<le> max 0 (bg_max_tool_calls (ag_budget s) - us_tool_calls (rr_usage (rc_result prev))))"
proof -
  obtain k s1 where "spends (\<lambda>_. True) k s1 (snd (run_agent n env goal ctx given s))" "ag_calls s1 = ag_calls s"
    "bg_tool_calls (ag_budget s1) = bg_tool_calls (ag_budget s)" "bg_max_tool_calls (ag_budget s1) = bg_max_tool_calls (ag_budget s)"
    using run_agent_spends [OF covered_all] by blast
  note run = spent_calls [OF this]
  obtain k s1 where "spends (\<lambda>_. True) k s1 (snd (resume_agent n env prev p ctx resolutions s))" "ag_calls s1 = ag_calls s"
    "bg_tool_calls (ag_budget s1) = us_tool_calls (rr_usage (rc_result prev))"
    "bg_max_tool_calls (ag_budget s1) = bg_max_tool_calls (ag_budget s)"
    using resume_agent_spends [OF covered_all] by blast
  note resume = spent_calls [OF this]
  show ?thesis using run resume by blast
qed

text \<open>C29. Every request the loop makes has passed its gate when the brain proposes one call at a time: the action
  is in the catalogue and not FORBIDDEN, it has a provider, the guard of the role lets it through, and it fills no
  raw text into a page.\<close>

theorem agent_calls_gated:
  assumes "\<And>t m ps b w cs uses w'. ae_propose env t m ps b w = ((Inr cs, uses), w') \<Longrightarrow> length cs \<le> 1"
  shows "(\<exists>made. ag_calls (snd (run_agent n env goal ctx given s)) = ag_calls s @ made \<and> list_all (selectable env) made)
   \<and> (\<exists>made. ag_calls (snd (resume_agent n env prev p ctx resolutions s)) = ag_calls s @ made \<and> list_all (selectable env) made)"
proof -
  have env: "covered env (selectable env)" by (rule covered_single) (rule assms)
  obtain k s1 where "spends (selectable env) k s1 (snd (run_agent n env goal ctx given s))" "ag_calls s1 = ag_calls s"
    using run_agent_spends [OF env] by blast
  note run = spent_calls [OF this refl refl]
  obtain k s1 where "spends (selectable env) k s1 (snd (resume_agent n env prev p ctx resolutions s))" "ag_calls s1 = ag_calls s"
    using resume_agent_spends [OF env] by blast
  note resume = spent_calls [OF this refl refl]
  show ?thesis using run resume by blast
qed

lemma agent_calls_gated_witness:
  "(\<exists>made. ag_calls (snd (run_agent 3 (small_agent [open_page]) ''look'' user_ctx None new_agent)) = ag_calls new_agent @ made
      \<and> list_all (selectable (small_agent [open_page])) made)
   \<and> map action_type (ag_calls (snd (run_agent 3 (small_agent [open_page]) ''look'' user_ctx None new_agent)))
      = [''browser.open'', ''browser.open'']"
  using agent_calls_gated [of "small_agent [open_page]" 3 "''look''" user_ctx None new_agent] small_agent_run by fastforce

end
