(* ===== verification/Agent_Outcome.thy ===== *)
theory Agent_Outcome
  imports Agent_Safety
begin

text \<open>
  What an agent run reports: tasks run after what they depend on, and a run that is reported completed has
  completed every task it required.
\<close>

section \<open>Other tasks stay as they are\<close>

definition beside :: "string \<Rightarrow> 'w agent \<Rightarrow> 'w agent \<Rightarrow> bool" where
  "beside i s s' =
     ((\<forall>j. j \<noteq> i \<longrightarrow> map_of (ag_tasks s') j = map_of (ag_tasks s) j
         \<or> map_of (ag_tasks s) j = None \<and> (\<exists>t. map_of (ag_tasks s') j = Some t \<and> tk_status t = T_pending))
    \<and> (\<forall>t. map_of (ag_tasks s) i = Some t \<longrightarrow> (\<exists>t'. map_of (ag_tasks s') i = Some t' \<and> tk_depends t' = tk_depends t)))"

lemma map_of_on_task: "map_of (on_task i f tm) j = (if j = i then map_option f (map_of tm j) else map_of tm j)"
  by (induction tm) (auto simp: on_task_def)

lemma map_of_adds:
  "map_of (fold add_task ts tm) j =
     (case map_of tm j of Some t \<Rightarrow> Some t | None \<Rightarrow> find (\<lambda>t. tk_id t = j) ts)"
proof (induction ts arbitrary: tm)
  case (Cons t ts)
  then show ?case by (auto simp: add_task_def map_add_def split: option.splits)
qed (simp split: option.split)

lemma beside_trans: "beside i a b \<Longrightarrow> beside i b c \<Longrightarrow> beside i a c"
  unfolding beside_def
proof (intro conjI allI impI; elim conjE)
  fix j
  assume j: "j \<noteq> i" and b: "\<forall>j. j \<noteq> i \<longrightarrow> map_of (ag_tasks b) j = map_of (ag_tasks a) j
         \<or> map_of (ag_tasks a) j = None \<and> (\<exists>t. map_of (ag_tasks b) j = Some t \<and> tk_status t = T_pending)"
    and c: "\<forall>j. j \<noteq> i \<longrightarrow> map_of (ag_tasks c) j = map_of (ag_tasks b) j
         \<or> map_of (ag_tasks b) j = None \<and> (\<exists>t. map_of (ag_tasks c) j = Some t \<and> tk_status t = T_pending)"
  show "map_of (ag_tasks c) j = map_of (ag_tasks a) j
         \<or> map_of (ag_tasks a) j = None \<and> (\<exists>t. map_of (ag_tasks c) j = Some t \<and> tk_status t = T_pending)"
    using b [rule_format, OF j] c [rule_format, OF j] by auto
next
  fix t
  assume "map_of (ag_tasks a) i = Some t"
    and "\<forall>t. map_of (ag_tasks a) i = Some t \<longrightarrow> (\<exists>t'. map_of (ag_tasks b) i = Some t' \<and> tk_depends t' = tk_depends t)"
    and "\<forall>t. map_of (ag_tasks b) i = Some t \<longrightarrow> (\<exists>t'. map_of (ag_tasks c) i = Some t' \<and> tk_depends t' = tk_depends t)"
  then show "\<exists>t'. map_of (ag_tasks c) i = Some t' \<and> tk_depends t' = tk_depends t" by metis
qed

interpretation beside: task_frame "beside i" i "\<lambda>t. tk_status t = T_pending" for i
proof unfold_locales
  fix a b c assume "beside i a b" "beside i b c"
  then show "beside i a c" by (rule beside_trans)
next
  fix ts :: "task list" and s :: "'w agent" and n
  assume "\<forall>t \<in> set ts. tk_status t = T_pending"
  then have new: "\<exists>t. find (\<lambda>t. tk_id t = j) ts = Some t \<and> tk_status t = T_pending" if "find (\<lambda>t. tk_id t = j) ts \<noteq> None" for j
    using that by (auto simp: find_Some_iff)
  show "beside i s (s\<lparr>ag_tasks := fold add_task ts (ag_tasks s), ag_replans := n\<rparr>)"
    unfolding beside_def
  proof (intro conjI allI impI)
    fix j
    show "map_of (ag_tasks (s\<lparr>ag_tasks := fold add_task ts (ag_tasks s), ag_replans := n\<rparr>)) j = map_of (ag_tasks s) j
         \<or> map_of (ag_tasks s) j = None
           \<and> (\<exists>t. map_of (ag_tasks (s\<lparr>ag_tasks := fold add_task ts (ag_tasks s), ag_replans := n\<rparr>)) j = Some t \<and> tk_status t = T_pending)"
      using new [of j] by (cases "find (\<lambda>t. tk_id t = j) ts"; cases "map_of (ag_tasks s) j") (auto simp: map_of_adds)
  qed (simp add: map_of_adds)
qed (auto simp: beside_def map_of_on_task same_task_def)

lemma beside_request [simp]: "keeps (beside i) (make_request env act ctx)"
  unfolding make_request_def
proof (rule beside.keeps_seq)
  show "keeps (beside i) (updates (\<lambda>s. s\<lparr>ag_calls := ag_calls s @ [act]\<rparr>))" by (auto simp: keeps_def updates_def beside_def)
qed simp

lemma beside_budget [simp]: "keeps (beside i) (change_budget f)"
  by (auto simp: keeps_def change_budget_def updates_def beside_def)

lemma beside_one_call [simp]: "keeps (beside i) (one_call env ctx i c)"
  by (auto simp: one_call_def Let_def intro!: beside.keeps_intros split: option.split)

lemma beside_run_calls [simp]: "keeps (beside i) (run_calls env ctx i ob cs)"
  by (induction cs arbitrary: ob) (auto intro!: beside.keeps_intros split: sum.split)

section \<open>How a task is left\<close>

definition leaves :: "string \<Rightarrow> (task_status \<Rightarrow> bool) \<Rightarrow> 'w agent \<Rightarrow> bool" where
  "leaves i Q s = (\<exists>t. map_of (ag_tasks s) i = Some t \<and> Q (tk_status t))"

definition at_rest :: "task_status \<Rightarrow> bool" where
  "at_rest st = (st \<noteq> T_running \<and> st \<noteq> T_retrying)"

interpretation same_tasks: frame "\<lambda>s s'. ag_tasks s' = ag_tasks s"
  by unfold_locales auto

lemmas unfold_parts = seq_def bind_def change_task_def emit_def updates_def reads_def ret_def raise_exc_def the_task_def
  change_memory_def

lemma pause_status [simp]: "tk_status (pause_task cid t) = T_waiting"
  by (simp add: pause_task_def)

lemma fail_now_leaves: "fail_now i err s = (Inr x, s') \<Longrightarrow> leaves i at_rest s'"
  by (auto simp: fail_now_def unfold_parts leaves_def at_rest_def fail_task_def map_of_on_task split: option.splits)

lemma retry_now_leaves:
  "retry_now i reason s = (Inr x, s') \<Longrightarrow> map_of (ag_tasks s) i = Some t \<Longrightarrow> retry_allowed t \<Longrightarrow> leaves i at_rest s'"
  by (auto simp: retry_now_def unfold_parts leaves_def at_rest_def retry_task_def retry_allowed_def Let_def map_of_on_task
      split: option.splits)

lemma settle_failure_leaves:
  assumes "settle_failure i err s = (Inr x, s')"
  shows "leaves i at_rest s'"
proof -
  obtain t where t: "map_of (ag_tasks s) i = Some t"
    and run: "(if retry_allowed t then retry_now i err else seq (change_task i (fail_task err)) (emit (TaskFailed i err))) s = (Inr x, s')"
    using assms by (auto simp: settle_failure_def unfold_parts split: option.splits)
  show ?thesis
  proof (cases "retry_allowed t")
    case True
    then show ?thesis using run retry_now_leaves [OF _ t] by simp
  next
    case False
    then show ?thesis using run t by (auto simp: unfold_parts leaves_def at_rest_def fail_task_def map_of_on_task)
  qed
qed

lemma brain_failed_leaves: "brain_failed i err s = (Inr x, s') \<Longrightarrow> leaves i at_rest s'"
  unfolding brain_failed_def bind_Inr_iff seq_Inr_iff using settle_failure_leaves by metis

lemma gate_failed_leaves: "gate_failed i a reason s = (Inr x, s') \<Longrightarrow> map_of (ag_tasks s) i \<noteq> None \<Longrightarrow> leaves i at_rest s'"
  by (auto simp: gate_failed_def unfold_parts leaves_def at_rest_def fail_task_def observe_task_def map_of_on_task)

lemma repair_tasks:
  assumes "repair_plan env i reason s = (r, s')"
  shows "\<exists>ts. ag_tasks s' = fold add_task ts (ag_tasks s)"
proof (cases "ae_max_replans env \<le> ag_replans s \<or> map_of (ag_tasks s) i = None")
  case True
  then have "ag_tasks s' = ag_tasks s" using assms by (auto simp: repair_plan_def unfold_parts split: if_splits)
  then show ?thesis by (intro exI [of _ "[]"]) simp
next
  case False
  then obtain t where t: "map_of (ag_tasks s) i = Some t" by auto
  obtain x w where x: "ae_repair env t reason (ag_world s) = (x, w)" by (metis surj_pair)
  have "ag_tasks s' = fold add_task (case x of Inl _ \<Rightarrow> [] | Inr ts \<Rightarrow> ts) (ag_tasks s)"
    using assms False t x by (cases x) (auto simp: repair_plan_def unfold_parts calls_out_def split: if_splits)
  then show ?thesis by blast
qed

lemma repair_leaves: "repair_plan env i reason s = (r, s') \<Longrightarrow> leaves i Q s \<Longrightarrow> leaves i Q s'"
  using repair_tasks by (fastforce simp: leaves_def map_of_adds)

lemma judge_leaves:
  assumes "judge_task env i ob s = (Inr x, s')"
  shows "leaves i at_rest s'"
proof -
  obtain t s0 v s1 where a: "the_task i s = (Inr t, s0)" "calls_out (ae_verify env t ob) s0 = (Inr v, s1)"
    and run: "seq (emit (VerdictGiven i (vd_ok v) (vd_reason v)))
         (if vd_ok v then
            seq (change_task i complete_task) (seq (emit (TaskCompleted i None)) (remember_success env t ob))
          else if retry_allowed t \<and> automatic_retry_allowed env (tk_action t) then retry_now i (vd_reason v)
          else seq (fail_now i (''verification failed: '' @ vd_reason v)) (repair_plan env i (vd_reason v))) s1 = (Inr x, s')"
    using assms unfolding judge_task_def bind_Inr_iff by blast
  have t: "map_of (ag_tasks s) i = Some t" "ag_tasks s1 = ag_tasks s"
    using a by (auto simp: the_task_def bind_Inr_iff reads_def calls_out_def split: option.splits prod.splits)
  define s2 where "s2 = s1\<lparr>ag_events := ag_events s1 @ [VerdictGiven i (vd_ok v) (vd_reason v)]\<rparr>"
  have s2: "ag_tasks s2 = ag_tasks s1" by (simp add: s2_def)
  have run2: "(if vd_ok v then
            seq (change_task i complete_task) (seq (emit (TaskCompleted i None)) (remember_success env t ob))
          else if retry_allowed t \<and> automatic_retry_allowed env (tk_action t) then retry_now i (vd_reason v)
          else seq (fail_now i (''verification failed: '' @ vd_reason v)) (repair_plan env i (vd_reason v))) s2 = (Inr x, s')"
    using run unfolding seq_emit s2_def .
  show ?thesis
  proof (cases "vd_ok v")
    case True
    then obtain s3 where s3: "change_task i complete_task s2 = (Inr (), s3)"
      "seq (emit (TaskCompleted i None)) (remember_success env t ob) s3 = (Inr x, s')"
      using run2 by (auto simp: seq_Inr_iff)
    have "keeps (\<lambda>s s'. ag_tasks s' = ag_tasks s) (seq (emit (TaskCompleted i None)) (remember_success env t ob))"
      by (intro same_tasks.keeps_intros) simp_all
    then have "ag_tasks s' = ag_tasks s3" using s3(2) keepsD by fastforce
    then show ?thesis using s3(1) t s2 by (auto simp: change_task_def updates_def leaves_def at_rest_def complete_task_def map_of_on_task)
  next
    case bad: False
    show ?thesis
    proof (cases "retry_allowed t \<and> automatic_retry_allowed env (tk_action t)")
      case True
      then show ?thesis using run2 bad retry_now_leaves [of i "vd_reason v" s2 x s' t] t s2 by simp
    next
      case False
      then obtain s3 where "fail_now i (''verification failed: '' @ vd_reason v) s2 = (Inr (), s3)"
        "repair_plan env i (vd_reason v) s3 = (Inr x, s')"
        using run2 bad by (auto simp: seq_Inr_iff)
      then show ?thesis using fail_now_leaves repair_leaves by blast
    qed
  qed
qed

section \<open>The order of the tasks\<close>

text \<open>A task that is neither pending nor skipped has all it depends on completed.\<close>

definition follows :: "tasks \<Rightarrow> bool" where
  "follows tm = (\<forall>k t. map_of tm k = Some t \<longrightarrow> tk_status t \<noteq> T_pending \<longrightarrow> tk_status t \<noteq> T_skipped
     \<longrightarrow> list_all (dep_completed tm) (tk_depends t))"

definition resting :: "tasks \<Rightarrow> bool" where
  "resting tm = (\<forall>k t. map_of tm k = Some t \<longrightarrow> at_rest (tk_status t))"

lemma beside_completed:
  assumes "beside i s s'" and "map_of (ag_tasks s) i = Some t" and "tk_status t \<noteq> T_completed" and "dep_completed (ag_tasks s) d"
  shows "dep_completed (ag_tasks s') d"
proof -
  obtain x where x: "map_of (ag_tasks s) d = Some x" "tk_status x = T_completed"
    using assms(4) by (auto simp: dep_completed_def split: option.splits)
  then have "d \<noteq> i" using assms(2,3) by auto
  then have "map_of (ag_tasks s') d = Some x" using assms(1) x(1) by (auto simp: beside_def)
  then show ?thesis using x(2) by (simp add: dep_completed_def)
qed

lemma beside_follows:
  assumes "beside i s s'" and "follows (ag_tasks s)" and "map_of (ag_tasks s) i = Some t" and "tk_status t \<noteq> T_completed"
    and "list_all (dep_completed (ag_tasks s)) (tk_depends t)"
  shows "follows (ag_tasks s')"
  unfolding follows_def
proof (intro allI impI)
  fix k x
  assume x: "map_of (ag_tasks s') k = Some x" "tk_status x \<noteq> T_pending" "tk_status x \<noteq> T_skipped"
  have "list_all (dep_completed (ag_tasks s)) (tk_depends x)"
  proof (cases "k = i")
    case True
    then show ?thesis using assms(1,3,5) x(1) by (auto simp: beside_def)
  next
    case False
    then have "map_of (ag_tasks s) k = Some x" using assms(1) x(1,2) by (auto simp: beside_def)
    then show ?thesis using assms(2) x(2,3) by (simp add: follows_def)
  qed
  then show "list_all (dep_completed (ag_tasks s')) (tk_depends x)"
    by (rule list.pred_mono_strong) (rule beside_completed [OF assms(1,3,4)])
qed

lemma beside_resting:
  assumes "beside i s s'" and "leaves i at_rest s'" and "\<And>k t. k \<noteq> i \<Longrightarrow> map_of (ag_tasks s) k = Some t \<Longrightarrow> at_rest (tk_status t)"
  shows "resting (ag_tasks s')"
  unfolding resting_def
proof (intro allI impI)
  fix k x assume x: "map_of (ag_tasks s') k = Some x"
  show "at_rest (tk_status x)"
  proof (cases "k = i")
    case True
    then show ?thesis using assms(2) x by (auto simp: leaves_def)
  next
    case False
    then have "map_of (ag_tasks s) k = Some x \<or> tk_status x = T_pending" using assms(1) x by (auto simp: beside_def)
    then show ?thesis using assms(3) False by (auto simp: at_rest_def)
  qed
qed

text \<open>The planner's repairs are new tasks.\<close>

definition fresh_repairs :: "('w, 'z) agent_env_scheme \<Rightarrow> bool" where
  "fresh_repairs env = (\<forall>t reason w ts w'. ae_repair env t reason w = (Inr ts, w') \<longrightarrow> (\<forall>x \<in> set ts. tk_status x = T_pending))"

lemma beside_judge [simp]: "fresh_repairs env \<Longrightarrow> keeps (beside i) (judge_task env i ob)"
  by (rule beside.keeps_judge) (unfold fresh_repairs_def, blast)

section \<open>An attempt\<close>

lemma present: "keeps (beside i) m \<Longrightarrow> m s = (r, s') \<Longrightarrow> map_of (ag_tasks s) i \<noteq> None \<Longrightarrow> map_of (ag_tasks s') i \<noteq> None"
  by (drule (1) keepsD) (auto simp: beside_def)

lemma confirm_paused:
  assumes "confirm_call env ctx i act resp s = (Inr (Inr Paused), s')" and "map_of (ag_tasks s) i \<noteq> None"
  shows "leaves i at_rest s'"
proof -
  define s0 where "s0 = s\<lparr>ag_events := ag_events s @ [ConfirmationRequired i (action_type act) (rs_confirmation_id resp)
    (rs_decision resp) (rs_challenge resp) (event_params env (action_type act) (a_params act))]\<rparr>"
  obtain choice s1 where ask: "ask_operator env act resp s0 = (Inr choice, s1)"
    and run: "(case choice of
       Wait \<Rightarrow> seq (change_task i (pause_task (or_empty (rs_confirmation_id resp)))) (ret (Inr Paused))
     | Deny \<Rightarrow> seq (change_task i (observe_task (short_obs i (action_type act) ''denied''
                       ''operator denied the pending confirmation''))) (ret (Inr OperatorDenied))
     | Approve \<Rightarrow>
         bind (calls_out (ae_approve env (or_empty (rs_confirmation_id resp)) act ctx (rs_challenge resp))) (\<lambda>r.
           let ob = observation_of i (action_type act) r
           in seq (note_outcome i ob) (ret (Inl ob)))) s1 = (Inr (Inr Paused), s')"
    using assms(1) unfolding confirm_call_def seq_emit bind_Inr_iff s0_def by blast
  have "ag_tasks s1 = ag_tasks s" using keepsD [OF same_tasks.keeps_reads(3) ask] by (simp add: s0_def)
  then show ?thesis using run assms(2)
    by (cases choice)
      (auto simp: bind_Inr_iff seq_Inr_iff Let_def change_task_def updates_def leaves_def at_rest_def map_of_on_task)
qed

lemma one_call_paused:
  assumes "one_call env ctx i c s = (Inr (Inr Paused), s')" and "map_of (ag_tasks s) i \<noteq> None"
  shows "\<exists>act resp t. confirm_call env ctx i act resp t = (Inr (Inr Paused), s') \<and> map_of (ag_tasks t) i \<noteq> None"
proof -
  let ?act = "\<lparr>action_type = tc_action c, a_params = tc_params c\<rparr>"
  obtain g s1 where g: "tool_gate env s = (Inr g, s1)" and "g = None" and
    "seq (change_budget record_tool_call)
        (seq (emit (ToolCalled i (tc_action c) (event_params env (tc_action c) (tc_params c))))
        (bind (make_request env ?act ctx) (\<lambda>resp.
           let ob = observation_of i (tc_action c) resp
           in seq (note_outcome i ob)
                (if rs_status resp = St_confirmation_required then confirm_call env ctx i ?act resp
                 else ret (Inl ob))))) s1 = (Inr (Inr Paused), s')"
    using assms(1) unfolding one_call_def Let_def bind_Inr_iff by (auto split: option.splits)
  then obtain s2 s3 resp s4 s5 where "change_budget record_tool_call s1 = (Inr (), s2)"
    "emit (ToolCalled i (tc_action c) (event_params env (tc_action c) (tc_params c))) s2 = (Inr (), s3)"
    "make_request env ?act ctx s3 = (Inr resp, s4)" "note_outcome i (observation_of i (tc_action c) resp) s4 = (Inr (), s5)"
    and run: "(if rs_status resp = St_confirmation_required then confirm_call env ctx i ?act resp
                 else ret (Inl (observation_of i (tc_action c) resp))) s5 = (Inr (Inr Paused), s')"
    unfolding seq_Inr_iff bind_Inr_iff Let_def by auto
  then have "map_of (ag_tasks s5) i \<noteq> None"
    using present [OF beside.keeps_tool_gate g assms(2)] present [OF beside_budget] present [OF beside.keeps_plain(6)]
      present [OF beside_request] present [OF beside.keeps_small(6)] by metis
  then show ?thesis using run by (auto split: if_splits)
qed

lemma paused_leaves:
  "run_calls env ctx i ob cs s = (Inr Paused, s') \<Longrightarrow> map_of (ag_tasks s) i \<noteq> None \<Longrightarrow> leaves i at_rest s'"
proof (induction cs arbitrary: ob s)
  case (Cons c cs)
  obtain r s1 where one: "one_call env ctx i c s = (Inr r, s1)"
    and rest: "(case r of Inr e \<Rightarrow> ret e | Inl ob' \<Rightarrow> if ob_status ob' \<noteq> St_executed then ret (Settled (Some ob'))
        else run_calls env ctx i (Some ob') cs) s1 = (Inr Paused, s')"
    using Cons.prems(1) by (auto simp: bind_Inr_iff)
  have there: "map_of (ag_tasks s1) i \<noteq> None" using keepsD [OF beside_one_call one] Cons.prems(2) by (auto simp: beside_def)
  show ?case
  proof (cases r)
    case (Inl ob')
    then show ?thesis using rest Cons.IH there by (auto split: if_splits)
  next
    case (Inr e)
    then have "one_call env ctx i c s = (Inr (Inr Paused), s')" using one rest by simp
    then obtain act resp s2 where conf: "confirm_call env ctx i act resp s2 = (Inr (Inr Paused), s')"
        and "map_of (ag_tasks s2) i \<noteq> None"
      using one_call_paused Cons.prems(2) by blast
    then show ?thesis by (rule confirm_paused)
  qed
qed simp

lemma attempt_again:
  assumes "attempt_task env goal ctx summary i s = (Inr Again, s')" and "map_of (ag_tasks s) i \<noteq> None"
  shows "leaves i at_rest s'"
proof -
  obtain x s1 where x: "prepare_calls env i s = (Inr x, s1)"
    and run: "(case x of
       Inl err \<Rightarrow> seq (brain_failed i err) (ret Again)
     | Inr proposed \<Rightarrow> (case filter (\<lambda>c. tc_action c \<noteq> []) proposed of
         [] \<Rightarrow> seq (fail_now i ''brain proposed no tool call'') (ret Again)
       | c # cs \<Rightarrow> (case gate_reject env c of
           Some reason \<Rightarrow> seq (gate_failed i (tc_action c) reason) (ret Again)
         | None \<Rightarrow> bind (run_calls env ctx i None (c # cs)) (\<lambda>e. case e of
             Settled ob \<Rightarrow> seq (judge_task env i ob) (ret Again)
           | OperatorDenied \<Rightarrow> seq (fail_now i ''operator denied the pending confirmation'') (ret Again)
           | Paused \<Rightarrow> bind (final env goal ctx summary R_waiting [PausedForApproval]) (\<lambda>rc. ret (Ended rc))
           | OutOfBudget reason \<Rightarrow>
               bind (final env goal ctx summary R_budget_exceeded [StoppedBy reason]) (\<lambda>rc. ret (Ended rc)))))) s1
      = (Inr Again, s')"
    using assms(1) unfolding attempt_task_def bind_Inr_iff by blast
  have there: "map_of (ag_tasks s1) i \<noteq> None" using present [OF beside.keeps_prepare x assms(2)] .
  show ?thesis
  proof (cases x)
    case (Inl err)
    then show ?thesis using run brain_failed_leaves by (auto simp: seq_Inr_iff)
  next
    case (Inr proposed)
    show ?thesis
    proof (cases "filter (\<lambda>c. tc_action c \<noteq> []) proposed")
      case Nil
      then show ?thesis using run Inr fail_now_leaves by (auto simp: seq_Inr_iff)
    next
      case (Cons c cs)
      show ?thesis
      proof (cases "gate_reject env c")
        case (Some reason)
        then have "gate_failed i (tc_action c) reason s1 = (Inr (), s')" using run Inr Cons by (auto simp: seq_Inr_iff)
        then show ?thesis using gate_failed_leaves there by blast
      next
        case None
        then obtain e s2 where "(case e of
             Settled ob \<Rightarrow> seq (judge_task env i ob) (ret Again)
           | OperatorDenied \<Rightarrow> seq (fail_now i ''operator denied the pending confirmation'') (ret Again)
           | Paused \<Rightarrow> bind (final env goal ctx summary R_waiting [PausedForApproval]) (\<lambda>rc. ret (Ended rc))
           | OutOfBudget reason \<Rightarrow>
               bind (final env goal ctx summary R_budget_exceeded [StoppedBy reason]) (\<lambda>rc. ret (Ended rc))) s2 = (Inr Again, s')"
          using run Inr Cons unfolding sum.case list.case option.case by (auto simp: bind_Inr_iff)
        then show ?thesis using judge_leaves fail_now_leaves
          by (cases e) (auto simp: seq_Inr_iff bind_Inr_iff)
      qed
    qed
  qed
qed

lemma beside_attempt: "fresh_repairs env \<Longrightarrow> keeps (beside i) (attempt_task env goal ctx summary i)"
  unfolding attempt_task_def
  by (intro beside.keeps_bind [OF beside.keeps_prepare])
    (auto intro!: beside.keeps_intros simp del: run_calls.simps split: sum.split list.split option.split calls_end.split)

section \<open>A pass\<close>

definition in_order :: "tasks \<Rightarrow> bool" where
  "in_order tm = (keyed tm \<and> follows tm \<and> resting tm)"

definition sound_record :: "run_record \<Rightarrow> bool" where
  "sound_record rc = (\<exists>tm. rc_tasks rc = map snd tm \<and> keyed tm \<and> follows tm \<and> (rc_status rc \<noteq> R_budget_exceeded \<longrightarrow> resting tm)
     \<and> (rc_status rc = R_completed \<longrightarrow> (\<forall>t \<in> set (rc_tasks rc). tk_required t \<longrightarrow> tk_status t = T_completed)))"

lemma final_iff:
  "bind (final env goal ctx summary forced notes) (\<lambda>rc. ret (Ended rc)) s = (Inr x, s')
   \<Longrightarrow> \<exists>rc. x = Ended rc \<and> rc = final_record env goal ctx summary forced notes s \<and> ag_tasks s' = ag_tasks s"
  by (auto simp: final_def bind_Inr_iff seq_Inr_iff reads_def emit_def updates_def)

lemma final_record_sel [simp]:
  "rc_tasks (final_record env goal ctx summary forced notes s) = map snd (ag_tasks s)"
  "rc_status (final_record env goal ctx summary forced notes s) = final_status forced (ag_tasks s)"
  by (simp_all add: final_record_def Let_def result_of_def)

lemma attempt_ended:
  assumes "attempt_task env goal ctx summary i s = (Inr (Ended rc), s')" and "map_of (ag_tasks s) i \<noteq> None"
  shows "rc_tasks rc = map snd (ag_tasks s') \<and> (rc_status rc = R_budget_exceeded \<or> rc_status rc = R_waiting \<and> leaves i at_rest s')"
proof -
  obtain x s1 where x: "prepare_calls env i s = (Inr x, s1)"
    and run: "(case x of
       Inl err \<Rightarrow> seq (brain_failed i err) (ret Again)
     | Inr proposed \<Rightarrow> (case filter (\<lambda>c. tc_action c \<noteq> []) proposed of
         [] \<Rightarrow> seq (fail_now i ''brain proposed no tool call'') (ret Again)
       | c # cs \<Rightarrow> (case gate_reject env c of
           Some reason \<Rightarrow> seq (gate_failed i (tc_action c) reason) (ret Again)
         | None \<Rightarrow> bind (run_calls env ctx i None (c # cs)) (\<lambda>e. case e of
             Settled ob \<Rightarrow> seq (judge_task env i ob) (ret Again)
           | OperatorDenied \<Rightarrow> seq (fail_now i ''operator denied the pending confirmation'') (ret Again)
           | Paused \<Rightarrow> bind (final env goal ctx summary R_waiting [PausedForApproval]) (\<lambda>rc. ret (Ended rc))
           | OutOfBudget reason \<Rightarrow>
               bind (final env goal ctx summary R_budget_exceeded [StoppedBy reason]) (\<lambda>rc. ret (Ended rc)))))) s1
      = (Inr (Ended rc), s')"
    using assms(1) unfolding attempt_task_def bind_Inr_iff by blast
  have there: "map_of (ag_tasks s1) i \<noteq> None" using present [OF beside.keeps_prepare x assms(2)] .
  obtain proposed c cs where "x = Inr proposed" "filter (\<lambda>c. tc_action c \<noteq> []) proposed = c # cs" "gate_reject env c = None"
    using run by (auto simp: seq_Inr_iff split: sum.splits list.splits option.splits)
  then obtain e s2 where calls: "run_calls env ctx i None (c # cs) s1 = (Inr e, s2)" and last: "(case e of
             Settled ob \<Rightarrow> seq (judge_task env i ob) (ret Again)
           | OperatorDenied \<Rightarrow> seq (fail_now i ''operator denied the pending confirmation'') (ret Again)
           | Paused \<Rightarrow> bind (final env goal ctx summary R_waiting [PausedForApproval]) (\<lambda>rc. ret (Ended rc))
           | OutOfBudget reason \<Rightarrow>
               bind (final env goal ctx summary R_budget_exceeded [StoppedBy reason]) (\<lambda>rc. ret (Ended rc))) s2
      = (Inr (Ended rc), s')"
    using run unfolding bind_Inr_iff by (auto simp: bind_Inr_iff simp del: run_calls.simps)
  show ?thesis
  proof (cases e)
    case Paused
    then have "leaves i at_rest s2" using paused_leaves calls there by blast
    then show ?thesis using final_iff [of env goal ctx summary R_waiting] last Paused
      by (fastforce simp: final_status_def leaves_def)
  next
    case (OutOfBudget reason)
    then show ?thesis using final_iff [of env goal ctx summary R_budget_exceeded] last by (fastforce simp: final_status_def)
  qed (use last in \<open>auto simp: seq_Inr_iff\<close>)
qed

lemma completed_tasks:
  assumes "final_status R_completed tm = R_completed" and "keyed tm" and "resting tm" and "\<not> has_pending tm"
  shows "\<forall>t \<in> set (map snd tm). tk_required t \<longrightarrow> tk_status t = T_completed"
proof (intro ballI impI)
  fix t assume t: "t \<in> set (map snd tm)" "tk_required t"
  then obtain k where "(k, t) \<in> set tm" by auto
  then have "map_of tm k = Some t" using assms(2) by (simp add: keyed_def)
  then have "at_rest (tk_status t)" using assms(3) by (simp add: resting_def)
  moreover have "tk_status t \<noteq> T_pending" using assms(4) t(1) by (auto simp: has_pending_def list_ex_iff)
  moreover have "tk_status t \<noteq> T_waiting" "tk_status t \<noteq> T_failed" "tk_status t \<noteq> T_skipped"
    using assms(1) t by (auto simp: final_status_def waiting_tasks_def list_ex_iff filter_empty_conv split: if_splits)
  ultimately show "tk_status t = T_completed" by (cases "tk_status t") (simp_all add: at_rest_def)
qed

lemma skip_status [simp]: "tk_status (skip_task reason t) = T_skipped"
  by (simp add: skip_task_def)

lemma skip_in_order:
  assumes "skip_tasks ts s = (r, s')" and "in_order (ag_tasks s)"
    and "\<And>t x. t \<in> set ts \<Longrightarrow> map_of (ag_tasks s) (tk_id t) = Some x \<Longrightarrow> tk_status x = T_pending \<or> tk_status x = T_skipped"
  shows "in_order (ag_tasks s')"
  using assms
proof (induction ts arbitrary: s)
  case (Cons t ts)
  define s1 where "s1 = s\<lparr>ag_tasks := on_task (tk_id t) (skip_task DEAD_REASON) (ag_tasks s),
    ag_events := ag_events s @ [TaskSkipped (tk_id t) (Some (take 500 DEAD_REASON))]\<rparr>"
  have run: "skip_tasks ts s1 = (r, s')"
    using Cons.prems(1) by (simp add: seq_def bind_def change_task_def emit_def updates_def s1_def)
  have completed: "dep_completed (ag_tasks s1) d" if "dep_completed (ag_tasks s) d" for d
    using that Cons.prems(3) [of t] by (auto simp: s1_def dep_completed_def map_of_on_task split: option.splits)
  have "follows (ag_tasks s1)"
    unfolding follows_def
  proof (intro allI impI)
    fix k x
    assume x: "map_of (ag_tasks s1) k = Some x" "tk_status x \<noteq> T_pending" "tk_status x \<noteq> T_skipped"
    then have "map_of (ag_tasks s) k = Some x" by (auto simp: s1_def map_of_on_task split: if_splits)
    then have "list_all (dep_completed (ag_tasks s)) (tk_depends x)"
      using Cons.prems(2) x(2,3) by (simp add: in_order_def follows_def)
    then show "list_all (dep_completed (ag_tasks s1)) (tk_depends x)" by (rule list.pred_mono_strong) (rule completed)
  qed
  moreover have "resting (ag_tasks s1)"
    using Cons.prems(2) by (auto simp: in_order_def resting_def s1_def map_of_on_task at_rest_def split: if_splits)
  ultimately have "in_order (ag_tasks s1)" using Cons.prems(2) by (simp add: in_order_def s1_def)
  moreover have "tk_status x = T_pending \<or> tk_status x = T_skipped"
    if "u \<in> set ts" "map_of (ag_tasks s1) (tk_id u) = Some x" for u x
    using that Cons.prems(3) [of u] by (auto simp: s1_def map_of_on_task split: if_splits)
  ultimately show ?case by (rule Cons.IH [OF run])
qed (simp add: ret_def)

lemma start_task_state:
  assumes "start_task t s = (r, s')"
  shows "r = Inr () \<and> ag_tasks s' = on_task (tk_id t) mark_running (ag_tasks s)"
  using assms by (auto simp: start_task_def unfold_parts change_budget_def)

lemma next_ready_task:
  assumes "next_ready tm = Some t" and "keyed tm"
  shows "map_of tm (tk_id t) = Some t" and "tk_status t = T_pending" and "list_all (dep_completed tm) (tk_depends t)"
proof -
  have t: "t \<in> set (map snd tm)" "tk_status t = T_pending \<and> list_all (dep_completed tm) (tk_depends t)"
    using assms(1) by (auto simp: next_ready_def find_Some_iff)
  then obtain k where "(k, t) \<in> set tm" by auto
  then show "map_of tm (tk_id t) = Some t" using assms(2) by (auto simp: keyed_def)
  show "tk_status t = T_pending" "list_all (dep_completed tm) (tk_depends t)" using t(2) by simp_all
qed

lemma task_in_order:
  assumes "seq (start_task t) (attempt_task env goal ctx summary (tk_id t)) s = (Inr x, s')" and "next_ready (ag_tasks s) = Some t"
    and "in_order (ag_tasks s)" and "fresh_repairs env"
  shows "keyed (ag_tasks s')" and "follows (ag_tasks s')"
    and "case x of Again \<Rightarrow> resting (ag_tasks s')
      | Ended rc \<Rightarrow> rc_tasks rc = map snd (ag_tasks s')
          \<and> (rc_status rc = R_budget_exceeded \<or> rc_status rc = R_waiting \<and> resting (ag_tasks s'))"
proof -
  have keyed: "keyed (ag_tasks s)" using assms(3) by (simp add: in_order_def)
  note t = next_ready_task [OF assms(2) keyed]
  obtain s1 where s1: "start_task t s = (Inr (), s1)" "attempt_task env goal ctx summary (tk_id t) s1 = (Inr x, s')"
    using assms(1) by (auto simp: seq_Inr_iff)
  note tasks = conjunct2 [OF start_task_state [OF s1(1)]]
  have start: "beside (tk_id t) s s1" using tasks by (auto simp: beside_def map_of_on_task mark_running_def)
  have rest: "beside (tk_id t) s1 s'" by (rule keepsD [OF beside_attempt [OF assms(4)] s1(2)])
  have all: "beside (tk_id t) s s'" by (rule beside_trans [OF start rest])
  have there: "map_of (ag_tasks s1) (tk_id t) \<noteq> None" using t(1) tasks by (simp add: map_of_on_task)
  have "spends (\<lambda>_. True) 0 s1 s'" by (rule keepsD [OF thrifty_attempt [OF covered_all] s1(2)])
  moreover have "keyed (ag_tasks s1)" using keyed tasks by simp
  ultimately show "keyed (ag_tasks s')" by (auto simp: spends_def)
  show "follows (ag_tasks s')"
    using beside_follows [OF all _ t(1) _ t(3)] t(2) assms(3) by (simp add: in_order_def)
  have others: "leaves (tk_id t) at_rest s' \<Longrightarrow> resting (ag_tasks s')"
    by (rule beside_resting [OF all]) (use assms(3) in \<open>auto simp: in_order_def resting_def\<close>)
  show "case x of Again \<Rightarrow> resting (ag_tasks s')
      | Ended rc \<Rightarrow> rc_tasks rc = map snd (ag_tasks s')
          \<and> (rc_status rc = R_budget_exceeded \<or> rc_status rc = R_waiting \<and> resting (ag_tasks s'))"
  proof (cases x)
    case Again
    then show ?thesis using others attempt_again [OF _ there] s1(2) by simp blast
  next
    case (Ended rc)
    then show ?thesis using others attempt_ended [OF _ there] s1(2) by simp blast
  qed
qed

lemma pass_in_order:
  assumes "drive_pass env goal ctx summary s = (Inr x, s')" and "in_order (ag_tasks s)" and "fresh_repairs env"
  shows "case x of Again \<Rightarrow> in_order (ag_tasks s') | Ended rc \<Rightarrow> sound_record rc"
proof -
  obtain g s1 where g: "run_gate env s = (Inr g, s1)" and
    run: "(case g of
       Some reason \<Rightarrow> bind (final env goal ctx summary R_budget_exceeded [StoppedBy reason]) (\<lambda>rc. ret (Ended rc))
     | None \<Rightarrow> bind (reads ag_tasks) (\<lambda>tm. case next_ready tm of
         Some t \<Rightarrow> seq (start_task t) (attempt_task env goal ctx summary (tk_id t))
       | None \<Rightarrow>
           if \<not> has_pending tm then bind (final env goal ctx summary R_completed []) (\<lambda>rc. ret (Ended rc))
           else seq (skip_tasks (if blocked_pending tm \<noteq> [] then blocked_pending tm else pending_tasks tm)) (ret Again))) s1 = (Inr x, s')"
    using assms(1) unfolding drive_pass_def bind_Inr_iff by blast
  have s1: "in_order (ag_tasks s1)" using keepsD [OF same_tasks.keeps_reads(1) g] assms(2) by simp
  then have keyed: "keyed (ag_tasks s1)" "follows (ag_tasks s1)" "resting (ag_tasks s1)" by (simp_all add: in_order_def)
  show ?thesis
  proof (cases g)
    case (Some reason)
    then obtain rc where "x = Ended rc" "rc = final_record env goal ctx summary R_budget_exceeded [StoppedBy reason] s1"
      using run final_iff by fastforce
    then show ?thesis using keyed by (auto simp: sound_record_def final_status_def)
  next
    case None
    show ?thesis
    proof (cases "next_ready (ag_tasks s1)")
      case (Some t)
      then have "seq (start_task t) (attempt_task env goal ctx summary (tk_id t)) s1 = (Inr x, s')"
        using run None by (simp add: bind_def reads_def)
      note task = task_in_order [OF this Some s1 assms(3)]
      show ?thesis
      proof (cases x)
        case Again
        then show ?thesis using task by (simp add: in_order_def)
      next
        case (Ended rc)
        then show ?thesis using task unfolding sound_record_def by (auto intro!: exI [of _ "ag_tasks s'"])
      qed
    next
      case no: None
      show ?thesis
      proof (cases "has_pending (ag_tasks s1)")
        case False
        then have "bind (final env goal ctx summary R_completed []) (\<lambda>rc. ret (Ended rc)) s1 = (Inr x, s')"
          using run None no by (simp add: bind_def reads_def)
        then obtain rc where rc: "x = Ended rc" "rc = final_record env goal ctx summary R_completed [] s1" using final_iff by blast
        then have "rc_status rc = R_completed \<longrightarrow> (\<forall>t \<in> set (map snd (ag_tasks s1)). tk_required t \<longrightarrow> tk_status t = T_completed)"
          using completed_tasks [OF _ keyed(1,3) False] by simp
        then show ?thesis using rc keyed unfolding sound_record_def by (auto intro!: exI [of _ "ag_tasks s1"])
      next
        case True
        let ?dead = "if blocked_pending (ag_tasks s1) \<noteq> [] then blocked_pending (ag_tasks s1) else pending_tasks (ag_tasks s1)"
        have "seq (skip_tasks ?dead) (ret Again) s1 = (Inr x, s')" using run None no True by (simp add: bind_def reads_def)
        then have x: "x = Again" and skip: "skip_tasks ?dead s1 = (Inr (), s')" unfolding seq_Inr_iff by simp_all
        have "tk_status y = T_pending" if "t \<in> set ?dead" "map_of (ag_tasks s1) (tk_id t) = Some y" for t y
        proof -
          have "t \<in> set (map snd (ag_tasks s1))" "tk_status t = T_pending"
            using that(1) by (auto simp: blocked_pending_def pending_tasks_def split: if_splits)
          then have "map_of (ag_tasks s1) (tk_id t) = Some t" using keyed(1) by (auto simp: keyed_def)
          then show ?thesis using that(2) \<open>tk_status t = T_pending\<close> by simp
        qed
        then show ?thesis using x skip_in_order [OF skip s1] by simp
      qed
    qed
  qed
qed

lemma drive_sound:
  "drive n env goal ctx summary s = (Inr (Some rc), s') \<Longrightarrow> in_order (ag_tasks s) \<Longrightarrow> fresh_repairs env \<Longrightarrow> sound_record rc"
proof (induction n arbitrary: s)
  case (Suc n)
  from Suc.prems(1) obtain x t where x: "drive_pass env goal ctx summary s = (Inr x, t)"
    "(case x of Again \<Rightarrow> drive n env goal ctx summary | Ended rc \<Rightarrow> ret (Some rc)) t = (Inr (Some rc), s')"
    by (auto simp: bind_Inr_iff)
  then show ?case using pass_in_order [OF x(1) Suc.prems(2,3)] Suc.IH Suc.prems(3) by (cases x) auto
qed simp

section \<open>Runs and their resumptions\<close>

text \<open>The records of a run and of its resumptions.  The service resumes a record that waits.\<close>

inductive agent_session :: "('w, 'z) agent_env_scheme \<Rightarrow> run_record \<Rightarrow> bool" for env :: "('w, 'z) agent_env_scheme" where
  begun: "run_agent n env goal ctx given s = (Inr (Some rc), s') \<Longrightarrow>
    (\<And>p. given = Some p \<Longrightarrow> \<forall>t \<in> set (pl_tasks p). tk_status t = T_pending) \<Longrightarrow> agent_session env rc"
| resumed: "agent_session env prev \<Longrightarrow> rc_status prev = R_waiting \<Longrightarrow>
    resume_agent n env prev p ctx resolutions s = (Inr (Some rc), s') \<Longrightarrow> agent_session env rc"

lemma table_subset: "map_of (task_table ts) k = Some t \<Longrightarrow> t \<in> set ts"
proof -
  have "map_of (fold (\<lambda>t. AList.update (tk_id t) t) ts tm) k = Some t \<Longrightarrow> map_of tm k = Some t \<or> t \<in> set ts" for tm
    by (induction ts arbitrary: tm) (fastforce simp: update_conv split: if_splits)+
  then show "map_of (task_table ts) k = Some t \<Longrightarrow> t \<in> set ts" unfolding task_table_def by fastforce
qed

lemma table_of_keyed:
  assumes "keyed tm"
  shows "task_table (map snd tm) = tm"
proof -
  have new: "k \<notin> fst ` set al \<Longrightarrow> AList.update k v al = al @ [(k, v)]" for k :: string and v :: task and al
    by (induction al) auto
  have "distinct (map fst (acc @ tm)) \<Longrightarrow> \<forall>(k, t) \<in> set tm. tk_id t = k
      \<Longrightarrow> fold (\<lambda>t. AList.update (tk_id t) t) (map snd tm) acc = acc @ tm" for acc
  proof (induction tm arbitrary: acc)
    case (Cons kt tm)
    then show ?case using new [of "fst kt" acc "snd kt"] Cons.IH [of "acc @ [kt]"] by (cases kt) auto
  qed simp
  from this [of "[]"] show ?thesis using assms by (simp add: task_table_def keyed_def)
qed

lemma harden_sel [simp]:
  "tk_id (harden_task t) = tk_id t" "tk_status (harden_task t) = tk_status t" "tk_depends (harden_task t) = tk_depends t"
  by (simp_all add: harden_task_def)

lemma map_of_hardened: "map_of (map (\<lambda>(k, t). (k, harden_task t)) tm) k = map_option harden_task (map_of tm k)"
  by (induction tm) auto

lemma hardened_in_order:
  assumes "keyed tm" and "follows tm" and "resting tm"
  shows "in_order (task_table (map harden_task (map snd tm)))"
proof -
  let ?tm = "map (\<lambda>(k, t). (k, harden_task t)) tm"
  have k: "keyed ?tm" using assms(1) by (auto simp: keyed_def comp_def case_prod_unfold)
  have c: "dep_completed ?tm d = dep_completed tm d" for d
    by (auto simp: dep_completed_def map_of_hardened split: option.split)
  have "follows ?tm" using assms(2) unfolding follows_def map_of_hardened c by (auto simp: list_all_iff c)
  moreover have "resting ?tm" using assms(3) unfolding resting_def map_of_hardened by auto
  moreover have "map harden_task (map snd tm) = map snd ?tm" by (simp add: comp_def case_prod_unfold)
  ultimately show ?thesis using k table_of_keyed [OF k] by (simp add: in_order_def del: map_map)
qed

lemma pending_in_order:
  assumes "\<forall>t \<in> set ts. tk_status t = T_pending"
  shows "in_order (task_table (map harden_task ts))"
proof -
  have "tk_status t = T_pending" if "map_of (task_table (map harden_task ts)) k = Some t" for k t
    using table_subset [OF that] assms by auto
  then show ?thesis by (auto simp: in_order_def keyed_table follows_def resting_def at_rest_def)
qed

lemma run_agent_start:
  assumes "run_agent n env goal ctx given s = (Inr (Some rc), s')"
  shows "\<exists>p s1. (case given of Some p' \<Rightarrow> p = p' | None \<Rightarrow> \<exists>w w'. ae_plan env goal w = (Inr p, w'))
    \<and> drive n env goal ctx (pl_summary p) s1 = (Inr (Some rc), s') \<and> ag_tasks s1 = task_table (map harden_task (pl_tasks p))"
proof -
  let ?plan = "case given of Some p \<Rightarrow> ret p | None \<Rightarrow> calls_out (ae_plan env goal)"
  obtain p t where plan: "?plan (s\<lparr>ag_events := ag_events s @ [RunStarted goal False]\<rparr>) = (Inr p, t)" and
    run: "seq (emit (PlanCreated (pl_summary (harden_plan p)) (length (pl_tasks (harden_plan p))) (pl_created_by (harden_plan p))))
      (seq (updates (\<lambda>s. s\<lparr>ag_memory := set_up_memory env ctx (pl_goal (harden_plan p)) (new_memory goal),
                          ag_tasks := task_table (pl_tasks (harden_plan p)), ag_replans := 0\<rparr>))
         (drive n env goal ctx (pl_summary (harden_plan p)))) t = (Inr (Some rc), s')"
    using assms unfolding run_agent_def seq_emit bind_Inr_iff Let_def by blast
  have "case given of Some p' \<Rightarrow> p = p' | None \<Rightarrow> \<exists>w w'. ae_plan env goal w = (Inr p, w')"
    using plan by (auto simp: calls_out_def split: option.splits prod.splits)
  then show ?thesis using run unfolding seq_emit seq_updates by (intro exI conjI) (auto simp: harden_plan_def)
qed

text \<open>Settling a task that waits keeps the order.\<close>

lemma settle_wait_state:
  assumes "settle_wait resolved t s = (r, s')"
  shows "r = Inr () \<and> (ag_tasks s' = ag_tasks s
    \<or> (\<exists>f. ag_tasks s' = on_task (tk_id t) f (ag_tasks s) \<and> same_task f \<and> (\<forall>x. at_rest (tk_status (f x)))))"
proof -
  have complete: "at_rest (tk_status (complete_task x))" for x by (simp add: at_rest_def complete_task_def)
  have failed: "at_rest (tk_status (fail_task e x))" for e x by (simp add: at_rest_def fail_task_def)
  show ?thesis
  proof (cases "List.map_filter (map_of resolved) (tk_waiting_on t)")
    case Nil
    then show ?thesis using assms by (simp add: settle_wait_def)
  next
    case (Cons e es)
    let ?ok = "list_ex (\<lambda>r. rv_outcome r = ''executed'') (e # es)"
    let ?r = "last (e # es)"
    let ?note = "if rv_note ?r \<noteq> [] then rv_note ?r else ''confirmation resolved as '' @ rv_outcome ?r"
    have "r = Inr () \<and> ag_tasks s' = on_task (tk_id t) (if ?ok then complete_task else fail_task ?note) (ag_tasks s)"
      using assms Cons by (cases ?ok) (auto simp: settle_wait_def Let_def unfold_parts)
    then show ?thesis using complete failed
      by (intro conjI disjI2 exI [of _ "if ?ok then complete_task else fail_task ?note"]) auto
  qed
qed

lemma settle_in_order:
  assumes "in_order (ag_tasks s)" and "map_of (ag_tasks s) (tk_id t) = Some x" and "tk_status x = T_waiting"
    and "settle_wait resolved t s = (r, s')"
  shows "in_order (ag_tasks s')" and "k \<noteq> tk_id t \<Longrightarrow> map_of (ag_tasks s') k = map_of (ag_tasks s) k"
proof -
  have "in_order (ag_tasks s') \<and> (k \<noteq> tk_id t \<longrightarrow> map_of (ag_tasks s') k = map_of (ag_tasks s) k)" for k
    using settle_wait_state [OF assms(4)]
  proof (elim conjE disjE exE)
    fix f assume f: "ag_tasks s' = on_task (tk_id t) f (ag_tasks s)" "same_task f" "\<forall>x. at_rest (tk_status (f x))"
    have b: "beside (tk_id t) s s'" using f(1,2) by (auto simp: beside_def map_of_on_task same_task_def)
    have deps: "list_all (dep_completed (ag_tasks s)) (tk_depends x)"
      using assms(1-3) by (auto simp: in_order_def follows_def)
    have "follows (ag_tasks s')"
      using beside_follows [OF b _ assms(2) _ deps] assms(1,3) by (simp add: in_order_def)
    moreover have "resting (ag_tasks s')"
      by (rule beside_resting [OF b]) (use f(1,3) assms(1,2) in \<open>auto simp: leaves_def map_of_on_task in_order_def resting_def\<close>)
    ultimately show ?thesis using f(1,2) assms(1) by (simp add: in_order_def map_of_on_task)
  qed (use assms(1) in simp)
  then show "in_order (ag_tasks s')" "k \<noteq> tk_id t \<Longrightarrow> map_of (ag_tasks s') k = map_of (ag_tasks s) k" by blast+
qed

lemma settle_waits_in_order:
  assumes "settle_waits resolved ts s = (r, s')" and "in_order (ag_tasks s)" and "distinct (map tk_id ts)"
    and "\<And>t. t \<in> set ts \<Longrightarrow> \<exists>x. map_of (ag_tasks s) (tk_id t) = Some x \<and> tk_status x = T_waiting"
  shows "in_order (ag_tasks s')"
  using assms
proof (induction ts arbitrary: s)
  case (Cons t ts)
  obtain x where x: "map_of (ag_tasks s) (tk_id t) = Some x" "tk_status x = T_waiting" using Cons.prems(4) by auto
  obtain r1 s1 where one: "settle_wait resolved t s = (r1, s1)" by (metis surj_pair)
  have "r1 = Inr ()" using settle_wait_state [OF one] by blast
  then have rest: "settle_waits resolved ts s1 = (r, s')" using Cons.prems(1) one by (simp add: seq_def bind_def)
  note settled = settle_in_order [OF Cons.prems(2) x one]
  show ?case
  proof (rule Cons.IH [OF rest settled(1)])
    show "distinct (map tk_id ts)" using Cons.prems(3) by simp
    show "\<exists>y. map_of (ag_tasks s1) (tk_id u) = Some y \<and> tk_status y = T_waiting" if "u \<in> set ts" for u
      using that Cons.prems(3,4) settled(2) [of "tk_id u"] by (metis distinct.simps(2) image_eqI list.set_intros(2) list.set_map list.simps(9))
  qed
qed (simp add: ret_def)

lemma waiting_known:
  assumes "keyed tm"
  shows "distinct (map tk_id (waiting_tasks tm))"
    and "t \<in> set (waiting_tasks tm) \<Longrightarrow> map_of tm (tk_id t) = Some t \<and> tk_status t = T_waiting"
proof -
  have "map tk_id (map snd tm) = map fst tm" using assms by (auto simp: keyed_def)
  then have "distinct (map tk_id (map snd tm))" using assms by (simp add: keyed_def del: map_map)
  then show "distinct (map tk_id (waiting_tasks tm))" unfolding waiting_tasks_def by (rule distinct_map_filter)
  show "t \<in> set (waiting_tasks tm) \<Longrightarrow> map_of tm (tk_id t) = Some t \<and> tk_status t = T_waiting"
    using assms by (auto simp: waiting_tasks_def keyed_def)
qed

lemma session_sound:
  assumes "agent_session env rc" and "fresh_repairs env"
    and "\<And>goal w p w'. ae_plan env goal w = (Inr p, w') \<Longrightarrow> \<forall>t \<in> set (pl_tasks p). tk_status t = T_pending"
  shows "sound_record rc"
  using assms(1)
proof induction
  case (begun n goal ctx given s rc s')
  obtain p s1 where p: "case given of Some p' \<Rightarrow> p = p' | None \<Rightarrow> \<exists>w w'. ae_plan env goal w = (Inr p, w')"
    and run: "drive n env goal ctx (pl_summary p) s1 = (Inr (Some rc), s')"
    and tasks: "ag_tasks s1 = task_table (map harden_task (pl_tasks p))"
    using run_agent_start [OF begun(1)] by blast
  have "\<forall>t \<in> set (pl_tasks p). tk_status t = T_pending"
    using p begun(2) assms(3) by (cases given) auto
  then show ?case using drive_sound [OF run _ assms(2)] pending_in_order tasks by simp
next
  case (resumed prev n p ctx resolutions s rc s')
  let ?ts = "map harden_task (rc_tasks prev)"
  define s0 where "s0 = s\<lparr>ag_events := ag_events s @ [RunStarted (rc_goal prev) True],
    ag_memory := set_up_memory env ctx (pl_goal p) (rebuild_memory (ae_str env) ?ts (new_memory (rc_goal prev))),
    ag_budget := restore_budget (rr_usage (rc_result prev)) (ag_budget s), ag_tasks := task_table ?ts, ag_replans := 0\<rparr>"
  obtain tm where "rc_tasks prev = map snd tm" "keyed tm" "follows tm" "resting tm"
    using resumed(2,4) by (auto simp: sound_record_def)
  then have start: "in_order (ag_tasks s0)" using hardened_in_order by (simp add: s0_def)
  then have keyed: "keyed (task_table ?ts)" by (simp add: in_order_def s0_def)
  obtain s1 where s1: "settle_waits (fold (\<lambda>r. AList.update (rv_confirmation r) r) resolutions [])
      (waiting_tasks (task_table ?ts)) s0 = (Inr (), s1)" "drive n env (rc_goal prev) ctx (pl_summary p) s1 = (Inr (Some rc), s')"
    using resumed(3) by (auto simp: resume_agent_def Let_def seq_emit seq_updates s0_def [symmetric] seq_Inr_iff)
  have "in_order (ag_tasks s1)"
    by (rule settle_waits_in_order [OF s1(1) start waiting_known(1) [OF keyed]])
      (use waiting_known(2) [OF keyed] in \<open>auto simp: s0_def\<close>)
  then show ?case using drive_sound [OF s1(2)] assms(2) by blast
qed

section \<open>Properties\<close>

text \<open>C14. What an agent run reports is what happened, over the run and all its resumptions, when the planner's
  tasks start out pending: a record with the status COMPLETED has completed every task it required, and a task of
  any record that was begun has all the tasks it depends on completed.\<close>

theorem agent_outcome_is_honest:
  assumes "agent_session env rc" and "fresh_repairs env"
    and "\<And>goal w p w'. ae_plan env goal w = (Inr p, w') \<Longrightarrow> \<forall>t \<in> set (pl_tasks p). tk_status t = T_pending"
  shows "(rc_status rc = R_completed \<longrightarrow> (\<forall>t \<in> set (rc_tasks rc). tk_required t \<longrightarrow> tk_status t = T_completed))
    \<and> (\<forall>t \<in> set (rc_tasks rc). tk_status t \<notin> {T_pending, T_skipped} \<longrightarrow>
         (\<forall>d \<in> set (tk_depends t). \<exists>u \<in> set (rc_tasks rc). tk_id u = d \<and> tk_status u = T_completed))"
proof (intro conjI ballI impI)
  have sound: "sound_record rc" by (rule session_sound [OF assms(1,2)]) (erule assms(3))
  show "tk_status t = T_completed" if "rc_status rc = R_completed" "t \<in> set (rc_tasks rc)" "tk_required t" for t
    using sound that by (auto simp: sound_record_def)
  obtain tm where tm: "rc_tasks rc = map snd tm" "keyed tm" "follows tm" using sound by (auto simp: sound_record_def)
  fix t d
  assume t: "t \<in> set (rc_tasks rc)" "tk_status t \<notin> {T_pending, T_skipped}" "d \<in> set (tk_depends t)"
  then obtain k where "(k, t) \<in> set tm" using tm(1) by auto
  then have "map_of tm k = Some t" using tm(2) by (simp add: keyed_def)
  then have "dep_completed tm d" using tm(3) t(2,3) by (auto simp: follows_def list_all_iff)
  then obtain u where u: "map_of tm d = Some u" "tk_status u = T_completed" by (auto simp: dep_completed_def split: option.splits)
  then have "(d, u) \<in> set tm" by (simp add: map_of_SomeD)
  then show "\<exists>u \<in> set (rc_tasks rc). tk_id u = d \<and> tk_status u = T_completed"
    using tm(1,2) u(2) by (intro bexI [of _ u]) (force simp: keyed_def)+
qed

lemma agent_outcome_is_honest_witness:
  "\<exists>rc. agent_session (small_agent [open_page]) rc \<and> rc_status rc = R_completed \<and> length (rc_tasks rc) = 2
     \<and> list_all (\<lambda>t. \<not> tk_required t \<or> tk_status t = T_completed) (rc_tasks rc)"
proof -
  obtain rc s' where rc: "run_agent 3 (small_agent [open_page]) ''look'' user_ctx None new_agent = (Inr (Some rc), s')"
    "rc_status rc = R_completed" "map (\<lambda>t. (tk_id t, tk_status t)) (rc_tasks rc) = [(''b'', T_completed), (''a'', T_completed)]"
    using small_agent_run by (elim exE conjE) (rule that)
  have s: "agent_session (small_agent [open_page]) rc" by (rule agent_session.begun [OF rc(1)]) simp
  have fresh: "fresh_repairs (small_agent [open_page])" by (simp add: fresh_repairs_def)
  have "length (rc_tasks rc) = 2" using arg_cong [OF rc(3), of length] by simp
  then show ?thesis
    using agent_outcome_is_honest [OF s fresh] rc(2) s by (auto simp: small_plan_def list_all_iff intro!: exI [of _ rc])
qed

end
